(* ===== verification/Ev_Prelude.thy ===== *)
theory Ev_Prelude
  imports Main "HOL-Library.Word" "HOL-Library.Multiset"
begin

text \<open>
  Shared vocabulary of the development: the fact collections the component
  theories add to, the C integer conventions the sources rely on (truncating
  division, flag tests on a \<^verbatim>\<open>short\<close>), and generic lemmas on lists,
  multisets and cardinalities that several components need.
\<close>

unbundle bit_operations_syntax

named_theorems flag_simps \<open>rewriting of C flag tests\<close>
named_theorems frame_simps \<open>fields an operation does not touch\<close>

type_synonym u8 = "8 word"
type_synonym u16 = "16 word"
type_synonym u32 = "32 word"
type_synonym u64 = "64 word"
type_synonym bytes = "u8 list"

subsection \<open>C integers\<close>

text \<open>Division of C: it truncates towards zero.\<close>

definition cdiv :: "int \<Rightarrow> int \<Rightarrow> int" where
  "cdiv a b = sgn a * sgn b * (\<bar>a\<bar> div \<bar>b\<bar>)"

lemma cdiv_nonneg [simp]: "0 \<le> a \<Longrightarrow> 0 < b \<Longrightarrow> cdiv a b = a div b"
  by (cases "a = 0") (simp_all add: cdiv_def)

lemma cdiv_0 [simp]: "cdiv 0 b = 0"
  by (simp add: cdiv_def)

text \<open>The condition \<^verbatim>\<open>f & m\<close> of an \<^verbatim>\<open>if\<close>: some bit of the mask is set.\<close>

definition has :: "'a::len word \<Rightarrow> 'a word \<Rightarrow> bool" where
  "has f m \<longleftrightarrow> f AND m \<noteq> 0"

text \<open>The assignment \<^verbatim>\<open>f &= ~m\<close>.\<close>

definition clr :: "'a::len word \<Rightarrow> 'a word \<Rightarrow> 'a word" where
  "clr f m = f AND NOT m"

lemma has_or_flag [simp, flag_simps]: "has (f OR g) m \<longleftrightarrow> has f m \<or> has g m"
  by (auto simp: has_def bit_eq_iff bit_simps)

lemma has_or_mask: "has f (m OR k) \<longleftrightarrow> has f m \<or> has f k"
  by (auto simp: has_def bit_eq_iff bit_simps)

lemma has_clr_other [simp, flag_simps]: "g AND m = 0 \<Longrightarrow> has (clr f g) m \<longleftrightarrow> has f m"
  unfolding has_def clr_def
  by (rule arg_cong [of _ _ "\<lambda>x. x \<noteq> 0"]) (auto simp: bit_eq_iff bit_simps)

lemma has_clr_same [simp, flag_simps]: "g AND m = m \<Longrightarrow> \<not> has (clr f g) m"
  unfolding has_def clr_def by (auto simp: bit_eq_iff bit_simps)

lemma has_0 [simp]: "\<not> has f 0" "\<not> has 0 m"
  by (simp_all add: has_def)

lemma has_literals [simp]:
  "has (numeral a :: 'a::len word) (numeral b) \<longleftrightarrow> (numeral a AND numeral b :: 'a word) \<noteq> 0"
  "has (1 :: 'a::len word) (numeral b) \<longleftrightarrow> (1 AND numeral b :: 'a word) \<noteq> 0"
  "has (numeral a :: 'a::len word) 1 \<longleftrightarrow> (numeral a AND 1 :: 'a word) \<noteq> 0"
  "has (1 :: 'a::len word) 1"
  by (simp_all add: has_def)

subsection \<open>Lists\<close>

lemma mset_take_update:
  assumes "i < n" "n \<le> length xs"
  shows "mset (take n (xs[i := x])) = add_mset x (mset (take n xs) - {#xs ! i#})"
proof -
  have "mset ((take n xs)[i := x]) = add_mset x (mset (take n xs) - {#take n xs ! i#})"
    using assms by (intro mset_update) simp
  then show ?thesis using assms by (simp add: take_update_swap)
qed

lemma set_take_conv_nth: "n \<le> length xs \<Longrightarrow> set (take n xs) = {xs ! i | i. i < n}"
  by (auto simp: in_set_conv_nth) (metis nth_take, force)

lemma nth_in_set_take: "i < n \<Longrightarrow> n \<le> length xs \<Longrightarrow> xs ! i \<in> set (take n xs)"
  by (auto simp: set_take_conv_nth)

lemma distinct_take_nth_eq:
  "distinct (take n xs) \<Longrightarrow> i < n \<Longrightarrow> j < n \<Longrightarrow> n \<le> length xs \<Longrightarrow> xs ! i = xs ! j \<longleftrightarrow> i = j"
  using nth_eq_iff_index_eq [of "take n xs" i j] by simp

lemma remove1_mset: "mset (remove1 x xs) = mset xs - {#x#}"
  by simp

text \<open>An array of queues: appending to one of them, and removing from one of them.\<close>

lemma mset_concat_update:
  "i < length xss \<Longrightarrow> mset (concat (xss[i := ys])) + mset (xss ! i) = mset (concat xss) + mset ys"
proof (induction xss arbitrary: i)
  case (Cons xs xss)
  then show ?case by (cases i) (auto simp: ac_simps)
qed simp

lemma mset_concat_append_at:
  assumes "i < length xss"
  shows "mset (concat (xss[i := xss ! i @ [e]])) = add_mset e (mset (concat xss))"
  using mset_concat_update [OF assms, of "xss ! i @ [e]"] by simp

lemma mset_concat_remove_at:
  assumes "i < length xss" "e \<in> set (xss ! i)"
  shows "mset (concat xss) = add_mset e (mset (concat (xss[i := remove1 e (xss ! i)])))"
proof -
  define R where "R = mset (remove1 e (xss ! i))"
  have "mset (xss ! i) = add_mset e R" using assms(2) by (simp add: R_def)
  moreover have "mset (concat (xss[i := remove1 e (xss ! i)])) + mset (xss ! i) = mset (concat xss) + R"
    unfolding R_def by (rule mset_concat_update [OF assms(1)])
  ultimately have "add_mset e (mset (concat (xss[i := remove1 e (xss ! i)]))) + R = mset (concat xss) + R"
    by simp
  then show ?thesis by (simp only: add_right_cancel)
qed

lemma distinct_add_mset:
  assumes "mset ys = add_mset e (mset xs)"
  shows "distinct ys \<longleftrightarrow> e \<notin> set xs \<and> distinct xs" "set ys = insert e (set xs)"
proof -
  have "mset ys = mset (e # xs)" using assms by simp
  then show "distinct ys \<longleftrightarrow> e \<notin> set xs \<and> distinct xs" "set ys = insert e (set xs)"
    by (metis distinct.simps(2) mset_eq_imp_distinct_iff) (metis assms set_mset_add_mset_insert set_mset_mset)
qed

lemma concat_append_at:
  assumes "i < length xss"
  shows "distinct (concat (xss[i := xss ! i @ [e]])) \<longleftrightarrow> e \<notin> set (concat xss) \<and> distinct (concat xss)"
    "set (concat (xss[i := xss ! i @ [e]])) = insert e (set (concat xss))"
  by (rule distinct_add_mset [OF mset_concat_append_at [OF assms]])+

lemma concat_remove_at:
  assumes "i < length xss" "e \<in> set (xss ! i)" "distinct (concat xss)"
  shows "distinct (concat (xss[i := remove1 e (xss ! i)]))"
    "set (concat (xss[i := remove1 e (xss ! i)])) = set (concat xss) - {e}"
  using distinct_add_mset [OF mset_concat_remove_at [OF assms(1,2)]] assms(3) by auto

lemma in_append_at:
  "i < length xss \<Longrightarrow> x \<in> set (xss[k := xss ! k @ [e]] ! i) \<longleftrightarrow> x \<in> set (xss ! i) \<or> k = i \<and> x = e"
  by (cases "k = i") auto

lemma in_remove_at:
  "i < length xss \<Longrightarrow> x \<in> set (xss[k := remove1 e (xss ! k)] ! i) \<Longrightarrow> x \<in> set (xss ! i)"
  by (cases "k = i") (use set_remove1_subset [of e "xss ! i"] in auto)

subsection \<open>Counting the elements a predicate selects\<close>

text \<open>
  The event base keeps counters of how many events carry a flag; changing one
  event changes the counted set by at most that event.
\<close>

lemma card_upd_in:
  assumes "finite {x. P x}" "\<not> P e" "\<And>x. Q x \<longleftrightarrow> P x \<or> x = e"
  shows "card {x. Q x} = Suc (card {x. P x})"
proof -
  have "{x. Q x} = insert e {x. P x}" using assms(3) by auto
  then show ?thesis using assms(1,2) by simp
qed

lemma card_upd_out:
  assumes "finite {x. P x}" "P e" "\<And>x. Q x \<longleftrightarrow> P x \<and> x \<noteq> e"
  shows "card {x. P x} = Suc (card {x. Q x})"
proof -
  have "{x. P x} = insert e {x. Q x}" "finite {x. Q x}" "e \<notin> {x. Q x}"
    using assms by (auto intro: finite_subset [OF _ assms(1)])
  then show ?thesis by simp
qed

end
