(* ===== verification/Timeval.thy ===== *)
theory Timeval
  imports Ev_Prelude
begin

text \<open>
  Time values and the monotonic clock: the \<^verbatim>\<open>struct timeval\<close> macros of
  \<^verbatim>\<open>include/event2/util.h\<close> and the clock of \<^verbatim>\<open>evutil_time.c\<close>.
  Seconds and microseconds are mathematical integers: the sources use a 64-bit
  \<^verbatim>\<open>time_t\<close>, far from overflow for every clock value.
\<close>

datatype timeval = Timeval (tv_sec: int) (tv_usec: int)

definition evutil_timeradd :: "timeval \<Rightarrow> timeval \<Rightarrow> timeval" where
  "evutil_timeradd tv uv =
     (let s = tv_sec tv + tv_sec uv; u = tv_usec tv + tv_usec uv
      in if u \<ge> 1000000 then Timeval (s + 1) (u - 1000000) else Timeval s u)"

definition evutil_timersub :: "timeval \<Rightarrow> timeval \<Rightarrow> timeval" where
  "evutil_timersub tv uv =
     (let s = tv_sec tv - tv_sec uv; u = tv_usec tv - tv_usec uv
      in if u < 0 then Timeval (s - 1) (u + 1000000) else Timeval s u)"

definition evutil_timerclear :: timeval where
  "evutil_timerclear = Timeval 0 0"

text \<open>The relational operator is the macro's third argument.\<close>

definition evutil_timercmp :: "timeval \<Rightarrow> timeval \<Rightarrow> (int \<Rightarrow> int \<Rightarrow> bool) \<Rightarrow> bool" where
  "evutil_timercmp tv uv cmp =
     (if tv_sec tv = tv_sec uv then cmp (tv_usec tv) (tv_usec uv)
      else cmp (tv_sec tv) (tv_sec uv))"

definition evutil_timerisset :: "timeval \<Rightarrow> bool" where
  "evutil_timerisset tv \<longleftrightarrow> tv_sec tv \<noteq> 0 \<or> tv_usec tv \<noteq> 0"

text \<open>\<^verbatim>\<open>evutil_timercmp\<close> with \<^verbatim>\<open><=\<close> and \<^verbatim>\<open><\<close> is a linear order, so the
  library's facts on linear orders apply to time values.\<close>

instantiation timeval :: linorder
begin

definition less_eq_timeval :: "timeval \<Rightarrow> timeval \<Rightarrow> bool" where
  "less_eq_timeval a b = evutil_timercmp a b (\<le>)"

definition less_timeval :: "timeval \<Rightarrow> timeval \<Rightarrow> bool" where
  "less_timeval a b = evutil_timercmp a b (<)"

instance
proof
  fix x y z :: timeval
  show "(x < y) = (x \<le> y \<and> \<not> y \<le> x)"
    by (auto simp: less_eq_timeval_def less_timeval_def evutil_timercmp_def split: if_splits)
  show "x \<le> x"
    by (simp add: less_eq_timeval_def evutil_timercmp_def)
  show "x \<le> y \<Longrightarrow> y \<le> z \<Longrightarrow> x \<le> z"
    by (auto simp: less_eq_timeval_def evutil_timercmp_def split: if_splits)
  show "x \<le> y \<Longrightarrow> y \<le> x \<Longrightarrow> x = y"
    by (auto simp: less_eq_timeval_def evutil_timercmp_def timeval.expand split: if_splits)
  show "x \<le> y \<or> y \<le> x"
    by (auto simp: less_eq_timeval_def evutil_timercmp_def)
qed

end

lemma timercmp_simps [simp]:
  "evutil_timercmp a b (\<lambda>x y. y < x) \<longleftrightarrow> b < a"
  "evutil_timercmp a b (\<lambda>x y. y \<le> x) \<longleftrightarrow> b \<le> a"
  "evutil_timercmp a b (<) \<longleftrightarrow> a < b"
  "evutil_timercmp a b (\<le>) \<longleftrightarrow> a \<le> b"
  by (auto simp: less_eq_timeval_def less_timeval_def evutil_timercmp_def)

lemma timeval_order_simps [simp]:
  "Timeval a b \<le> Timeval c d \<longleftrightarrow> a < c \<or> a = c \<and> b \<le> d"
  "Timeval a b < Timeval c d \<longleftrightarrow> a < c \<or> a = c \<and> b < d"
  by (auto simp: less_eq_timeval_def less_timeval_def evutil_timercmp_def)

subsection \<open>Microseconds\<close>

text \<open>The duration a time value denotes, and the normal form the macros keep.\<close>

definition tv_us :: "timeval \<Rightarrow> int" where
  "tv_us tv = tv_sec tv * 1000000 + tv_usec tv"

definition tv_norm :: "timeval \<Rightarrow> bool" where
  "tv_norm tv \<longleftrightarrow> 0 \<le> tv_usec tv \<and> tv_usec tv < 1000000"

lemma tv_us_timeradd [simp]: "tv_us (evutil_timeradd a b) = tv_us a + tv_us b"
  by (simp add: tv_us_def evutil_timeradd_def Let_def)

lemma tv_us_timersub [simp]: "tv_us (evutil_timersub a b) = tv_us a - tv_us b"
  by (simp add: tv_us_def evutil_timersub_def Let_def)

lemma tv_us_timerclear [simp]: "tv_us evutil_timerclear = 0"
  by (simp add: tv_us_def evutil_timerclear_def)

lemma tv_norm_timeradd [intro, simp]: "tv_norm a \<Longrightarrow> tv_norm b \<Longrightarrow> tv_norm (evutil_timeradd a b)"
  by (simp add: tv_norm_def evutil_timeradd_def Let_def)

lemma tv_norm_timersub [intro, simp]: "tv_norm a \<Longrightarrow> tv_norm b \<Longrightarrow> tv_norm (evutil_timersub a b)"
  by (simp add: tv_norm_def evutil_timersub_def Let_def)

lemma tv_norm_timerclear [simp]: "tv_norm evutil_timerclear"
  by (simp add: tv_norm_def evutil_timerclear_def)

lemma timeval_le_iff_us: "tv_norm a \<Longrightarrow> tv_norm b \<Longrightarrow> a \<le> b \<longleftrightarrow> tv_us a \<le> tv_us b"
  by (cases a; cases b) (auto simp: tv_norm_def tv_us_def less_eq_timeval_def evutil_timercmp_def)

lemma timeval_less_iff_us: "tv_norm a \<Longrightarrow> tv_norm b \<Longrightarrow> a < b \<longleftrightarrow> tv_us a < tv_us b"
  using timeval_le_iff_us [of b a] by (simp add: not_le [symmetric])

lemma tv_us_inject: "tv_norm a \<Longrightarrow> tv_norm b \<Longrightarrow> tv_us a = tv_us b \<longleftrightarrow> a = b"
  using timeval_le_iff_us [of a b] timeval_le_iff_us [of b a] by (metis order_antisym order_refl)

subsection \<open>Milliseconds for the polling backends\<close>

text \<open>\<^verbatim>\<open>LONG_MAX\<close> of an LP64 platform.\<close>

definition LONG_MAX :: int where
  "LONG_MAX = 2 ^ 63 - 1"

definition MAX_SECONDS_IN_MSEC_LONG :: int where
  "MAX_SECONDS_IN_MSEC_LONG = cdiv (LONG_MAX - 999) 1000"

definition evutil_tv_to_msec :: "timeval \<Rightarrow> int" where
  "evutil_tv_to_msec tv =
     (if tv_usec tv > 1000000 \<or> tv_sec tv > MAX_SECONDS_IN_MSEC_LONG then -1
      else tv_sec tv * 1000 + cdiv (tv_usec tv + 999) 1000)"

subsection \<open>The ratchet over a clock that may go backwards\<close>

record evutil_monotonic_timer =
  monotonic_clock :: int
  adjust_monotonic_clock :: timeval
  last_time :: timeval

definition adjust_monotonic_time ::
  "evutil_monotonic_timer \<Rightarrow> timeval \<Rightarrow> evutil_monotonic_timer \<times> timeval" where
  "adjust_monotonic_time base tv0 =
     (let tv = evutil_timeradd tv0 (adjust_monotonic_clock base)
      in if evutil_timercmp tv (last_time base) (<) then
           let adjust = evutil_timersub (last_time base) tv;
               base' = base\<lparr>adjust_monotonic_clock :=
                         evutil_timeradd adjust (adjust_monotonic_clock base)\<rparr>;
               tv' = last_time base
           in (base'\<lparr>last_time := tv'\<rparr>, tv')
         else (base\<lparr>last_time := tv\<rparr>, tv))"

text \<open>
  The system's clocks are arguments: \<open>wall\<close> is what \<^verbatim>\<open>gettimeofday\<close> returns
  (\<open>None\<close> for a failure), \<open>mclk\<close> what \<^verbatim>\<open>clock_gettime\<close> returns for the chosen
  clock, in seconds and nanoseconds.
\<close>

definition evutil_gettime_monotonic ::
  "timeval option \<Rightarrow> (int \<times> int) option \<Rightarrow> evutil_monotonic_timer
   \<Rightarrow> evutil_monotonic_timer \<times> timeval option" where
  "evutil_gettime_monotonic wall mclk base =
     (if monotonic_clock base < 0 then
        (case wall of None \<Rightarrow> (base, None)
         | Some tp \<Rightarrow> (case adjust_monotonic_time base tp of (base', tp') \<Rightarrow> (base', Some tp')))
      else (case mclk of None \<Rightarrow> (base, None)
            | Some (s, ns) \<Rightarrow> (base, Some (Timeval s (cdiv ns 1000)))))"

text \<open>The clock identifiers of Linux; \<open>coarse_ok\<close> and \<open>mono_ok\<close> say whether
  \<^verbatim>\<open>clock_gettime\<close> accepts them.\<close>

definition CLOCK_MONOTONIC :: int where "CLOCK_MONOTONIC = 1"
definition CLOCK_MONOTONIC_COARSE :: int where "CLOCK_MONOTONIC_COARSE = 6"

definition evutil_configure_monotonic_time ::
  "bool \<Rightarrow> bool \<Rightarrow> evutil_monotonic_timer \<Rightarrow> bool \<Rightarrow> bool \<Rightarrow> evutil_monotonic_timer" where
  "evutil_configure_monotonic_time coarse_ok mono_ok base precise fallback =
     (if \<not> precise \<and> \<not> fallback \<and> coarse_ok then
        base\<lparr>monotonic_clock := CLOCK_MONOTONIC_COARSE\<rparr>
      else if \<not> fallback \<and> mono_ok then base\<lparr>monotonic_clock := CLOCK_MONOTONIC\<rparr>
      else base\<lparr>monotonic_clock := -1\<rparr>)"

text \<open>Reading the ratcheted clock for a list of raw readings.\<close>

fun ratchet_run :: "evutil_monotonic_timer \<Rightarrow> timeval list \<Rightarrow> timeval list" where
  "ratchet_run base [] = []"
| "ratchet_run base (tv # tvs) =
     (case adjust_monotonic_time base tv of (base', out) \<Rightarrow> out # ratchet_run base' tvs)"

definition timer_norm :: "evutil_monotonic_timer \<Rightarrow> bool" where
  "timer_norm base \<longleftrightarrow> tv_norm (adjust_monotonic_clock base) \<and> tv_norm (last_time base)"

lemma adjust_monotonic_time_result:
  assumes "adjust_monotonic_time base tv = (base', out)"
  shows "last_time base' = out" "last_time base \<le> out"
    "out = max (last_time base) (evutil_timeradd tv (adjust_monotonic_clock base))"
  using assms by (auto simp: adjust_monotonic_time_def Let_def max_def not_less split: if_splits)

text \<open>After any reading, the new adjustment maps that raw reading to the value returned.\<close>

lemma adjust_monotonic_time_resync:
  assumes "adjust_monotonic_time base tv = (base', out)"
  shows "tv_us tv + tv_us (adjust_monotonic_clock base') = tv_us out"
  using assms by (auto simp: adjust_monotonic_time_def Let_def split: if_splits)

lemma adjust_monotonic_time_norm:
  assumes "adjust_monotonic_time base tv = (base', out)" "timer_norm base" "tv_norm tv"
  shows "timer_norm base'" "tv_norm out"
  using assms by (auto simp: adjust_monotonic_time_def Let_def timer_norm_def split: if_splits)

lemma ratchet_run_ge: "x \<in> set (ratchet_run base tvs) \<Longrightarrow> last_time base \<le> x"
proof (induction tvs arbitrary: base)
  case (Cons tv tvs)
  obtain base' out where eq: "adjust_monotonic_time base tv = (base', out)" by force
  note res = adjust_monotonic_time_result [OF eq]
  from Cons eq have "x = out \<or> x \<in> set (ratchet_run base' tvs)" by simp
  then show ?case using res Cons.IH [of base'] by auto
qed simp

lemma ratchet_run_sorted: "sorted (ratchet_run base tvs)"
proof (induction tvs arbitrary: base)
  case (Cons tv tvs)
  obtain base' out where eq: "adjust_monotonic_time base tv = (base', out)" by force
  have "\<forall>x \<in> set (ratchet_run base' tvs). out \<le> x"
    using ratchet_run_ge [of _ base' tvs] adjust_monotonic_time_result [OF eq] by auto
  then show ?case using eq Cons.IH [of base'] by simp
qed simp

subsection \<open>Properties\<close>

text \<open>C15: whatever the raw clock does, the readings handed out by the ratchet never go
  backwards.\<close>

theorem ratchet_never_backwards: "sorted (ratchet_run base tvs) \<and> length (ratchet_run base tvs) = length tvs"
proof
  show "sorted (ratchet_run base tvs)" by (rule ratchet_run_sorted)
  show "length (ratchet_run base tvs) = length tvs"
    by (induction tvs arbitrary: base) (auto split: prod.splits)
qed

text \<open>C16: between two readings the ratcheted clock advances by exactly what the raw clock
  advanced, and stands still when the raw clock stepped back.\<close>

theorem ratchet_interval:
  assumes "timer_norm base" "tv_norm tv1" "tv_norm tv2"
    and "adjust_monotonic_time base tv1 = (base1, out1)"
    and "adjust_monotonic_time base1 tv2 = (base2, out2)"
  shows "tv_us out2 - tv_us out1 = max 0 (tv_us tv2 - tv_us tv1)"
proof -
  note n1 = adjust_monotonic_time_norm [OF assms(4,1,2)]
  have sum: "tv_norm (evutil_timeradd tv2 (adjust_monotonic_clock base1))"
    using n1 assms(3) by (simp add: timer_norm_def)
  have "tv_us tv1 + tv_us (adjust_monotonic_clock base1) = tv_us out1"
    by (rule adjust_monotonic_time_resync [OF assms(4)])
  moreover have "out2 = max out1 (evutil_timeradd tv2 (adjust_monotonic_clock base1))"
    using adjust_monotonic_time_result [OF assms(5)] adjust_monotonic_time_result(1) [OF assms(4)] by simp
  then have "tv_us out2 = max (tv_us out1) (tv_us tv2 + tv_us (adjust_monotonic_clock base1))"
    using timeval_le_iff_us [OF n1(2) sum] by (simp add: max_def)
  ultimately show ?thesis by simp
qed

theorem ratchet_interval_witness:
  "let base = \<lparr>monotonic_clock = -1, adjust_monotonic_clock = Timeval 0 0, last_time = Timeval 0 0\<rparr>;
       r1 = adjust_monotonic_time base (Timeval 10 0);
       r2 = adjust_monotonic_time (fst r1) (Timeval 4 500000)
   in tv_us (snd r2) - tv_us (snd r1) = 0 \<and> snd r2 = Timeval 10 0"
proof -
  let ?base = "\<lparr>monotonic_clock = -1, adjust_monotonic_clock = Timeval 0 0, last_time = Timeval 0 0\<rparr>"
  let ?r1 = "adjust_monotonic_time ?base (Timeval 10 0)"
  let ?r2 = "adjust_monotonic_time (fst ?r1) (Timeval 4 500000)"
  have "tv_us (snd ?r2) - tv_us (snd ?r1) = max 0 (tv_us (Timeval 4 500000) - tv_us (Timeval 10 0))"
    by (rule ratchet_interval [of ?base _ _ "fst ?r1" _ "fst ?r2"]) (simp_all add: timer_norm_def tv_norm_def)
  moreover have "snd ?r2 = Timeval 10 0" by code_simp
  ultimately show ?thesis by (simp add: tv_us_def Let_def)
qed

text \<open>C23: the wait handed to a millisecond backend is the duration rounded up, so that a timer
  never fires early; it fits a \<^verbatim>\<open>long\<close>, and durations that would not are refused with
  \<open>-1\<close>.\<close>

theorem evutil_tv_to_msec_rounds_up:
  assumes "tv_norm tv" "0 \<le> tv_sec tv"
  shows "if tv_sec tv \<le> MAX_SECONDS_IN_MSEC_LONG
    then tv_us tv \<le> evutil_tv_to_msec tv * 1000 \<and> evutil_tv_to_msec tv * 1000 < tv_us tv + 1000 \<and>
      0 \<le> evutil_tv_to_msec tv \<and> evutil_tv_to_msec tv \<le> LONG_MAX
    else evutil_tv_to_msec tv = -1"
proof (cases "tv_sec tv \<le> MAX_SECONDS_IN_MSEC_LONG")
  case True
  have u: "0 \<le> tv_usec tv" "tv_usec tv < 1000000" using assms(1) by (auto simp: tv_norm_def)
  have r: "evutil_tv_to_msec tv = tv_sec tv * 1000 + (tv_usec tv + 999) div 1000"
    using True u by (simp add: evutil_tv_to_msec_def)
  have "tv_sec tv \<le> 9223372036854774" using True by (simp add: MAX_SECONDS_IN_MSEC_LONG_def LONG_MAX_def)
  moreover have "(tv_usec tv + 999) div 1000 * 1000 < tv_usec tv + 1000"
    "tv_usec tv \<le> (tv_usec tv + 999) div 1000 * 1000"
    using div_mult_mod_eq [of "tv_usec tv + 999" 1000] pos_mod_bound [of 1000 "tv_usec tv + 999"]
      pos_mod_sign [of 1000 "tv_usec tv + 999"] by linarith+
  moreover have "0 \<le> (tv_usec tv + 999) div 1000" "(tv_usec tv + 999) div 1000 \<le> 1000" using u by auto
  ultimately show ?thesis
    unfolding r using True assms(2) u by (simp add: tv_us_def LONG_MAX_def algebra_simps)
qed (simp add: evutil_tv_to_msec_def)

theorem evutil_tv_to_msec_rounds_up_witness:
  "evutil_tv_to_msec (Timeval 1 1) = 1001 \<and> tv_us (Timeval 1 1) \<le> evutil_tv_to_msec (Timeval 1 1) * 1000"
  using evutil_tv_to_msec_rounds_up [of "Timeval 1 1"]
  by (simp add: tv_norm_def evutil_tv_to_msec_def MAX_SECONDS_IN_MSEC_LONG_def LONG_MAX_def)

end
