(* ===== verification/Event_Types.thy ===== *)
theory Event_Types
  imports Timeval
begin

text \<open>
  The data of the event core: \<^verbatim>\<open>struct event\<close> with its embedded
  \<^verbatim>\<open>struct event_callback\<close> (\<^verbatim>\<open>include/event2/event_struct.h\<close>), the flag
  constants and the closure codes (\<^verbatim>\<open>event-internal.h\<close>).  Events live in a store
  indexed by their addresses; a plain \<^verbatim>\<open>struct event_callback\<close> that is no event
  is an entry of the same store whose \<open>EVLIST_INIT\<close> flag is clear, and which uses
  the callback fields only.
\<close>

subsection \<open>Flags\<close>

abbreviation EVLIST_TIMEOUT :: u16 where "EVLIST_TIMEOUT \<equiv> 0x01"
abbreviation EVLIST_INSERTED :: u16 where "EVLIST_INSERTED \<equiv> 0x02"
abbreviation EVLIST_SIGNAL :: u16 where "EVLIST_SIGNAL \<equiv> 0x04"
abbreviation EVLIST_ACTIVE :: u16 where "EVLIST_ACTIVE \<equiv> 0x08"
abbreviation EVLIST_INTERNAL :: u16 where "EVLIST_INTERNAL \<equiv> 0x10"
abbreviation EVLIST_ACTIVE_LATER :: u16 where "EVLIST_ACTIVE_LATER \<equiv> 0x20"
abbreviation EVLIST_FINALIZING :: u16 where "EVLIST_FINALIZING \<equiv> 0x40"
abbreviation EVLIST_INIT :: u16 where "EVLIST_INIT \<equiv> 0x80"
abbreviation EVLIST_ALL :: u16 where "EVLIST_ALL \<equiv> 0xff"

abbreviation EV_TIMEOUT :: u16 where "EV_TIMEOUT \<equiv> 0x01"
abbreviation EV_READ :: u16 where "EV_READ \<equiv> 0x02"
abbreviation EV_WRITE :: u16 where "EV_WRITE \<equiv> 0x04"
abbreviation EV_SIGNAL :: u16 where "EV_SIGNAL \<equiv> 0x08"
abbreviation EV_PERSIST :: u16 where "EV_PERSIST \<equiv> 0x10"
abbreviation EV_ET :: u16 where "EV_ET \<equiv> 0x20"
abbreviation EV_FINALIZE :: u16 where "EV_FINALIZE \<equiv> 0x40"
abbreviation EV_CLOSED :: u16 where "EV_CLOSED \<equiv> 0x80"

text \<open>Tests against the masks the code uses, spelled out.\<close>

lemma has_masks [flag_simps]:
  fixes f :: u16
  shows "has f 0x86 \<longleftrightarrow> has f EV_READ \<or> has f EV_WRITE \<or> has f EV_CLOSED"
    "has f 0x8e \<longleftrightarrow> has f EV_READ \<or> has f EV_WRITE \<or> has f EV_CLOSED \<or> has f EV_SIGNAL"
    "has f 0x28 \<longleftrightarrow> has f EVLIST_ACTIVE \<or> has f EVLIST_ACTIVE_LATER"
    "has f 0x2a \<longleftrightarrow> has f EVLIST_INSERTED \<or> has f EVLIST_ACTIVE \<or> has f EVLIST_ACTIVE_LATER"
    "has f 0x18 \<longleftrightarrow> has f EV_SIGNAL \<or> has f EV_PERSIST"
    "has f 0x0a \<longleftrightarrow> has f EV_READ \<or> has f EV_SIGNAL"
  using has_or_mask [of f "2 OR 4" "0x80"] has_or_mask [of f 2 4] has_or_mask [of f "0x86" 8]
    has_or_mask [of f 8 "0x20"] has_or_mask [of f 2 "0x28"] has_or_mask [of f 8 "0x10"] has_or_mask [of f 2 8]
  by simp_all

subsection \<open>Closures and events\<close>

datatype closure =
    EV_CLOSURE_EVENT
  | EV_CLOSURE_EVENT_SIGNAL
  | EV_CLOSURE_EVENT_PERSIST
  | EV_CLOSURE_CB_SELF
  | EV_CLOSURE_CB_FINALIZE
  | EV_CLOSURE_EVENT_FINALIZE
  | EV_CLOSURE_EVENT_FINALIZE_FREE

text \<open>
  The two unions of \<^verbatim>\<open>struct event\<close> are flattened: \<open>min_heap_idx\<close> stands for
  \<^verbatim>\<open>ev_timeout_pos\<close> (the links of a common-timeout queue are the queue itself in
  the base), \<open>ev_io_timeout\<close> and \<open>ev_ncalls\<close>, \<open>ev_pncalls\<close> for the I/O and
  the signal variant of \<^verbatim>\<open>ev_\<close>.  \<open>ev_pncalls\<close> points at the loop counter of a
  running \<^verbatim>\<open>event_signal_closure\<close> or is NULL, so one bit suffices.
\<close>

record event =
  ev_flags :: u16
  ev_pri :: nat
  ev_closure :: closure
  ev_callback :: nat
  ev_arg :: nat
  min_heap_idx :: int
  ev_fd :: int
  ev_base :: "nat option"
  ev_io_timeout :: timeval
  ev_ncalls :: int
  ev_pncalls :: bool
  ev_events :: u16
  ev_res :: u16
  ev_timeout :: timeval

type_synonym ev_ptr = nat
type_synonym events = "ev_ptr \<Rightarrow> event"

text \<open>Assigning one field of the event at an address.\<close>

definition upd_ev :: "ev_ptr \<Rightarrow> (event \<Rightarrow> event) \<Rightarrow> events \<Rightarrow> events" where
  "upd_ev e f evs = evs(e := f (evs e))"

lemma upd_ev_same [simp]: "upd_ev e f evs e = f (evs e)"
  by (simp add: upd_ev_def)

lemma upd_ev_other [simp]: "x \<noteq> e \<Longrightarrow> upd_ev e f evs x = evs x"
  by (simp add: upd_ev_def)

lemma upd_ev_apply: "upd_ev e f evs x = (if x = e then f (evs x) else evs x)"
  by (simp add: upd_ev_def)

lemma upd_flags_fields [simp]:
  "ev_pri (upd_ev e (ev_flags_update f) evs x) = ev_pri (evs x)"
  "ev_timeout (upd_ev e (ev_flags_update f) evs x) = ev_timeout (evs x)"
  "ev_events (upd_ev e (ev_flags_update f) evs x) = ev_events (evs x)"
  "ev_fd (upd_ev e (ev_flags_update f) evs x) = ev_fd (evs x)"
  "ev_res (upd_ev e (ev_flags_update f) evs x) = ev_res (evs x)"
  "ev_base (upd_ev e (ev_flags_update f) evs x) = ev_base (evs x)"
  "ev_closure (upd_ev e (ev_flags_update f) evs x) = ev_closure (evs x)"
  "ev_io_timeout (upd_ev e (ev_flags_update f) evs x) = ev_io_timeout (evs x)"
  "ev_ncalls (upd_ev e (ev_flags_update f) evs x) = ev_ncalls (evs x)"
  "ev_pncalls (upd_ev e (ev_flags_update f) evs x) = ev_pncalls (evs x)"
  "ev_callback (upd_ev e (ev_flags_update f) evs x) = ev_callback (evs x)"
  "ev_arg (upd_ev e (ev_flags_update f) evs x) = ev_arg (evs x)"
  "min_heap_idx (upd_ev e (ev_flags_update f) evs x) = min_heap_idx (evs x)"
  "ev_flags (upd_ev e (ev_flags_update f) evs x) = (if x = e then f (ev_flags (evs x)) else ev_flags (evs x))"
  by (simp_all add: upd_ev_def)

text \<open>An event in zeroed memory, as \<^verbatim>\<open>mm_calloc\<close> returns it.\<close>

definition zero_event :: event where
  "zero_event = \<lparr>ev_flags = 0, ev_pri = 0, ev_closure = EV_CLOSURE_EVENT, ev_callback = 0, ev_arg = 0,
     min_heap_idx = 0, ev_fd = 0, ev_base = None, ev_io_timeout = Timeval 0 0, ev_ncalls = 0,
     ev_pncalls = False, ev_events = 0, ev_res = 0, ev_timeout = Timeval 0 0\<rparr>"

end
