(* ===== verification/Min_Heap.thy ===== *)
theory Min_Heap
  imports Event_Types
begin

text \<open>
  The timer heap of \<^verbatim>\<open>minheap-internal.h\<close>: an array of event addresses, ordered
  by \<open>ev_timeout\<close>, in which every event also records its own index.  The array
  \<open>mh_p\<close> has \<open>mh_a\<close> allocated cells of which the first \<open>mh_n\<close> are live.
  An operation takes and returns the heap together with the event store.
\<close>

record min_heap =
  mh_p :: "ev_ptr list"
  mh_n :: nat
  mh_a :: nat

definition min_heap_elem_greater :: "events \<Rightarrow> ev_ptr \<Rightarrow> ev_ptr \<Rightarrow> bool" where
  "min_heap_elem_greater evs a b =
     evutil_timercmp (ev_timeout (evs a)) (ev_timeout (evs b)) (\<lambda>x y. x > y)"

definition min_heap_ctor :: min_heap where
  "min_heap_ctor = \<lparr>mh_p = [], mh_n = 0, mh_a = 0\<rparr>"

definition min_heap_elem_init :: "ev_ptr \<Rightarrow> events \<Rightarrow> events" where
  "min_heap_elem_init e evs = upd_ev e (min_heap_idx_update (\<lambda>_. -1)) evs"

definition min_heap_empty :: "min_heap \<Rightarrow> bool" where
  "min_heap_empty s \<longleftrightarrow> 0 = mh_n s"

definition min_heap_size :: "min_heap \<Rightarrow> nat" where
  "min_heap_size s = mh_n s"

definition min_heap_top :: "min_heap \<Rightarrow> ev_ptr option" where
  "min_heap_top s = (if mh_n s \<noteq> 0 then Some (mh_p s ! 0) else None)"

definition min_heap_elt_is_top :: "events \<Rightarrow> ev_ptr \<Rightarrow> bool" where
  "min_heap_elt_is_top evs e \<longleftrightarrow> min_heap_idx (evs e) = 0"

text \<open>The assignment \<^verbatim>\<open>(s->p[i] = e)->ev_timeout_pos.min_heap_idx = i\<close>.\<close>

definition heap_place :: "min_heap \<Rightarrow> events \<Rightarrow> nat \<Rightarrow> ev_ptr \<Rightarrow> min_heap \<times> events" where
  "heap_place s evs i e =
     (s\<lparr>mh_p := (mh_p s)[i := e]\<rparr>, upd_ev e (min_heap_idx_update (\<lambda>_. int i)) evs)"

text \<open>
  \<open>ok\<close> is the outcome of \<^verbatim>\<open>mm_realloc\<close>; new cells hold an arbitrary value, here 0.
  The capacity is an \<^verbatim>\<open>unsigned\<close>, so doubling it wraps at \<open>2 ^ 32\<close>.
\<close>

definition min_heap_reserve :: "bool \<Rightarrow> min_heap \<Rightarrow> nat \<Rightarrow> min_heap \<times> int" where
  "min_heap_reserve ok s n =
     (if mh_a s < n then
        let a0 = (if mh_a s \<noteq> 0 then (mh_a s * 2) mod 2 ^ 32 else 8);
            a = (if a0 < n then n else a0)
        in if \<not> ok then (s, -1)
           else (s\<lparr>mh_p := mh_p s @ replicate (a - mh_a s) 0, mh_a := a\<rparr>, 0)
      else (s, 0))"

function min_heap_shift_up :: "min_heap \<Rightarrow> events \<Rightarrow> nat \<Rightarrow> ev_ptr \<Rightarrow> min_heap \<times> events" where
  "min_heap_shift_up s evs hole_index e =
     (let parent = (hole_index - 1) div 2
      in if hole_index \<noteq> 0 \<and> min_heap_elem_greater evs (mh_p s ! parent) e then
           (case heap_place s evs hole_index (mh_p s ! parent) of
              (s', evs') \<Rightarrow> min_heap_shift_up s' evs' parent e)
         else heap_place s evs hole_index e)"
  by pat_completeness auto
termination
  by (relation "measure (\<lambda>(s, evs, hole_index, e). hole_index)") auto

text \<open>The \<^verbatim>\<open>do ... while\<close> variant runs the loop body once before the first test.\<close>

definition min_heap_shift_up_unconditional ::
  "min_heap \<Rightarrow> events \<Rightarrow> nat \<Rightarrow> ev_ptr \<Rightarrow> min_heap \<times> events" where
  "min_heap_shift_up_unconditional s evs hole_index e =
     (let parent = (hole_index - 1) div 2
      in case heap_place s evs hole_index (mh_p s ! parent) of
           (s', evs') \<Rightarrow> min_heap_shift_up s' evs' parent e)"

function min_heap_shift_down :: "min_heap \<Rightarrow> events \<Rightarrow> nat \<Rightarrow> ev_ptr \<Rightarrow> min_heap \<times> events" where
  "min_heap_shift_down s evs hole_index e =
     (let min_child0 = 2 * (hole_index + 1)
      in if min_child0 \<le> mh_n s then
           let min_child =
                 (if min_child0 = mh_n s
                     \<or> min_heap_elem_greater evs (mh_p s ! min_child0) (mh_p s ! (min_child0 - 1))
                  then min_child0 - 1 else min_child0)
           in if \<not> min_heap_elem_greater evs e (mh_p s ! min_child) then
                heap_place s evs hole_index e
              else (case heap_place s evs hole_index (mh_p s ! min_child) of
                      (s', evs') \<Rightarrow> min_heap_shift_down s' evs' min_child e)
         else heap_place s evs hole_index e)"
  by pat_completeness auto
termination
  by (relation "measure (\<lambda>(s, evs, hole_index, e). Suc (mh_n s) - hole_index)")
     (auto simp: heap_place_def split: if_splits)

declare min_heap_shift_up.simps [simp del] min_heap_shift_down.simps [simp del]

definition min_heap_push ::
  "bool \<Rightarrow> min_heap \<Rightarrow> events \<Rightarrow> ev_ptr \<Rightarrow> min_heap \<times> events \<times> int" where
  "min_heap_push ok s evs e =
     (case min_heap_reserve ok s (mh_n s + 1) of
        (s', r) \<Rightarrow>
          if r \<noteq> 0 then (s', evs, -1)
          else (case min_heap_shift_up (s'\<lparr>mh_n := mh_n s' + 1\<rparr>) evs (mh_n s') e of
                  (s'', evs') \<Rightarrow> (s'', evs', 0)))"

definition min_heap_pop :: "min_heap \<Rightarrow> events \<Rightarrow> min_heap \<times> events \<times> ev_ptr option" where
  "min_heap_pop s evs =
     (if mh_n s \<noteq> 0 then
        let e = mh_p s ! 0; s1 = s\<lparr>mh_n := mh_n s - 1\<rparr>
        in case min_heap_shift_down s1 evs 0 (mh_p s1 ! mh_n s1) of
             (s', evs') \<Rightarrow> (s', min_heap_elem_init e evs', Some e)
      else (s, evs, None))"

definition min_heap_erase :: "min_heap \<Rightarrow> events \<Rightarrow> ev_ptr \<Rightarrow> min_heap \<times> events \<times> int" where
  "min_heap_erase s evs e =
     (let idx = min_heap_idx (evs e)
      in if -1 \<noteq> idx then
           let s1 = s\<lparr>mh_n := mh_n s - 1\<rparr>;
               last = mh_p s1 ! mh_n s1;
               parent = nat (cdiv (idx - 1) 2)
           in (case (if idx > 0 \<and> min_heap_elem_greater evs (mh_p s1 ! parent) last
                     then min_heap_shift_up_unconditional s1 evs (nat idx) last
                     else min_heap_shift_down s1 evs (nat idx) last) of
                 (s', evs') \<Rightarrow> (s', min_heap_elem_init e evs', 0))
         else (s, evs, -1))"

definition min_heap_adjust ::
  "bool \<Rightarrow> min_heap \<Rightarrow> events \<Rightarrow> ev_ptr \<Rightarrow> min_heap \<times> events \<times> int" where
  "min_heap_adjust ok s evs e =
     (let idx = min_heap_idx (evs e)
      in if -1 = idx then min_heap_push ok s evs e
         else let parent = nat (cdiv (idx - 1) 2)
              in (case (if idx > 0 \<and> min_heap_elem_greater evs (mh_p s ! parent) e
                        then min_heap_shift_up_unconditional s evs (nat idx) e
                        else min_heap_shift_down s evs (nat idx) e) of
                    (s', evs') \<Rightarrow> (s', evs', 0)))"


subsection \<open>Well-formed heaps\<close>

abbreviation tmo :: "events \<Rightarrow> ev_ptr \<Rightarrow> timeval" where
  "tmo evs x \<equiv> ev_timeout (evs x)"

definition par :: "nat \<Rightarrow> nat" where
  "par i = (i - 1) div 2"

lemma par_less: "0 < h \<Longrightarrow> par h < h"
  by (auto simp: par_def)

lemma par_children: "par i = h \<Longrightarrow> 0 < i \<Longrightarrow> i = 2 * h + 1 \<or> i = 2 * h + 2"
  by (auto simp: par_def)

lemma par_fold [simp]: "(i - Suc 0) div 2 = par i"
  by (simp add: par_def)

definition heap_ord :: "(ev_ptr \<Rightarrow> timeval) \<Rightarrow> nat \<Rightarrow> ev_ptr list \<Rightarrow> bool" where
  "heap_ord t n q \<longleftrightarrow> (\<forall>i. 0 < i \<longrightarrow> i < n \<longrightarrow> t (q ! par i) \<le> t (q ! i))"

definition heap_idx :: "events \<Rightarrow> nat \<Rightarrow> ev_ptr list \<Rightarrow> bool" where
  "heap_idx evs n q \<longleftrightarrow> (\<forall>i < n. min_heap_idx (evs (q ! i)) = int i)"

definition heap_wf :: "min_heap \<Rightarrow> events \<Rightarrow> bool" where
  "heap_wf s evs \<longleftrightarrow>
     mh_a s = length (mh_p s) \<and> mh_n s \<le> mh_a s \<and>
     heap_idx evs (mh_n s) (mh_p s) \<and> heap_ord (tmo evs) (mh_n s) (mh_p s)"

text \<open>The events in the heap, in array order and as a multiset.\<close>

definition heap_list :: "min_heap \<Rightarrow> ev_ptr list" where
  "heap_list s = take (mh_n s) (mh_p s)"

definition heap_mset :: "min_heap \<Rightarrow> ev_ptr multiset" where
  "heap_mset s = mset (heap_list s)"

text \<open>Only the index field of the events involved may change.\<close>

definition idx_frame :: "ev_ptr set \<Rightarrow> events \<Rightarrow> events \<Rightarrow> bool" where
  "idx_frame A evs evs' \<longleftrightarrow>
     (\<forall>x. x \<notin> A \<longrightarrow> evs' x = evs x) \<and> (\<forall>x. \<exists>k. evs' x = (evs x)\<lparr>min_heap_idx := k\<rparr>)"

lemma idx_frame_refl [simp]: "idx_frame A evs evs"
  unfolding idx_frame_def
proof (intro conjI allI impI)
  fix x show "\<exists>k. evs x = (evs x)\<lparr>min_heap_idx := k\<rparr>"
    by (rule exI [of _ "min_heap_idx (evs x)"]) simp
qed simp

lemma idx_frame_trans:
  assumes "idx_frame A evs evs'" "idx_frame B evs' evs''" "A \<union> B \<subseteq> C"
  shows "idx_frame C evs evs''"
  unfolding idx_frame_def
proof (intro conjI allI impI)
  fix x
  show "evs'' x = evs x" if "x \<notin> C"
  proof -
    have "x \<notin> A" "x \<notin> B" using assms(3) that by auto
    then show ?thesis using assms(1,2) by (simp add: idx_frame_def)
  qed
  obtain k k' where "evs' x = (evs x)\<lparr>min_heap_idx := k\<rparr>" "evs'' x = (evs' x)\<lparr>min_heap_idx := k'\<rparr>"
    using assms(1,2) unfolding idx_frame_def by blast
  then have "evs'' x = (evs x)\<lparr>min_heap_idx := k'\<rparr>" by simp
  then show "\<exists>k. evs'' x = (evs x)\<lparr>min_heap_idx := k\<rparr>" ..
qed

lemma idx_frame_upd:
  assumes "e \<in> A"
  shows "idx_frame A evs (upd_ev e (min_heap_idx_update (\<lambda>_. k)) evs)"
  unfolding idx_frame_def
proof (intro conjI allI impI)
  fix x
  show "upd_ev e (min_heap_idx_update (\<lambda>_. k)) evs x = evs x" if "x \<notin> A"
    using assms that by (auto simp: upd_ev_apply)
  show "\<exists>k'. upd_ev e (min_heap_idx_update (\<lambda>_. k)) evs x = (evs x)\<lparr>min_heap_idx := k'\<rparr>"
    by (rule exI [of _ "if x = e then k else min_heap_idx (evs x)"]) (simp add: upd_ev_apply)
qed

lemma idx_frame_fields [frame_simps]:
  assumes "idx_frame A evs evs'"
  shows "ev_timeout (evs' x) = ev_timeout (evs x)" "ev_flags (evs' x) = ev_flags (evs x)"
    "ev_pri (evs' x) = ev_pri (evs x)" "ev_events (evs' x) = ev_events (evs x)"
    "ev_fd (evs' x) = ev_fd (evs x)" "ev_res (evs' x) = ev_res (evs x)"
    "ev_closure (evs' x) = ev_closure (evs x)" "ev_io_timeout (evs' x) = ev_io_timeout (evs x)"
    "ev_base (evs' x) = ev_base (evs x)" "ev_ncalls (evs' x) = ev_ncalls (evs x)"
    "ev_pncalls (evs' x) = ev_pncalls (evs x)" "ev_callback (evs' x) = ev_callback (evs x)"
    "ev_arg (evs' x) = ev_arg (evs x)"
proof -
  obtain k where "evs' x = (evs x)\<lparr>min_heap_idx := k\<rparr>"
    using assms unfolding idx_frame_def by blast
  then show "ev_timeout (evs' x) = ev_timeout (evs x)" "ev_flags (evs' x) = ev_flags (evs x)"
    "ev_pri (evs' x) = ev_pri (evs x)" "ev_events (evs' x) = ev_events (evs x)"
    "ev_fd (evs' x) = ev_fd (evs x)" "ev_res (evs' x) = ev_res (evs x)"
    "ev_closure (evs' x) = ev_closure (evs x)" "ev_io_timeout (evs' x) = ev_io_timeout (evs x)"
    "ev_base (evs' x) = ev_base (evs x)" "ev_ncalls (evs' x) = ev_ncalls (evs x)"
    "ev_pncalls (evs' x) = ev_pncalls (evs x)" "ev_callback (evs' x) = ev_callback (evs x)"
    "ev_arg (evs' x) = ev_arg (evs x)"
    by simp_all
qed

lemma tmo_upd_idx [simp]: "ev_timeout (upd_ev e (min_heap_idx_update f) evs x) = ev_timeout (evs x)"
  by (simp add: upd_ev_apply)

lemma heap_idx_distinct:
  assumes "heap_idx evs n q" "n \<le> length q"
  shows "distinct (take n q)"
  unfolding distinct_conv_nth
proof (intro allI impI)
  fix i j assume "i < length (take n q)" "j < length (take n q)" "i \<noteq> j"
  then have "i < n" "j < n" by auto
  with assms(1) have "min_heap_idx (evs (q ! i)) = int i" "min_heap_idx (evs (q ! j)) = int j"
    by (simp_all add: heap_idx_def)
  with \<open>i \<noteq> j\<close> have "q ! i \<noteq> q ! j" by auto
  then show "take n q ! i \<noteq> take n q ! j" using \<open>i < n\<close> \<open>j < n\<close> by simp
qed

lemma heap_wf_distinct: "heap_wf s evs \<Longrightarrow> distinct (heap_list s)"
  by (auto simp: heap_wf_def heap_list_def intro: heap_idx_distinct)

lemma heap_wf_ctor [simp]: "heap_wf min_heap_ctor evs"
  by (simp add: heap_wf_def min_heap_ctor_def heap_idx_def heap_ord_def)

text \<open>The root of an ordered heap is a minimum.\<close>

lemma heap_ord_root:
  assumes "heap_ord t n q" "i < n"
  shows "t (q ! 0) \<le> t (q ! i)"
  using assms(2)
proof (induction i rule: less_induct)
  case (less i)
  show ?case
  proof (cases "i = 0")
    case False
    then have "par i < i" by (simp add: par_less)
    with less have "t (q ! 0) \<le> t (q ! par i)" by auto
    also have "\<dots> \<le> t (q ! i)" using assms(1) less.prems False by (simp add: heap_ord_def)
    finally show ?thesis .
  qed simp
qed

subsection \<open>Sifting repairs a heap with one defect\<close>

text \<open>
  \<open>up_ok t n q h\<close>: the order holds on every edge but the one above \<open>h\<close>, and across
  \<open>h\<close> from its parent to its children.  \<open>down_ok\<close>: the order holds on every edge
  but those below \<open>h\<close>, and across \<open>h\<close>.
\<close>

definition across :: "(ev_ptr \<Rightarrow> timeval) \<Rightarrow> nat \<Rightarrow> ev_ptr list \<Rightarrow> nat \<Rightarrow> bool" where
  "across t n q h \<longleftrightarrow>
     (0 < h \<longrightarrow> (\<forall>i. 0 < i \<longrightarrow> i < n \<longrightarrow> par i = h \<longrightarrow> t (q ! par h) \<le> t (q ! i)))"

definition up_ok :: "(ev_ptr \<Rightarrow> timeval) \<Rightarrow> nat \<Rightarrow> ev_ptr list \<Rightarrow> nat \<Rightarrow> bool" where
  "up_ok t n q h \<longleftrightarrow>
     (\<forall>i. 0 < i \<longrightarrow> i < n \<longrightarrow> i \<noteq> h \<longrightarrow> t (q ! par i) \<le> t (q ! i)) \<and> across t n q h"

definition down_ok :: "(ev_ptr \<Rightarrow> timeval) \<Rightarrow> nat \<Rightarrow> ev_ptr list \<Rightarrow> nat \<Rightarrow> bool" where
  "down_ok t n q h \<longleftrightarrow>
     (\<forall>i. 0 < i \<longrightarrow> i < n \<longrightarrow> par i \<noteq> h \<longrightarrow> t (q ! par i) \<le> t (q ! i)) \<and> across t n q h"

definition idx_but :: "events \<Rightarrow> nat \<Rightarrow> ev_ptr list \<Rightarrow> nat \<Rightarrow> bool" where
  "idx_but evs n q h \<longleftrightarrow> (\<forall>i < n. i \<noteq> h \<longrightarrow> min_heap_idx (evs (q ! i)) = int i)"

text \<open>What a sifting operation leaves behind: \<open>q\<close> is the array with the element put in
  the hole.\<close>

definition sifted :: "min_heap \<Rightarrow> ev_ptr list \<Rightarrow> events \<Rightarrow> min_heap \<times> events \<Rightarrow> bool" where
  "sifted s q evs r \<longleftrightarrow>
     (let s' = fst r; evs' = snd r; n = mh_n s
      in mh_n s' = n \<and> mh_a s' = mh_a s \<and> length (mh_p s') = length (mh_p s) \<and>
         mset (take n (mh_p s')) = mset (take n q) \<and>
         heap_ord (tmo evs') n (mh_p s') \<and> heap_idx evs' n (mh_p s') \<and>
         idx_frame (set (take n q)) evs evs')"

text \<open>Exchanging the hole with another live cell.\<close>

lemma hole_exchange:
  assumes "h < n" "k < n" "h \<noteq> k" "n \<le> length p" "distinct (take n (p[h := e]))"
  shows "mset (take n (p[h := p ! k, k := e])) = mset (take n (p[h := e]))"
    "distinct (take n (p[h := p ! k, k := e]))"
    "set (take n (p[h := p ! k, k := e])) = set (take n (p[h := e]))"
proof -
  have eq: "p[h := p ! k, k := e] = (p[h := e])[h := p[h := e] ! k, k := p[h := e] ! h]"
    using assms by (simp add: list_update_swap)
  have "take n (p[h := p ! k, k := e]) =
      (take n (p[h := e]))[h := take n (p[h := e]) ! k, k := take n (p[h := e]) ! h]"
    unfolding eq using assms by (simp add: take_update_swap)
  also have "mset \<dots> = mset (take n (p[h := e]))"
    using assms by (intro mset_swap) auto
  finally show m: "mset (take n (p[h := p ! k, k := e])) = mset (take n (p[h := e]))" .
  from m assms(5) show "distinct (take n (p[h := p ! k, k := e]))"
    by (metis mset_eq_imp_distinct_iff)
  from m show "set (take n (p[h := p ! k, k := e])) = set (take n (p[h := e]))"
    by (metis mset_eq_setD)
qed

lemma idx_but_exchange:
  assumes "idx_but evs n (p[h := e]) h" "h < n" "k < n" "h \<noteq> k" "n \<le> length p"
    and "distinct (take n (p[h := e]))"
  shows "idx_but (upd_ev (p ! k) (min_heap_idx_update (\<lambda>_. int h)) evs) n (p[h := p ! k, k := e]) k"
  unfolding idx_but_def
proof (intro allI impI)
  fix i assume i: "i < n" "i \<noteq> k"
  show "min_heap_idx (upd_ev (p ! k) (min_heap_idx_update (\<lambda>_. int h)) evs (p[h := p ! k, k := e] ! i)) = int i"
  proof (cases "i = h")
    case True then show ?thesis using assms i by simp
  next
    case False
    have "p ! i \<noteq> p ! k"
      using distinct_take_nth_eq [OF assms(6), of i k] i False assms(2-5) by simp
    moreover have "min_heap_idx (evs (p ! i)) = int i"
      using assms(1) i False unfolding idx_but_def by (metis nth_list_update_neq)
    ultimately show ?thesis using i False by simp
  qed
qed

lemma sifted_step:
  assumes "sifted s1 (p[h := p ! k, k := e]) (upd_ev (p ! k) (min_heap_idx_update (\<lambda>_. int h)) evs) r"
    and "mh_n s1 = n" "mh_n s = n" "mh_a s1 = mh_a s" "length (mh_p s1) = length (mh_p s)"
    and "h < n" "k < n" "h \<noteq> k" "n \<le> length p" "distinct (take n (p[h := e]))"
  shows "sifted s (p[h := e]) evs r"
proof -
  let ?A = "set (take n (p[h := e]))"
  have "p ! k \<in> ?A"
    using assms nth_in_set_take [of k n "p[h := e]"] by simp
  then have "idx_frame ?A evs (upd_ev (p ! k) (min_heap_idx_update (\<lambda>_. int h)) evs)"
    by (rule idx_frame_upd)
  moreover have "idx_frame ?A (upd_ev (p ! k) (min_heap_idx_update (\<lambda>_. int h)) evs) (snd r)"
    using assms hole_exchange(3) [of h n k p e] by (auto simp: sifted_def Let_def)
  ultimately have "idx_frame ?A evs (snd r)" by (rule idx_frame_trans) simp
  then show ?thesis
    using assms hole_exchange(1) [of h n k p e] by (auto simp: sifted_def Let_def)
qed

lemma sifted_place:
  assumes "heap_ord (tmo evs) (mh_n s) ((mh_p s)[h := e])" "idx_but evs (mh_n s) ((mh_p s)[h := e]) h"
    and "h < mh_n s" "mh_n s \<le> length (mh_p s)" "distinct (take (mh_n s) ((mh_p s)[h := e]))"
  shows "sifted s ((mh_p s)[h := e]) evs (heap_place s evs h e)"
proof -
  let ?q = "(mh_p s)[h := e]" and ?n = "mh_n s"
  let ?evs = "upd_ev e (min_heap_idx_update (\<lambda>_. int h)) evs"
  have e: "e \<in> set (take ?n ?q)"
    using assms nth_in_set_take [of h ?n ?q] by simp
  then have fr: "idx_frame (set (take ?n ?q)) evs ?evs" by (rule idx_frame_upd)
  have "heap_idx ?evs ?n ?q"
    unfolding heap_idx_def
  proof (intro allI impI)
    fix i assume i: "i < ?n"
    show "min_heap_idx (?evs (?q ! i)) = int i"
    proof (cases "i = h")
      case True then show ?thesis using assms i by simp
    next
      case False
      have "?q ! i \<noteq> e"
        using distinct_take_nth_eq [OF assms(5), of i h] i False assms by simp
      then show ?thesis using assms(2) i False by (simp add: idx_but_def)
    qed
  qed
  then show ?thesis
    using assms fr by (simp add: sifted_def heap_place_def heap_ord_def idx_frame_fields [OF fr])
qed

lemma up_ok_exchange:
  assumes "up_ok t n (p[h := e]) h" "0 < h" "h < n" "n \<le> length p" "t e < t (p ! par h)"
  shows "up_ok t n (p[h := p ! par h, par h := e]) (par h)"
proof -
  let ?q = "p[h := e]" and ?q' = "p[h := p ! par h, par h := e]"
  have ph: "par h < h" using assms(2) by (rule par_less)
  have nth: "?q' ! i = (if i = par h then e else if i = h then p ! par h else p ! i)" if "i < n" for i
    using that assms ph by (simp add: nth_list_update)
  have ord: "t (?q ! par i) \<le> t (?q ! i)" if "0 < i" "i < n" "i \<noteq> h" for i
    using assms(1) that by (simp add: up_ok_def)
  have acr: "t (p ! par h) \<le> t (p ! i)" if "0 < i" "i < n" "par i = h" for i
  proof -
    have "i \<noteq> h" using that par_less [of i] by auto
    moreover have "t (?q ! par h) \<le> t (?q ! i)"
      using assms(1,2) that unfolding up_ok_def across_def by blast
    ultimately show ?thesis using ph by simp
  qed
  have edge: "t (?q' ! par i) \<le> t (?q' ! i)" if i: "0 < i" "i < n" "i \<noteq> par h" for i
  proof -
    have pi: "par i < n" "par i < i" using i par_less [of i] by auto
    consider "i = h" | "i \<noteq> h" "par i = par h" | "i \<noteq> h" "par i = h"
      | "i \<noteq> h" "par i \<noteq> h" "par i \<noteq> par h" by blast
    then show ?thesis
    proof cases
      case 1 then show ?thesis using nth [of i] nth [OF pi(1)] assms i by simp
    next
      case 2
      then have "t (p ! par h) \<le> t (p ! i)" using ord [of i] i ph by (simp add: nth_list_update)
      then show ?thesis using 2 nth [of i] nth [OF pi(1)] assms(5) i by simp
    next
      case 3 then show ?thesis using acr [of i] nth [of i] nth [OF pi(1)] i ph by simp
    next
      case 4 then show ?thesis using ord [of i] nth [of i] nth [OF pi(1)] i by (simp add: nth_list_update)
    qed
  qed
  have "t (?q' ! par (par h)) \<le> t (?q' ! i)" if i: "0 < i" "i < n" "par i = par h" "0 < par h" for i
  proof -
    have pp: "par (par h) < par h" using i(4) by (rule par_less)
    then have top: "t (p ! par (par h)) \<le> t (p ! par h)"
      using ord [of "par h"] i(4) ph assms(3) by (simp add: nth_list_update)
    have "i \<noteq> par h" using i(3) pp by auto
    show ?thesis
    proof (cases "i = h")
      case True then show ?thesis using top nth [of i] nth [of "par (par h)"] pp ph assms(3) i by simp
    next
      case False
      then have "t (p ! par h) \<le> t (p ! i)" using ord [of i] i ph by (simp add: nth_list_update)
      then show ?thesis
        using False top nth [of i] nth [of "par (par h)"] pp ph assms(3) i \<open>i \<noteq> par h\<close> by simp
    qed
  qed
  with edge show ?thesis by (auto simp: up_ok_def across_def)
qed

lemma heap_ord_of_up:
  "up_ok t n q h \<Longrightarrow> h = 0 \<or> t (q ! par h) \<le> t (q ! h) \<Longrightarrow> heap_ord t n q"
  by (auto simp: up_ok_def heap_ord_def)

lemma shift_up_sifted:
  assumes "h < mh_n s" "mh_n s \<le> length (mh_p s)" "distinct (take (mh_n s) ((mh_p s)[h := e]))"
    and "idx_but evs (mh_n s) ((mh_p s)[h := e]) h" "up_ok (tmo evs) (mh_n s) ((mh_p s)[h := e]) h"
  shows "sifted s ((mh_p s)[h := e]) evs (min_heap_shift_up s evs h e)"
  using assms
proof (induction s evs h e rule: min_heap_shift_up.induct)
  case (1 s evs h e)
  let ?p = "mh_p s" and ?n = "mh_n s"
  show ?case
  proof (cases "h \<noteq> 0 \<and> min_heap_elem_greater evs (?p ! par h) e")
    case True
    then have lt: "tmo evs e < tmo evs (?p ! par h)" and h: "0 < h"
      by (auto simp: min_heap_elem_greater_def)
    have ph: "par h < h" using h by (rule par_less)
    let ?s1 = "s\<lparr>mh_p := ?p[h := ?p ! par h]\<rparr>"
    let ?evs1 = "upd_ev (?p ! par h) (min_heap_idx_update (\<lambda>_. int h)) evs"
    have up: "up_ok (tmo evs) ?n (?p[h := ?p ! par h, par h := e]) (par h)"
      using "1.prems" h lt by (intro up_ok_exchange) auto
    have ix: "idx_but ?evs1 ?n (?p[h := ?p ! par h, par h := e]) (par h)"
      using "1.prems" ph by (intro idx_but_exchange) auto
    have ds: "distinct (take ?n (?p[h := ?p ! par h, par h := e]))"
      using "1.prems" ph by (intro hole_exchange(2)) auto
    have "sifted ?s1 ((mh_p ?s1)[par h := e]) ?evs1 (min_heap_shift_up ?s1 ?evs1 (par h) e)"
      using "1.IH" [of "par h" ?s1 ?evs1] True "1.prems" up ix ds ph
      by (simp add: heap_place_def)
    then have "sifted s (?p[h := e]) evs (min_heap_shift_up ?s1 ?evs1 (par h) e)"
      using "1.prems" ph by (intro sifted_step [of ?s1 _ h "par h"]) auto
    then show ?thesis using True by (subst min_heap_shift_up.simps) (simp add: heap_place_def Let_def)
  next
    case False
    then have "h = 0 \<or> tmo evs (?p[h := e] ! par h) \<le> tmo evs (?p[h := e] ! h)"
      using "1.prems"(1,2) par_less [of h]
      by (cases "h = 0") (auto simp: min_heap_elem_greater_def not_less)
    then have "heap_ord (tmo evs) ?n (?p[h := e])"
      using "1.prems"(5) by (rule heap_ord_of_up [rotated])
    then show ?thesis
      using "1.prems" False by (subst min_heap_shift_up.simps) (auto simp: Let_def intro: sifted_place)
  qed
qed


lemma down_ok_exchange:
  assumes "down_ok t n (p[h := e]) h" "0 < c" "c < n" "par c = h" "n \<le> length p"
    and "t (p ! c) < t e" "\<And>i. 0 < i \<Longrightarrow> i < n \<Longrightarrow> par i = h \<Longrightarrow> t (p ! c) \<le> t (p ! i)"
  shows "down_ok t n (p[h := p ! c, c := e]) c"
proof -
  let ?q = "p[h := e]" and ?q' = "p[h := p ! c, c := e]"
  have hc: "h < c" using assms(2,4) par_less by blast
  have nth: "?q' ! i = (if i = c then e else if i = h then p ! c else p ! i)" if "i < n" for i
    using that assms hc by (simp add: nth_list_update)
  have ord: "t (?q ! par i) \<le> t (?q ! i)" if "0 < i" "i < n" "par i \<noteq> h" for i
    using assms(1) that by (simp add: down_ok_def)
  have acr: "t (p ! par h) \<le> t (p ! c)" if "0 < h"
  proof -
    have "t (?q ! par h) \<le> t (?q ! c)"
      using assms(1-4) that unfolding down_ok_def across_def by blast
    then show ?thesis using hc par_less [OF that] by simp
  qed
  have edge: "t (?q' ! par i) \<le> t (?q' ! i)" if i: "0 < i" "i < n" "par i \<noteq> c" for i
  proof -
    have pi: "par i < n" "par i < i" using i par_less [of i] by auto
    consider "i = c" | "i \<noteq> c" "par i = h" | "i = h" | "i \<noteq> h" "par i \<noteq> h" "i \<noteq> c" by blast
    then show ?thesis
    proof cases
      case 1 then show ?thesis using nth [of i] nth [OF pi(1)] assms i hc by simp
    next
      case 2 then show ?thesis using nth [of i] nth [OF pi(1)] assms(4,7) i pi hc by auto
    next
      case 3 then show ?thesis using nth [of i] nth [OF pi(1)] acr i pi hc by auto
    next
      case 4
      then have "t (p ! par i) \<le> t (p ! i)" using ord [of i] i by simp
      then show ?thesis using nth [of i] nth [OF pi(1)] 4 i by simp
    qed
  qed
  have "t (?q' ! par c) \<le> t (?q' ! i)" if i: "0 < i" "i < n" "par i = c" for i
  proof -
    have "c < i" using par_less [OF i(1)] i(3) by simp
    then have "t (p ! c) \<le> t (p ! i)" using ord [of i] i hc by simp
    then show ?thesis using nth [of i] nth [of h] i hc \<open>c < i\<close> assms(3,4) by simp
  qed
  with edge show ?thesis by (auto simp: down_ok_def across_def)
qed

lemma heap_ord_of_down:
  assumes "down_ok t n q h" "\<And>i. 0 < i \<Longrightarrow> i < n \<Longrightarrow> par i = h \<Longrightarrow> t (q ! h) \<le> t (q ! i)"
  shows "heap_ord t n q"
  using assms by (auto simp: down_ok_def heap_ord_def)

text \<open>The loop picks the smaller of the two children.\<close>

lemma min_child_least:
  fixes evs :: events and p :: "ev_ptr list" and h n :: nat
  defines "c0 \<equiv> 2 * (h + 1)"
  defines "c \<equiv> (if c0 = n \<or> min_heap_elem_greater evs (p ! c0) (p ! (c0 - 1)) then c0 - 1 else c0)"
  assumes "c0 \<le> n"
  shows "0 < c" "c < n" "par c = h" "h < c"
    and "\<And>i. 0 < i \<Longrightarrow> i < n \<Longrightarrow> par i = h \<Longrightarrow> tmo evs (p ! c) \<le> tmo evs (p ! i)"
proof -
  have c0: "c0 = 2 * h + 2" by (simp add: c0_def)
  have cases: "c = c0 - 1 \<or> c = c0 \<and> c0 \<noteq> n" by (simp add: c_def)
  with c0 assms(3) show "0 < c" "c < n" "h < c" by linarith+
  from cases c0 have "c = 2 * h + 1 \<or> c = 2 * h + 2" by linarith
  then show "par c = h" unfolding par_def by linarith
  fix i assume i: "0 < i" "i < n" "par i = h"
  then have "i = c0 - 1 \<or> i = c0" using par_children [of i h] c0 by linarith
  then show "tmo evs (p ! c) \<le> tmo evs (p ! i)"
    using i(2) unfolding c_def min_heap_elem_greater_def timercmp_simps by auto
qed

lemma shift_down_sifted:
  assumes "h < mh_n s" "mh_n s \<le> length (mh_p s)" "distinct (take (mh_n s) ((mh_p s)[h := e]))"
    and "idx_but evs (mh_n s) ((mh_p s)[h := e]) h" "down_ok (tmo evs) (mh_n s) ((mh_p s)[h := e]) h"
  shows "sifted s ((mh_p s)[h := e]) evs (min_heap_shift_down s evs h e)"
  using assms
proof (induction s evs h e rule: min_heap_shift_down.induct)
  case (1 s evs h e)
  let ?p = "mh_p s" and ?n = "mh_n s" and ?c0 = "2 * (h + 1)"
  define c where "c = (if ?c0 = ?n \<or> min_heap_elem_greater evs (?p ! ?c0) (?p ! (?c0 - 1))
                       then ?c0 - 1 else ?c0)"
  show ?case
  proof (cases "?c0 \<le> ?n")
    case False
    then have "heap_ord (tmo evs) ?n (?p[h := e])"
      using "1.prems"(5) par_children [of _ h] by (intro heap_ord_of_down [of _ _ _ h]) fastforce+
    then show ?thesis
      using "1.prems" False by (subst min_heap_shift_down.simps) (auto simp: Let_def intro: sifted_place)
  next
    case True
    note c = min_child_least [where evs = evs and p = "mh_p s", OF True, folded c_def]
    have nth_c: "?p[h := e] ! i = ?p ! i" if "0 < i" "par i = h" for i
      using that par_less [of i] by auto
    have unf: "min_heap_shift_down s evs h e =
        (if \<not> min_heap_elem_greater evs e (?p ! c) then heap_place s evs h e
         else case heap_place s evs h (?p ! c) of (s', evs') \<Rightarrow> min_heap_shift_down s' evs' c e)"
      by (subst min_heap_shift_down.simps) (simp only: Let_def c_def [symmetric] True if_True)
    show ?thesis
    proof (cases "min_heap_elem_greater evs e (?p ! c)")
      case False
      then have "tmo evs e \<le> tmo evs (?p ! c)" by (simp add: min_heap_elem_greater_def not_less)
      then have "heap_ord (tmo evs) ?n (?p[h := e])"
        using "1.prems" c(5) nth_c
        by (intro heap_ord_of_down [of _ _ _ h]) (auto intro: order_trans)
      then show ?thesis using "1.prems" False unf by (simp add: sifted_place)
    next
      case gt: True
      then have lt: "tmo evs (?p ! c) < tmo evs e" by (simp add: min_heap_elem_greater_def)
      let ?s1 = "s\<lparr>mh_p := ?p[h := ?p ! c]\<rparr>"
      let ?evs1 = "upd_ev (?p ! c) (min_heap_idx_update (\<lambda>_. int h)) evs"
      have dn: "down_ok (tmo evs) ?n (?p[h := ?p ! c, c := e]) c"
        using "1.prems" c lt by (intro down_ok_exchange) auto
      have ix: "idx_but ?evs1 ?n (?p[h := ?p ! c, c := e]) c"
        using "1.prems" c by (intro idx_but_exchange) auto
      have ds: "distinct (take ?n (?p[h := ?p ! c, c := e]))"
        using "1.prems" c by (intro hole_exchange(2)) auto
      have "sifted ?s1 ((mh_p ?s1)[c := e]) ?evs1 (min_heap_shift_down ?s1 ?evs1 c e)"
        using "1.IH" [OF refl True c_def, of ?s1 ?evs1] gt "1.prems" dn ix ds c(2)
        by (simp add: heap_place_def)
      then have "sifted s (?p[h := e]) evs (min_heap_shift_down ?s1 ?evs1 c e)"
        using "1.prems" c by (intro sifted_step [of ?s1 _ h c]) auto
      then show ?thesis using gt unf by (simp add: heap_place_def)
    qed
  qed
qed


subsection \<open>Replacing the key of one cell\<close>

lemma replaced_key:
  assumes old: "heap_ord t0 n p" and i: "i < n"
    and same: "\<And>j. j < n \<Longrightarrow> j \<noteq> i \<Longrightarrow> t (q ! j) = t0 (p ! j)"
  shows "0 < i \<Longrightarrow> t (q ! i) < t (q ! par i) \<Longrightarrow> up_ok t n q i"
    and "i = 0 \<or> t (q ! par i) \<le> t (q ! i) \<Longrightarrow> down_ok t n q i"
proof -
  have ord: "t0 (p ! par j) \<le> t0 (p ! j)" if "0 < j" "j < n" for j
    using old that by (simp add: heap_ord_def)
  have acr: "across t n q i"
    unfolding across_def
  proof (intro impI allI)
    fix j assume j: "0 < i" "0 < j" "j < n" "par j = i"
    have "par i < i" "i < j" using par_less j by auto
    then show "t (q ! par i) \<le> t (q ! j)"
      using ord [of i] ord [of j] same [of "par i"] same [of j] i j by auto
  qed
  show "up_ok t n q i" if "0 < i" and lt: "t (q ! i) < t (q ! par i)"
    unfolding up_ok_def
  proof (intro conjI allI impI acr)
    fix j assume j: "0 < j" "j < n" "j \<noteq> i"
    have pj: "par j < n" "par i < n" "par i < i" using par_less [of j] par_less [of i] j i that(1) by auto
    show "t (q ! par j) \<le> t (q ! j)"
    proof (cases "par j = i")
      case True
      then show ?thesis
        using ord [of j] ord [of i] same [of j] same [of "par i"] lt j pj that(1) i by auto
    next
      case False then show ?thesis using ord [of j] same [of j] same [of "par j"] j pj by auto
    qed
  qed
  show "down_ok t n q i" if ge: "i = 0 \<or> t (q ! par i) \<le> t (q ! i)"
    unfolding down_ok_def
  proof (intro conjI allI impI acr)
    fix j assume j: "0 < j" "j < n" "par j \<noteq> i"
    have "par j < n" using par_less [of j] j by auto
    then show "t (q ! par j) \<le> t (q ! j)"
      using ge ord [of j] same [of j] same [of "par j"] j by (cases "j = i") auto
  qed
qed

text \<open>The choice of direction made by \<^verbatim>\<open>min_heap_erase_\<close> and \<^verbatim>\<open>min_heap_adjust_\<close>.\<close>

definition resift :: "min_heap \<Rightarrow> events \<Rightarrow> nat \<Rightarrow> ev_ptr \<Rightarrow> min_heap \<times> events" where
  "resift s evs i x =
     (if 0 < i \<and> min_heap_elem_greater evs (mh_p s ! par i) x
      then min_heap_shift_up_unconditional s evs i x else min_heap_shift_down s evs i x)"

lemma resift_sifted:
  assumes "i < mh_n s" "mh_n s \<le> length (mh_p s)" "distinct (take (mh_n s) ((mh_p s)[i := x]))"
    and "idx_but evs (mh_n s) ((mh_p s)[i := x]) i" "heap_ord t0 (mh_n s) p0"
    and same: "\<And>j. j < mh_n s \<Longrightarrow> j \<noteq> i \<Longrightarrow> tmo evs (mh_p s ! j) = t0 (p0 ! j)"
  shows "sifted s ((mh_p s)[i := x]) evs (resift s evs i x)"
proof (cases "0 < i \<and> min_heap_elem_greater evs (mh_p s ! par i) x")
  case True
  let ?q = "(mh_p s)[i := x]"
  have lt: "tmo evs (?q ! i) < tmo evs (?q ! par i)"
    using True assms(1,2) par_less [of i] by (simp add: min_heap_elem_greater_def)
  have "up_ok (tmo evs) (mh_n s) ?q i"
    using assms(1) same lt True
    by (intro replaced_key(1) [OF assms(5)]) auto
  moreover have "resift s evs i x = min_heap_shift_up s evs i x"
    using True
    by (subst min_heap_shift_up.simps) (simp add: resift_def min_heap_shift_up_unconditional_def Let_def)
  ultimately show ?thesis using assms(1-4) by (simp add: shift_up_sifted)
next
  case False
  let ?q = "(mh_p s)[i := x]"
  have "i = 0 \<or> tmo evs (?q ! par i) \<le> tmo evs (?q ! i)"
    using False assms(1,2) par_less [of i] by (cases "i = 0") (auto simp: min_heap_elem_greater_def not_less)
  then have "down_ok (tmo evs) (mh_n s) ?q i"
    using assms(1) same by (intro replaced_key(2) [OF assms(5)]) auto
  then show ?thesis using assms(1-4) False by (auto simp: resift_def intro: shift_down_sifted)
qed

lemma idx_of_member:
  assumes "heap_wf s evs" "e \<in> set (heap_list s)"
  obtains i where "i < mh_n s" "mh_p s ! i = e" "min_heap_idx (evs e) = int i"
  using assms by (auto simp: heap_wf_def heap_list_def heap_idx_def in_set_conv_nth)

lemma cdiv_par: "nat (cdiv (int i - 1) 2) = par i"
proof (cases i)
  case 0 then show ?thesis by (simp add: cdiv_def par_def)
next
  case (Suc j) then show ?thesis by (simp add: par_def nat_div_distrib)
qed

text \<open>Sifting the last element into cell \<open>i\<close> of the heap shortened by one.\<close>

lemma resift_last:
  assumes wf: "heap_wf s evs" and i: "i < mh_n s"
  defines "s1 \<equiv> s\<lparr>mh_n := mh_n s - 1\<rparr>" and "n1 \<equiv> mh_n s - 1"
  assumes r: "resift s1 evs i (mh_p s ! n1) = (s', evs')"
  shows "mh_n s' = n1" "mh_a s' = mh_a s" "length (mh_p s') = length (mh_p s)"
    "mset (take n1 (mh_p s')) = heap_mset s - {#mh_p s ! i#}"
    "heap_ord (tmo evs') n1 (mh_p s')" "heap_idx evs' n1 (mh_p s')"
    "idx_frame (set (heap_list s)) evs evs'"
proof -
  let ?p = "mh_p s" and ?n = "mh_n s" and ?l = "mh_p s ! n1"
  have len: "?n \<le> length ?p" and hi: "heap_idx evs ?n ?p" and ho: "heap_ord (tmo evs) ?n ?p"
    using wf by (auto simp: heap_wf_def)
  have n: "?n = Suc n1" using i by (simp add: n1_def)
  have s1: "mh_p s1 = ?p" "mh_n s1 = n1" "mh_a s1 = mh_a s" by (simp_all add: s1_def n1_def)
  have dist: "distinct (take ?n ?p)" using hi len by (rule heap_idx_distinct)
  have ho1: "heap_ord (tmo evs) n1 ?p" using ho n by (simp add: heap_ord_def)
  have tk: "take ?n ?p = take n1 ?p @ [?l]" using len n by (simp add: take_Suc_conv_app_nth)
  have lin: "?l \<in> set (take ?n ?p)" using tk by simp
  have "mh_n s' = n1 \<and> mh_a s' = mh_a s \<and> length (mh_p s') = length (mh_p s) \<and>
      mset (take n1 (mh_p s')) = heap_mset s - {#mh_p s ! i#} \<and>
      heap_ord (tmo evs') n1 (mh_p s') \<and> heap_idx evs' n1 (mh_p s') \<and>
      idx_frame (set (heap_list s)) evs evs'"
  proof (cases "i = n1")
    case True
    have "\<not> (0 < i \<and> min_heap_elem_greater evs (?p ! par i) ?l)"
      using ho True n by (auto simp: heap_ord_def min_heap_elem_greater_def not_less)
    then have "resift s1 evs i ?l = heap_place s1 evs i ?l"
      using True s1 by (subst resift_def) (auto simp: min_heap_shift_down.simps [of s1] Let_def)
    then have res: "s' = s1" "evs' = upd_ev ?l (min_heap_idx_update (\<lambda>_. int i)) evs"
      using r True s1 by (auto simp: heap_place_def s1_def)
    have fr: "idx_frame (set (heap_list s)) evs evs'"
      unfolding res heap_list_def using lin by (rule idx_frame_upd)
    have "evs' = evs"
      using hi True n by (auto simp: res upd_ev_def heap_idx_def fun_eq_iff)
    then show ?thesis
      using fr res s1 ho1 hi n tk True by (simp add: heap_mset_def heap_list_def heap_idx_def)
  next
    case False
    then have i1: "i < n1" using i n by simp
    have nl: "?l \<notin> set (take n1 ?p)" using dist tk by simp
    have d1: "distinct (take n1 ?p)" using dist tk by simp
    have ds: "distinct (take n1 (?p[i := ?l]))"
      using d1 nl i1 len n by (simp add: take_update_swap distinct_list_update set_update_memI)
    have ix: "idx_but evs n1 (?p[i := ?l]) i"
      using hi n by (simp add: idx_but_def heap_idx_def)
    have sf: "sifted s1 ((mh_p s1)[i := ?l]) evs (resift s1 evs i ?l)"
      using i1 len n ds ix ho1 s1 by (intro resift_sifted [of i s1 ?l evs "tmo evs" "mh_p s"]) auto
    have ms: "mset (take n1 (?p[i := ?l])) = heap_mset s - {#?p ! i#}"
    proof -
      have "?p ! i \<in># mset (take n1 ?p)" using i1 len n by (simp add: nth_in_set_take)
      then show ?thesis using i1 len n tk by (simp add: mset_take_update heap_mset_def heap_list_def)
    qed
    have "set (take n1 (?p[i := ?l])) \<subseteq> set (heap_list s)"
    proof -
      have "set_mset (mset (take n1 (?p[i := ?l]))) \<subseteq> set_mset (heap_mset s)"
        unfolding ms by (meson in_diffD subsetI)
      then show ?thesis by (simp add: heap_mset_def)
    qed
    then have "idx_frame (set (heap_list s)) evs evs'"
      using sf r s1 by (auto simp: sifted_def Let_def intro: idx_frame_trans [OF idx_frame_refl [of "{}"]])
    then show ?thesis
      using sf r s1 ms by (simp add: sifted_def Let_def)
  qed
  then show "mh_n s' = n1" "mh_a s' = mh_a s" "length (mh_p s') = length (mh_p s)"
    "mset (take n1 (mh_p s')) = heap_mset s - {#mh_p s ! i#}"
    "heap_ord (tmo evs') n1 (mh_p s')" "heap_idx evs' n1 (mh_p s')"
    "idx_frame (set (heap_list s)) evs evs'"
    by auto
qed


subsection \<open>The operations keep the heap well formed\<close>

lemma min_heap_reserve_cases:
  assumes "min_heap_reserve ok s n = (s', r)"
  shows "r = 0 \<or> r = -1" "r = 0 \<longleftrightarrow> ok \<or> n \<le> mh_a s" "r = -1 \<Longrightarrow> s' = s" "mh_n s' = mh_n s"
    "r = 0 \<Longrightarrow> mh_a s = length (mh_p s) \<Longrightarrow> n \<le> mh_a s' \<and> mh_a s' = length (mh_p s') \<and>
       (\<exists>ys. mh_p s' = mh_p s @ ys)"
  using assms by (auto simp: min_heap_reserve_def Let_def split: if_splits)

lemma min_heap_push_fail:
  assumes "\<not> ok" "mh_a s \<le> mh_n s"
  shows "min_heap_push ok s evs e = (s, evs, -1)"
  using assms by (simp add: min_heap_push_def min_heap_reserve_def Let_def)

lemma min_heap_push_result:
  "snd (snd (min_heap_push ok s evs e)) = (if ok \<or> mh_n s < mh_a s then 0 else -1)"
  by (auto simp: min_heap_push_def min_heap_reserve_def Let_def split: prod.splits)

lemma min_heap_push_wf:
  assumes wf: "heap_wf s evs" and new: "e \<notin> set (heap_list s)"
    and r: "min_heap_push ok s evs e = (s', evs', 0)"
  shows "heap_wf s' evs'" "heap_mset s' = add_mset e (heap_mset s)"
    "idx_frame (insert e (set (heap_list s))) evs evs'"
proof -
  obtain s1 k where res: "min_heap_reserve ok s (mh_n s + 1) = (s1, k)" by fastforce
  have k: "k = 0" using r res by (auto simp: min_heap_push_def split: if_splits prod.splits)
  have len: "mh_a s = length (mh_p s)" "mh_n s \<le> length (mh_p s)"
    and hi: "heap_idx evs (mh_n s) (mh_p s)" and ho: "heap_ord (tmo evs) (mh_n s) (mh_p s)"
    using wf by (auto simp: heap_wf_def)
  obtain ys where s1: "mh_n s1 = mh_n s" "mh_n s + 1 \<le> mh_a s1" "mh_a s1 = length (mh_p s1)"
      "mh_p s1 = mh_p s @ ys"
    using min_heap_reserve_cases [OF res] k len by auto
  let ?n = "mh_n s" let ?s2 = "s1\<lparr>mh_n := Suc ?n\<rparr>" let ?q = "(mh_p s1)[?n := e]"
  have up: "min_heap_shift_up ?s2 evs ?n e = (s', evs')"
    using r res k s1 by (auto simp: min_heap_push_def split: prod.splits)
  have old: "?q ! j = mh_p s ! j" if "j < ?n" for j using that len s1 by (simp add: nth_append)
  have tk: "take (Suc ?n) ?q = heap_list s @ [e]"
    using s1 len by (simp add: take_Suc_conv_app_nth heap_list_def)
  have "sifted ?s2 ((mh_p ?s2)[?n := e]) evs (min_heap_shift_up ?s2 evs ?n e)"
  proof (rule shift_up_sifted)
    show "distinct (take (mh_n ?s2) ((mh_p ?s2)[?n := e]))"
      using tk new heap_wf_distinct [OF wf] by simp
    show "up_ok (tmo evs) (mh_n ?s2) ((mh_p ?s2)[?n := e]) ?n"
      unfolding up_ok_def across_def
    proof (intro conjI allI impI)
      fix j assume "0 < j" "j < mh_n ?s2" "j \<noteq> ?n"
      then have "j < ?n" "par j < ?n" using par_less [of j] by auto
      then show "tmo evs ((mh_p ?s2)[?n := e] ! par j) \<le> tmo evs ((mh_p ?s2)[?n := e] ! j)"
        using ho old \<open>0 < j\<close> by (simp add: heap_ord_def)
    next
      fix j assume "0 < j" "j < mh_n ?s2" "par j = ?n"
      then show "tmo evs ((mh_p ?s2)[?n := e] ! par ?n) \<le> tmo evs ((mh_p ?s2)[?n := e] ! j)"
        using par_less [of j] by simp
    qed
    show "idx_but evs (mh_n ?s2) ((mh_p ?s2)[?n := e]) ?n"
      using hi old by (auto simp: idx_but_def heap_idx_def less_Suc_eq)
  qed (use s1 in auto)
  then have sf: "sifted ?s2 ?q evs (s', evs')" using up by simp
  then show "heap_wf s' evs'" using s1 by (simp add: sifted_def heap_wf_def Let_def)
  show "heap_mset s' = add_mset e (heap_mset s)"
    using sf tk by (simp add: sifted_def heap_mset_def heap_list_def Let_def)
  show "idx_frame (insert e (set (heap_list s))) evs evs'"
    using sf tk by (simp add: sifted_def Let_def)
qed

text \<open>Erasing: the last element takes the place of the erased one.\<close>

lemma min_heap_erase_absent:
  "min_heap_idx (evs e) = -1 \<Longrightarrow> min_heap_erase s evs e = (s, evs, -1)"
  by (simp add: min_heap_erase_def)

lemma min_heap_erase_resift:
  assumes "min_heap_idx (evs e) = int i"
  shows "min_heap_erase s evs e =
    (case resift (s\<lparr>mh_n := mh_n s - 1\<rparr>) evs i (mh_p s ! (mh_n s - 1)) of
       (s', evs') \<Rightarrow> (s', min_heap_elem_init e evs', 0))"
  using assms by (simp add: min_heap_erase_def resift_def cdiv_par del: par_fold)

lemma init_outside:
  assumes "heap_idx evs n q" "e \<notin> set (take n q)" "n \<le> length q"
  shows "heap_idx (min_heap_elem_init e evs) n q"
    "heap_ord (tmo evs) n q \<Longrightarrow> heap_ord (tmo (min_heap_elem_init e evs)) n q"
  using assms
  by (auto simp: heap_idx_def heap_ord_def min_heap_elem_init_def upd_ev_apply set_take_conv_nth)

lemma resift_last_removes:
  assumes wf: "heap_wf s evs" and i: "i < mh_n s" "mh_p s ! i = e"
    and r: "resift (s\<lparr>mh_n := mh_n s - 1\<rparr>) evs i (mh_p s ! (mh_n s - 1)) = (s', evs0)"
    and evs': "evs' = min_heap_elem_init e evs0"
  shows "heap_wf s' evs'" "heap_mset s' = heap_mset s - {#e#}"
    "idx_frame (set (heap_list s)) evs evs'" "min_heap_idx (evs' e) = -1"
proof -
  note rl = resift_last [OF wf i(1), folded One_nat_def, OF r]
  have len: "mh_a s = length (mh_p s)" "mh_n s \<le> length (mh_p s)" using wf by (auto simp: heap_wf_def)
  have mem: "e \<in> set (heap_list s)" using i len by (auto simp: heap_list_def nth_in_set_take)
  show ms: "heap_mset s' = heap_mset s - {#e#}"
    using rl(1,4) i(2) by (simp add: heap_mset_def heap_list_def)
  have "count (heap_mset s) e = 1"
    using heap_wf_distinct [OF wf] mem by (simp add: heap_mset_def distinct_count_atmost_1)
  then have "e \<notin># heap_mset s'" using ms by (simp add: not_in_iff)
  then have "e \<notin> set (take (mh_n s') (mh_p s'))" by (simp add: heap_mset_def heap_list_def)
  then show "heap_wf s' evs'"
    using rl len by (auto simp: heap_wf_def evs' intro!: init_outside)
  show "idx_frame (set (heap_list s)) evs evs'"
    unfolding evs' min_heap_elem_init_def
    by (rule idx_frame_trans [OF rl(7) idx_frame_upd [OF mem]]) simp
  show "min_heap_idx (evs' e) = -1" by (simp add: evs' min_heap_elem_init_def)
qed

lemma min_heap_erase_wf:
  assumes wf: "heap_wf s evs" and e: "e \<in># heap_mset s"
    and r: "min_heap_erase s evs e = (s', evs', k)"
  shows "k = 0" "heap_wf s' evs'" "heap_mset s' = heap_mset s - {#e#}"
    "idx_frame (set (heap_list s)) evs evs'" "min_heap_idx (evs' e) = -1"
proof -
  obtain i where i: "i < mh_n s" "mh_p s ! i = e" "min_heap_idx (evs e) = int i"
    using idx_of_member [OF wf] e by (auto simp: heap_mset_def)
  obtain evs0 where res:
      "resift (s\<lparr>mh_n := mh_n s - 1\<rparr>) evs i (mh_p s ! (mh_n s - 1)) = (s', evs0)"
      "evs' = min_heap_elem_init e evs0" "k = 0"
    using r by (auto simp: min_heap_erase_resift [of evs e i, OF i(3)] split: prod.splits)
  show "k = 0" by (rule res(3))
  show "heap_wf s' evs'" "heap_mset s' = heap_mset s - {#e#}"
    "idx_frame (set (heap_list s)) evs evs'" "min_heap_idx (evs' e) = -1"
    by (rule resift_last_removes [OF wf i(1,2) res(1,2)])+
qed

lemma min_heap_pop_erase:
  assumes wf: "heap_wf s evs" and n: "0 < mh_n s"
  shows "min_heap_pop s evs =
    (case min_heap_erase s evs (mh_p s ! 0) of (s', evs', k) \<Rightarrow> (s', evs', Some (mh_p s ! 0)))"
proof -
  have "min_heap_idx (evs (mh_p s ! 0)) = int 0" using wf n by (simp add: heap_wf_def heap_idx_def)
  from min_heap_erase_resift [of evs _ 0, OF this] show ?thesis
    using n by (simp add: min_heap_pop_def resift_def Let_def split: prod.splits)
qed


lemma min_heap_adjust_wf:
  assumes wf: "heap_wf s (upd_ev e (ev_timeout_update (\<lambda>_. t0)) evs)" and e: "e \<in># heap_mset s"
    and r: "min_heap_adjust ok s evs e = (s', evs', k)"
  shows "k = 0" "heap_wf s' evs'" "heap_mset s' = heap_mset s"
    "idx_frame (set (heap_list s)) evs evs'"
proof -
  let ?evs0 = "upd_ev e (ev_timeout_update (\<lambda>_. t0)) evs"
  have ix0: "min_heap_idx (?evs0 x) = min_heap_idx (evs x)" for x by (simp add: upd_ev_apply)
  obtain i where i: "i < mh_n s" "mh_p s ! i = e" "min_heap_idx (evs e) = int i"
    using idx_of_member [OF wf] e ix0 by (auto simp: heap_mset_def)
  have len: "mh_a s = length (mh_p s)" "mh_n s \<le> length (mh_p s)"
    and hi: "heap_idx evs (mh_n s) (mh_p s)"
    using wf ix0 by (auto simp: heap_wf_def heap_idx_def)
  have eq: "(mh_p s)[i := e] = mh_p s" using i(2) by auto
  have dist: "distinct (take (mh_n s) (mh_p s))" using hi len by (auto intro: heap_idx_distinct)
  have res: "resift s evs i e = (s', evs')" and "k = 0"
    using r i(3)
    by (auto simp: min_heap_adjust_def resift_def cdiv_par Let_def simp del: par_fold split: prod.splits if_splits)
  have ne: "mh_p s ! j \<noteq> e" if "j < mh_n s" "j \<noteq> i" for j
    using that i hi by (auto simp: heap_idx_def)
  have "sifted s ((mh_p s)[i := e]) evs (resift s evs i e)"
  proof (rule resift_sifted [of i s e evs "tmo ?evs0" "mh_p s"])
    show "tmo evs (mh_p s ! j) = tmo ?evs0 (mh_p s ! j)" if "j < mh_n s" "j \<noteq> i" for j
      using ne [OF that] by (simp add: upd_ev_apply)
  qed (use i len dist hi wf in \<open>auto simp: eq idx_but_def heap_idx_def heap_wf_def\<close>)
  then have "sifted s (mh_p s) evs (s', evs')" using res eq by simp
  then show "heap_wf s' evs'" "heap_mset s' = heap_mset s" "idx_frame (set (heap_list s)) evs evs'"
    using len by (simp_all add: sifted_def heap_wf_def heap_mset_def heap_list_def Let_def)
  show "k = 0" by fact
qed

lemma min_heap_top_minimum:
  assumes "heap_wf s evs" "min_heap_top s = Some m"
  shows "m \<in># heap_mset s" "x \<in># heap_mset s \<Longrightarrow> tmo evs m \<le> tmo evs x"
  using assms
  by (auto simp: min_heap_top_def heap_mset_def heap_list_def heap_wf_def set_take_conv_nth
      intro: heap_ord_root split: if_splits)

lemma min_heap_top_None [simp]: "heap_wf s evs \<Longrightarrow> min_heap_top s = None \<longleftrightarrow> heap_mset s = {#}"
  by (auto simp: min_heap_top_def heap_mset_def heap_list_def heap_wf_def)

lemma heap_mset_ctor [simp]: "heap_mset min_heap_ctor = {#}"
  by (simp add: heap_mset_def heap_list_def min_heap_ctor_def)

text \<open>A change of the event store that keeps deadlines and indices keeps the heap.\<close>

lemma heap_wf_cong:
  assumes "\<And>x. x \<in># heap_mset s \<Longrightarrow>
    tmo evs' x = tmo evs x \<and> min_heap_idx (evs' x) = min_heap_idx (evs x)"
  shows "heap_wf s evs' \<longleftrightarrow> heap_wf s evs"
proof -
  have "tmo evs' (mh_p s ! i) = tmo evs (mh_p s ! i) \<and>
      min_heap_idx (evs' (mh_p s ! i)) = min_heap_idx (evs (mh_p s ! i))"
    if "i < mh_n s" "mh_n s \<le> length (mh_p s)" for i
    using assms that by (auto simp: heap_mset_def heap_list_def nth_in_set_take)
  moreover have "par i < n" if "0 < i" "i < n" for i n using par_less [of i] that by simp
  ultimately show ?thesis by (auto simp: heap_wf_def heap_idx_def heap_ord_def)
qed

subsection \<open>The interface of a timer queue\<close>

text \<open>
  What the event base relies on: a store-backed priority queue keyed by \<open>ev_timeout\<close>.
  \<open>frame\<close> says that an operation changes nothing of an event but its queue position.
\<close>

locale timer_queue =
  fixes wf :: "'q \<Rightarrow> events \<Rightarrow> bool" and elems :: "'q \<Rightarrow> ev_ptr multiset"
    and top :: "'q \<Rightarrow> ev_ptr option"
    and push :: "bool \<Rightarrow> 'q \<Rightarrow> events \<Rightarrow> ev_ptr \<Rightarrow> 'q \<times> events \<times> int"
    and erase :: "'q \<Rightarrow> events \<Rightarrow> ev_ptr \<Rightarrow> 'q \<times> events \<times> int"
  assumes elems_distinct: "wf q evs \<Longrightarrow> count (elems q) x \<le> 1"
    and top_None: "wf q evs \<Longrightarrow> top q = None \<longleftrightarrow> elems q = {#}"
    and top_in: "wf q evs \<Longrightarrow> top q = Some m \<Longrightarrow> m \<in># elems q"
    and top_le: "wf q evs \<Longrightarrow> top q = Some m \<Longrightarrow> x \<in># elems q \<Longrightarrow> tmo evs m \<le> tmo evs x"
    and push_0: "wf q evs \<Longrightarrow> e \<notin># elems q \<Longrightarrow> push ok q evs e = (q', evs', 0) \<Longrightarrow>
      wf q' evs' \<and> elems q' = add_mset e (elems q) \<and> idx_frame (insert e (set_mset (elems q))) evs evs'"
    and push_fail: "push ok q evs e = (q', evs', r) \<Longrightarrow> r \<noteq> 0 \<Longrightarrow> q' = q \<and> evs' = evs \<and> \<not> ok"
    and erase_in: "wf q evs \<Longrightarrow> e \<in># elems q \<Longrightarrow> erase q evs e = (q', evs', r) \<Longrightarrow>
      r = 0 \<and> wf q' evs' \<and> elems q' = elems q - {#e#} \<and> idx_frame (set_mset (elems q)) evs evs'"
begin

lemma no_elapsed:
  assumes "wf q evs" "top q = Some m" "now < tmo evs m" "x \<in># elems q"
  shows "now < tmo evs x"
  using assms top_le order.strict_trans2 by blast

lemma erased_gone:
  assumes "wf q evs" "e \<in># elems q" "erase q evs e = (q', evs', r)"
  shows "e \<notin># elems q'"
  using assms erase_in [OF assms] elems_distinct [OF assms(1), of e] by (simp add: not_in_iff)

lemma erase_top_mono:
  assumes "wf q evs" "top q = Some m" "erase q evs m = (q', evs', r)" "top q' = Some m'"
  shows "tmo evs m \<le> tmo evs' m'"
proof -
  note er = erase_in [OF assms(1) top_in [OF assms(1,2)] assms(3)]
  have "m' \<in># elems q'" using er assms(4) top_in by blast
  then have "m' \<in># elems q" using er by (auto dest: in_diffD)
  then show ?thesis using top_le [OF assms(1,2)] er by (auto simp: frame_simps)
qed

lemma push_top:
  assumes "wf q evs" "e \<notin># elems q" "push ok q evs e = (q', evs', 0)" "top q' = Some m"
  shows "m = e \<or> top q \<noteq> None \<and> tmo evs m \<le> tmo evs e"
proof -
  note pu = push_0 [OF assms(1-3)]
  have m: "m \<in># elems q'" using pu assms(4) top_in by blast
  have le: "tmo evs' m \<le> tmo evs' e" using pu assms(4) top_le [of q' evs' m e] by simp
  then show ?thesis using m le pu top_None [OF assms(1)] by (auto simp: frame_simps)
qed

end

interpretation mh: timer_queue heap_wf heap_mset min_heap_top min_heap_push min_heap_erase
proof unfold_locales
  fix q evs x
  show "count (heap_mset q) x \<le> 1" if "heap_wf q evs"
    using heap_wf_distinct [OF that] by (simp add: heap_mset_def distinct_count_atmost_1)
next
  fix q evs m x assume "heap_wf q evs" "min_heap_top q = Some m" "x \<in># heap_mset q"
  then show "tmo evs m \<le> tmo evs x" by (rule min_heap_top_minimum)
next
  fix q evs e ok q' evs'
  assume "heap_wf q evs" "e \<notin># heap_mset q" "min_heap_push ok q evs e = (q', evs', 0)"
  then show "heap_wf q' evs' \<and> heap_mset q' = add_mset e (heap_mset q) \<and>
      idx_frame (insert e (set_mset (heap_mset q))) evs evs'"
    using min_heap_push_wf [of q evs e ok q' evs'] by (simp add: heap_mset_def)
next
  fix ok q evs e q' evs' r assume "min_heap_push ok q evs e = (q', evs', r)" "r \<noteq> 0"
  then show "q' = q \<and> evs' = evs \<and> \<not> ok"
    using min_heap_push_result [of ok q evs e] min_heap_push_fail [of ok q evs e]
    by (auto split: if_splits)
next
  fix q evs e q' evs' r
  assume "heap_wf q evs" "e \<in># heap_mset q" "min_heap_erase q evs e = (q', evs', r)"
  then show "r = 0 \<and> heap_wf q' evs' \<and> heap_mset q' = heap_mset q - {#e#} \<and>
      idx_frame (set_mset (heap_mset q)) evs evs'"
    using min_heap_erase_wf [of q evs e q' evs' r] by (simp add: heap_mset_def)
qed (auto dest: min_heap_top_minimum(1))


subsection \<open>Properties\<close>

text \<open>A heap of three events, 1, 2 and 3, with deadlines 2, 5 and 3, on which the properties are
  exercised; event 4 is outside it and due first.\<close>

definition heap3 :: min_heap where
  "heap3 = \<lparr>mh_p = [1, 2, 3], mh_n = 3, mh_a = 3\<rparr>"

definition heap3_events :: events where
  "heap3_events x = zero_event\<lparr>
     min_heap_idx := (if x = 1 then 0 else if x = 2 then 1 else if x = 3 then 2 else -1),
     ev_timeout := Timeval (if x = 1 then 2 else if x = 2 then 5 else if x = 3 then 3 else 1) 0\<rparr>"

lemma heap3_wf: "heap_wf heap3 heap3_events"
  by (auto simp: heap_wf_def heap3_def heap3_events_def heap_idx_def heap_ord_def par_def
      less_Suc_eq numeral_3_eq_3 timercmp_simps simp del: par_fold)

lemma heap3_size: "mh_n heap3 = 3" "mh_a heap3 = 3"
  by (simp_all add: heap3_def)

lemma heap3_mset: "heap_mset heap3 = {#1, 2, 3#}"
  by (simp add: heap_mset_def heap_list_def heap3_def)

text \<open>C10: pushing an event that is not in the heap either succeeds, adding exactly that event
  and keeping the heap order and every recorded index right, or, exactly when the array is full
  and the reallocation fails, returns \<open>-1\<close> and changes nothing.\<close>

theorem min_heap_push_correct:
  assumes "heap_wf s evs" "e \<notin># heap_mset s"
  shows "case min_heap_push ok s evs e of (s', evs', r) \<Rightarrow>
    if ok \<or> mh_n s < mh_a s
    then r = 0 \<and> heap_wf s' evs' \<and> heap_mset s' = add_mset e (heap_mset s) \<and>
         idx_frame (insert e (set_mset (heap_mset s))) evs evs'
    else r = -1 \<and> s' = s \<and> evs' = evs"
proof -
  obtain s' evs' r where p: "min_heap_push ok s evs e = (s', evs', r)" by (metis prod_cases3)
  have r: "r = (if ok \<or> mh_n s < mh_a s then 0 else -1)"
    using min_heap_push_result [of ok s evs e] p by simp
  show ?thesis
  proof (cases "ok \<or> mh_n s < mh_a s")
    case True
    then have "min_heap_push ok s evs e = (s', evs', 0)" using p r by simp
    from mh.push_0 [OF assms this] show ?thesis using True p r by simp
  next
    case False
    then have "r \<noteq> 0" using r by simp
    from mh.push_fail [OF p this] show ?thesis using False p r by simp
  qed
qed

theorem min_heap_push_correct_witness:
  "heap_mset (fst (min_heap_push True heap3 heap3_events 4)) = {#1, 2, 3, 4#} \<and>
   min_heap_push False heap3 heap3_events 4 = (heap3, heap3_events, -1)"
  using min_heap_push_correct [OF heap3_wf, of 4 True] min_heap_push_correct [OF heap3_wf, of 4 False]
  by (auto simp: heap3_mset heap3_size split: prod.splits)

text \<open>C9: erasing an event of the heap succeeds, removes exactly that event, marks it as being
  in no heap, and keeps the heap order and every recorded index right.\<close>

theorem min_heap_erase_correct:
  assumes "heap_wf s evs" "e \<in># heap_mset s"
  shows "case min_heap_erase s evs e of (s', evs', r) \<Rightarrow>
    r = 0 \<and> heap_wf s' evs' \<and> heap_mset s' = heap_mset s - {#e#} \<and> e \<notin># heap_mset s' \<and>
    min_heap_idx (evs' e) = -1 \<and> idx_frame (set_mset (heap_mset s)) evs evs'"
proof -
  obtain s' evs' r where p: "min_heap_erase s evs e = (s', evs', r)" by (metis prod_cases3)
  then show ?thesis
    using mh.erase_in [OF assms p] mh.erased_gone [OF assms p] min_heap_erase_wf(5) [OF assms p] by simp
qed

theorem min_heap_erase_correct_witness:
  "heap_mset (fst (min_heap_erase heap3 heap3_events 1)) = {#2, 3#} \<and>
   min_heap_top (fst (min_heap_erase heap3 heap3_events 1)) = Some 3"
proof -
  have "min_heap_top (fst (min_heap_erase heap3 heap3_events 1)) = Some 3" by code_simp
  then show ?thesis
    using min_heap_erase_correct [OF heap3_wf, of 1] by (auto simp: heap3_mset split: prod.splits)
qed

text \<open>C11: popping returns nothing exactly on an empty heap; otherwise it returns an event of
  least deadline and removes exactly it.\<close>

theorem min_heap_pop_correct:
  assumes "heap_wf s evs"
  shows "case min_heap_pop s evs of (s', evs', r) \<Rightarrow>
    heap_wf s' evs' \<and>
    (case r of None \<Rightarrow> heap_mset s = {#} \<and> s' = s \<and> evs' = evs
     | Some m \<Rightarrow> m \<in># heap_mset s \<and> (\<forall>x. x \<in># heap_mset s \<longrightarrow> tmo evs m \<le> tmo evs x) \<and>
         heap_mset s' = heap_mset s - {#m#} \<and> min_heap_idx (evs' m) = -1)"
proof (cases "mh_n s")
  case 0
  then show ?thesis using assms by (simp add: min_heap_pop_def heap_mset_def heap_list_def)
next
  case (Suc k)
  then have t: "min_heap_top s = Some (mh_p s ! 0)" by (simp add: min_heap_top_def)
  obtain s' evs' r where p: "min_heap_erase s evs (mh_p s ! 0) = (s', evs', r)" by (metis prod_cases3)
  then show ?thesis
    using Suc min_heap_pop_erase [OF assms] min_heap_erase_wf [OF assms mh.top_in [OF assms t] p]
      mh.top_in [OF assms t] mh.top_le [OF assms t] by simp
qed

theorem min_heap_pop_correct_witness:
  "snd (snd (min_heap_pop heap3 heap3_events)) = Some 1 \<and>
   heap_mset (fst (min_heap_pop heap3 heap3_events)) = {#2, 3#}"
proof -
  have "snd (snd (min_heap_pop heap3 heap3_events)) = Some 1" by code_simp
  then show ?thesis
    using min_heap_pop_correct [OF heap3_wf] by (auto simp: heap3_mset split: prod.splits)
qed

text \<open>C12: after the deadline of one event of the heap has been overwritten, adjusting it restores
  the heap without changing its contents.\<close>

theorem min_heap_adjust_correct:
  assumes "heap_wf s (upd_ev e (ev_timeout_update (\<lambda>_. t0)) evs)" "e \<in># heap_mset s"
  shows "case min_heap_adjust ok s evs e of (s', evs', r) \<Rightarrow>
    r = 0 \<and> heap_wf s' evs' \<and> heap_mset s' = heap_mset s \<and> idx_frame (set_mset (heap_mset s)) evs evs'"
proof -
  obtain s' evs' r where p: "min_heap_adjust ok s evs e = (s', evs', r)" by (metis prod_cases3)
  then show ?thesis using min_heap_adjust_wf [OF assms p] by (simp add: heap_mset_def)
qed

theorem min_heap_adjust_correct_witness:
  "heap_mset (fst (min_heap_adjust True heap3
     (upd_ev 1 (ev_timeout_update (\<lambda>_. Timeval 9 0)) heap3_events) 1)) = {#1, 2, 3#}"
proof -
  let ?evs = "upd_ev 1 (ev_timeout_update (\<lambda>_. Timeval 9 0)) heap3_events"
  have "upd_ev 1 (ev_timeout_update (\<lambda>_. Timeval 2 0)) ?evs = heap3_events"
    by (auto simp: upd_ev_def heap3_events_def)
  then show ?thesis
    using min_heap_adjust_correct [of heap3 1 "Timeval 2 0" ?evs True] heap3_wf
    by (simp add: heap3_mset split: prod.splits)
qed

end
