(* ===== verification/Event_Base.thy ===== *)
theory Event_Base
  imports Min_Heap
begin

text \<open>
  The state of an event base (\<^verbatim>\<open>struct event_base\<close> of \<^verbatim>\<open>event-internal.h\<close>) and the
  operations of \<^verbatim>\<open>event.c\<close> that only read it or its clock: cached time, common-timeout
  encoding, event counters.

  The record also holds what the C code reaches through pointers and system calls: the store
  \<open>mem\<close> of events, the outcomes of the allocator (\<open>mm\<close>, indexed by the number of
  calls made) and of the system clocks (\<open>wall\<close>, \<open>mclk\<close>), the calls \<open>called\<close> made to
  functions of the user so far, and a flag \<open>died\<close>
  that is set when an \<^verbatim>\<open>EVUTIL_ASSERT\<close> fails or \<^verbatim>\<open>event_errx\<close> is reached; what a
  dead state holds besides is meaningless.  The build is the one with
  \<^verbatim>\<open>EVENT__DISABLE_THREAD_SUPPORT\<close> and \<^verbatim>\<open>EVENT__DISABLE_DEBUG_MODE\<close>: locks,
  condition variables, cross-thread notification and the debug table are compiled out.
\<close>

subsection \<open>Backends\<close>

text \<open>The slots of the maps of descriptors and of signals.\<close>

record evmap_io =
  io_events :: "ev_ptr list"
  nread :: nat
  nwrite :: nat
  nclose :: nat
  fdinfo :: nat

record evmap_signal =
  sig_events :: "ev_ptr list"

text \<open>
  \<^verbatim>\<open>struct eventop\<close>: a backend is its private data of type \<open>'b\<close> and its operations.
  \<open>add\<close> and \<open>del\<close> take the descriptor, the events enabled before, the events to change
  and the per-descriptor \<^verbatim>\<open>fdinfo\<close> word, and return 0 or \<open>-1\<close>.  \<open>dispatch\<close>
  may change the \<^verbatim>\<open>fdinfo\<close> of the map of descriptors and returns the descriptors and signals it
  found ready, in the order in which it reports them.
\<close>

datatype ready = ReadyIO int u16 | ReadySignal int int

record 'b eventop =
  evop_add :: "'b \<Rightarrow> int \<Rightarrow> u16 \<Rightarrow> u16 \<Rightarrow> nat \<Rightarrow> 'b \<times> nat \<times> int"
  evop_del :: "'b \<Rightarrow> int \<Rightarrow> u16 \<Rightarrow> u16 \<Rightarrow> nat \<Rightarrow> 'b \<times> nat \<times> int"
  evop_dispatch :: "'b \<Rightarrow> evmap_io option list \<Rightarrow> timeval option \<Rightarrow> 'b \<times> evmap_io option list \<times> ready list \<times> int"
  fdinfo_len :: nat

subsection \<open>The base\<close>

record common_timeout_list =
  ctl_events :: "ev_ptr list"
  ctl_duration :: timeval
  timeout_event :: ev_ptr

text \<open>\<^verbatim>\<open>struct event_once\<close>, known by the address of the event it embeds.\<close>

record event_once =
  once_ev :: ev_ptr
  once_cb :: nat
  once_arg :: nat

text \<open>A call of a function of the user: the function pointer and the arguments it is given.\<close>

datatype call =
    Call_event nat int u16 nat
  | Call_self nat ev_ptr nat
  | Call_evfinalize nat ev_ptr nat
  | Call_cbfinalize nat ev_ptr nat

record 'b event_base =
  mem :: events
  evsel :: "'b eventop"
  evsigsel :: "'b eventop"
  evbase :: 'b
  virtual_event_count :: int
  virtual_event_count_max :: int
  event_count :: int
  event_count_max :: int
  event_count_active :: int
  event_count_active_max :: int
  event_gotterm :: bool
  event_break :: bool
  event_continue :: bool
  event_running_priority :: int
  running_loop :: bool
  n_deferreds_queued :: int
  activequeues :: "ev_ptr list list"
  active_later_queue :: "ev_ptr list"
  common_timeout_queues :: "common_timeout_list list"
  n_common_timeouts_allocated :: nat
  io :: "evmap_io option list"
  sigmap :: "evmap_signal option list"
  timeheap :: min_heap
  tv_cache :: timeval
  monotonic_timer :: evutil_monotonic_timer
  tv_clock_diff :: timeval
  last_updated_clock_diff :: int
  current_event :: "ev_ptr option"
  base_flags :: u16
  max_dispatch_time :: timeval
  max_dispatch_callbacks :: int
  limit_callbacks_after_prio :: int
  once_events :: "event_once list"
  sig_ncalls :: int
  mm :: "nat \<Rightarrow> nat option"
  mm_calls :: nat
  wall :: "nat \<Rightarrow> timeval option"
  mclk :: "nat \<Rightarrow> (int \<times> int) option"
  clk_reads :: nat
  stack_junk :: timeval
  called :: "call list"
  died :: bool

text \<open>The base as \<^verbatim>\<open>mm_calloc\<close> leaves it: every field is zero.  What is not part of the structure
  (the store of events, the allocator, the clocks, the calls made) is kept; the pointers to the
  backends and their data are null until they are set, and not read.\<close>

definition calloc_base :: "'b event_base \<Rightarrow> 'b event_base" where
  "calloc_base w = w\<lparr>virtual_event_count := 0, virtual_event_count_max := 0, event_count := 0, event_count_max := 0,
     event_count_active := 0, event_count_active_max := 0, event_gotterm := False, event_break := False,
     event_continue := False, event_running_priority := 0, running_loop := False, n_deferreds_queued := 0,
     activequeues := [], active_later_queue := [], common_timeout_queues := [], n_common_timeouts_allocated := 0,
     io := [], sigmap := [], timeheap := min_heap_ctor, tv_cache := Timeval 0 0,
     monotonic_timer := \<lparr>monotonic_clock = 0, adjust_monotonic_clock = Timeval 0 0, last_time = Timeval 0 0\<rparr>,
     tv_clock_diff := Timeval 0 0, last_updated_clock_diff := 0, current_event := None, base_flags := 0,
     max_dispatch_time := Timeval 0 0, max_dispatch_callbacks := 0, limit_callbacks_after_prio := 0,
     once_events := [], sig_ncalls := 0\<rparr>"

text \<open>A world for examples: no event is set up, every allocation succeeds, the clocks stand still.\<close>

definition sample_world :: "'b eventop \<Rightarrow> 'b \<Rightarrow> 'b event_base" where
  "sample_world ops b =
     \<lparr>mem = \<lambda>_. zero_event, evsel = ops, evsigsel = ops, evbase = b, virtual_event_count = 0,
      virtual_event_count_max = 0, event_count = 0, event_count_max = 0, event_count_active = 0,
      event_count_active_max = 0, event_gotterm = False, event_break = False, event_continue = False,
      event_running_priority = 0, running_loop = False, n_deferreds_queued = 0, activequeues = [],
      active_later_queue = [], common_timeout_queues = [], n_common_timeouts_allocated = 0, io = [],
      sigmap = [], timeheap = min_heap_ctor, tv_cache = Timeval 0 0,
      monotonic_timer = \<lparr>monotonic_clock = 0, adjust_monotonic_clock = Timeval 0 0, last_time = Timeval 0 0\<rparr>,
      tv_clock_diff = Timeval 0 0, last_updated_clock_diff = 0, current_event = None, base_flags = 0,
      max_dispatch_time = Timeval 0 0, max_dispatch_callbacks = 0, limit_callbacks_after_prio = 0,
      once_events = [], sig_ncalls = 0, mm = \<lambda>i. Some i, mm_calls = 0, wall = \<lambda>_. Some (Timeval 1000 0),
      mclk = \<lambda>_. Some (1000, 0), clk_reads = 0, stack_junk = Timeval 0 0, called = [], died = False\<rparr>"

abbreviation nactivequeues :: "'b event_base \<Rightarrow> nat" where
  "nactivequeues base \<equiv> length (activequeues base)"

abbreviation n_common_timeouts :: "'b event_base \<Rightarrow> nat" where
  "n_common_timeouts base \<equiv> length (common_timeout_queues base)"

text \<open>Assigning to a field of the event at an address.\<close>

definition set_ev :: "ev_ptr \<Rightarrow> (event \<Rightarrow> event) \<Rightarrow> 'b event_base \<Rightarrow> 'b event_base" where
  "set_ev e f base = base\<lparr>mem := upd_ev e f (mem base)\<rparr>"

abbreviation flags_of :: "'b event_base \<Rightarrow> ev_ptr \<Rightarrow> u16" where
  "flags_of base e \<equiv> ev_flags (mem base e)"

text \<open>\<^verbatim>\<open>EVUTIL_ASSERT\<close> and \<^verbatim>\<open>event_errx\<close>.\<close>

definition check :: "bool \<Rightarrow> 'b event_base \<Rightarrow> 'b event_base" where
  "check c base = (if c then base else base\<lparr>died := True\<rparr>)"

text \<open>One call of the allocator: the address of the block, or \<open>None\<close> for NULL.\<close>

definition mm_alloc :: "'b event_base \<Rightarrow> 'b event_base \<times> nat option" where
  "mm_alloc base = (base\<lparr>mm_calls := mm_calls base + 1\<rparr>, mm base (mm_calls base))"

subsection \<open>Time\<close>

definition CLOCK_SYNC_INTERVAL :: int where
  "CLOCK_SYNC_INTERVAL = 5"

definition gettime :: "'b event_base \<Rightarrow> 'b event_base \<times> timeval option" where
  "gettime base =
     (if tv_sec (tv_cache base) \<noteq> 0 then (base, Some (tv_cache base))
      else case evutil_gettime_monotonic (wall base (clk_reads base)) (mclk base (clk_reads base))
                  (monotonic_timer base) of
        (timer, r) \<Rightarrow>
          let base1 = base\<lparr>monotonic_timer := timer, clk_reads := clk_reads base + 1\<rparr>
          in case r of
               None \<Rightarrow> (base1, None)
             | Some tp \<Rightarrow>
                 if last_updated_clock_diff base1 + CLOCK_SYNC_INTERVAL < tv_sec tp then
                   let tv = (case wall base1 (clk_reads base1) of Some tv \<Rightarrow> tv | None \<Rightarrow> stack_junk base1)
                   in (base1\<lparr>clk_reads := clk_reads base1 + 1,
                             tv_clock_diff := evutil_timersub tv tp,
                             last_updated_clock_diff := tv_sec tp\<rparr>, Some tp)
                 else (base1, Some tp))"

text \<open>A caller that ignores the result of \<^verbatim>\<open>gettime\<close> reads its own uninitialised
  variable when the clock failed.\<close>

definition gettime_now :: "'b event_base \<Rightarrow> 'b event_base \<times> timeval" where
  "gettime_now base =
     (case gettime base of
        (base1, Some now) \<Rightarrow> (base1, now)
      | (base1, None) \<Rightarrow> (base1, stack_junk base1))"

definition event_base_gettimeofday_cached :: "'b event_base \<Rightarrow> 'b event_base \<times> timeval option" where
  "event_base_gettimeofday_cached base =
     (if tv_sec (tv_cache base) = 0 then
        (base\<lparr>clk_reads := clk_reads base + 1\<rparr>, wall base (clk_reads base))
      else (base, Some (evutil_timeradd (tv_cache base) (tv_clock_diff base))))"

definition clear_time_cache :: "'b event_base \<Rightarrow> 'b event_base" where
  "clear_time_cache base = base\<lparr>tv_cache := Timeval 0 (tv_usec (tv_cache base))\<rparr>"

abbreviation EVENT_BASE_FLAG_NO_CACHE_TIME :: u16 where "EVENT_BASE_FLAG_NO_CACHE_TIME \<equiv> 0x08"
abbreviation EVENT_BASE_FLAG_PRECISE_TIMER :: u16 where "EVENT_BASE_FLAG_PRECISE_TIMER \<equiv> 0x20"

definition update_time_cache :: "'b event_base \<Rightarrow> 'b event_base" where
  "update_time_cache base =
     (let base1 = clear_time_cache base
      in if \<not> has (base_flags base1) EVENT_BASE_FLAG_NO_CACHE_TIME then
           case gettime base1 of
             (base2, Some now) \<Rightarrow> base2\<lparr>tv_cache := now\<rparr>
           | (base2, None) \<Rightarrow> base2
         else base1)"

definition event_base_update_cache_time :: "'b event_base \<Rightarrow> 'b event_base \<times> int" where
  "event_base_update_cache_time base =
     (if running_loop base then (update_time_cache base, 0) else (base, 0))"

subsection \<open>Common timeouts\<close>

definition MICROSECONDS_MASK :: int where "MICROSECONDS_MASK = 0x000fffff"
definition COMMON_TIMEOUT_IDX_MASK :: int where "COMMON_TIMEOUT_IDX_MASK = 0x0ff00000"
definition COMMON_TIMEOUT_MASK :: int where "COMMON_TIMEOUT_MASK = 0xf0000000"
definition COMMON_TIMEOUT_MAGIC :: int where "COMMON_TIMEOUT_MAGIC = 0x50000000"
definition MAX_COMMON_TIMEOUTS :: nat where "MAX_COMMON_TIMEOUTS = 256"

definition COMMON_TIMEOUT_IDX :: "timeval \<Rightarrow> nat" where
  "COMMON_TIMEOUT_IDX tv = nat (drop_bit 20 (tv_usec tv AND COMMON_TIMEOUT_IDX_MASK))"

definition is_common_timeout :: "timeval \<Rightarrow> 'b event_base \<Rightarrow> bool" where
  "is_common_timeout tv base \<longleftrightarrow>
     tv_usec tv AND COMMON_TIMEOUT_MASK = COMMON_TIMEOUT_MAGIC \<and>
     COMMON_TIMEOUT_IDX tv < n_common_timeouts base"

definition is_same_common_timeout :: "timeval \<Rightarrow> timeval \<Rightarrow> bool" where
  "is_same_common_timeout tv1 tv2 \<longleftrightarrow>
     tv_usec tv1 AND NOT MICROSECONDS_MASK = tv_usec tv2 AND NOT MICROSECONDS_MASK"

text \<open>\<^verbatim>\<open>tv.tv_usec &= MICROSECONDS_MASK\<close>\<close>

definition mask_usec :: "timeval \<Rightarrow> timeval" where
  "mask_usec tv = Timeval (tv_sec tv) (tv_usec tv AND MICROSECONDS_MASK)"

subsection \<open>Counters\<close>

definition event_haveevents :: "'b event_base \<Rightarrow> bool" where
  "event_haveevents base \<longleftrightarrow> virtual_event_count base > 0 \<or> event_count base > 0"

abbreviation N_ACTIVE_CALLBACKS :: "'b event_base \<Rightarrow> int" where
  "N_ACTIVE_CALLBACKS base \<equiv> event_count_active base"

definition event_base_get_npriorities :: "'b event_base \<Rightarrow> nat" where
  "event_base_get_npriorities base = nactivequeues base"

abbreviation EVENT_BASE_COUNT_ACTIVE :: u16 where "EVENT_BASE_COUNT_ACTIVE \<equiv> 1"
abbreviation EVENT_BASE_COUNT_VIRTUAL :: u16 where "EVENT_BASE_COUNT_VIRTUAL \<equiv> 2"
abbreviation EVENT_BASE_COUNT_ADDED :: u16 where "EVENT_BASE_COUNT_ADDED \<equiv> 4"

definition event_base_get_num_events :: "'b event_base \<Rightarrow> u16 \<Rightarrow> int" where
  "event_base_get_num_events base type =
     (if has type EVENT_BASE_COUNT_ACTIVE then event_count_active base else 0) +
     (if has type EVENT_BASE_COUNT_VIRTUAL then virtual_event_count base else 0) +
     (if has type EVENT_BASE_COUNT_ADDED then event_count base else 0)"

definition event_base_get_max_events :: "'b event_base \<Rightarrow> u16 \<Rightarrow> bool \<Rightarrow> 'b event_base \<times> int" where
  "event_base_get_max_events base type clear =
     (let r0 = 0;
          r1 = (if has type EVENT_BASE_COUNT_ACTIVE then r0 + event_count_active_max base else r0);
          base1 = (if has type EVENT_BASE_COUNT_ACTIVE \<and> clear
                   then base\<lparr>event_count_active_max := 0\<rparr> else base);
          r2 = (if has type EVENT_BASE_COUNT_VIRTUAL then r1 + virtual_event_count_max base1 else r1);
          base2 = (if has type EVENT_BASE_COUNT_VIRTUAL \<and> clear
                   then base1\<lparr>virtual_event_count_max := 0\<rparr> else base1);
          r3 = (if has type EVENT_BASE_COUNT_ADDED then r2 + event_count_max base2 else r2);
          base3 = (if has type EVENT_BASE_COUNT_ADDED \<and> clear
                   then base2\<lparr>event_count_max := 0\<rparr> else base2)
      in (base3, r3))"

text \<open>\<^verbatim>\<open>INCR_EVENT_COUNT\<close> and \<^verbatim>\<open>DECR_EVENT_COUNT\<close>.\<close>

definition INCR_EVENT_COUNT :: "'b event_base \<Rightarrow> u16 \<Rightarrow> 'b event_base" where
  "INCR_EVENT_COUNT base flags =
     (let base1 = base\<lparr>event_count := event_count base + (if has flags EVLIST_INTERNAL then 0 else 1)\<rparr>
      in base1\<lparr>event_count_max := max (event_count_max base1) (event_count base1)\<rparr>)"

definition DECR_EVENT_COUNT :: "'b event_base \<Rightarrow> u16 \<Rightarrow> 'b event_base" where
  "DECR_EVENT_COUNT base flags =
     base\<lparr>event_count := event_count base - (if has flags EVLIST_INTERNAL then 0 else 1)\<rparr>"

definition event_base_add_virtual :: "'b event_base \<Rightarrow> 'b event_base" where
  "event_base_add_virtual base =
     (let base1 = base\<lparr>virtual_event_count := virtual_event_count base + 1\<rparr>
      in base1\<lparr>virtual_event_count_max := max (virtual_event_count_max base1) (virtual_event_count base1)\<rparr>)"

definition event_base_del_virtual :: "'b event_base \<Rightarrow> 'b event_base" where
  "event_base_del_virtual base =
     (let base1 = check (virtual_event_count base > 0) base
      in base1\<lparr>virtual_event_count := virtual_event_count base1 - 1\<rparr>)"

end
