(* ===== verification/Event_Queue.thy ===== *)
theory Event_Queue
  imports Event_Base
begin

text \<open>
  The queues an event can be on (\<^verbatim>\<open>event_queue_*\<close> of \<^verbatim>\<open>event.c\<close>): the active queues,
  one per priority, the queue of events to become active in the next round, the timer heap and
  the common-timeout queues.  Membership is mirrored in \<open>ev_flags\<close> and counted in the base;
  the invariant states how, and every operation is shown to keep it.
\<close>

subsection \<open>Operations\<close>

abbreviation set_flag :: "u16 \<Rightarrow> event \<Rightarrow> event" where
  "set_flag f \<equiv> ev_flags_update (\<lambda>x. x OR f)"

abbreviation clear_flag :: "u16 \<Rightarrow> event \<Rightarrow> event" where
  "clear_flag f \<equiv> ev_flags_update (\<lambda>x. clr x f)"

definition event_queue_remove_inserted :: "'b event_base \<Rightarrow> ev_ptr \<Rightarrow> 'b event_base" where
  "event_queue_remove_inserted base ev =
     (if \<not> has (flags_of base ev) EVLIST_INSERTED then check False base
      else set_ev ev (clear_flag EVLIST_INSERTED) (DECR_EVENT_COUNT base (flags_of base ev)))"

definition event_queue_remove_active :: "'b event_base \<Rightarrow> ev_ptr \<Rightarrow> 'b event_base" where
  "event_queue_remove_active base evcb =
     (if \<not> has (flags_of base evcb) EVLIST_ACTIVE then check False base
      else let base1 = set_ev evcb (clear_flag EVLIST_ACTIVE) (DECR_EVENT_COUNT base (flags_of base evcb));
               base2 = base1\<lparr>event_count_active := event_count_active base1 - 1\<rparr>;
               pri = ev_pri (mem base2 evcb)
           in base2\<lparr>activequeues :=
                (activequeues base2)[pri := remove1 evcb (activequeues base2 ! pri)]\<rparr>)"

definition event_queue_remove_active_later :: "'b event_base \<Rightarrow> ev_ptr \<Rightarrow> 'b event_base" where
  "event_queue_remove_active_later base evcb =
     (if \<not> has (flags_of base evcb) EVLIST_ACTIVE_LATER then check False base
      else let base1 = set_ev evcb (clear_flag EVLIST_ACTIVE_LATER)
                         (DECR_EVENT_COUNT base (flags_of base evcb));
               base2 = base1\<lparr>event_count_active := event_count_active base1 - 1\<rparr>
           in base2\<lparr>active_later_queue := remove1 evcb (active_later_queue base2)\<rparr>)"

definition event_queue_remove_timeout :: "'b event_base \<Rightarrow> ev_ptr \<Rightarrow> 'b event_base" where
  "event_queue_remove_timeout base ev =
     (if \<not> has (flags_of base ev) EVLIST_TIMEOUT then check False base
      else let base1 = set_ev ev (clear_flag EVLIST_TIMEOUT) (DECR_EVENT_COUNT base (flags_of base ev));
               tv = ev_timeout (mem base1 ev)
           in if is_common_timeout tv base1 then
                let i = COMMON_TIMEOUT_IDX tv; ctl = common_timeout_queues base1 ! i
                in base1\<lparr>common_timeout_queues := (common_timeout_queues base1)
                     [i := ctl\<lparr>ctl_events := remove1 ev (ctl_events ctl)\<rparr>]\<rparr>
              else case min_heap_erase (timeheap base1) (mem base1) ev of
                     (h, evs, _) \<Rightarrow> base1\<lparr>timeheap := h, mem := evs\<rparr>)"

text \<open>
  \<open>ins_rev\<close> walks the queue from its end, that is along the reversed list, to the first
  event that is not due later than \<open>ev\<close>; the second component says whether every event met
  carries the same magic bits.
\<close>

fun ins_rev :: "events \<Rightarrow> ev_ptr \<Rightarrow> ev_ptr list \<Rightarrow> ev_ptr list \<times> bool" where
  "ins_rev evs ev [] = ([ev], True)"
| "ins_rev evs ev (e # es) =
     (let same = is_same_common_timeout (ev_timeout (evs e)) (ev_timeout (evs ev))
      in if evutil_timercmp (ev_timeout (evs ev)) (ev_timeout (evs e)) (\<lambda>x y. x \<ge> y)
         then (ev # e # es, same)
         else case ins_rev evs ev es of (r, ok) \<Rightarrow> (e # r, same \<and> ok))"

definition insert_common_timeout_inorder :: "'b event_base \<Rightarrow> nat \<Rightarrow> ev_ptr \<Rightarrow> 'b event_base" where
  "insert_common_timeout_inorder base i ev =
     (let ctl = common_timeout_queues base ! i
      in case ins_rev (mem base) ev (rev (ctl_events ctl)) of
           (r, ok) \<Rightarrow> check ok (base\<lparr>common_timeout_queues := (common_timeout_queues base)
             [i := ctl\<lparr>ctl_events := rev r\<rparr>]\<rparr>))"

definition event_queue_insert_inserted :: "'b event_base \<Rightarrow> ev_ptr \<Rightarrow> 'b event_base" where
  "event_queue_insert_inserted base ev =
     (if has (flags_of base ev) EVLIST_INSERTED then check False base
      else set_ev ev (set_flag EVLIST_INSERTED) (INCR_EVENT_COUNT base (flags_of base ev)))"

definition count_active_up :: "'b event_base \<Rightarrow> 'b event_base" where
  "count_active_up base =
     (let base1 = base\<lparr>event_count_active := event_count_active base + 1\<rparr>
      in base1\<lparr>event_count_active_max := max (event_count_active_max base1) (event_count_active base1)\<rparr>)"

definition event_queue_insert_active :: "'b event_base \<Rightarrow> ev_ptr \<Rightarrow> 'b event_base" where
  "event_queue_insert_active base evcb =
     (if has (flags_of base evcb) EVLIST_ACTIVE then base
      else let base1 = set_ev evcb (set_flag EVLIST_ACTIVE) (INCR_EVENT_COUNT base (flags_of base evcb));
               base2 = count_active_up base1;
               pri = ev_pri (mem base2 evcb);
               base3 = check (pri < nactivequeues base2) base2
           in base3\<lparr>activequeues := (activequeues base3)[pri := activequeues base3 ! pri @ [evcb]]\<rparr>)"

definition event_queue_insert_active_later :: "'b event_base \<Rightarrow> ev_ptr \<Rightarrow> 'b event_base" where
  "event_queue_insert_active_later base evcb =
     (if has (flags_of base evcb) (EVLIST_ACTIVE_LATER OR EVLIST_ACTIVE) then base
      else let base1 = set_ev evcb (set_flag EVLIST_ACTIVE_LATER)
                         (INCR_EVENT_COUNT base (flags_of base evcb));
               base2 = count_active_up base1;
               base3 = check (ev_pri (mem base2 evcb) < nactivequeues base2) base2
           in base3\<lparr>active_later_queue := active_later_queue base3 @ [evcb]\<rparr>)"

text \<open>The result of \<^verbatim>\<open>min_heap_push_\<close> is ignored by the code; its allocation is one
  call of the allocator, made only when the array is full.\<close>

definition heap_push :: "'b event_base \<Rightarrow> ev_ptr \<Rightarrow> 'b event_base" where
  "heap_push base ev =
     (let full = mh_a (timeheap base) < mh_n (timeheap base) + 1;
          (base1, p) = (if full then mm_alloc base else (base, None))
      in case min_heap_push (p \<noteq> None) (timeheap base1) (mem base1) ev of
           (h, evs, _) \<Rightarrow> base1\<lparr>timeheap := h, mem := evs\<rparr>)"

definition event_queue_insert_timeout :: "'b event_base \<Rightarrow> ev_ptr \<Rightarrow> 'b event_base" where
  "event_queue_insert_timeout base ev =
     (if has (flags_of base ev) EVLIST_TIMEOUT then check False base
      else let base1 = set_ev ev (set_flag EVLIST_TIMEOUT) (INCR_EVENT_COUNT base (flags_of base ev));
               tv = ev_timeout (mem base1 ev)
           in if is_common_timeout tv base1
              then insert_common_timeout_inorder base1 (COMMON_TIMEOUT_IDX tv) ev
              else heap_push base1 ev)"

text \<open>The body of the loop of \<^verbatim>\<open>event_queue_make_later_events_active\<close>; \<open>rest\<close> is
  what \<^verbatim>\<open>TAILQ_REMOVE\<close> leaves of the queue.  The loop runs over the queue it empties, so
  it is a recursion on that queue.\<close>

definition make_later_one :: "'b event_base \<Rightarrow> ev_ptr \<Rightarrow> ev_ptr list \<Rightarrow> 'b event_base" where
  "make_later_one base evcb rest =
     (let base1 = base\<lparr>active_later_queue := rest\<rparr>;
          base2 = set_ev evcb (ev_flags_update (\<lambda>f. clr f EVLIST_ACTIVE_LATER OR EVLIST_ACTIVE)) base1;
          pri = ev_pri (mem base2 evcb);
          base3 = check (pri < nactivequeues base2) base2;
          base4 = base3\<lparr>activequeues := (activequeues base3)[pri := activequeues base3 ! pri @ [evcb]]\<rparr>
      in base4\<lparr>n_deferreds_queued := n_deferreds_queued base4 +
           (if ev_closure (mem base4 evcb) = EV_CLOSURE_CB_SELF then 1 else 0)\<rparr>)"

fun make_later_loop :: "'b event_base \<Rightarrow> ev_ptr list \<Rightarrow> 'b event_base" where
  "make_later_loop base [] = base"
| "make_later_loop base (evcb # rest) = make_later_loop (make_later_one base evcb rest) rest"

definition event_queue_make_later_events_active :: "'b event_base \<Rightarrow> 'b event_base" where
  "event_queue_make_later_events_active base = make_later_loop base (active_later_queue base)"


subsection \<open>Fields the operations leave alone\<close>

lemma set_ev_frame [simp, frame_simps]:
  "evsel (set_ev e f base) = evsel base" "evsigsel (set_ev e f base) = evsigsel base"
  "evbase (set_ev e f base) = evbase base"
  "virtual_event_count (set_ev e f base) = virtual_event_count base"
  "virtual_event_count_max (set_ev e f base) = virtual_event_count_max base"
  "event_count (set_ev e f base) = event_count base"
  "event_count_max (set_ev e f base) = event_count_max base"
  "event_count_active (set_ev e f base) = event_count_active base"
  "event_count_active_max (set_ev e f base) = event_count_active_max base"
  "event_gotterm (set_ev e f base) = event_gotterm base"
  "event_break (set_ev e f base) = event_break base"
  "event_continue (set_ev e f base) = event_continue base"
  "event_running_priority (set_ev e f base) = event_running_priority base"
  "running_loop (set_ev e f base) = running_loop base"
  "n_deferreds_queued (set_ev e f base) = n_deferreds_queued base"
  "activequeues (set_ev e f base) = activequeues base"
  "active_later_queue (set_ev e f base) = active_later_queue base"
  "common_timeout_queues (set_ev e f base) = common_timeout_queues base"
  "n_common_timeouts_allocated (set_ev e f base) = n_common_timeouts_allocated base"
  "io (set_ev e f base) = io base" "sigmap (set_ev e f base) = sigmap base"
  "timeheap (set_ev e f base) = timeheap base" "tv_cache (set_ev e f base) = tv_cache base"
  "monotonic_timer (set_ev e f base) = monotonic_timer base"
  "tv_clock_diff (set_ev e f base) = tv_clock_diff base"
  "last_updated_clock_diff (set_ev e f base) = last_updated_clock_diff base"
  "current_event (set_ev e f base) = current_event base"
  "base_flags (set_ev e f base) = base_flags base"
  "max_dispatch_time (set_ev e f base) = max_dispatch_time base"
  "max_dispatch_callbacks (set_ev e f base) = max_dispatch_callbacks base"
  "limit_callbacks_after_prio (set_ev e f base) = limit_callbacks_after_prio base"
  "once_events (set_ev e f base) = once_events base"
  "sig_ncalls (set_ev e f base) = sig_ncalls base" "mm (set_ev e f base) = mm base"
  "mm_calls (set_ev e f base) = mm_calls base" "wall (set_ev e f base) = wall base"
  "mclk (set_ev e f base) = mclk base" "clk_reads (set_ev e f base) = clk_reads base"
  "stack_junk (set_ev e f base) = stack_junk base"
  "called (set_ev e f base) = called base" "died (set_ev e f base) = died base"
  "mem (set_ev e f base) = upd_ev e f (mem base)"
  by (simp_all add: set_ev_def)

lemma check_frame [simp, frame_simps]:
  "evsel (check c base) = evsel base" "evsigsel (check c base) = evsigsel base"
  "evbase (check c base) = evbase base"
  "virtual_event_count (check c base) = virtual_event_count base"
  "virtual_event_count_max (check c base) = virtual_event_count_max base"
  "event_count (check c base) = event_count base"
  "event_count_max (check c base) = event_count_max base"
  "event_count_active (check c base) = event_count_active base"
  "event_count_active_max (check c base) = event_count_active_max base"
  "event_gotterm (check c base) = event_gotterm base"
  "event_break (check c base) = event_break base"
  "event_continue (check c base) = event_continue base"
  "event_running_priority (check c base) = event_running_priority base"
  "running_loop (check c base) = running_loop base"
  "n_deferreds_queued (check c base) = n_deferreds_queued base"
  "activequeues (check c base) = activequeues base"
  "active_later_queue (check c base) = active_later_queue base"
  "common_timeout_queues (check c base) = common_timeout_queues base"
  "n_common_timeouts_allocated (check c base) = n_common_timeouts_allocated base"
  "io (check c base) = io base" "sigmap (check c base) = sigmap base"
  "timeheap (check c base) = timeheap base" "tv_cache (check c base) = tv_cache base"
  "monotonic_timer (check c base) = monotonic_timer base"
  "tv_clock_diff (check c base) = tv_clock_diff base"
  "last_updated_clock_diff (check c base) = last_updated_clock_diff base"
  "current_event (check c base) = current_event base"
  "base_flags (check c base) = base_flags base"
  "max_dispatch_time (check c base) = max_dispatch_time base"
  "max_dispatch_callbacks (check c base) = max_dispatch_callbacks base"
  "limit_callbacks_after_prio (check c base) = limit_callbacks_after_prio base"
  "once_events (check c base) = once_events base" "sig_ncalls (check c base) = sig_ncalls base"
  "mm (check c base) = mm base" "mm_calls (check c base) = mm_calls base"
  "wall (check c base) = wall base" "mclk (check c base) = mclk base"
  "clk_reads (check c base) = clk_reads base" "stack_junk (check c base) = stack_junk base"
  "called (check c base) = called base"
  "mem (check c base) = mem base"
  "died (check c base) \<longleftrightarrow> died base \<or> \<not> c"
  by (simp_all add: check_def)

lemma INCR_frame [simp, frame_simps]:
  "evsel (INCR_EVENT_COUNT base fl) = evsel base"
  "evsigsel (INCR_EVENT_COUNT base fl) = evsigsel base"
  "evbase (INCR_EVENT_COUNT base fl) = evbase base"
  "virtual_event_count (INCR_EVENT_COUNT base fl) = virtual_event_count base"
  "virtual_event_count_max (INCR_EVENT_COUNT base fl) = virtual_event_count_max base"
  "event_count_active (INCR_EVENT_COUNT base fl) = event_count_active base"
  "event_count_active_max (INCR_EVENT_COUNT base fl) = event_count_active_max base"
  "event_gotterm (INCR_EVENT_COUNT base fl) = event_gotterm base"
  "event_break (INCR_EVENT_COUNT base fl) = event_break base"
  "event_continue (INCR_EVENT_COUNT base fl) = event_continue base"
  "event_running_priority (INCR_EVENT_COUNT base fl) = event_running_priority base"
  "running_loop (INCR_EVENT_COUNT base fl) = running_loop base"
  "n_deferreds_queued (INCR_EVENT_COUNT base fl) = n_deferreds_queued base"
  "activequeues (INCR_EVENT_COUNT base fl) = activequeues base"
  "active_later_queue (INCR_EVENT_COUNT base fl) = active_later_queue base"
  "common_timeout_queues (INCR_EVENT_COUNT base fl) = common_timeout_queues base"
  "n_common_timeouts_allocated (INCR_EVENT_COUNT base fl) = n_common_timeouts_allocated base"
  "io (INCR_EVENT_COUNT base fl) = io base" "sigmap (INCR_EVENT_COUNT base fl) = sigmap base"
  "timeheap (INCR_EVENT_COUNT base fl) = timeheap base"
  "tv_cache (INCR_EVENT_COUNT base fl) = tv_cache base"
  "monotonic_timer (INCR_EVENT_COUNT base fl) = monotonic_timer base"
  "tv_clock_diff (INCR_EVENT_COUNT base fl) = tv_clock_diff base"
  "last_updated_clock_diff (INCR_EVENT_COUNT base fl) = last_updated_clock_diff base"
  "current_event (INCR_EVENT_COUNT base fl) = current_event base"
  "base_flags (INCR_EVENT_COUNT base fl) = base_flags base"
  "max_dispatch_time (INCR_EVENT_COUNT base fl) = max_dispatch_time base"
  "max_dispatch_callbacks (INCR_EVENT_COUNT base fl) = max_dispatch_callbacks base"
  "limit_callbacks_after_prio (INCR_EVENT_COUNT base fl) = limit_callbacks_after_prio base"
  "once_events (INCR_EVENT_COUNT base fl) = once_events base"
  "sig_ncalls (INCR_EVENT_COUNT base fl) = sig_ncalls base"
  "mm (INCR_EVENT_COUNT base fl) = mm base"
  "mm_calls (INCR_EVENT_COUNT base fl) = mm_calls base"
  "wall (INCR_EVENT_COUNT base fl) = wall base" "mclk (INCR_EVENT_COUNT base fl) = mclk base"
  "clk_reads (INCR_EVENT_COUNT base fl) = clk_reads base"
  "stack_junk (INCR_EVENT_COUNT base fl) = stack_junk base"
  "called (INCR_EVENT_COUNT base fl) = called base"
  "died (INCR_EVENT_COUNT base fl) = died base" "mem (INCR_EVENT_COUNT base fl) = mem base"
  by (simp_all add: INCR_EVENT_COUNT_def Let_def)

lemma DECR_frame [simp, frame_simps]:
  "evsel (DECR_EVENT_COUNT base fl) = evsel base"
  "evsigsel (DECR_EVENT_COUNT base fl) = evsigsel base"
  "evbase (DECR_EVENT_COUNT base fl) = evbase base"
  "virtual_event_count (DECR_EVENT_COUNT base fl) = virtual_event_count base"
  "virtual_event_count_max (DECR_EVENT_COUNT base fl) = virtual_event_count_max base"
  "event_count_max (DECR_EVENT_COUNT base fl) = event_count_max base"
  "event_count_active (DECR_EVENT_COUNT base fl) = event_count_active base"
  "event_count_active_max (DECR_EVENT_COUNT base fl) = event_count_active_max base"
  "event_gotterm (DECR_EVENT_COUNT base fl) = event_gotterm base"
  "event_break (DECR_EVENT_COUNT base fl) = event_break base"
  "event_continue (DECR_EVENT_COUNT base fl) = event_continue base"
  "event_running_priority (DECR_EVENT_COUNT base fl) = event_running_priority base"
  "running_loop (DECR_EVENT_COUNT base fl) = running_loop base"
  "n_deferreds_queued (DECR_EVENT_COUNT base fl) = n_deferreds_queued base"
  "activequeues (DECR_EVENT_COUNT base fl) = activequeues base"
  "active_later_queue (DECR_EVENT_COUNT base fl) = active_later_queue base"
  "common_timeout_queues (DECR_EVENT_COUNT base fl) = common_timeout_queues base"
  "n_common_timeouts_allocated (DECR_EVENT_COUNT base fl) = n_common_timeouts_allocated base"
  "io (DECR_EVENT_COUNT base fl) = io base" "sigmap (DECR_EVENT_COUNT base fl) = sigmap base"
  "timeheap (DECR_EVENT_COUNT base fl) = timeheap base"
  "tv_cache (DECR_EVENT_COUNT base fl) = tv_cache base"
  "monotonic_timer (DECR_EVENT_COUNT base fl) = monotonic_timer base"
  "tv_clock_diff (DECR_EVENT_COUNT base fl) = tv_clock_diff base"
  "last_updated_clock_diff (DECR_EVENT_COUNT base fl) = last_updated_clock_diff base"
  "current_event (DECR_EVENT_COUNT base fl) = current_event base"
  "base_flags (DECR_EVENT_COUNT base fl) = base_flags base"
  "max_dispatch_time (DECR_EVENT_COUNT base fl) = max_dispatch_time base"
  "max_dispatch_callbacks (DECR_EVENT_COUNT base fl) = max_dispatch_callbacks base"
  "limit_callbacks_after_prio (DECR_EVENT_COUNT base fl) = limit_callbacks_after_prio base"
  "once_events (DECR_EVENT_COUNT base fl) = once_events base"
  "sig_ncalls (DECR_EVENT_COUNT base fl) = sig_ncalls base"
  "mm (DECR_EVENT_COUNT base fl) = mm base"
  "mm_calls (DECR_EVENT_COUNT base fl) = mm_calls base"
  "wall (DECR_EVENT_COUNT base fl) = wall base" "mclk (DECR_EVENT_COUNT base fl) = mclk base"
  "clk_reads (DECR_EVENT_COUNT base fl) = clk_reads base"
  "stack_junk (DECR_EVENT_COUNT base fl) = stack_junk base"
  "called (DECR_EVENT_COUNT base fl) = called base"
  "died (DECR_EVENT_COUNT base fl) = died base" "mem (DECR_EVENT_COUNT base fl) = mem base"
  by (simp_all add: DECR_EVENT_COUNT_def)

lemma count_active_up_frame [simp, frame_simps]:
  "evsel (count_active_up base) = evsel base" "evsigsel (count_active_up base) = evsigsel base"
  "evbase (count_active_up base) = evbase base"
  "virtual_event_count (count_active_up base) = virtual_event_count base"
  "virtual_event_count_max (count_active_up base) = virtual_event_count_max base"
  "event_count (count_active_up base) = event_count base"
  "event_count_max (count_active_up base) = event_count_max base"
  "event_gotterm (count_active_up base) = event_gotterm base"
  "event_break (count_active_up base) = event_break base"
  "event_continue (count_active_up base) = event_continue base"
  "event_running_priority (count_active_up base) = event_running_priority base"
  "running_loop (count_active_up base) = running_loop base"
  "n_deferreds_queued (count_active_up base) = n_deferreds_queued base"
  "activequeues (count_active_up base) = activequeues base"
  "active_later_queue (count_active_up base) = active_later_queue base"
  "common_timeout_queues (count_active_up base) = common_timeout_queues base"
  "n_common_timeouts_allocated (count_active_up base) = n_common_timeouts_allocated base"
  "io (count_active_up base) = io base" "sigmap (count_active_up base) = sigmap base"
  "timeheap (count_active_up base) = timeheap base"
  "tv_cache (count_active_up base) = tv_cache base"
  "monotonic_timer (count_active_up base) = monotonic_timer base"
  "tv_clock_diff (count_active_up base) = tv_clock_diff base"
  "last_updated_clock_diff (count_active_up base) = last_updated_clock_diff base"
  "current_event (count_active_up base) = current_event base"
  "base_flags (count_active_up base) = base_flags base"
  "max_dispatch_time (count_active_up base) = max_dispatch_time base"
  "max_dispatch_callbacks (count_active_up base) = max_dispatch_callbacks base"
  "limit_callbacks_after_prio (count_active_up base) = limit_callbacks_after_prio base"
  "once_events (count_active_up base) = once_events base"
  "sig_ncalls (count_active_up base) = sig_ncalls base" "mm (count_active_up base) = mm base"
  "mm_calls (count_active_up base) = mm_calls base" "wall (count_active_up base) = wall base"
  "mclk (count_active_up base) = mclk base" "clk_reads (count_active_up base) = clk_reads base"
  "stack_junk (count_active_up base) = stack_junk base"
  "called (count_active_up base) = called base"
  "died (count_active_up base) = died base" "mem (count_active_up base) = mem base"
  by (simp_all add: count_active_up_def Let_def)

lemma remove_inserted_frame [simp, frame_simps]:
  "evsel (event_queue_remove_inserted base e) = evsel base"
  "evsigsel (event_queue_remove_inserted base e) = evsigsel base"
  "evbase (event_queue_remove_inserted base e) = evbase base"
  "virtual_event_count (event_queue_remove_inserted base e) = virtual_event_count base"
  "virtual_event_count_max (event_queue_remove_inserted base e) = virtual_event_count_max base"
  "event_count_max (event_queue_remove_inserted base e) = event_count_max base"
  "event_count_active (event_queue_remove_inserted base e) = event_count_active base"
  "event_count_active_max (event_queue_remove_inserted base e) = event_count_active_max base"
  "event_gotterm (event_queue_remove_inserted base e) = event_gotterm base"
  "event_break (event_queue_remove_inserted base e) = event_break base"
  "event_continue (event_queue_remove_inserted base e) = event_continue base"
  "event_running_priority (event_queue_remove_inserted base e) = event_running_priority base"
  "running_loop (event_queue_remove_inserted base e) = running_loop base"
  "n_deferreds_queued (event_queue_remove_inserted base e) = n_deferreds_queued base"
  "activequeues (event_queue_remove_inserted base e) = activequeues base"
  "active_later_queue (event_queue_remove_inserted base e) = active_later_queue base"
  "common_timeout_queues (event_queue_remove_inserted base e) = common_timeout_queues base"
  "n_common_timeouts_allocated (event_queue_remove_inserted base e) = n_common_timeouts_allocated base"
  "io (event_queue_remove_inserted base e) = io base"
  "sigmap (event_queue_remove_inserted base e) = sigmap base"
  "timeheap (event_queue_remove_inserted base e) = timeheap base"
  "tv_cache (event_queue_remove_inserted base e) = tv_cache base"
  "monotonic_timer (event_queue_remove_inserted base e) = monotonic_timer base"
  "tv_clock_diff (event_queue_remove_inserted base e) = tv_clock_diff base"
  "last_updated_clock_diff (event_queue_remove_inserted base e) = last_updated_clock_diff base"
  "current_event (event_queue_remove_inserted base e) = current_event base"
  "base_flags (event_queue_remove_inserted base e) = base_flags base"
  "max_dispatch_time (event_queue_remove_inserted base e) = max_dispatch_time base"
  "max_dispatch_callbacks (event_queue_remove_inserted base e) = max_dispatch_callbacks base"
  "limit_callbacks_after_prio (event_queue_remove_inserted base e) = limit_callbacks_after_prio base"
  "once_events (event_queue_remove_inserted base e) = once_events base"
  "sig_ncalls (event_queue_remove_inserted base e) = sig_ncalls base"
  "mm (event_queue_remove_inserted base e) = mm base"
  "mm_calls (event_queue_remove_inserted base e) = mm_calls base"
  "wall (event_queue_remove_inserted base e) = wall base"
  "mclk (event_queue_remove_inserted base e) = mclk base"
  "clk_reads (event_queue_remove_inserted base e) = clk_reads base"
  "stack_junk (event_queue_remove_inserted base e) = stack_junk base"
  "called (event_queue_remove_inserted base e) = called base"
  by (simp_all add: event_queue_remove_inserted_def)

lemma insert_inserted_frame [simp, frame_simps]:
  "evsel (event_queue_insert_inserted base e) = evsel base"
  "evsigsel (event_queue_insert_inserted base e) = evsigsel base"
  "evbase (event_queue_insert_inserted base e) = evbase base"
  "virtual_event_count (event_queue_insert_inserted base e) = virtual_event_count base"
  "virtual_event_count_max (event_queue_insert_inserted base e) = virtual_event_count_max base"
  "event_count_active (event_queue_insert_inserted base e) = event_count_active base"
  "event_count_active_max (event_queue_insert_inserted base e) = event_count_active_max base"
  "event_gotterm (event_queue_insert_inserted base e) = event_gotterm base"
  "event_break (event_queue_insert_inserted base e) = event_break base"
  "event_continue (event_queue_insert_inserted base e) = event_continue base"
  "event_running_priority (event_queue_insert_inserted base e) = event_running_priority base"
  "running_loop (event_queue_insert_inserted base e) = running_loop base"
  "n_deferreds_queued (event_queue_insert_inserted base e) = n_deferreds_queued base"
  "activequeues (event_queue_insert_inserted base e) = activequeues base"
  "active_later_queue (event_queue_insert_inserted base e) = active_later_queue base"
  "common_timeout_queues (event_queue_insert_inserted base e) = common_timeout_queues base"
  "n_common_timeouts_allocated (event_queue_insert_inserted base e) = n_common_timeouts_allocated base"
  "io (event_queue_insert_inserted base e) = io base"
  "sigmap (event_queue_insert_inserted base e) = sigmap base"
  "timeheap (event_queue_insert_inserted base e) = timeheap base"
  "tv_cache (event_queue_insert_inserted base e) = tv_cache base"
  "monotonic_timer (event_queue_insert_inserted base e) = monotonic_timer base"
  "tv_clock_diff (event_queue_insert_inserted base e) = tv_clock_diff base"
  "last_updated_clock_diff (event_queue_insert_inserted base e) = last_updated_clock_diff base"
  "current_event (event_queue_insert_inserted base e) = current_event base"
  "base_flags (event_queue_insert_inserted base e) = base_flags base"
  "max_dispatch_time (event_queue_insert_inserted base e) = max_dispatch_time base"
  "max_dispatch_callbacks (event_queue_insert_inserted base e) = max_dispatch_callbacks base"
  "limit_callbacks_after_prio (event_queue_insert_inserted base e) = limit_callbacks_after_prio base"
  "once_events (event_queue_insert_inserted base e) = once_events base"
  "sig_ncalls (event_queue_insert_inserted base e) = sig_ncalls base"
  "mm (event_queue_insert_inserted base e) = mm base"
  "mm_calls (event_queue_insert_inserted base e) = mm_calls base"
  "wall (event_queue_insert_inserted base e) = wall base"
  "mclk (event_queue_insert_inserted base e) = mclk base"
  "clk_reads (event_queue_insert_inserted base e) = clk_reads base"
  "stack_junk (event_queue_insert_inserted base e) = stack_junk base"
  "called (event_queue_insert_inserted base e) = called base"
  by (simp_all add: event_queue_insert_inserted_def)

lemma remove_active_frame [simp, frame_simps]:
  "evsel (event_queue_remove_active base e) = evsel base"
  "evsigsel (event_queue_remove_active base e) = evsigsel base"
  "evbase (event_queue_remove_active base e) = evbase base"
  "virtual_event_count (event_queue_remove_active base e) = virtual_event_count base"
  "virtual_event_count_max (event_queue_remove_active base e) = virtual_event_count_max base"
  "event_count_max (event_queue_remove_active base e) = event_count_max base"
  "event_count_active_max (event_queue_remove_active base e) = event_count_active_max base"
  "event_gotterm (event_queue_remove_active base e) = event_gotterm base"
  "event_break (event_queue_remove_active base e) = event_break base"
  "event_continue (event_queue_remove_active base e) = event_continue base"
  "event_running_priority (event_queue_remove_active base e) = event_running_priority base"
  "running_loop (event_queue_remove_active base e) = running_loop base"
  "n_deferreds_queued (event_queue_remove_active base e) = n_deferreds_queued base"
  "active_later_queue (event_queue_remove_active base e) = active_later_queue base"
  "common_timeout_queues (event_queue_remove_active base e) = common_timeout_queues base"
  "n_common_timeouts_allocated (event_queue_remove_active base e) = n_common_timeouts_allocated base"
  "io (event_queue_remove_active base e) = io base"
  "sigmap (event_queue_remove_active base e) = sigmap base"
  "timeheap (event_queue_remove_active base e) = timeheap base"
  "tv_cache (event_queue_remove_active base e) = tv_cache base"
  "monotonic_timer (event_queue_remove_active base e) = monotonic_timer base"
  "tv_clock_diff (event_queue_remove_active base e) = tv_clock_diff base"
  "last_updated_clock_diff (event_queue_remove_active base e) = last_updated_clock_diff base"
  "current_event (event_queue_remove_active base e) = current_event base"
  "base_flags (event_queue_remove_active base e) = base_flags base"
  "max_dispatch_time (event_queue_remove_active base e) = max_dispatch_time base"
  "max_dispatch_callbacks (event_queue_remove_active base e) = max_dispatch_callbacks base"
  "limit_callbacks_after_prio (event_queue_remove_active base e) = limit_callbacks_after_prio base"
  "once_events (event_queue_remove_active base e) = once_events base"
  "sig_ncalls (event_queue_remove_active base e) = sig_ncalls base"
  "mm (event_queue_remove_active base e) = mm base"
  "mm_calls (event_queue_remove_active base e) = mm_calls base"
  "wall (event_queue_remove_active base e) = wall base"
  "mclk (event_queue_remove_active base e) = mclk base"
  "clk_reads (event_queue_remove_active base e) = clk_reads base"
  "stack_junk (event_queue_remove_active base e) = stack_junk base"
  "called (event_queue_remove_active base e) = called base"
  "nactivequeues (event_queue_remove_active base e) = nactivequeues base"
  by (simp_all add: event_queue_remove_active_def Let_def)

lemma insert_active_frame [simp, frame_simps]:
  "evsel (event_queue_insert_active base e) = evsel base"
  "evsigsel (event_queue_insert_active base e) = evsigsel base"
  "evbase (event_queue_insert_active base e) = evbase base"
  "virtual_event_count (event_queue_insert_active base e) = virtual_event_count base"
  "virtual_event_count_max (event_queue_insert_active base e) = virtual_event_count_max base"
  "event_gotterm (event_queue_insert_active base e) = event_gotterm base"
  "event_break (event_queue_insert_active base e) = event_break base"
  "event_continue (event_queue_insert_active base e) = event_continue base"
  "event_running_priority (event_queue_insert_active base e) = event_running_priority base"
  "running_loop (event_queue_insert_active base e) = running_loop base"
  "n_deferreds_queued (event_queue_insert_active base e) = n_deferreds_queued base"
  "active_later_queue (event_queue_insert_active base e) = active_later_queue base"
  "common_timeout_queues (event_queue_insert_active base e) = common_timeout_queues base"
  "n_common_timeouts_allocated (event_queue_insert_active base e) = n_common_timeouts_allocated base"
  "io (event_queue_insert_active base e) = io base"
  "sigmap (event_queue_insert_active base e) = sigmap base"
  "timeheap (event_queue_insert_active base e) = timeheap base"
  "tv_cache (event_queue_insert_active base e) = tv_cache base"
  "monotonic_timer (event_queue_insert_active base e) = monotonic_timer base"
  "tv_clock_diff (event_queue_insert_active base e) = tv_clock_diff base"
  "last_updated_clock_diff (event_queue_insert_active base e) = last_updated_clock_diff base"
  "current_event (event_queue_insert_active base e) = current_event base"
  "base_flags (event_queue_insert_active base e) = base_flags base"
  "max_dispatch_time (event_queue_insert_active base e) = max_dispatch_time base"
  "max_dispatch_callbacks (event_queue_insert_active base e) = max_dispatch_callbacks base"
  "limit_callbacks_after_prio (event_queue_insert_active base e) = limit_callbacks_after_prio base"
  "once_events (event_queue_insert_active base e) = once_events base"
  "sig_ncalls (event_queue_insert_active base e) = sig_ncalls base"
  "mm (event_queue_insert_active base e) = mm base"
  "mm_calls (event_queue_insert_active base e) = mm_calls base"
  "wall (event_queue_insert_active base e) = wall base"
  "mclk (event_queue_insert_active base e) = mclk base"
  "clk_reads (event_queue_insert_active base e) = clk_reads base"
  "stack_junk (event_queue_insert_active base e) = stack_junk base"
  "called (event_queue_insert_active base e) = called base"
  "nactivequeues (event_queue_insert_active base e) = nactivequeues base"
  by (simp_all add: event_queue_insert_active_def Let_def)

lemma remove_later_frame [simp, frame_simps]:
  "evsel (event_queue_remove_active_later base e) = evsel base"
  "evsigsel (event_queue_remove_active_later base e) = evsigsel base"
  "evbase (event_queue_remove_active_later base e) = evbase base"
  "virtual_event_count (event_queue_remove_active_later base e) = virtual_event_count base"
  "virtual_event_count_max (event_queue_remove_active_later base e) = virtual_event_count_max base"
  "event_count_max (event_queue_remove_active_later base e) = event_count_max base"
  "event_count_active_max (event_queue_remove_active_later base e) = event_count_active_max base"
  "event_gotterm (event_queue_remove_active_later base e) = event_gotterm base"
  "event_break (event_queue_remove_active_later base e) = event_break base"
  "event_continue (event_queue_remove_active_later base e) = event_continue base"
  "event_running_priority (event_queue_remove_active_later base e) = event_running_priority base"
  "running_loop (event_queue_remove_active_later base e) = running_loop base"
  "n_deferreds_queued (event_queue_remove_active_later base e) = n_deferreds_queued base"
  "activequeues (event_queue_remove_active_later base e) = activequeues base"
  "common_timeout_queues (event_queue_remove_active_later base e) = common_timeout_queues base"
  "n_common_timeouts_allocated (event_queue_remove_active_later base e) = n_common_timeouts_allocated base"
  "io (event_queue_remove_active_later base e) = io base"
  "sigmap (event_queue_remove_active_later base e) = sigmap base"
  "timeheap (event_queue_remove_active_later base e) = timeheap base"
  "tv_cache (event_queue_remove_active_later base e) = tv_cache base"
  "monotonic_timer (event_queue_remove_active_later base e) = monotonic_timer base"
  "tv_clock_diff (event_queue_remove_active_later base e) = tv_clock_diff base"
  "last_updated_clock_diff (event_queue_remove_active_later base e) = last_updated_clock_diff base"
  "current_event (event_queue_remove_active_later base e) = current_event base"
  "base_flags (event_queue_remove_active_later base e) = base_flags base"
  "max_dispatch_time (event_queue_remove_active_later base e) = max_dispatch_time base"
  "max_dispatch_callbacks (event_queue_remove_active_later base e) = max_dispatch_callbacks base"
  "limit_callbacks_after_prio (event_queue_remove_active_later base e) = limit_callbacks_after_prio base"
  "once_events (event_queue_remove_active_later base e) = once_events base"
  "sig_ncalls (event_queue_remove_active_later base e) = sig_ncalls base"
  "mm (event_queue_remove_active_later base e) = mm base"
  "mm_calls (event_queue_remove_active_later base e) = mm_calls base"
  "wall (event_queue_remove_active_later base e) = wall base"
  "mclk (event_queue_remove_active_later base e) = mclk base"
  "clk_reads (event_queue_remove_active_later base e) = clk_reads base"
  "stack_junk (event_queue_remove_active_later base e) = stack_junk base"
  "called (event_queue_remove_active_later base e) = called base"
  by (simp_all add: event_queue_remove_active_later_def Let_def)

lemma insert_later_frame [simp, frame_simps]:
  "evsel (event_queue_insert_active_later base e) = evsel base"
  "evsigsel (event_queue_insert_active_later base e) = evsigsel base"
  "evbase (event_queue_insert_active_later base e) = evbase base"
  "virtual_event_count (event_queue_insert_active_later base e) = virtual_event_count base"
  "virtual_event_count_max (event_queue_insert_active_later base e) = virtual_event_count_max base"
  "event_gotterm (event_queue_insert_active_later base e) = event_gotterm base"
  "event_break (event_queue_insert_active_later base e) = event_break base"
  "event_continue (event_queue_insert_active_later base e) = event_continue base"
  "event_running_priority (event_queue_insert_active_later base e) = event_running_priority base"
  "running_loop (event_queue_insert_active_later base e) = running_loop base"
  "n_deferreds_queued (event_queue_insert_active_later base e) = n_deferreds_queued base"
  "activequeues (event_queue_insert_active_later base e) = activequeues base"
  "common_timeout_queues (event_queue_insert_active_later base e) = common_timeout_queues base"
  "n_common_timeouts_allocated (event_queue_insert_active_later base e) = n_common_timeouts_allocated base"
  "io (event_queue_insert_active_later base e) = io base"
  "sigmap (event_queue_insert_active_later base e) = sigmap base"
  "timeheap (event_queue_insert_active_later base e) = timeheap base"
  "tv_cache (event_queue_insert_active_later base e) = tv_cache base"
  "monotonic_timer (event_queue_insert_active_later base e) = monotonic_timer base"
  "tv_clock_diff (event_queue_insert_active_later base e) = tv_clock_diff base"
  "last_updated_clock_diff (event_queue_insert_active_later base e) = last_updated_clock_diff base"
  "current_event (event_queue_insert_active_later base e) = current_event base"
  "base_flags (event_queue_insert_active_later base e) = base_flags base"
  "max_dispatch_time (event_queue_insert_active_later base e) = max_dispatch_time base"
  "max_dispatch_callbacks (event_queue_insert_active_later base e) = max_dispatch_callbacks base"
  "limit_callbacks_after_prio (event_queue_insert_active_later base e) = limit_callbacks_after_prio base"
  "once_events (event_queue_insert_active_later base e) = once_events base"
  "sig_ncalls (event_queue_insert_active_later base e) = sig_ncalls base"
  "mm (event_queue_insert_active_later base e) = mm base"
  "mm_calls (event_queue_insert_active_later base e) = mm_calls base"
  "wall (event_queue_insert_active_later base e) = wall base"
  "mclk (event_queue_insert_active_later base e) = mclk base"
  "clk_reads (event_queue_insert_active_later base e) = clk_reads base"
  "stack_junk (event_queue_insert_active_later base e) = stack_junk base"
  "called (event_queue_insert_active_later base e) = called base"
  by (simp_all add: event_queue_insert_active_later_def Let_def)

lemma remove_timeout_frame [simp, frame_simps]:
  "evsel (event_queue_remove_timeout base e) = evsel base"
  "evsigsel (event_queue_remove_timeout base e) = evsigsel base"
  "evbase (event_queue_remove_timeout base e) = evbase base"
  "virtual_event_count (event_queue_remove_timeout base e) = virtual_event_count base"
  "virtual_event_count_max (event_queue_remove_timeout base e) = virtual_event_count_max base"
  "event_count_max (event_queue_remove_timeout base e) = event_count_max base"
  "event_count_active (event_queue_remove_timeout base e) = event_count_active base"
  "event_count_active_max (event_queue_remove_timeout base e) = event_count_active_max base"
  "event_gotterm (event_queue_remove_timeout base e) = event_gotterm base"
  "event_break (event_queue_remove_timeout base e) = event_break base"
  "event_continue (event_queue_remove_timeout base e) = event_continue base"
  "event_running_priority (event_queue_remove_timeout base e) = event_running_priority base"
  "running_loop (event_queue_remove_timeout base e) = running_loop base"
  "n_deferreds_queued (event_queue_remove_timeout base e) = n_deferreds_queued base"
  "activequeues (event_queue_remove_timeout base e) = activequeues base"
  "active_later_queue (event_queue_remove_timeout base e) = active_later_queue base"
  "n_common_timeouts_allocated (event_queue_remove_timeout base e) = n_common_timeouts_allocated base"
  "io (event_queue_remove_timeout base e) = io base"
  "sigmap (event_queue_remove_timeout base e) = sigmap base"
  "tv_cache (event_queue_remove_timeout base e) = tv_cache base"
  "monotonic_timer (event_queue_remove_timeout base e) = monotonic_timer base"
  "tv_clock_diff (event_queue_remove_timeout base e) = tv_clock_diff base"
  "last_updated_clock_diff (event_queue_remove_timeout base e) = last_updated_clock_diff base"
  "current_event (event_queue_remove_timeout base e) = current_event base"
  "base_flags (event_queue_remove_timeout base e) = base_flags base"
  "max_dispatch_time (event_queue_remove_timeout base e) = max_dispatch_time base"
  "max_dispatch_callbacks (event_queue_remove_timeout base e) = max_dispatch_callbacks base"
  "limit_callbacks_after_prio (event_queue_remove_timeout base e) = limit_callbacks_after_prio base"
  "once_events (event_queue_remove_timeout base e) = once_events base"
  "sig_ncalls (event_queue_remove_timeout base e) = sig_ncalls base"
  "mm (event_queue_remove_timeout base e) = mm base"
  "mm_calls (event_queue_remove_timeout base e) = mm_calls base"
  "wall (event_queue_remove_timeout base e) = wall base"
  "mclk (event_queue_remove_timeout base e) = mclk base"
  "clk_reads (event_queue_remove_timeout base e) = clk_reads base"
  "stack_junk (event_queue_remove_timeout base e) = stack_junk base"
  "called (event_queue_remove_timeout base e) = called base"
  "n_common_timeouts (event_queue_remove_timeout base e) = n_common_timeouts base"
  by (simp_all add: event_queue_remove_timeout_def Let_def split: prod.splits)

lemma heap_push_frame [simp, frame_simps]:
  "evsel (heap_push base e) = evsel base" "evsigsel (heap_push base e) = evsigsel base"
  "evbase (heap_push base e) = evbase base"
  "virtual_event_count (heap_push base e) = virtual_event_count base"
  "virtual_event_count_max (heap_push base e) = virtual_event_count_max base"
  "event_count (heap_push base e) = event_count base"
  "event_count_max (heap_push base e) = event_count_max base"
  "event_count_active (heap_push base e) = event_count_active base"
  "event_count_active_max (heap_push base e) = event_count_active_max base"
  "event_gotterm (heap_push base e) = event_gotterm base"
  "event_break (heap_push base e) = event_break base"
  "event_continue (heap_push base e) = event_continue base"
  "event_running_priority (heap_push base e) = event_running_priority base"
  "running_loop (heap_push base e) = running_loop base"
  "n_deferreds_queued (heap_push base e) = n_deferreds_queued base"
  "activequeues (heap_push base e) = activequeues base"
  "active_later_queue (heap_push base e) = active_later_queue base"
  "common_timeout_queues (heap_push base e) = common_timeout_queues base"
  "n_common_timeouts_allocated (heap_push base e) = n_common_timeouts_allocated base"
  "io (heap_push base e) = io base" "sigmap (heap_push base e) = sigmap base"
  "tv_cache (heap_push base e) = tv_cache base"
  "monotonic_timer (heap_push base e) = monotonic_timer base"
  "tv_clock_diff (heap_push base e) = tv_clock_diff base"
  "last_updated_clock_diff (heap_push base e) = last_updated_clock_diff base"
  "current_event (heap_push base e) = current_event base"
  "base_flags (heap_push base e) = base_flags base"
  "max_dispatch_time (heap_push base e) = max_dispatch_time base"
  "max_dispatch_callbacks (heap_push base e) = max_dispatch_callbacks base"
  "limit_callbacks_after_prio (heap_push base e) = limit_callbacks_after_prio base"
  "once_events (heap_push base e) = once_events base"
  "sig_ncalls (heap_push base e) = sig_ncalls base" "mm (heap_push base e) = mm base"
  "wall (heap_push base e) = wall base" "mclk (heap_push base e) = mclk base"
  "clk_reads (heap_push base e) = clk_reads base"
  "stack_junk (heap_push base e) = stack_junk base"
  "called (heap_push base e) = called base" "died (heap_push base e) = died base"
  by (simp_all add: heap_push_def mm_alloc_def Let_def split: prod.splits)

lemma inorder_frame [simp, frame_simps]:
  "evsel (insert_common_timeout_inorder base i e) = evsel base"
  "evsigsel (insert_common_timeout_inorder base i e) = evsigsel base"
  "evbase (insert_common_timeout_inorder base i e) = evbase base"
  "virtual_event_count (insert_common_timeout_inorder base i e) = virtual_event_count base"
  "virtual_event_count_max (insert_common_timeout_inorder base i e) = virtual_event_count_max base"
  "event_count (insert_common_timeout_inorder base i e) = event_count base"
  "event_count_max (insert_common_timeout_inorder base i e) = event_count_max base"
  "event_count_active (insert_common_timeout_inorder base i e) = event_count_active base"
  "event_count_active_max (insert_common_timeout_inorder base i e) = event_count_active_max base"
  "event_gotterm (insert_common_timeout_inorder base i e) = event_gotterm base"
  "event_break (insert_common_timeout_inorder base i e) = event_break base"
  "event_continue (insert_common_timeout_inorder base i e) = event_continue base"
  "event_running_priority (insert_common_timeout_inorder base i e) = event_running_priority base"
  "running_loop (insert_common_timeout_inorder base i e) = running_loop base"
  "n_deferreds_queued (insert_common_timeout_inorder base i e) = n_deferreds_queued base"
  "activequeues (insert_common_timeout_inorder base i e) = activequeues base"
  "active_later_queue (insert_common_timeout_inorder base i e) = active_later_queue base"
  "n_common_timeouts_allocated (insert_common_timeout_inorder base i e) = n_common_timeouts_allocated base"
  "io (insert_common_timeout_inorder base i e) = io base"
  "sigmap (insert_common_timeout_inorder base i e) = sigmap base"
  "timeheap (insert_common_timeout_inorder base i e) = timeheap base"
  "tv_cache (insert_common_timeout_inorder base i e) = tv_cache base"
  "monotonic_timer (insert_common_timeout_inorder base i e) = monotonic_timer base"
  "tv_clock_diff (insert_common_timeout_inorder base i e) = tv_clock_diff base"
  "last_updated_clock_diff (insert_common_timeout_inorder base i e) = last_updated_clock_diff base"
  "current_event (insert_common_timeout_inorder base i e) = current_event base"
  "base_flags (insert_common_timeout_inorder base i e) = base_flags base"
  "max_dispatch_time (insert_common_timeout_inorder base i e) = max_dispatch_time base"
  "max_dispatch_callbacks (insert_common_timeout_inorder base i e) = max_dispatch_callbacks base"
  "limit_callbacks_after_prio (insert_common_timeout_inorder base i e) = limit_callbacks_after_prio base"
  "once_events (insert_common_timeout_inorder base i e) = once_events base"
  "sig_ncalls (insert_common_timeout_inorder base i e) = sig_ncalls base"
  "mm (insert_common_timeout_inorder base i e) = mm base"
  "mm_calls (insert_common_timeout_inorder base i e) = mm_calls base"
  "wall (insert_common_timeout_inorder base i e) = wall base"
  "mclk (insert_common_timeout_inorder base i e) = mclk base"
  "clk_reads (insert_common_timeout_inorder base i e) = clk_reads base"
  "stack_junk (insert_common_timeout_inorder base i e) = stack_junk base"
  "called (insert_common_timeout_inorder base i e) = called base"
  "mem (insert_common_timeout_inorder base i e) = mem base"
  "n_common_timeouts (insert_common_timeout_inorder base i e) = n_common_timeouts base"
  by (simp_all add: insert_common_timeout_inorder_def Let_def split: prod.splits)

lemma insert_timeout_frame [simp, frame_simps]:
  "evsel (event_queue_insert_timeout base e) = evsel base"
  "evsigsel (event_queue_insert_timeout base e) = evsigsel base"
  "evbase (event_queue_insert_timeout base e) = evbase base"
  "virtual_event_count (event_queue_insert_timeout base e) = virtual_event_count base"
  "virtual_event_count_max (event_queue_insert_timeout base e) = virtual_event_count_max base"
  "event_count_active (event_queue_insert_timeout base e) = event_count_active base"
  "event_count_active_max (event_queue_insert_timeout base e) = event_count_active_max base"
  "event_gotterm (event_queue_insert_timeout base e) = event_gotterm base"
  "event_break (event_queue_insert_timeout base e) = event_break base"
  "event_continue (event_queue_insert_timeout base e) = event_continue base"
  "event_running_priority (event_queue_insert_timeout base e) = event_running_priority base"
  "running_loop (event_queue_insert_timeout base e) = running_loop base"
  "n_deferreds_queued (event_queue_insert_timeout base e) = n_deferreds_queued base"
  "activequeues (event_queue_insert_timeout base e) = activequeues base"
  "active_later_queue (event_queue_insert_timeout base e) = active_later_queue base"
  "n_common_timeouts_allocated (event_queue_insert_timeout base e) = n_common_timeouts_allocated base"
  "io (event_queue_insert_timeout base e) = io base"
  "sigmap (event_queue_insert_timeout base e) = sigmap base"
  "tv_cache (event_queue_insert_timeout base e) = tv_cache base"
  "monotonic_timer (event_queue_insert_timeout base e) = monotonic_timer base"
  "tv_clock_diff (event_queue_insert_timeout base e) = tv_clock_diff base"
  "last_updated_clock_diff (event_queue_insert_timeout base e) = last_updated_clock_diff base"
  "current_event (event_queue_insert_timeout base e) = current_event base"
  "base_flags (event_queue_insert_timeout base e) = base_flags base"
  "max_dispatch_time (event_queue_insert_timeout base e) = max_dispatch_time base"
  "max_dispatch_callbacks (event_queue_insert_timeout base e) = max_dispatch_callbacks base"
  "limit_callbacks_after_prio (event_queue_insert_timeout base e) = limit_callbacks_after_prio base"
  "once_events (event_queue_insert_timeout base e) = once_events base"
  "sig_ncalls (event_queue_insert_timeout base e) = sig_ncalls base"
  "mm (event_queue_insert_timeout base e) = mm base"
  "wall (event_queue_insert_timeout base e) = wall base"
  "mclk (event_queue_insert_timeout base e) = mclk base"
  "clk_reads (event_queue_insert_timeout base e) = clk_reads base"
  "stack_junk (event_queue_insert_timeout base e) = stack_junk base"
  "called (event_queue_insert_timeout base e) = called base"
  "n_common_timeouts (event_queue_insert_timeout base e) = n_common_timeouts base"
  by (simp_all add: event_queue_insert_timeout_def Let_def)

subsection \<open>The invariant\<close>

text \<open>The flags \<open>EVLIST_ACTIVE\<close> and \<open>EVLIST_ACTIVE_LATER\<close> say which queue an event is
  on, an active event is on the queue of its priority, and no event is on two of them.\<close>

definition queues_ok :: "'b event_base \<Rightarrow> bool" where
  "queues_ok base \<longleftrightarrow>
     distinct (concat (activequeues base)) \<and> distinct (active_later_queue base) \<and>
     (\<forall>i < nactivequeues base. \<forall>e \<in> set (activequeues base ! i). ev_pri (mem base e) = i) \<and>
     (\<forall>e. has (flags_of base e) EVLIST_ACTIVE \<longleftrightarrow> e \<in> set (concat (activequeues base))) \<and>
     (\<forall>e. has (flags_of base e) EVLIST_ACTIVE_LATER \<longleftrightarrow> e \<in> set (active_later_queue base)) \<and>
     (\<forall>e. \<not> (has (flags_of base e) EVLIST_ACTIVE \<and> has (flags_of base e) EVLIST_ACTIVE_LATER)) \<and>
     (\<forall>e \<in> set (active_later_queue base). ev_pri (mem base e) < nactivequeues base)"

text \<open>An event is in the timer heap or in the common-timeout queue of its duration exactly when
  \<open>EVLIST_TIMEOUT\<close> is set; the queues are in order of deadline.\<close>

definition ctl_magic :: "nat \<Rightarrow> int" where
  "ctl_magic i = COMMON_TIMEOUT_MAGIC OR push_bit 20 (int i)"

definition ctl_ok :: "'b event_base \<Rightarrow> nat \<Rightarrow> bool" where
  "ctl_ok base i \<longleftrightarrow>
     (let es = ctl_events (common_timeout_queues base ! i)
      in distinct es \<and> sorted_wrt (\<lambda>a b. tmo (mem base) a \<le> tmo (mem base) b) es \<and>
         (\<forall>e. e \<in> set es \<longleftrightarrow>
            has (flags_of base e) EVLIST_TIMEOUT \<and> is_common_timeout (tmo (mem base) e) base \<and>
            COMMON_TIMEOUT_IDX (tmo (mem base) e) = i) \<and>
         (\<forall>e \<in> set es. tv_usec (tmo (mem base) e) AND NOT MICROSECONDS_MASK = ctl_magic i))"

definition timers_ok :: "'b event_base \<Rightarrow> bool" where
  "timers_ok base \<longleftrightarrow>
     heap_wf (timeheap base) (mem base) \<and>
     (\<forall>e. e \<in># heap_mset (timeheap base) \<longleftrightarrow>
        has (flags_of base e) EVLIST_TIMEOUT \<and> \<not> is_common_timeout (tmo (mem base) e) base) \<and>
     (\<forall>i < n_common_timeouts base. ctl_ok base i)"

text \<open>\<open>event_count\<close> counts every queue an ordinary event is on; internal events do not keep
  the loop alive and are not counted.\<close>

definition counted :: "'b event_base \<Rightarrow> u16 \<Rightarrow> ev_ptr set" where
  "counted base f = {e. has (flags_of base e) f \<and> \<not> has (flags_of base e) EVLIST_INTERNAL}"

definition flagged :: "'b event_base \<Rightarrow> u16 \<Rightarrow> ev_ptr set" where
  "flagged base f = {e. has (flags_of base e) f}"

definition counts_ok :: "'b event_base \<Rightarrow> bool" where
  "counts_ok base \<longleftrightarrow>
     (\<forall>f \<in> {EVLIST_INSERTED, EVLIST_ACTIVE, EVLIST_ACTIVE_LATER, EVLIST_TIMEOUT}. finite (flagged base f)) \<and>
     event_count base = int (card (counted base EVLIST_INSERTED) + card (counted base EVLIST_ACTIVE) +
       card (counted base EVLIST_ACTIVE_LATER) + card (counted base EVLIST_TIMEOUT)) \<and>
     event_count_active base =
       int (card (flagged base EVLIST_ACTIVE) + card (flagged base EVLIST_ACTIVE_LATER)) \<and>
     event_count base \<le> event_count_max base \<and> event_count_active base \<le> event_count_active_max base"

subsection \<open>What the parts of the invariant depend on\<close>

lemma active_pri:
  assumes "queues_ok base" "has (flags_of base e) EVLIST_ACTIVE"
  shows "ev_pri (mem base e) < nactivequeues base" "e \<in> set (activequeues base ! ev_pri (mem base e))"
proof -
  obtain i where "i < nactivequeues base" "e \<in> set (activequeues base ! i)"
    using assms by (auto simp: queues_ok_def in_set_conv_nth [of _ "activequeues base"])
  then show "ev_pri (mem base e) < nactivequeues base"
    "e \<in> set (activequeues base ! ev_pri (mem base e))"
    using assms by (auto simp: queues_ok_def)
qed

lemma active_at:
  assumes "queues_ok base" "i < nactivequeues base" "e \<in> set (activequeues base ! i)"
  shows "has (flags_of base e) EVLIST_ACTIVE" "ev_pri (mem base e) = i"
  using assms by (auto simp: queues_ok_def)

lemma queues_cong:
  assumes "activequeues base' = activequeues base" "active_later_queue base' = active_later_queue base"
    and "\<And>e. has (flags_of base' e) EVLIST_ACTIVE = has (flags_of base e) EVLIST_ACTIVE"
    and "\<And>e. has (flags_of base' e) EVLIST_ACTIVE_LATER = has (flags_of base e) EVLIST_ACTIVE_LATER"
    and pri: "\<And>e. has (flags_of base e) EVLIST_ACTIVE \<or> has (flags_of base e) EVLIST_ACTIVE_LATER \<Longrightarrow>
      ev_pri (mem base' e) = ev_pri (mem base e)"
    and ok: "queues_ok base"
  shows "queues_ok base'"
proof -
  have "ev_pri (mem base' e) = i" if "i < nactivequeues base" "e \<in> set (activequeues base ! i)" for i e
    using active_at [OF ok that] pri [of e] by simp
  moreover have "ev_pri (mem base' e) < nactivequeues base" if "e \<in> set (active_later_queue base)" for e
    using pri [of e] ok that by (simp add: queues_ok_def)
  ultimately show ?thesis using ok unfolding queues_ok_def assms(1-4) by blast
qed

lemma timers_cong:
  assumes "timeheap base' = timeheap base" "common_timeout_queues base' = common_timeout_queues base"
    and "\<And>e. has (flags_of base' e) EVLIST_TIMEOUT = has (flags_of base e) EVLIST_TIMEOUT"
    and "\<And>e. has (flags_of base e) EVLIST_TIMEOUT \<Longrightarrow>
      tmo (mem base') e = tmo (mem base) e \<and> min_heap_idx (mem base' e) = min_heap_idx (mem base e)"
    and ok: "timers_ok base"
  shows "timers_ok base'"
proof -
  have com: "is_common_timeout tv base' = is_common_timeout tv base" for tv
    using assms(2) by (simp add: is_common_timeout_def)
  have "heap_wf (timeheap base) (mem base') \<longleftrightarrow> heap_wf (timeheap base) (mem base)"
    by (rule heap_wf_cong) (use ok assms(4) in \<open>auto simp: timers_ok_def\<close>)
  moreover have "ctl_ok base' i" if "i < n_common_timeouts base" for i
  proof -
    let ?es = "ctl_events (common_timeout_queues base ! i)"
    have ci: "ctl_ok base i" using ok that by (simp add: timers_ok_def)
    then have mem: "has (flags_of base e) EVLIST_TIMEOUT" if "e \<in> set ?es" for e
      using that by (simp add: ctl_ok_def Let_def)
    have "sorted_wrt (\<lambda>a b. tmo (mem base') a \<le> tmo (mem base') b) ?es"
    proof (rule sorted_wrt_mono_rel)
      show "sorted_wrt (\<lambda>a b. tmo (mem base) a \<le> tmo (mem base) b) ?es"
        using ci by (simp add: ctl_ok_def Let_def)
    qed (use mem assms(4) in auto)
    then show ?thesis
      using ci mem assms(4) unfolding ctl_ok_def Let_def assms(2) com assms(3) by auto
  qed
  ultimately show ?thesis
    using ok assms(4) unfolding timers_ok_def assms(1-3) com by auto
qed

lemma counts_cong:
  assumes "event_count base' = event_count base" "event_count_max base' = event_count_max base"
    "event_count_active base' = event_count_active base"
    "event_count_active_max base' = event_count_active_max base"
    and "\<And>e f. f \<in> {EVLIST_INSERTED, EVLIST_ACTIVE, EVLIST_ACTIVE_LATER, EVLIST_TIMEOUT, EVLIST_INTERNAL}
      \<Longrightarrow> has (flags_of base' e) f = has (flags_of base e) f"
    and ok: "counts_ok base"
  shows "counts_ok base'"
proof -
  have "flagged base' f = flagged base f" "counted base' f = counted base f"
    if "f \<in> {EVLIST_INSERTED, EVLIST_ACTIVE, EVLIST_ACTIVE_LATER, EVLIST_TIMEOUT}" for f
    using assms(5) that by (auto simp: flagged_def counted_def)
  then show ?thesis using ok unfolding counts_ok_def assms(1-4) by simp
qed

subsection \<open>Counting\<close>

abbreviation queue_flags :: "u16 set" where
  "queue_flags \<equiv> {EVLIST_INSERTED, EVLIST_ACTIVE, EVLIST_ACTIVE_LATER, EVLIST_TIMEOUT}"

text \<open>One event gains, or loses, one of the counted flags.\<close>

lemma counts_up:
  assumes ok: "counts_ok base" and f: "f \<in> queue_flags" "\<not> has (flags_of base e) f"
    and fl: "\<And>x g. g \<in> insert EVLIST_INTERNAL queue_flags \<Longrightarrow>
      has (flags_of base' x) g \<longleftrightarrow> has (flags_of base x) g \<or> x = e \<and> g = f"
    and c: "event_count base' = event_count base + (if has (flags_of base e) EVLIST_INTERNAL then 0 else 1)"
      "event_count_max base' = max (event_count_max base) (event_count base')"
      "event_count_active base' =
        event_count_active base + (if f \<in> {EVLIST_ACTIVE, EVLIST_ACTIVE_LATER} then 1 else 0)"
      "max (event_count_active_max base) (event_count_active base') \<le> event_count_active_max base'"
  shows "counts_ok base'"
proof -
  have same: "flagged base' g = flagged base g" "counted base' g = counted base g"
    if "g \<in> queue_flags" "g \<noteq> f" for g
    using fl [of g] fl [of EVLIST_INTERNAL] f(1) that by (auto simp: flagged_def counted_def)
  have ff: "flagged base' f = insert e (flagged base f)" using fl [of f] f(1) by (auto simp: flagged_def)
  have cf: "counted base' f =
      (if has (flags_of base e) EVLIST_INTERNAL then counted base f else insert e (counted base f))"
    using fl [of f] fl [of EVLIST_INTERNAL] f by (auto simp: counted_def)
  have fin: "finite (flagged base g)" if "g \<in> queue_flags" for g using ok that by (auto simp: counts_ok_def)
  have finc: "finite (counted base g)" if "g \<in> queue_flags" for g
    using fin [OF that] by (rule rev_finite_subset) (auto simp: counted_def flagged_def)
  have n1: "e \<notin> flagged base f" "e \<notin> counted base f" using f(2) by (auto simp: flagged_def counted_def)
  have cards: "card (flagged base' f) = Suc (card (flagged base f))"
    "card (counted base' f) = card (counted base f) + (if has (flags_of base e) EVLIST_INTERNAL then 0 else 1)"
    using ff cf n1 fin [OF f(1)] finc [OF f(1)] by auto
  have fin': "finite (flagged base' g)" if "g \<in> queue_flags" for g
    using fin [OF that] same(1) [OF that] ff by (cases "g = f") auto
  consider "f = EVLIST_INSERTED" | "f = EVLIST_ACTIVE" | "f = EVLIST_ACTIVE_LATER" | "f = EVLIST_TIMEOUT"
    using f(1) by blast
  then show ?thesis
    using ok fin' cards same c by cases (simp_all add: counts_ok_def)
qed

lemma counts_down:
  assumes ok: "counts_ok base" and f: "f \<in> queue_flags" "has (flags_of base e) f"
    and fl: "\<And>x g. g \<in> insert EVLIST_INTERNAL queue_flags \<Longrightarrow>
      has (flags_of base' x) g \<longleftrightarrow> has (flags_of base x) g \<and> \<not> (x = e \<and> g = f)"
    and c: "event_count base' = event_count base - (if has (flags_of base e) EVLIST_INTERNAL then 0 else 1)"
      "event_count_max base' = event_count_max base"
      "event_count_active base' =
        event_count_active base - (if f \<in> {EVLIST_ACTIVE, EVLIST_ACTIVE_LATER} then 1 else 0)"
      "event_count_active_max base' = event_count_active_max base"
  shows "counts_ok base'"
proof -
  have same: "flagged base' g = flagged base g" "counted base' g = counted base g"
    if "g \<in> queue_flags" "g \<noteq> f" for g
    using fl [of g] fl [of EVLIST_INTERNAL] f(1) that by (auto simp: flagged_def counted_def)
  have ff: "flagged base f = insert e (flagged base' f)" "e \<notin> flagged base' f"
    using fl [of f] f by (auto simp: flagged_def)
  have cf: "counted base f =
      (if has (flags_of base e) EVLIST_INTERNAL then counted base' f else insert e (counted base' f))"
    "e \<notin> counted base' f"
    using fl [of f] fl [of EVLIST_INTERNAL] f by (auto simp: counted_def)
  have fin: "finite (flagged base g)" if "g \<in> queue_flags" for g using ok that by (auto simp: counts_ok_def)
  have fin': "finite (flagged base' g)" if "g \<in> queue_flags" for g
    using fin [OF that] same(1) [OF that] ff by (cases "g = f") auto
  have finc: "finite (counted base' g)" if "g \<in> queue_flags" for g
    using fin' [OF that] by (rule rev_finite_subset) (auto simp: counted_def flagged_def)
  have cards: "card (flagged base f) = Suc (card (flagged base' f))"
    "card (counted base f) = card (counted base' f) + (if has (flags_of base e) EVLIST_INTERNAL then 0 else 1)"
    using ff cf fin' [OF f(1)] finc [OF f(1)] by auto
  consider "f = EVLIST_INSERTED" | "f = EVLIST_ACTIVE" | "f = EVLIST_ACTIVE_LATER" | "f = EVLIST_TIMEOUT"
    using f(1) by blast
  then show ?thesis
    using ok fin' cards same c by cases (simp_all add: counts_ok_def)
qed

subsection \<open>Inserted events\<close>

lemma insert_inserted_mem:
  assumes "\<not> has (flags_of base e) EVLIST_INSERTED"
  shows "mem (event_queue_insert_inserted base e) = upd_ev e (set_flag EVLIST_INSERTED) (mem base)"
    "died (event_queue_insert_inserted base e) = died base"
  using assms by (simp_all add: event_queue_insert_inserted_def)

lemma insert_inserted_ok:
  assumes new: "\<not> has (flags_of base e) EVLIST_INSERTED"
  shows "queues_ok base \<Longrightarrow> queues_ok (event_queue_insert_inserted base e)"
    "timers_ok base \<Longrightarrow> timers_ok (event_queue_insert_inserted base e)"
    "counts_ok base \<Longrightarrow> counts_ok (event_queue_insert_inserted base e)"
proof -
  note [simp] = insert_inserted_mem [OF new]
  show "queues_ok base \<Longrightarrow> queues_ok (event_queue_insert_inserted base e)"
    by (rule queues_cong [of _ base]) (auto simp: upd_ev_apply)
  show "timers_ok base \<Longrightarrow> timers_ok (event_queue_insert_inserted base e)"
    by (rule timers_cong [of _ base]) (auto simp: upd_ev_apply)
  show "counts_ok base \<Longrightarrow> counts_ok (event_queue_insert_inserted base e)"
    by (rule counts_up [of base EVLIST_INSERTED e]) (use new in
        \<open>auto simp: upd_ev_apply event_queue_insert_inserted_def INCR_EVENT_COUNT_def Let_def counts_ok_def\<close>)
qed

lemma remove_inserted_mem:
  assumes "has (flags_of base e) EVLIST_INSERTED"
  shows "mem (event_queue_remove_inserted base e) = upd_ev e (clear_flag EVLIST_INSERTED) (mem base)"
    "died (event_queue_remove_inserted base e) = died base"
  using assms by (simp_all add: event_queue_remove_inserted_def)

lemma remove_inserted_ok:
  assumes old: "has (flags_of base e) EVLIST_INSERTED"
  shows "queues_ok base \<Longrightarrow> queues_ok (event_queue_remove_inserted base e)"
    "timers_ok base \<Longrightarrow> timers_ok (event_queue_remove_inserted base e)"
    "counts_ok base \<Longrightarrow> counts_ok (event_queue_remove_inserted base e)"
proof -
  note [simp] = remove_inserted_mem [OF old]
  show "queues_ok base \<Longrightarrow> queues_ok (event_queue_remove_inserted base e)"
    by (rule queues_cong [of _ base]) (auto simp: upd_ev_apply)
  show "timers_ok base \<Longrightarrow> timers_ok (event_queue_remove_inserted base e)"
    by (rule timers_cong [of _ base]) (auto simp: upd_ev_apply)
  show "counts_ok base \<Longrightarrow> counts_ok (event_queue_remove_inserted base e)"
    by (rule counts_down [of base EVLIST_INSERTED e]) (use old in
        \<open>auto simp: upd_ev_apply event_queue_remove_inserted_def DECR_EVENT_COUNT_def\<close>)
qed

subsection \<open>Active events\<close>

lemma queuesI:
  assumes "distinct (concat (activequeues base))" "distinct (active_later_queue base)"
    and "\<And>i e. i < nactivequeues base \<Longrightarrow> e \<in> set (activequeues base ! i) \<Longrightarrow> ev_pri (mem base e) = i"
    and "\<And>e. has (flags_of base e) EVLIST_ACTIVE \<longleftrightarrow> e \<in> set (concat (activequeues base))"
    and "\<And>e. has (flags_of base e) EVLIST_ACTIVE_LATER \<longleftrightarrow> e \<in> set (active_later_queue base)"
    and "\<And>e. has (flags_of base e) EVLIST_ACTIVE \<Longrightarrow> \<not> has (flags_of base e) EVLIST_ACTIVE_LATER"
    and "\<And>e. e \<in> set (active_later_queue base) \<Longrightarrow> ev_pri (mem base e) < nactivequeues base"
  shows "queues_ok base"
  unfolding queues_ok_def using assms by blast

lemma queuesD:
  assumes "queues_ok base"
  shows "distinct (concat (activequeues base))" "distinct (active_later_queue base)"
    and "e \<in> set (concat (activequeues base)) \<longleftrightarrow> has (flags_of base e) EVLIST_ACTIVE"
    and "e \<in> set (active_later_queue base) \<longleftrightarrow> has (flags_of base e) EVLIST_ACTIVE_LATER"
    and "has (flags_of base e) EVLIST_ACTIVE \<Longrightarrow> \<not> has (flags_of base e) EVLIST_ACTIVE_LATER"
    and "has (flags_of base e) EVLIST_ACTIVE_LATER \<Longrightarrow> ev_pri (mem base e) < nactivequeues base"
  using assms unfolding queues_ok_def by blast+

lemma insert_active_mem:
  assumes "\<not> has (flags_of base e) EVLIST_ACTIVE"
  shows "mem (event_queue_insert_active base e) = upd_ev e (set_flag EVLIST_ACTIVE) (mem base)"
    "activequeues (event_queue_insert_active base e) =
      (activequeues base)[ev_pri (mem base e) := activequeues base ! ev_pri (mem base e) @ [e]]"
    "died (event_queue_insert_active base e) \<longleftrightarrow>
      died base \<or> \<not> ev_pri (mem base e) < nactivequeues base"
  using assms by (simp_all add: event_queue_insert_active_def Let_def)

lemma insert_active_idle:
  "has (flags_of base e) EVLIST_ACTIVE \<Longrightarrow> event_queue_insert_active base e = base"
  by (simp add: event_queue_insert_active_def)

lemma insert_active_queues:
  assumes ok: "queues_ok base" and new: "\<not> has (flags_of base e) EVLIST_ACTIVE"
    and nl: "\<not> has (flags_of base e) EVLIST_ACTIVE_LATER"
    and pri: "ev_pri (mem base e) < nactivequeues base"
  shows "queues_ok (event_queue_insert_active base e)"
proof (rule queuesI, unfold insert_active_mem [OF new] concat_append_at [OF pri])
  show "e \<notin> set (concat (activequeues base)) \<and> distinct (concat (activequeues base))"
    using queuesD [OF ok] new by blast
next
  fix i x assume "i < length ((activequeues base)
      [ev_pri (mem base e) := activequeues base ! ev_pri (mem base e) @ [e]])"
    and "x \<in> set ((activequeues base)
      [ev_pri (mem base e) := activequeues base ! ev_pri (mem base e) @ [e]] ! i)"
  then show "ev_pri (upd_ev e (set_flag EVLIST_ACTIVE) (mem base) x) = i"
    using active_at(2) [OF ok] by (auto simp: in_append_at upd_ev_apply)
next
  fix x
  show "has (ev_flags (upd_ev e (set_flag EVLIST_ACTIVE) (mem base) x)) EVLIST_ACTIVE \<longleftrightarrow>
      x \<in> insert e (set (concat (activequeues base)))"
    unfolding insert_iff queuesD(3) [OF ok] by (simp add: upd_ev_apply)
  show "has (ev_flags (upd_ev e (set_flag EVLIST_ACTIVE) (mem base) x)) EVLIST_ACTIVE_LATER \<longleftrightarrow>
      x \<in> set (active_later_queue (event_queue_insert_active base e))"
    by (simp add: upd_ev_apply queuesD(4) [OF ok])
  show "\<not> has (ev_flags (upd_ev e (set_flag EVLIST_ACTIVE) (mem base) x)) EVLIST_ACTIVE_LATER"
    if "has (ev_flags (upd_ev e (set_flag EVLIST_ACTIVE) (mem base) x)) EVLIST_ACTIVE"
    using that nl queuesD(5) [OF ok, of x] by (auto simp: upd_ev_apply split: if_splits)
qed (use queuesD [OF ok] pri in \<open>auto simp: upd_ev_apply\<close>)

lemma insert_active_ok:
  assumes new: "\<not> has (flags_of base e) EVLIST_ACTIVE"
  shows "timers_ok base \<Longrightarrow> timers_ok (event_queue_insert_active base e)"
    "counts_ok base \<Longrightarrow> counts_ok (event_queue_insert_active base e)"
proof -
  note [simp] = insert_active_mem [OF new]
  show "timers_ok base \<Longrightarrow> timers_ok (event_queue_insert_active base e)"
    by (rule timers_cong [of _ base]) (auto simp: upd_ev_apply)
  show "counts_ok base \<Longrightarrow> counts_ok (event_queue_insert_active base e)"
    by (rule counts_up [of base EVLIST_ACTIVE e]) (use new in
        \<open>auto simp: upd_ev_apply event_queue_insert_active_def INCR_EVENT_COUNT_def count_active_up_def Let_def\<close>)
qed

lemma remove_active_mem:
  assumes "has (flags_of base e) EVLIST_ACTIVE"
  shows "mem (event_queue_remove_active base e) = upd_ev e (clear_flag EVLIST_ACTIVE) (mem base)"
    "activequeues (event_queue_remove_active base e) =
      (activequeues base)[ev_pri (mem base e) := remove1 e (activequeues base ! ev_pri (mem base e))]"
    "died (event_queue_remove_active base e) = died base"
  using assms by (simp_all add: event_queue_remove_active_def Let_def)

lemma remove_active_queues:
  assumes ok: "queues_ok base" and old: "has (flags_of base e) EVLIST_ACTIVE"
  shows "queues_ok (event_queue_remove_active base e)"
proof -
  note pri = active_pri [OF ok old] and dist = queuesD(1) [OF ok]
  show ?thesis
  proof (rule queuesI, unfold remove_active_mem [OF old] concat_remove_at(2) [OF pri dist])
    show "distinct (concat ((activequeues base)
        [ev_pri (mem base e) := remove1 e (activequeues base ! ev_pri (mem base e))]))"
      by (rule concat_remove_at(1) [OF pri dist])
  next
    fix i x assume a: "i < length ((activequeues base)
        [ev_pri (mem base e) := remove1 e (activequeues base ! ev_pri (mem base e))])"
      and b: "x \<in> set ((activequeues base)
        [ev_pri (mem base e) := remove1 e (activequeues base ! ev_pri (mem base e))] ! i)"
    then have "i < nactivequeues base" by simp
    from active_at(2) [OF ok this in_remove_at [OF this b]]
    show "ev_pri (upd_ev e (clear_flag EVLIST_ACTIVE) (mem base) x) = i" by (auto simp: upd_ev_apply)
  next
    fix x
    show "has (ev_flags (upd_ev e (clear_flag EVLIST_ACTIVE) (mem base) x)) EVLIST_ACTIVE \<longleftrightarrow>
        x \<in> set (concat (activequeues base)) - {e}"
      unfolding Diff_iff queuesD(3) [OF ok] by (simp add: upd_ev_apply)
    show "has (ev_flags (upd_ev e (clear_flag EVLIST_ACTIVE) (mem base) x)) EVLIST_ACTIVE_LATER \<longleftrightarrow>
        x \<in> set (active_later_queue (event_queue_remove_active base e))"
      by (simp add: upd_ev_apply queuesD(4) [OF ok])
    show "\<not> has (ev_flags (upd_ev e (clear_flag EVLIST_ACTIVE) (mem base) x)) EVLIST_ACTIVE_LATER"
      if "has (ev_flags (upd_ev e (clear_flag EVLIST_ACTIVE) (mem base) x)) EVLIST_ACTIVE"
      using that queuesD(5) [OF ok, of x] by (auto simp: upd_ev_apply split: if_splits)
  qed (use queuesD [OF ok] in \<open>auto simp: upd_ev_apply\<close>)
qed

lemma remove_active_ok:
  assumes old: "has (flags_of base e) EVLIST_ACTIVE"
  shows "timers_ok base \<Longrightarrow> timers_ok (event_queue_remove_active base e)"
    "counts_ok base \<Longrightarrow> counts_ok (event_queue_remove_active base e)"
proof -
  note [simp] = remove_active_mem [OF old]
  show "timers_ok base \<Longrightarrow> timers_ok (event_queue_remove_active base e)"
    by (rule timers_cong [of _ base]) (auto simp: upd_ev_apply)
  show "counts_ok base \<Longrightarrow> counts_ok (event_queue_remove_active base e)"
    by (rule counts_down [of base EVLIST_ACTIVE e]) (use old in
        \<open>auto simp: upd_ev_apply event_queue_remove_active_def DECR_EVENT_COUNT_def Let_def\<close>)
qed

lemma insert_later_mem:
  assumes "\<not> has (flags_of base e) EVLIST_ACTIVE" "\<not> has (flags_of base e) EVLIST_ACTIVE_LATER"
  shows "mem (event_queue_insert_active_later base e) = upd_ev e (set_flag EVLIST_ACTIVE_LATER) (mem base)"
    "active_later_queue (event_queue_insert_active_later base e) = active_later_queue base @ [e]"
    "died (event_queue_insert_active_later base e) \<longleftrightarrow>
      died base \<or> \<not> ev_pri (mem base e) < nactivequeues base"
  using assms by (simp_all add: event_queue_insert_active_later_def Let_def flag_simps)

lemma insert_later_queues:
  assumes ok: "queues_ok base" and new: "\<not> has (flags_of base e) EVLIST_ACTIVE"
      "\<not> has (flags_of base e) EVLIST_ACTIVE_LATER"
    and pri: "ev_pri (mem base e) < nactivequeues base"
  shows "queues_ok (event_queue_insert_active_later base e)"
proof (rule queuesI, unfold insert_later_mem [OF new] insert_later_frame)
  show "ev_pri (upd_ev e (set_flag EVLIST_ACTIVE_LATER) (mem base) x) = i"
    if "i < nactivequeues base" "x \<in> set (activequeues base ! i)" for i x
    using active_at(2) [OF ok that] by (auto simp: upd_ev_apply)
  show "has (ev_flags (upd_ev e (set_flag EVLIST_ACTIVE_LATER) (mem base) x)) EVLIST_ACTIVE \<longleftrightarrow>
      x \<in> set (concat (activequeues base))" for x
    unfolding queuesD(3) [OF ok] by (simp add: upd_ev_apply)
  show "distinct (concat (activequeues base))" by (rule queuesD(1) [OF ok])
  show "\<not> has (ev_flags (upd_ev e (set_flag EVLIST_ACTIVE_LATER) (mem base) x)) EVLIST_ACTIVE_LATER"
    if "has (ev_flags (upd_ev e (set_flag EVLIST_ACTIVE_LATER) (mem base) x)) EVLIST_ACTIVE" for x
    using that new queuesD(5) [OF ok, of x] by (auto simp: upd_ev_apply split: if_splits)
qed (use queuesD(2,4,6) [OF ok] new pri in \<open>auto simp: upd_ev_apply\<close>)

lemma insert_later_ok:
  assumes new: "\<not> has (flags_of base e) EVLIST_ACTIVE" "\<not> has (flags_of base e) EVLIST_ACTIVE_LATER"
  shows "timers_ok base \<Longrightarrow> timers_ok (event_queue_insert_active_later base e)"
    "counts_ok base \<Longrightarrow> counts_ok (event_queue_insert_active_later base e)"
proof -
  note [simp] = insert_later_mem [OF new]
  show "timers_ok base \<Longrightarrow> timers_ok (event_queue_insert_active_later base e)"
    by (rule timers_cong [of _ base]) (auto simp: upd_ev_apply)
  show "counts_ok base \<Longrightarrow> counts_ok (event_queue_insert_active_later base e)"
    by (rule counts_up [of base EVLIST_ACTIVE_LATER e]) (use new in
        \<open>auto simp: upd_ev_apply event_queue_insert_active_later_def INCR_EVENT_COUNT_def
           count_active_up_def Let_def flag_simps\<close>)
qed

lemma remove_later_mem:
  assumes "has (flags_of base e) EVLIST_ACTIVE_LATER"
  shows "mem (event_queue_remove_active_later base e) = upd_ev e (clear_flag EVLIST_ACTIVE_LATER) (mem base)"
    "active_later_queue (event_queue_remove_active_later base e) = remove1 e (active_later_queue base)"
    "died (event_queue_remove_active_later base e) = died base"
  using assms by (simp_all add: event_queue_remove_active_later_def Let_def)

lemma remove_later_queues:
  assumes ok: "queues_ok base" and old: "has (flags_of base e) EVLIST_ACTIVE_LATER"
  shows "queues_ok (event_queue_remove_active_later base e)"
proof (rule queuesI, unfold remove_later_mem [OF old] remove_later_frame)
  show "ev_pri (upd_ev e (clear_flag EVLIST_ACTIVE_LATER) (mem base) x) = i"
    if "i < nactivequeues base" "x \<in> set (activequeues base ! i)" for i x
    using active_at(2) [OF ok that] by (auto simp: upd_ev_apply)
  show "has (ev_flags (upd_ev e (clear_flag EVLIST_ACTIVE_LATER) (mem base) x)) EVLIST_ACTIVE \<longleftrightarrow>
      x \<in> set (concat (activequeues base))" for x
    unfolding queuesD(3) [OF ok] by (simp add: upd_ev_apply)
  show "distinct (concat (activequeues base))" by (rule queuesD(1) [OF ok])
  show "\<not> has (ev_flags (upd_ev e (clear_flag EVLIST_ACTIVE_LATER) (mem base) x)) EVLIST_ACTIVE_LATER"
    if "has (ev_flags (upd_ev e (clear_flag EVLIST_ACTIVE_LATER) (mem base) x)) EVLIST_ACTIVE" for x
    using that queuesD(5) [OF ok, of x] by (auto simp: upd_ev_apply split: if_splits)
qed (use queuesD(2,4,6) [OF ok] in \<open>auto simp: upd_ev_apply\<close>)

lemma remove_later_ok:
  assumes old: "has (flags_of base e) EVLIST_ACTIVE_LATER"
  shows "timers_ok base \<Longrightarrow> timers_ok (event_queue_remove_active_later base e)"
    "counts_ok base \<Longrightarrow> counts_ok (event_queue_remove_active_later base e)"
proof -
  note [simp] = remove_later_mem [OF old]
  show "timers_ok base \<Longrightarrow> timers_ok (event_queue_remove_active_later base e)"
    by (rule timers_cong [of _ base]) (auto simp: upd_ev_apply)
  show "counts_ok base \<Longrightarrow> counts_ok (event_queue_remove_active_later base e)"
    by (rule counts_down [of base EVLIST_ACTIVE_LATER e]) (use old in
        \<open>auto simp: upd_ev_apply event_queue_remove_active_later_def DECR_EVENT_COUNT_def Let_def\<close>)
qed

subsection \<open>Timers\<close>

lemma in_minus_single: "count M e \<le> 1 \<Longrightarrow> x \<in># M - {#e#} \<longleftrightarrow> x \<in># M \<and> x \<noteq> e"
  by (cases "x = e") (auto simp: not_in_iff in_diff_count)

lemma sorted_wrt_remove1: "sorted_wrt R xs \<Longrightarrow> sorted_wrt R (remove1 x xs)"
  by (induction xs) (use set_remove1_subset in fastforce)+

lemma timersD:
  assumes "timers_ok base"
  shows "heap_wf (timeheap base) (mem base)"
    "e \<in># heap_mset (timeheap base) \<longleftrightarrow>
      has (flags_of base e) EVLIST_TIMEOUT \<and> \<not> is_common_timeout (tmo (mem base) e) base"
    "i < n_common_timeouts base \<Longrightarrow> ctl_ok base i"
  using assms unfolding timers_ok_def by blast+

lemma min_heap_erase_size:
  assumes wf: "heap_wf s evs" and e: "e \<in># heap_mset s" and r: "min_heap_erase s evs e = (s', evs', k)"
  shows "mh_a s' = mh_a s" "mh_n s' = mh_n s - 1"
proof -
  obtain i where i: "i < mh_n s" "mh_p s ! i = e" "min_heap_idx (evs e) = int i"
    using idx_of_member [OF wf] e by (auto simp: heap_mset_def)
  obtain evs0 where res: "resift (s\<lparr>mh_n := mh_n s - 1\<rparr>) evs i (mh_p s ! (mh_n s - 1)) = (s', evs0)"
    using r by (auto simp: min_heap_erase_resift [of evs e i, OF i(3)] split: prod.splits)
  show "mh_a s' = mh_a s" "mh_n s' = mh_n s - 1"
    by (rule resift_last [OF wf i(1), folded One_nat_def, OF res])+
qed

lemma ctlD:
  assumes "ctl_ok base i"
  shows "distinct (ctl_events (common_timeout_queues base ! i))"
    "sorted_wrt (\<lambda>a b. tmo (mem base) a \<le> tmo (mem base) b) (ctl_events (common_timeout_queues base ! i))"
    "e \<in> set (ctl_events (common_timeout_queues base ! i)) \<longleftrightarrow>
      has (flags_of base e) EVLIST_TIMEOUT \<and> is_common_timeout (tmo (mem base) e) base \<and>
      COMMON_TIMEOUT_IDX (tmo (mem base) e) = i"
    "e \<in> set (ctl_events (common_timeout_queues base ! i)) \<Longrightarrow>
      tv_usec (tmo (mem base) e) AND NOT MICROSECONDS_MASK = ctl_magic i"
  using assms unfolding ctl_ok_def Let_def by blast+

lemma ctlI:
  assumes "distinct (ctl_events (common_timeout_queues base ! i))"
    "sorted_wrt (\<lambda>a b. tmo (mem base) a \<le> tmo (mem base) b) (ctl_events (common_timeout_queues base ! i))"
    "\<And>e. e \<in> set (ctl_events (common_timeout_queues base ! i)) \<longleftrightarrow>
      has (flags_of base e) EVLIST_TIMEOUT \<and> is_common_timeout (tmo (mem base) e) base \<and>
      COMMON_TIMEOUT_IDX (tmo (mem base) e) = i"
    "\<And>e. e \<in> set (ctl_events (common_timeout_queues base ! i)) \<Longrightarrow>
      tv_usec (tmo (mem base) e) AND NOT MICROSECONDS_MASK = ctl_magic i"
  shows "ctl_ok base i"
  using assms unfolding ctl_ok_def Let_def by blast

text \<open>A queue whose list is unchanged stays in order as long as its own events keep their
  deadlines and their flag.\<close>

lemma ctl_ok_cong:
  assumes ok: "ctl_ok base i"
    and es: "ctl_events (common_timeout_queues base' ! i) = ctl_events (common_timeout_queues base ! i)"
    and n: "n_common_timeouts base' = n_common_timeouts base"
    and t: "\<And>x. has (flags_of base x) EVLIST_TIMEOUT \<Longrightarrow> tmo (mem base') x = tmo (mem base) x"
    and f: "\<And>x. is_common_timeout (tmo (mem base') x) base \<Longrightarrow> COMMON_TIMEOUT_IDX (tmo (mem base') x) = i \<Longrightarrow>
      has (flags_of base' x) EVLIST_TIMEOUT \<longleftrightarrow> has (flags_of base x) EVLIST_TIMEOUT"
  shows "ctl_ok base' i"
proof -
  let ?es = "ctl_events (common_timeout_queues base ! i)"
  have com: "is_common_timeout tv base' = is_common_timeout tv base" for tv
    using n by (simp add: is_common_timeout_def)
  have mem: "has (flags_of base e) EVLIST_TIMEOUT" if "e \<in> set ?es" for e
    using ctlD(3) [OF ok] that by blast
  have srt: "sorted_wrt (\<lambda>a b. tmo (mem base') a \<le> tmo (mem base') b) ?es"
  proof (rule sorted_wrt_mono_rel)
    show "sorted_wrt (\<lambda>a b. tmo (mem base) a \<le> tmo (mem base) b) ?es"
      by (rule ctlD(2) [OF ok])
  qed (use mem t in auto)
  have mb: "e \<in> set ?es \<longleftrightarrow> has (flags_of base' e) EVLIST_TIMEOUT \<and>
      is_common_timeout (tmo (mem base') e) base \<and> COMMON_TIMEOUT_IDX (tmo (mem base') e) = i" for e
  proof (cases "has (flags_of base e) EVLIST_TIMEOUT")
    case True
    show ?thesis
      using True f [of e] ctlD(3) [OF ok, of e] unfolding t [OF True] by blast
  next
    case False
    then show ?thesis using mem [of e] f [of e] by blast
  qed
  show ?thesis
  proof (rule ctlI, unfold es com)
    show "tv_usec (tmo (mem base') e) AND NOT MICROSECONDS_MASK = ctl_magic i" if "e \<in> set ?es" for e
      unfolding t [OF mem [OF that]] by (rule ctlD(4) [OF ok that])
  qed (rule ctlD(1) [OF ok] srt mb)+
qed

lemma remove_timeout_common:
  assumes "has (flags_of base e) EVLIST_TIMEOUT" "is_common_timeout (tmo (mem base) e) base"
  defines "i \<equiv> COMMON_TIMEOUT_IDX (tmo (mem base) e)"
  shows "mem (event_queue_remove_timeout base e) = upd_ev e (clear_flag EVLIST_TIMEOUT) (mem base)"
    "timeheap (event_queue_remove_timeout base e) = timeheap base"
    "common_timeout_queues (event_queue_remove_timeout base e) = (common_timeout_queues base)
      [i := (common_timeout_queues base ! i)\<lparr>ctl_events := remove1 e (ctl_events (common_timeout_queues base ! i))\<rparr>]"
    "died (event_queue_remove_timeout base e) = died base"
proof -
  have "is_common_timeout (tmo (mem base) e)
      (set_ev e (clear_flag EVLIST_TIMEOUT) (DECR_EVENT_COUNT base (flags_of base e)))"
    using assms(2) by (simp add: is_common_timeout_def)
  then show "mem (event_queue_remove_timeout base e) = upd_ev e (clear_flag EVLIST_TIMEOUT) (mem base)"
    "timeheap (event_queue_remove_timeout base e) = timeheap base"
    "common_timeout_queues (event_queue_remove_timeout base e) = (common_timeout_queues base)
      [i := (common_timeout_queues base ! i)\<lparr>ctl_events := remove1 e (ctl_events (common_timeout_queues base ! i))\<rparr>]"
    "died (event_queue_remove_timeout base e) = died base"
    using assms(1) by (simp_all add: event_queue_remove_timeout_def Let_def i_def)
qed

lemma remove_timeout_heap:
  assumes "has (flags_of base e) EVLIST_TIMEOUT" "\<not> is_common_timeout (tmo (mem base) e) base"
    and er: "min_heap_erase (timeheap base) (upd_ev e (clear_flag EVLIST_TIMEOUT) (mem base)) e = (h, evs, r)"
  shows "mem (event_queue_remove_timeout base e) = evs"
    "timeheap (event_queue_remove_timeout base e) = h"
    "common_timeout_queues (event_queue_remove_timeout base e) = common_timeout_queues base"
    "died (event_queue_remove_timeout base e) = died base"
proof -
  have "\<not> is_common_timeout (tmo (mem base) e)
      (set_ev e (clear_flag EVLIST_TIMEOUT) (DECR_EVENT_COUNT base (flags_of base e)))"
    using assms(2) by (simp add: is_common_timeout_def)
  then show "mem (event_queue_remove_timeout base e) = evs"
    "timeheap (event_queue_remove_timeout base e) = h"
    "common_timeout_queues (event_queue_remove_timeout base e) = common_timeout_queues base"
    "died (event_queue_remove_timeout base e) = died base"
    using assms(1) er by (simp_all add: event_queue_remove_timeout_def Let_def)
qed

lemma remove_timeout_ok:
  assumes ok: "timers_ok base" and old: "has (flags_of base e) EVLIST_TIMEOUT"
  defines "base' \<equiv> event_queue_remove_timeout base e"
  shows "timers_ok base'" "died base' = died base"
    "idx_frame (set_mset (heap_mset (timeheap base))) (upd_ev e (clear_flag EVLIST_TIMEOUT) (mem base)) (mem base')"
    "mh_a (timeheap base') = mh_a (timeheap base)"
proof -
  have "timers_ok base' \<and> died base' = died base \<and>
    idx_frame (set_mset (heap_mset (timeheap base))) (upd_ev e (clear_flag EVLIST_TIMEOUT) (mem base)) (mem base') \<and>
    mh_a (timeheap base') = mh_a (timeheap base)"
  proof (cases "is_common_timeout (tmo (mem base) e) base")
  case True
  let ?i = "COMMON_TIMEOUT_IDX (tmo (mem base) e)"
  note rc = remove_timeout_common [OF old True, folded base'_def]
  have i: "?i < n_common_timeouts base" using True by (simp add: is_common_timeout_def)
  have com: "is_common_timeout tv base' = is_common_timeout tv base" for tv
    using rc(3) by (simp add: is_common_timeout_def)
  have hp: "e \<notin># heap_mset (timeheap base)" using timersD(2) [OF ok] True by blast
  have wf: "heap_wf (timeheap base) (upd_ev e (clear_flag EVLIST_TIMEOUT) (mem base))"
    by (subst heap_wf_cong [of _ _ "mem base"]) (auto simp: timersD(1) [OF ok])
  have ctl: "ctl_ok base' j" if "j < n_common_timeouts base" for j
  proof (cases "j = ?i")
    case jt: True
    have cj: "ctl_ok base ?i" by (rule timersD(3) [OF ok i])
    have es: "ctl_events (common_timeout_queues base' ! ?i) =
        remove1 e (ctl_events (common_timeout_queues base ! ?i))"
      using i by (simp add: rc)
    show ?thesis
      unfolding jt
    proof (rule ctlI, unfold es com)
      fix x
      show "x \<in> set (remove1 e (ctl_events (common_timeout_queues base ! ?i))) \<longleftrightarrow>
          has (flags_of base' x) EVLIST_TIMEOUT \<and> is_common_timeout (tmo (mem base') x) base \<and>
          COMMON_TIMEOUT_IDX (tmo (mem base') x) = ?i"
        using ctlD(1) [OF cj] ctlD(3) [OF cj, of x] by (simp add: rc)
      show "tv_usec (tmo (mem base') x) AND NOT MICROSECONDS_MASK = ctl_magic ?i"
        if "x \<in> set (remove1 e (ctl_events (common_timeout_queues base ! ?i)))"
        using that ctlD(1) [OF cj] ctlD(4) [OF cj, of x] by (simp add: rc)
    qed (use ctlD(1,2) [OF cj] in \<open>simp_all add: rc sorted_wrt_remove1\<close>)
  next
    case False
    show ?thesis
      by (rule ctl_ok_cong [OF timersD(3) [OF ok that]]) (use False rc in \<open>auto split: if_splits\<close>)
  qed
  have "timers_ok base'"
    unfolding timers_ok_def rc com using wf ctl timersD(2) [OF ok] True by auto
  then show "timers_ok base' \<and> died base' = died base \<and>
    idx_frame (set_mset (heap_mset (timeheap base))) (upd_ev e (clear_flag EVLIST_TIMEOUT) (mem base)) (mem base') \<and>
    mh_a (timeheap base') = mh_a (timeheap base)"
    using rc by simp
next
  case False
  let ?evs1 = "upd_ev e (clear_flag EVLIST_TIMEOUT) (mem base)"
  obtain h evs r where er: "min_heap_erase (timeheap base) ?evs1 e = (h, evs, r)" by (metis prod_cases3)
  note rh = remove_timeout_heap [OF old False er, folded base'_def]
  have wf: "heap_wf (timeheap base) ?evs1"
    by (subst heap_wf_cong [of _ _ "mem base"]) (auto simp: timersD(1) [OF ok])
  have e: "e \<in># heap_mset (timeheap base)" using timersD(2) [OF ok] old False by blast
  note he = mh.erase_in [OF wf e er]
  have fr: "idx_frame (set_mset (heap_mset (timeheap base))) ?evs1 evs" using he by blast
  have com: "is_common_timeout tv base' = is_common_timeout tv base" for tv
    using rh(3) by (simp add: is_common_timeout_def)
  have ctl: "ctl_ok base' j" if "j < n_common_timeouts base" for j
    by (rule ctl_ok_cong [OF timersD(3) [OF ok that]])
       (use False rh in \<open>auto simp: idx_frame_fields [OF fr] split: if_splits\<close>)
  have "x \<in># heap_mset h \<longleftrightarrow> has (flags_of base' x) EVLIST_TIMEOUT \<and>
      \<not> is_common_timeout (tmo (mem base') x) base" for x
    using he in_minus_single [OF mh.elems_distinct [OF wf], of x e] timersD(2) [OF ok, of x]
    by (simp add: rh idx_frame_fields [OF fr])
  then have "timers_ok base'"
    unfolding timers_ok_def com using rh he ctl by simp
  then show "timers_ok base' \<and> died base' = died base \<and>
    idx_frame (set_mset (heap_mset (timeheap base))) ?evs1 (mem base') \<and>
    mh_a (timeheap base') = mh_a (timeheap base)"
    using rh fr min_heap_erase_size(1) [OF wf e er] by simp
qed
  then show "timers_ok base'" "died base' = died base"
    "idx_frame (set_mset (heap_mset (timeheap base))) (upd_ev e (clear_flag EVLIST_TIMEOUT) (mem base)) (mem base')"
    "mh_a (timeheap base') = mh_a (timeheap base)"
    by auto
qed


lemma remove_timeout_rest:
  assumes ok: "timers_ok base" and old: "has (flags_of base e) EVLIST_TIMEOUT"
  shows "queues_ok base \<Longrightarrow> queues_ok (event_queue_remove_timeout base e)"
    "counts_ok base \<Longrightarrow> counts_ok (event_queue_remove_timeout base e)"
proof -
  note fr = idx_frame_fields [OF remove_timeout_ok(3) [OF ok old]]
  show "queues_ok base \<Longrightarrow> queues_ok (event_queue_remove_timeout base e)"
    by (rule queues_cong [of _ base]) (auto simp: fr)
  have cnt: "event_count (event_queue_remove_timeout base e) =
      event_count base - (if has (flags_of base e) EVLIST_INTERNAL then 0 else 1)"
    using old by (simp add: event_queue_remove_timeout_def DECR_EVENT_COUNT_def Let_def split: prod.splits)
  show "counts_ok base \<Longrightarrow> counts_ok (event_queue_remove_timeout base e)"
    by (rule counts_down [of base EVLIST_TIMEOUT e]) (use old cnt in \<open>auto simp: fr\<close>)
qed

text \<open>Inserting into a common-timeout queue keeps it sorted.\<close>

lemma ins_rev_Cons:
  "fst (ins_rev evs ev (e # es)) =
     (if tmo evs e \<le> tmo evs ev then ev # e # es else e # fst (ins_rev evs ev es))"
  "snd (ins_rev evs ev (e # es)) \<longleftrightarrow> is_same_common_timeout (tmo evs e) (tmo evs ev) \<and>
     (tmo evs e \<le> tmo evs ev \<or> snd (ins_rev evs ev es))"
  by (simp_all add: Let_def case_prod_unfold)

declare ins_rev.simps(2) [simp del]

lemma ins_rev_set: "set (fst (ins_rev evs ev es)) = insert ev (set es)"
  by (induction es) (auto simp: ins_rev_Cons)

lemma ins_rev_distinct: "distinct (fst (ins_rev evs ev es)) \<longleftrightarrow> distinct es \<and> ev \<notin> set es"
  by (induction es) (auto simp: ins_rev_Cons ins_rev_set)

lemma ins_rev_sorted:
  "sorted_wrt (\<lambda>a b. tmo evs b \<le> tmo evs a) es \<Longrightarrow>
   sorted_wrt (\<lambda>a b. tmo evs b \<le> tmo evs a) (fst (ins_rev evs ev es))"
  by (induction es) (auto simp: ins_rev_Cons ins_rev_set intro: order_trans)

lemma ins_rev_same:
  "(\<And>e. e \<in> set es \<Longrightarrow> is_same_common_timeout (tmo evs e) (tmo evs ev)) \<Longrightarrow> snd (ins_rev evs ev es)"
  by (induction es) (auto simp: ins_rev_Cons)

lemma insert_timeout_common:
  assumes "\<not> has (flags_of base e) EVLIST_TIMEOUT" "is_common_timeout (tmo (mem base) e) base"
  defines "i \<equiv> COMMON_TIMEOUT_IDX (tmo (mem base) e)"
  defines "ctl \<equiv> common_timeout_queues base ! i"
  defines "evs \<equiv> upd_ev e (set_flag EVLIST_TIMEOUT) (mem base)"
  shows "mem (event_queue_insert_timeout base e) = evs"
    "timeheap (event_queue_insert_timeout base e) = timeheap base"
    "mm_calls (event_queue_insert_timeout base e) = mm_calls base"
    "common_timeout_queues (event_queue_insert_timeout base e) = (common_timeout_queues base)
      [i := ctl\<lparr>ctl_events := rev (fst (ins_rev evs e (rev (ctl_events ctl))))\<rparr>]"
    "died (event_queue_insert_timeout base e) \<longleftrightarrow>
      died base \<or> \<not> snd (ins_rev evs e (rev (ctl_events ctl)))"
proof -
  let ?b = "set_ev e (set_flag EVLIST_TIMEOUT) (INCR_EVENT_COUNT base (flags_of base e))"
  have "is_common_timeout (tmo (mem base) e) ?b"
    using assms(2) by (simp add: is_common_timeout_def)
  then have "event_queue_insert_timeout base e = insert_common_timeout_inorder ?b i e"
    using assms(1) by (simp add: event_queue_insert_timeout_def Let_def i_def)
  then show "mem (event_queue_insert_timeout base e) = evs"
    "timeheap (event_queue_insert_timeout base e) = timeheap base"
    "mm_calls (event_queue_insert_timeout base e) = mm_calls base"
    "common_timeout_queues (event_queue_insert_timeout base e) = (common_timeout_queues base)
      [i := ctl\<lparr>ctl_events := rev (fst (ins_rev evs e (rev (ctl_events ctl))))\<rparr>]"
    "died (event_queue_insert_timeout base e) \<longleftrightarrow>
      died base \<or> \<not> snd (ins_rev evs e (rev (ctl_events ctl)))"
    by (simp_all add: insert_common_timeout_inorder_def Let_def ctl_def evs_def split: prod.splits)
qed

text \<open>With a free cell in the array, or memory for a bigger one, the push does not fail.\<close>

definition heap_room :: "'b event_base \<Rightarrow> bool" where
  "heap_room base \<longleftrightarrow> mh_n (timeheap base) < mh_a (timeheap base) \<or> mm base (mm_calls base) \<noteq> None"

lemma insert_timeout_heap:
  assumes "\<not> has (flags_of base e) EVLIST_TIMEOUT" "\<not> is_common_timeout (tmo (mem base) e) base"
    and room: "heap_room base"
  obtains ok h evs where
    "min_heap_push ok (timeheap base) (upd_ev e (set_flag EVLIST_TIMEOUT) (mem base)) e = (h, evs, 0)"
    "mem (event_queue_insert_timeout base e) = evs"
    "timeheap (event_queue_insert_timeout base e) = h"
    "common_timeout_queues (event_queue_insert_timeout base e) = common_timeout_queues base"
    "died (event_queue_insert_timeout base e) = died base"
proof -
  let ?b = "set_ev e (set_flag EVLIST_TIMEOUT) (INCR_EVENT_COUNT base (flags_of base e))"
  define ok where "ok \<longleftrightarrow> mh_a (timeheap base) \<le> mh_n (timeheap base)"
  obtain h evs r where pu:
      "min_heap_push ok (timeheap base) (upd_ev e (set_flag EVLIST_TIMEOUT) (mem base)) e = (h, evs, r)"
    by (metis prod_cases3)
  have r: "r = 0"
    using min_heap_push_result [of ok "timeheap base" "upd_ev e (set_flag EVLIST_TIMEOUT) (mem base)" e] pu
    by (auto simp: ok_def split: if_splits)
  have "\<not> is_common_timeout (tmo (mem base) e) ?b"
    using assms(2) by (simp add: is_common_timeout_def)
  then have "event_queue_insert_timeout base e = heap_push ?b e"
    using assms(1) by (simp add: event_queue_insert_timeout_def Let_def)
  moreover have "heap_push ?b e =
      (if ok then ?b\<lparr>mm_calls := mm_calls base + 1\<rparr> else ?b)\<lparr>timeheap := h, mem := evs\<rparr>"
    using room pu by (auto simp: heap_push_def mm_alloc_def Let_def ok_def heap_room_def less_Suc_eq_le)
  ultimately show thesis
    using pu r by (intro that [of ok h evs]) simp_all
qed

text \<open>A deadline that may enter the timers: one of a common queue carries exactly its magic bits,
  and for the heap there must be a free cell.\<close>

definition timer_ready :: "'b event_base \<Rightarrow> ev_ptr \<Rightarrow> bool" where
  "timer_ready base e \<longleftrightarrow>
     (if is_common_timeout (tmo (mem base) e) base
      then tv_usec (tmo (mem base) e) AND NOT MICROSECONDS_MASK =
             ctl_magic (COMMON_TIMEOUT_IDX (tmo (mem base) e))
      else heap_room base)"

lemma insert_timeout_ok:
  assumes ok: "timers_ok base" and new: "\<not> has (flags_of base e) EVLIST_TIMEOUT" and rdy: "timer_ready base e"
  defines "base' \<equiv> event_queue_insert_timeout base e"
  shows "timers_ok base'" "died base' = died base"
    "idx_frame (insert e (set_mset (heap_mset (timeheap base))))
      (upd_ev e (set_flag EVLIST_TIMEOUT) (mem base)) (mem base')"
proof -
  let ?evs1 = "upd_ev e (set_flag EVLIST_TIMEOUT) (mem base)"
  have com: "is_common_timeout tv base' = is_common_timeout tv base" for tv
    by (simp add: is_common_timeout_def base'_def)
  have wf: "heap_wf (timeheap base) ?evs1"
    by (subst heap_wf_cong [of _ _ "mem base"]) (auto simp: timersD(1) [OF ok])
  have "timers_ok base' \<and> died base' = died base \<and>
    idx_frame (insert e (set_mset (heap_mset (timeheap base)))) ?evs1 (mem base')"
  proof (cases "is_common_timeout (tmo (mem base) e) base")
    case True
    let ?i = "COMMON_TIMEOUT_IDX (tmo (mem base) e)"
    let ?es = "ctl_events (common_timeout_queues base ! ?i)"
    note ic = insert_timeout_common [OF new True, folded base'_def]
    have i: "?i < n_common_timeouts base" using True by (simp add: is_common_timeout_def)
    note ci = timersD(3) [OF ok i]
    have notin: "e \<notin> set ?es" using ctlD(3) [OF ci] new by blast
    have magic: "tv_usec (tmo (mem base) e) AND NOT MICROSECONDS_MASK = ctl_magic ?i"
      using rdy True by (simp add: timer_ready_def)
    have same: "snd (ins_rev ?evs1 e (rev ?es))"
      by (rule ins_rev_same) (use ctlD(4) [OF ci] magic in \<open>simp add: is_same_common_timeout_def\<close>)
    have ctl: "ctl_ok base' j" if "j < n_common_timeouts base" for j
    proof (cases "j = ?i")
      case jt: True
      have es: "ctl_events (common_timeout_queues base' ! ?i) = rev (fst (ins_rev ?evs1 e (rev ?es)))"
        using i by (simp add: ic)
      show ?thesis
        unfolding jt
      proof (rule ctlI, unfold es com)
        show "sorted_wrt (\<lambda>a b. tmo (mem base') a \<le> tmo (mem base') b)
            (rev (fst (ins_rev ?evs1 e (rev ?es))))"
          using ins_rev_sorted [of ?evs1 "rev ?es" e] ctlD(2) [OF ci]
          by (simp add: ic sorted_wrt_rev)
        fix x
        show "x \<in> set (rev (fst (ins_rev ?evs1 e (rev ?es)))) \<longleftrightarrow>
            has (flags_of base' x) EVLIST_TIMEOUT \<and> is_common_timeout (tmo (mem base') x) base \<and>
            COMMON_TIMEOUT_IDX (tmo (mem base') x) = ?i"
          using ctlD(3) [OF ci, of x] True by (auto simp: ic ins_rev_set)
        show "tv_usec (tmo (mem base') x) AND NOT MICROSECONDS_MASK = ctl_magic ?i"
          if "x \<in> set (rev (fst (ins_rev ?evs1 e (rev ?es))))"
          using that ctlD(4) [OF ci, of x] magic by (auto simp: ic ins_rev_set)
      qed (use ctlD(1) [OF ci] notin in \<open>simp add: ins_rev_distinct\<close>)
    next
      case False
      show ?thesis
        by (rule ctl_ok_cong [OF timersD(3) [OF ok that]]) (use False ic in \<open>auto split: if_splits\<close>)
    qed
    have "timers_ok base'"
      unfolding timers_ok_def com using wf ctl timersD(2) [OF ok] True by (auto simp: ic)
    then show ?thesis using ic same by simp
  next
    case False
    have room: "heap_room base" using rdy False by (simp add: timer_ready_def)
    obtain ok h evs where pu: "min_heap_push ok (timeheap base) ?evs1 e = (h, evs, 0)" and
      ih: "mem base' = evs" "timeheap base' = h" "common_timeout_queues base' = common_timeout_queues base"
        "died base' = died base"
      using insert_timeout_heap [OF new False room] unfolding base'_def by blast
    have notin: "e \<notin># heap_mset (timeheap base)" using timersD(2) [OF ok] new by blast
    note hp = mh.push_0 [OF wf notin pu]
    have fr: "idx_frame (insert e (set_mset (heap_mset (timeheap base)))) ?evs1 evs" using hp by blast
    have ctl: "ctl_ok base' j" if "j < n_common_timeouts base" for j
      by (rule ctl_ok_cong [OF timersD(3) [OF ok that]])
         (use False ih in \<open>auto simp: idx_frame_fields [OF fr] split: if_splits\<close>)
    have "x \<in># heap_mset h \<longleftrightarrow> has (flags_of base' x) EVLIST_TIMEOUT \<and>
        \<not> is_common_timeout (tmo (mem base') x) base" for x
      using hp timersD(2) [OF ok, of x] False by (auto simp: ih idx_frame_fields [OF fr])
    then have "timers_ok base'"
      unfolding timers_ok_def com using ih hp ctl by simp
    then show ?thesis using ih fr by simp
  qed
  then show "timers_ok base'" "died base' = died base"
    "idx_frame (insert e (set_mset (heap_mset (timeheap base)))) ?evs1 (mem base')"
    by auto
qed

lemma insert_timeout_rest:
  assumes ok: "timers_ok base" and new: "\<not> has (flags_of base e) EVLIST_TIMEOUT" and rdy: "timer_ready base e"
  shows "queues_ok base \<Longrightarrow> queues_ok (event_queue_insert_timeout base e)"
    "counts_ok base \<Longrightarrow> counts_ok (event_queue_insert_timeout base e)"
proof -
  note fr = idx_frame_fields [OF insert_timeout_ok(3) [OF ok new rdy]]
  show "queues_ok base \<Longrightarrow> queues_ok (event_queue_insert_timeout base e)"
    by (rule queues_cong [of _ base]) (auto simp: fr)
  have cnt: "event_count (event_queue_insert_timeout base e) =
      event_count base + (if has (flags_of base e) EVLIST_INTERNAL then 0 else 1)"
    "event_count_max (event_queue_insert_timeout base e) =
      max (event_count_max base) (event_count (event_queue_insert_timeout base e))"
    using new by (simp_all add: event_queue_insert_timeout_def INCR_EVENT_COUNT_def Let_def)
  show "counts_ok base \<Longrightarrow> counts_ok (event_queue_insert_timeout base e)"
    by (rule counts_up [of base EVLIST_TIMEOUT e]) (use new cnt in \<open>auto simp: fr counts_ok_def\<close>)
qed

subsection \<open>Promoting the events for the next round\<close>

text \<open>One step of the promotion is a removal from the one queue followed by an insertion into the
  other; the maxima do not move because the counts return to where they were.\<close>

lemma make_later_one_eq:
  assumes q: "queues_ok base" and c: "counts_ok base" and l: "active_later_queue base = e # rest"
  shows "make_later_one base e rest =
    (event_queue_insert_active (event_queue_remove_active_later base e) e)
      \<lparr>n_deferreds_queued := n_deferreds_queued base +
         (if ev_closure (mem base e) = EV_CLOSURE_CB_SELF then 1 else 0)\<rparr>"
proof -
  have fl: "has (flags_of base e) EVLIST_ACTIVE_LATER" using queuesD(4) [OF q, of e] l by simp
  have na: "\<not> has (flags_of base e) EVLIST_ACTIVE" using queuesD(5) [OF q, of e] fl by blast
  have pri: "ev_pri (mem base e) < nactivequeues base" using queuesD(6) [OF q, of e] fl by blast
  have mx: "event_count base \<le> event_count_max base" "event_count_active base \<le> event_count_active_max base"
    using c by (auto simp: counts_ok_def)
  show ?thesis
    by (rule event_base.equality) (use fl na pri mx l in \<open>simp_all add: make_later_one_def
        event_queue_insert_active_def event_queue_remove_active_later_def INCR_EVENT_COUNT_def
        DECR_EVENT_COUNT_def count_active_up_def Let_def set_ev_def check_def upd_ev_def max_absorb1 comp_def\<close>)
qed

lemma make_later_one_ok:
  assumes q: "queues_ok base" and c: "counts_ok base" and t: "timers_ok base"
    and l: "active_later_queue base = e # rest"
  defines "base' \<equiv> make_later_one base e rest"
  shows "queues_ok base'" "counts_ok base'" "timers_ok base'" "active_later_queue base' = rest"
    "died base' = died base"
    "mem base' = upd_ev e (ev_flags_update (\<lambda>f. clr f EVLIST_ACTIVE_LATER OR EVLIST_ACTIVE)) (mem base)"
    "activequeues base' =
      (activequeues base)[ev_pri (mem base e) := activequeues base ! ev_pri (mem base e) @ [e]]"
proof -
  let ?b1 = "event_queue_remove_active_later base e"
  let ?b2 = "event_queue_insert_active ?b1 e"
  have fl: "has (flags_of base e) EVLIST_ACTIVE_LATER" using queuesD(4) [OF q, of e] l by simp
  have na: "\<not> has (flags_of base e) EVLIST_ACTIVE" using queuesD(5) [OF q, of e] fl by blast
  have pri: "ev_pri (mem base e) < nactivequeues base" using queuesD(6) [OF q, of e] fl by blast
  have na1: "\<not> has (flags_of ?b1 e) EVLIST_ACTIVE" "\<not> has (flags_of ?b1 e) EVLIST_ACTIVE_LATER"
    "ev_pri (mem ?b1 e) < nactivequeues ?b1"
    using na fl pri by (simp_all add: remove_later_mem)
  have q2: "queues_ok ?b2"
    using insert_active_queues [OF remove_later_queues [OF q fl] na1(1) na1(2) na1(3)] .
  have t2: "timers_ok ?b2" by (rule insert_active_ok(1) [OF na1(1) remove_later_ok(1) [OF fl t]])
  have c2: "counts_ok ?b2" by (rule insert_active_ok(2) [OF na1(1) remove_later_ok(2) [OF fl c]])
  note eq = make_later_one_eq [OF q c l, folded base'_def]
  show "queues_ok base'" by (rule queues_cong [OF _ _ _ _ _ q2]) (simp_all add: eq)
  show "timers_ok base'" by (rule timers_cong [OF _ _ _ _ t2]) (simp_all add: eq)
  show "counts_ok base'" by (rule counts_cong [OF _ _ _ _ _ c2]) (simp_all add: eq)
  show "active_later_queue base' = rest" using l by (simp add: eq remove_later_mem [OF fl])
  show "died base' = died base" using pri by (simp add: base'_def make_later_one_def Let_def)
  show "mem base' = upd_ev e (ev_flags_update (\<lambda>f. clr f EVLIST_ACTIVE_LATER OR EVLIST_ACTIVE)) (mem base)"
    by (simp add: base'_def make_later_one_def Let_def)
  show "activequeues base' =
      (activequeues base)[ev_pri (mem base e) := activequeues base ! ev_pri (mem base e) @ [e]]"
    by (simp add: base'_def make_later_one_def Let_def)
qed

lemma make_later_loop_ok:
  assumes "queues_ok base" "counts_ok base" "timers_ok base" "active_later_queue base = es"
  shows "queues_ok (make_later_loop base es) \<and> counts_ok (make_later_loop base es) \<and>
    timers_ok (make_later_loop base es) \<and> active_later_queue (make_later_loop base es) = [] \<and>
    died (make_later_loop base es) = died base \<and>
    nactivequeues (make_later_loop base es) = nactivequeues base \<and>
    (\<forall>i < nactivequeues base. activequeues (make_later_loop base es) ! i =
       activequeues base ! i @ filter (\<lambda>e. ev_pri (mem base e) = i) es)"
  using assms
proof (induction es arbitrary: base)
  case (Cons e es)
  note step = make_later_one_ok [OF Cons.prems]
  note IH = Cons.IH [OF step(1-4)]
  have pri: "ev_pri (mem base e) < nactivequeues base"
    using queuesD(4,6) [OF Cons.prems(1), of e] Cons.prems(4) by simp
  have pris: "ev_pri (mem (make_later_one base e es) x) = ev_pri (mem base x)" for x
    by (simp add: step(6))
  show ?case using IH pri by (simp add: step(5,7) pris nth_list_update)
qed simp

text \<open>The base fields the promotion leaves alone.\<close>

lemma make_later_one_frame [simp, frame_simps]:
  "evsel (make_later_one base e rest) = evsel base"
  "evsigsel (make_later_one base e rest) = evsigsel base"
  "evbase (make_later_one base e rest) = evbase base"
  "virtual_event_count (make_later_one base e rest) = virtual_event_count base"
  "virtual_event_count_max (make_later_one base e rest) = virtual_event_count_max base"
  "event_count (make_later_one base e rest) = event_count base"
  "event_count_max (make_later_one base e rest) = event_count_max base"
  "event_count_active (make_later_one base e rest) = event_count_active base"
  "event_count_active_max (make_later_one base e rest) = event_count_active_max base"
  "event_gotterm (make_later_one base e rest) = event_gotterm base"
  "event_break (make_later_one base e rest) = event_break base"
  "event_continue (make_later_one base e rest) = event_continue base"
  "event_running_priority (make_later_one base e rest) = event_running_priority base"
  "running_loop (make_later_one base e rest) = running_loop base"
  "common_timeout_queues (make_later_one base e rest) = common_timeout_queues base"
  "n_common_timeouts_allocated (make_later_one base e rest) = n_common_timeouts_allocated base"
  "io (make_later_one base e rest) = io base"
  "sigmap (make_later_one base e rest) = sigmap base"
  "timeheap (make_later_one base e rest) = timeheap base"
  "tv_cache (make_later_one base e rest) = tv_cache base"
  "monotonic_timer (make_later_one base e rest) = monotonic_timer base"
  "tv_clock_diff (make_later_one base e rest) = tv_clock_diff base"
  "last_updated_clock_diff (make_later_one base e rest) = last_updated_clock_diff base"
  "current_event (make_later_one base e rest) = current_event base"
  "base_flags (make_later_one base e rest) = base_flags base"
  "max_dispatch_time (make_later_one base e rest) = max_dispatch_time base"
  "max_dispatch_callbacks (make_later_one base e rest) = max_dispatch_callbacks base"
  "limit_callbacks_after_prio (make_later_one base e rest) = limit_callbacks_after_prio base"
  "once_events (make_later_one base e rest) = once_events base"
  "sig_ncalls (make_later_one base e rest) = sig_ncalls base"
  "mm (make_later_one base e rest) = mm base"
  "mm_calls (make_later_one base e rest) = mm_calls base"
  "wall (make_later_one base e rest) = wall base"
  "mclk (make_later_one base e rest) = mclk base"
  "clk_reads (make_later_one base e rest) = clk_reads base"
  "stack_junk (make_later_one base e rest) = stack_junk base"
  "called (make_later_one base e rest) = called base"
  by (simp_all add: make_later_one_def Let_def)

lemma make_later_frame [simp, frame_simps]:
  "evsel (make_later_loop base es) = evsel base"
  "evsigsel (make_later_loop base es) = evsigsel base"
  "evbase (make_later_loop base es) = evbase base"
  "virtual_event_count (make_later_loop base es) = virtual_event_count base"
  "virtual_event_count_max (make_later_loop base es) = virtual_event_count_max base"
  "event_count (make_later_loop base es) = event_count base"
  "event_count_max (make_later_loop base es) = event_count_max base"
  "event_count_active (make_later_loop base es) = event_count_active base"
  "event_count_active_max (make_later_loop base es) = event_count_active_max base"
  "event_gotterm (make_later_loop base es) = event_gotterm base"
  "event_break (make_later_loop base es) = event_break base"
  "event_continue (make_later_loop base es) = event_continue base"
  "event_running_priority (make_later_loop base es) = event_running_priority base"
  "running_loop (make_later_loop base es) = running_loop base"
  "common_timeout_queues (make_later_loop base es) = common_timeout_queues base"
  "n_common_timeouts_allocated (make_later_loop base es) = n_common_timeouts_allocated base"
  "io (make_later_loop base es) = io base" "sigmap (make_later_loop base es) = sigmap base"
  "timeheap (make_later_loop base es) = timeheap base"
  "tv_cache (make_later_loop base es) = tv_cache base"
  "monotonic_timer (make_later_loop base es) = monotonic_timer base"
  "tv_clock_diff (make_later_loop base es) = tv_clock_diff base"
  "last_updated_clock_diff (make_later_loop base es) = last_updated_clock_diff base"
  "current_event (make_later_loop base es) = current_event base"
  "base_flags (make_later_loop base es) = base_flags base"
  "max_dispatch_time (make_later_loop base es) = max_dispatch_time base"
  "max_dispatch_callbacks (make_later_loop base es) = max_dispatch_callbacks base"
  "limit_callbacks_after_prio (make_later_loop base es) = limit_callbacks_after_prio base"
  "once_events (make_later_loop base es) = once_events base"
  "sig_ncalls (make_later_loop base es) = sig_ncalls base"
  "mm (make_later_loop base es) = mm base" "mm_calls (make_later_loop base es) = mm_calls base"
  "wall (make_later_loop base es) = wall base" "mclk (make_later_loop base es) = mclk base"
  "clk_reads (make_later_loop base es) = clk_reads base"
  "stack_junk (make_later_loop base es) = stack_junk base"
  "called (make_later_loop base es) = called base"
  by (induction es arbitrary: base) simp_all


end
