(* ===== verification/Evmap.thy ===== *)
theory Evmap
  imports Event_Queue
begin

text \<open>
  The maps from descriptors and signals to the events added on them (\<^verbatim>\<open>evmap.c\<close>), in the
  array form used where descriptors are small integers.  Every slot counts how many of its events
  want to read, write or see a close, and the backend is told only when a count leaves or
  returns to zero.  The invariant \<open>maps_are base S\<close> says that the maps hold exactly the events
  of \<open>S\<close>, each once and at its own descriptor, with right counts.
\<close>

subsection \<open>Growing a map\<close>

function evmap_entries_for :: "nat \<Rightarrow> nat \<Rightarrow> nat" where
  "evmap_entries_for nentries slot =
     (if 0 < nentries \<and> nentries \<le> slot then evmap_entries_for (nentries * 2) slot else nentries)"
  by pat_completeness auto
termination
  by (relation "measure (\<lambda>(n, slot). Suc slot - n)") auto

declare evmap_entries_for.simps [simp del]

text \<open>The number of cells \<^verbatim>\<open>evmap_make_space\<close> asks for.\<close>

definition evmap_new_size :: "nat \<Rightarrow> nat \<Rightarrow> nat" where
  "evmap_new_size n slot = evmap_entries_for (if n \<noteq> 0 then n else 32) slot"

definition evmap_make_space_io :: "'b event_base \<Rightarrow> nat \<Rightarrow> 'b event_base \<times> int" where
  "evmap_make_space_io base slot =
     (if length (io base) \<le> slot then
        case mm_alloc base of
          (base1, None) \<Rightarrow> (base1, -1)
        | (base1, Some _) \<Rightarrow>
            (base1\<lparr>io := io base1 @ replicate (evmap_new_size (length (io base1)) slot - length (io base1)) None\<rparr>, 0)
      else (base, 0))"

definition evmap_make_space_signal :: "'b event_base \<Rightarrow> nat \<Rightarrow> 'b event_base \<times> int" where
  "evmap_make_space_signal base slot =
     (if length (sigmap base) \<le> slot then
        case mm_alloc base of
          (base1, None) \<Rightarrow> (base1, -1)
        | (base1, Some _) \<Rightarrow>
            (base1\<lparr>sigmap := sigmap base1 @
               replicate (evmap_new_size (length (sigmap base1)) slot - length (sigmap base1)) None\<rparr>, 0)
      else (base, 0))"

subsection \<open>Descriptors\<close>

definition evmap_io_init :: evmap_io where
  "evmap_io_init = \<lparr>io_events = [], nread = 0, nwrite = 0, nclose = 0, fdinfo = 0\<rparr>"

definition GET_IO_SLOT_AND_CTOR :: "'b event_base \<Rightarrow> nat \<Rightarrow> 'b event_base \<times> evmap_io option" where
  "GET_IO_SLOT_AND_CTOR base slot =
     (case io base ! slot of
        Some ctx \<Rightarrow> (base, Some ctx)
      | None \<Rightarrow> (case mm_alloc base of
                   (base1, None) \<Rightarrow> (base1, None)
                 | (base1, Some _) \<Rightarrow>
                     (base1\<lparr>io := (io base1)[slot := Some evmap_io_init]\<rparr>, Some evmap_io_init)))"

text \<open>The slot of a descriptor, with the map grown and the slot constructed where needed;
  \<open>None\<close> when an allocation fails.\<close>

definition io_slot_for :: "'b event_base \<Rightarrow> nat \<Rightarrow> 'b event_base \<times> evmap_io option" where
  "io_slot_for base slot =
     (case (if slot \<ge> length (io base) then evmap_make_space_io base slot else (base, 0)) of
        (base1, r) \<Rightarrow> if r = -1 then (base1, None) else GET_IO_SLOT_AND_CTOR base1 slot)"

text \<open>The events enabled on a slot with the given counts, and those whose count is \<open>k\<close>
  among the ones \<open>ev\<close> asks for.\<close>

definition io_old :: "evmap_io \<Rightarrow> u16" where
  "io_old ctx = (if nread ctx \<noteq> 0 then EV_READ else 0) OR (if nwrite ctx \<noteq> 0 then EV_WRITE else 0) OR
     (if nclose ctx \<noteq> 0 then EV_CLOSED else 0)"

definition io_turned :: "u16 \<Rightarrow> nat \<Rightarrow> evmap_io \<Rightarrow> u16" where
  "io_turned evts k ctx =
     (if has evts EV_READ \<and> nread ctx = k then EV_READ else 0) OR
     (if has evts EV_WRITE \<and> nwrite ctx = k then EV_WRITE else 0) OR
     (if has evts EV_CLOSED \<and> nclose ctx = k then EV_CLOSED else 0)"

definition evmap_io_add :: "'b event_base \<Rightarrow> int \<Rightarrow> ev_ptr \<Rightarrow> 'b event_base \<times> int" where
  "evmap_io_add base0 fd ev =
     (let base = check (fd = ev_fd (mem base0 ev)) base0; slot = nat fd; evts = ev_events (mem base ev)
      in if fd < 0 then (base, 0)
         else case io_slot_for base slot of
               (base2, None) \<Rightarrow> (base2, -1)
             | (base2, Some ctx) \<Rightarrow>
                 let nr = nread ctx + (if has evts EV_READ then 1 else 0);
                     nw = nwrite ctx + (if has evts EV_WRITE then 1 else 0);
                     nc = nclose ctx + (if has evts EV_CLOSED then 1 else 0);
                     old = io_old ctx; res = io_turned evts 0 ctx
                 in if nr > 0xffff \<or> nw > 0xffff \<or> nc > 0xffff then (base2, -1)
                    else case (if res \<noteq> 0
                               then evop_add (evsel base2) (evbase base2) (ev_fd (mem base2 ev)) old
                                      ((evts AND EV_ET) OR res) (fdinfo ctx)
                               else (evbase base2, fdinfo ctx, 0)) of
                      (b, fi, r) \<Rightarrow>
                        let base3 = base2\<lparr>evbase := b, io := (io base2)[slot := Some (ctx\<lparr>fdinfo := fi\<rparr>)]\<rparr>
                        in if res \<noteq> 0 \<and> r = -1 then (base3, -1)
                           else (base3\<lparr>io := (io base3)[slot := Some (ctx\<lparr>fdinfo := fi, nread := nr,
                                   nwrite := nw, nclose := nc, io_events := ev # io_events ctx\<rparr>)]\<rparr>,
                                 if res \<noteq> 0 then 1 else 0))"

definition evmap_io_del :: "'b event_base \<Rightarrow> int \<Rightarrow> ev_ptr \<Rightarrow> 'b event_base \<times> int" where
  "evmap_io_del base0 fd ev =
     (if fd < 0 then (base0, 0)
      else let base = check (fd = ev_fd (mem base0 ev)) base0; slot = nat fd; evts = ev_events (mem base ev)
           in if slot \<ge> length (io base) then (base, -1)
              else case io base ! slot of
                None \<Rightarrow> (check False base, -1)
              | Some ctx \<Rightarrow>
                  let nr = nread ctx - (if has evts EV_READ then 1 else 0);
                      nw = nwrite ctx - (if has evts EV_WRITE then 1 else 0);
                      nc = nclose ctx - (if has evts EV_CLOSED then 1 else 0);
                      base1 = check ((has evts EV_READ \<longrightarrow> nread ctx > 0) \<and>
                                (has evts EV_WRITE \<longrightarrow> nwrite ctx > 0) \<and>
                                (has evts EV_CLOSED \<longrightarrow> nclose ctx > 0)) base;
                      old = io_old ctx; res = io_turned evts 1 ctx
                  in case (if res \<noteq> 0
                           then evop_del (evsel base1) (evbase base1) (ev_fd (mem base1 ev)) old res (fdinfo ctx)
                           else (evbase base1, fdinfo ctx, 0)) of
                       (b, fi, r) \<Rightarrow>
                         (base1\<lparr>evbase := b, io := (io base1)[slot := Some (ctx\<lparr>fdinfo := fi, nread := nr,
                            nwrite := nw, nclose := nc, io_events := remove1 ev (io_events ctx)\<rparr>)]\<rparr>,
                          if res \<noteq> 0 then (if r = -1 then -1 else 1) else 0))"

subsection \<open>Signals\<close>

definition evmap_signal_init :: evmap_signal where
  "evmap_signal_init = \<lparr>sig_events = []\<rparr>"

definition GET_SIGNAL_SLOT_AND_CTOR :: "'b event_base \<Rightarrow> nat \<Rightarrow> 'b event_base \<times> evmap_signal option" where
  "GET_SIGNAL_SLOT_AND_CTOR base slot =
     (case sigmap base ! slot of
        Some ctx \<Rightarrow> (base, Some ctx)
      | None \<Rightarrow> (case mm_alloc base of
                   (base1, None) \<Rightarrow> (base1, None)
                 | (base1, Some _) \<Rightarrow>
                     (base1\<lparr>sigmap := (sigmap base1)[slot := Some evmap_signal_init]\<rparr>, Some evmap_signal_init)))"

definition sig_slot_for :: "'b event_base \<Rightarrow> nat \<Rightarrow> 'b event_base \<times> evmap_signal option" where
  "sig_slot_for base slot =
     (case (if slot \<ge> length (sigmap base) then evmap_make_space_signal base slot else (base, 0)) of
        (base1, r) \<Rightarrow> if r = -1 then (base1, None) else GET_SIGNAL_SLOT_AND_CTOR base1 slot)"

text \<open>A negative signal number indexes the array out of bounds.\<close>

definition evmap_signal_add :: "'b event_base \<Rightarrow> int \<Rightarrow> ev_ptr \<Rightarrow> 'b event_base \<times> int" where
  "evmap_signal_add base0 sig ev =
     (let base = check (0 \<le> sig) base0; slot = nat sig
      in case sig_slot_for base slot of
               (base2, None) \<Rightarrow> (base2, -1)
             | (base2, Some ctx) \<Rightarrow>
                 case (if sig_events ctx = []
                       then evop_add (evsigsel base2) (evbase base2) (ev_fd (mem base2 ev)) 0 EV_SIGNAL 0
                       else (evbase base2, 0, 0)) of
                   (b, _, r) \<Rightarrow>
                     let base3 = base2\<lparr>evbase := b\<rparr>
                     in if sig_events ctx = [] \<and> r = -1 then (base3, -1)
                        else (base3\<lparr>sigmap := (sigmap base3)
                                [slot := Some (ctx\<lparr>sig_events := ev # sig_events ctx\<rparr>)]\<rparr>, 1))"

definition evmap_signal_del :: "'b event_base \<Rightarrow> int \<Rightarrow> ev_ptr \<Rightarrow> 'b event_base \<times> int" where
  "evmap_signal_del base0 sig ev =
     (let base = check (0 \<le> sig) base0; slot = nat sig
      in if slot \<ge> length (sigmap base) then (base, -1)
         else case sigmap base ! slot of
           None \<Rightarrow> (check False base, -1)
         | Some ctx \<Rightarrow>
             let ctx1 = ctx\<lparr>sig_events := remove1 ev (sig_events ctx)\<rparr>;
                 base1 = base\<lparr>sigmap := (sigmap base)[slot := Some ctx1]\<rparr>
             in case (if sig_events ctx1 = []
                      then evop_del (evsigsel base1) (evbase base1) (ev_fd (mem base1 ev)) 0 EV_SIGNAL 0
                      else (evbase base1, 0, 0)) of
                  (b, _, r) \<Rightarrow>
                    let base2 = base1\<lparr>evbase := b\<rparr>
                    in if sig_events ctx1 = [] \<and> r = -1 then (base2, -1) else (base2, 1))"

subsection \<open>What the maps hold\<close>

definition io_kind :: "event \<Rightarrow> bool" where
  "io_kind ev \<longleftrightarrow> has (ev_events ev) (EV_READ OR EV_WRITE OR EV_CLOSED)"

definition io_at :: "evmap_io option list \<Rightarrow> nat \<Rightarrow> ev_ptr list" where
  "io_at m fd = (if fd < length m then (case m ! fd of None \<Rightarrow> [] | Some ctx \<Rightarrow> io_events ctx) else [])"

definition sig_at :: "evmap_signal option list \<Rightarrow> nat \<Rightarrow> ev_ptr list" where
  "sig_at m s = (if s < length m then (case m ! s of None \<Rightarrow> [] | Some ctx \<Rightarrow> sig_events ctx) else [])"

definition wants :: "events \<Rightarrow> u16 \<Rightarrow> ev_ptr list \<Rightarrow> nat" where
  "wants evs f es = length (filter (\<lambda>e. has (ev_events (evs e)) f) es)"

definition slot_ok :: "events \<Rightarrow> evmap_io \<Rightarrow> bool" where
  "slot_ok evs ctx \<longleftrightarrow>
     nread ctx = wants evs EV_READ (io_events ctx) \<and> nwrite ctx = wants evs EV_WRITE (io_events ctx) \<and>
     nclose ctx = wants evs EV_CLOSED (io_events ctx) \<and>
     nread ctx \<le> 0xffff \<and> nwrite ctx \<le> 0xffff \<and> nclose ctx \<le> 0xffff"

definition io_are :: "events \<Rightarrow> evmap_io option list \<Rightarrow> ev_ptr set \<Rightarrow> bool" where
  "io_are evs m S \<longleftrightarrow>
     (\<forall>fd. distinct (io_at m fd)) \<and>
     (\<forall>fd e. e \<in> set (io_at m fd) \<longleftrightarrow> e \<in> S \<and> io_kind (evs e) \<and> ev_fd (evs e) = int fd) \<and>
     (\<forall>ctx. Some ctx \<in> set m \<longrightarrow> slot_ok evs ctx)"

definition sig_are :: "events \<Rightarrow> evmap_signal option list \<Rightarrow> ev_ptr set \<Rightarrow> bool" where
  "sig_are evs m S \<longleftrightarrow>
     (\<forall>s. distinct (sig_at m s)) \<and>
     (\<forall>s e. e \<in> set (sig_at m s) \<longleftrightarrow> e \<in> S \<and> \<not> io_kind (evs e) \<and> ev_fd (evs e) = int s) \<and>
     (\<forall>e \<in> S. \<not> io_kind (evs e) \<longrightarrow> has (ev_events (evs e)) EV_SIGNAL \<and> 0 \<le> ev_fd (evs e))"

definition maps_are :: "'b event_base \<Rightarrow> ev_ptr set \<Rightarrow> bool" where
  "maps_are base S \<longleftrightarrow> io_are (mem base) (io base) S \<and> sig_are (mem base) (sigmap base) S"

lemma wants_simps [simp]:
  "wants evs f [] = 0"
  "wants evs f (e # es) = (if has (ev_events (evs e)) f then 1 else 0) + wants evs f es"
  by (simp_all add: wants_def)

lemma wants_remove1:
  "e \<in> set es \<Longrightarrow> wants evs f es = (if has (ev_events (evs e)) f then 1 else 0) + wants evs f (remove1 e es)"
  by (induction es) auto

lemma io_at_grow [simp]: "io_at (m @ replicate k None) fd = io_at m fd"
  by (auto simp: io_at_def nth_append split: option.splits)

lemma io_at_upd: "s < length m \<Longrightarrow> io_at (m[s := Some ctx]) fd = (if fd = s then io_events ctx else io_at m fd)"
  by (auto simp: io_at_def nth_list_update)

lemma sig_at_grow [simp]: "sig_at (m @ replicate k None) s = sig_at m s"
  by (auto simp: sig_at_def nth_append split: option.splits)

lemma sig_at_upd: "s < length m \<Longrightarrow> sig_at (m[s := Some ctx]) k = (if k = s then sig_events ctx else sig_at m k)"
  by (auto simp: sig_at_def nth_list_update)

lemma io_areD:
  assumes "io_are evs m S"
  shows "distinct (io_at m fd)"
    "e \<in> set (io_at m fd) \<longleftrightarrow> e \<in> S \<and> io_kind (evs e) \<and> ev_fd (evs e) = int fd"
    "Some ctx \<in> set m \<Longrightarrow> slot_ok evs ctx"
  using assms unfolding io_are_def by blast+

lemma io_are_grow: "io_are evs (m @ replicate k None) S \<longleftrightarrow> io_are evs m S"
  unfolding io_are_def io_at_grow by auto

text \<open>Replacing one slot.\<close>

lemma io_are_upd:
  assumes ok: "io_are evs m S" and s: "s < length m" and slot: "slot_ok evs ctx" and d: "distinct (io_events ctx)"
    and T: "\<And>e. e \<in> T \<and> io_kind (evs e) \<and> ev_fd (evs e) = int s \<longleftrightarrow> e \<in> set (io_events ctx)"
      "\<And>e. io_kind (evs e) \<Longrightarrow> ev_fd (evs e) \<noteq> int s \<Longrightarrow> e \<in> T \<longleftrightarrow> e \<in> S"
  shows "io_are evs (m[s := Some ctx]) T"
  unfolding io_are_def io_at_upd [OF s]
proof (intro conjI allI impI)
  fix fd e
  show "distinct (if fd = s then io_events ctx else io_at m fd)"
    using d io_areD(1) [OF ok] by simp
  show "e \<in> set (if fd = s then io_events ctx else io_at m fd) \<longleftrightarrow>
      e \<in> T \<and> io_kind (evs e) \<and> ev_fd (evs e) = int fd"
    using T(1) [of e] T(2) [of e] io_areD(2) [OF ok, of e fd] by (cases "fd = s") auto
  fix c assume "Some c \<in> set (m[s := Some ctx])"
  then show "slot_ok evs c"
    using slot io_areD(3) [OF ok, of c] set_update_subset_insert [of m s "Some ctx"] by auto
qed

lemma io_are_ctor:
  assumes "io_are evs m S" "s < length m" "m ! s = None"
  shows "io_are evs (m[s := Some evmap_io_init]) S"
proof (rule io_are_upd [OF assms(1,2)])
  have "io_at m s = []" using assms by (simp add: io_at_def)
  then show "e \<in> S \<and> io_kind (evs e) \<and> ev_fd (evs e) = int s \<longleftrightarrow> e \<in> set (io_events evmap_io_init)" for e
    using io_areD(2) [OF assms(1), of e s] by (simp add: evmap_io_init_def)
qed (simp_all add: evmap_io_init_def slot_ok_def)

lemma io_slot:
  assumes "io_are evs m S" "s < length m" "m ! s = Some ctx"
  shows "io_at m s = io_events ctx" "slot_ok evs ctx" "distinct (io_events ctx)"
    "e \<in> set (io_events ctx) \<longleftrightarrow> e \<in> S \<and> io_kind (evs e) \<and> ev_fd (evs e) = int s"
proof -
  show at: "io_at m s = io_events ctx" using assms by (simp add: io_at_def)
  have "Some ctx \<in> set m" using assms(2,3) nth_mem [of s m] by simp
  then show "slot_ok evs ctx" by (rule io_areD(3) [OF assms(1)])
  show "distinct (io_events ctx)" using io_areD(1) [OF assms(1), of s] at by simp
  show "e \<in> set (io_events ctx) \<longleftrightarrow> e \<in> S \<and> io_kind (evs e) \<and> ev_fd (evs e) = int s"
    using io_areD(2) [OF assms(1), of e s] at by simp
qed

lemma io_are_fdinfo:
  assumes "io_are evs m S" "s < length m" "m ! s = Some ctx"
  shows "io_are evs (m[s := Some (ctx\<lparr>fdinfo := fi\<rparr>)]) S"
  by (rule io_are_upd [OF assms(1,2)]) (use io_slot [OF assms] in \<open>simp_all add: slot_ok_def\<close>)

lemma io_are_insert:
  assumes ok: "io_are evs m S" and s: "s < length m" "m ! s = Some ctx"
    and e: "e \<notin> S" "io_kind (evs e)" "ev_fd (evs e) = int s"
    and c: "io_events ctx' = e # io_events ctx"
      "nread ctx' = nread ctx + (if has (ev_events (evs e)) EV_READ then 1 else 0)"
      "nwrite ctx' = nwrite ctx + (if has (ev_events (evs e)) EV_WRITE then 1 else 0)"
      "nclose ctx' = nclose ctx + (if has (ev_events (evs e)) EV_CLOSED then 1 else 0)"
      "nread ctx' \<le> 0xffff" "nwrite ctx' \<le> 0xffff" "nclose ctx' \<le> 0xffff"
  shows "io_are evs (m[s := Some ctx']) (insert e S)"
proof (rule io_are_upd [OF ok s(1)])
  note sl = io_slot [OF ok s]
  show "slot_ok evs ctx'" using sl(2) c by (simp add: slot_ok_def)
  show "distinct (io_events ctx')" using sl(3) sl(4) [of e] e(1) c(1) by simp
  show "x \<in> insert e S \<and> io_kind (evs x) \<and> ev_fd (evs x) = int s \<longleftrightarrow> x \<in> set (io_events ctx')" for x
    using sl(4) [of x] e c(1) by auto
qed (use e in auto)

lemma io_are_remove:
  assumes ok: "io_are evs m S" and s: "s < length m" "m ! s = Some ctx"
    and e: "e \<in> S" "io_kind (evs e)" "ev_fd (evs e) = int s"
    and c: "io_events ctx' = remove1 e (io_events ctx)"
      "nread ctx' = nread ctx - (if has (ev_events (evs e)) EV_READ then 1 else 0)"
      "nwrite ctx' = nwrite ctx - (if has (ev_events (evs e)) EV_WRITE then 1 else 0)"
      "nclose ctx' = nclose ctx - (if has (ev_events (evs e)) EV_CLOSED then 1 else 0)"
  shows "io_are evs (m[s := Some ctx']) (S - {e})"
    "has (ev_events (evs e)) EV_READ \<longrightarrow> 0 < nread ctx" "has (ev_events (evs e)) EV_WRITE \<longrightarrow> 0 < nwrite ctx"
    "has (ev_events (evs e)) EV_CLOSED \<longrightarrow> 0 < nclose ctx"
proof -
  note sl = io_slot [OF ok s]
  have inn: "e \<in> set (io_events ctx)" using sl(4) [of e] e by blast
  note w = wants_remove1 [OF inn, of evs]
  show "io_are evs (m[s := Some ctx']) (S - {e})"
  proof (rule io_are_upd [OF ok s(1)])
    show "slot_ok evs ctx'"
      using sl(2) c w [of EV_READ] w [of EV_WRITE] w [of EV_CLOSED] by (simp add: slot_ok_def)
    show "distinct (io_events ctx')" using sl(3) c(1) by simp
    show "x \<in> S - {e} \<and> io_kind (evs x) \<and> ev_fd (evs x) = int s \<longleftrightarrow> x \<in> set (io_events ctx')" for x
      using sl(3) sl(4) [of x] c(1) by auto
  qed (use e in auto)
  show "has (ev_events (evs e)) EV_READ \<longrightarrow> 0 < nread ctx" "has (ev_events (evs e)) EV_WRITE \<longrightarrow> 0 < nwrite ctx"
    "has (ev_events (evs e)) EV_CLOSED \<longrightarrow> 0 < nclose ctx"
    using sl(2) w [of EV_READ] w [of EV_WRITE] w [of EV_CLOSED] by (auto simp: slot_ok_def)
qed

text \<open>A change of the store that keeps the descriptors and interests of the events held.\<close>

lemma wants_cong:
  "(\<And>e. e \<in> set es \<Longrightarrow> ev_events (evs' e) = ev_events (evs e)) \<Longrightarrow> wants evs' f es = wants evs f es"
  unfolding wants_def by (rule arg_cong [of _ _ length]) (rule filter_cong, auto)

lemma io_are_cong:
  assumes ok: "io_are evs m S"
    and e: "\<And>e. e \<in> S \<Longrightarrow> ev_events (evs' e) = ev_events (evs e) \<and> ev_fd (evs' e) = ev_fd (evs e)"
  shows "io_are evs' m S"
  unfolding io_are_def
proof (intro conjI allI impI)
  fix fd x
  show "distinct (io_at m fd)" by (rule io_areD(1) [OF ok])
  show "x \<in> set (io_at m fd) \<longleftrightarrow> x \<in> S \<and> io_kind (evs' x) \<and> ev_fd (evs' x) = int fd"
    using io_areD(2) [OF ok, of x fd] e [of x] by (auto simp: io_kind_def)
  fix ctx assume c: "Some ctx \<in> set m"
  then obtain s where s: "s < length m" "m ! s = Some ctx" by (metis in_set_conv_nth)
  have "wants evs' f (io_events ctx) = wants evs f (io_events ctx)" for f
    by (rule wants_cong) (use io_slot(4) [OF ok s] e in blast)
  then show "slot_ok evs' ctx" using io_areD(3) [OF ok c] by (simp add: slot_ok_def)
qed

lemma sig_are_cong:
  assumes ok: "sig_are evs m S"
    and e: "\<And>e. e \<in> S \<Longrightarrow> ev_events (evs' e) = ev_events (evs e) \<and> ev_fd (evs' e) = ev_fd (evs e)"
  shows "sig_are evs' m S"
  using ok e unfolding sig_are_def io_kind_def by metis

lemma maps_cong:
  assumes "maps_are base S" "io base' = io base" "sigmap base' = sigmap base"
    and "\<And>e. e \<in> S \<Longrightarrow> ev_events (mem base' e) = ev_events (mem base e) \<and> ev_fd (mem base' e) = ev_fd (mem base e)"
  shows "maps_are base' S"
  using assms io_are_cong [of "mem base" "io base" S "mem base'"]
    sig_are_cong [of "mem base" "sigmap base" S "mem base'"]
  unfolding maps_are_def by simp

subsection \<open>Signal slots\<close>

lemma sig_areD:
  assumes "sig_are evs m S"
  shows "distinct (sig_at m s)"
    "e \<in> set (sig_at m s) \<longleftrightarrow> e \<in> S \<and> \<not> io_kind (evs e) \<and> ev_fd (evs e) = int s"
    "e \<in> S \<Longrightarrow> \<not> io_kind (evs e) \<Longrightarrow> has (ev_events (evs e)) EV_SIGNAL \<and> 0 \<le> ev_fd (evs e)"
  using assms unfolding sig_are_def by blast+

lemma sig_are_grow: "sig_are evs (m @ replicate k None) S \<longleftrightarrow> sig_are evs m S"
  unfolding sig_are_def sig_at_grow ..

lemma sig_are_upd:
  assumes ok: "sig_are evs m S" and s: "s < length m" and d: "distinct (sig_events ctx)"
    and T: "\<And>e. e \<in> T \<and> \<not> io_kind (evs e) \<and> ev_fd (evs e) = int s \<longleftrightarrow> e \<in> set (sig_events ctx)"
      "\<And>e. \<not> io_kind (evs e) \<Longrightarrow> ev_fd (evs e) \<noteq> int s \<Longrightarrow> e \<in> T \<longleftrightarrow> e \<in> S"
      "\<And>e. e \<in> T \<Longrightarrow> \<not> io_kind (evs e) \<Longrightarrow> has (ev_events (evs e)) EV_SIGNAL \<and> 0 \<le> ev_fd (evs e)"
  shows "sig_are evs (m[s := Some ctx]) T"
  unfolding sig_are_def sig_at_upd [OF s]
proof (intro conjI allI ballI impI)
  fix k e
  show "distinct (if k = s then sig_events ctx else sig_at m k)"
    using d sig_areD(1) [OF ok] by simp
  show "e \<in> set (if k = s then sig_events ctx else sig_at m k) \<longleftrightarrow>
      e \<in> T \<and> \<not> io_kind (evs e) \<and> ev_fd (evs e) = int k"
    using T(1) [of e] T(2) [of e] sig_areD(2) [OF ok, of e k] by (cases "k = s") auto
qed (use T(3) in blast)+

lemma sig_slot:
  assumes "sig_are evs m S" "s < length m" "m ! s = Some ctx"
  shows "distinct (sig_events ctx)"
    "e \<in> set (sig_events ctx) \<longleftrightarrow> e \<in> S \<and> \<not> io_kind (evs e) \<and> ev_fd (evs e) = int s"
proof -
  have at: "sig_at m s = sig_events ctx" using assms by (simp add: sig_at_def)
  show "distinct (sig_events ctx)" using sig_areD(1) [OF assms(1), of s] at by simp
  show "e \<in> set (sig_events ctx) \<longleftrightarrow> e \<in> S \<and> \<not> io_kind (evs e) \<and> ev_fd (evs e) = int s"
    using sig_areD(2) [OF assms(1), of e s] at by simp
qed

lemma sig_are_ctor:
  assumes "sig_are evs m S" "s < length m" "m ! s = None"
  shows "sig_are evs (m[s := Some evmap_signal_init]) S"
proof (rule sig_are_upd [OF assms(1,2)])
  have "sig_at m s = []" using assms by (simp add: sig_at_def)
  then show "e \<in> S \<and> \<not> io_kind (evs e) \<and> ev_fd (evs e) = int s \<longleftrightarrow> e \<in> set (sig_events evmap_signal_init)" for e
    using sig_areD(2) [OF assms(1), of e s] by (simp add: evmap_signal_init_def)
qed (use sig_areD(3) [OF assms(1)] in \<open>auto simp: evmap_signal_init_def\<close>)

text \<open>Adding or removing an event of the other kind concerns only one of the two maps.\<close>

lemma io_are_other:
  "io_are evs m S \<Longrightarrow> \<not> io_kind (evs e) \<Longrightarrow> io_are evs m (insert e S)"
  "io_are evs m S \<Longrightarrow> \<not> io_kind (evs e) \<Longrightarrow> io_are evs m (S - {e})"
  unfolding io_are_def by auto

lemma io_are_unmapped:
  "io_are evs m S \<Longrightarrow> ev_fd (evs e) < 0 \<Longrightarrow> io_are evs m (insert e S)"
  "io_are evs m S \<Longrightarrow> ev_fd (evs e) < 0 \<Longrightarrow> io_are evs m (S - {e})"
  unfolding io_are_def by auto

lemma sig_are_other:
  "sig_are evs m S \<Longrightarrow> io_kind (evs e) \<Longrightarrow> sig_are evs m (insert e S)"
  "sig_are evs m S \<Longrightarrow> io_kind (evs e) \<Longrightarrow> sig_are evs m (S - {e})"
  unfolding sig_are_def by auto

subsection \<open>The operations on the maps\<close>

lemma evmap_entries_for_gt: "0 < n \<Longrightarrow> slot < evmap_entries_for n slot"
  by (induction n slot rule: evmap_entries_for.induct) (subst evmap_entries_for.simps, auto)

lemma evmap_make_space_io_cases:
  assumes "evmap_make_space_io base slot = (base1, r)"
  obtains (fail) n where "r = -1" "base1 = base\<lparr>mm_calls := n\<rparr>"
  | (ok) n k where "r = 0" "slot < length (io base) + k"
    "base1 = base\<lparr>mm_calls := n, io := io base @ replicate k None\<rparr>"
proof (cases "length (io base) \<le> slot")
  case True
  show ?thesis
  proof (cases "mm base (mm_calls base)")
    case None
    then show ?thesis using True assms by (intro fail [of "Suc (mm_calls base)"]) (auto simp: evmap_make_space_io_def mm_alloc_def)
  next
    case (Some p)
    have gt: "slot < evmap_new_size (length (io base)) slot"
      unfolding evmap_new_size_def by (rule evmap_entries_for_gt) simp
    show ?thesis
      using Some True assms gt
      by (intro ok [of "evmap_new_size (length (io base)) slot - length (io base)" "Suc (mm_calls base)"])
         (auto simp: evmap_make_space_io_def mm_alloc_def)
  qed
next
  case False
  then show ?thesis using assms by (intro ok [of 0 "mm_calls base"]) (auto simp: evmap_make_space_io_def)
qed

lemma evmap_make_space_signal_cases:
  assumes "evmap_make_space_signal base slot = (base1, r)"
  obtains (fail) n where "r = -1" "base1 = base\<lparr>mm_calls := n\<rparr>"
  | (ok) n k where "r = 0" "slot < length (sigmap base) + k"
    "base1 = base\<lparr>mm_calls := n, sigmap := sigmap base @ replicate k None\<rparr>"
proof (cases "length (sigmap base) \<le> slot")
  case True
  show ?thesis
  proof (cases "mm base (mm_calls base)")
    case None
    then show ?thesis using True assms by (intro fail [of "Suc (mm_calls base)"]) (auto simp: evmap_make_space_signal_def mm_alloc_def)
  next
    case (Some p)
    have gt: "slot < evmap_new_size (length (sigmap base)) slot"
      unfolding evmap_new_size_def by (rule evmap_entries_for_gt) simp
    show ?thesis
      using Some True assms gt
      by (intro ok [of "evmap_new_size (length (sigmap base)) slot - length (sigmap base)" "Suc (mm_calls base)"])
         (auto simp: evmap_make_space_signal_def mm_alloc_def)
  qed
next
  case False
  then show ?thesis using assms by (intro ok [of 0 "mm_calls base"]) (auto simp: evmap_make_space_signal_def)
qed

lemma io_slot_for_ok:
  assumes "io_slot_for base slot = (base2, c)" "io_are (mem base) (io base) S"
  obtains m n where "base2 = base\<lparr>mm_calls := n, io := m\<rparr>" "io_are (mem base) m S"
    "\<And>ctx. c = Some ctx \<Longrightarrow> slot < length m \<and> m ! slot = Some ctx"
proof -
  obtain base1 r where ms: "(if slot \<ge> length (io base) then evmap_make_space_io base slot else (base, 0)) = (base1, r)"
    by force
  have "\<exists>m n. base1 = base\<lparr>mm_calls := n, io := m\<rparr> \<and> io_are (mem base) m S \<and> (r \<noteq> -1 \<longrightarrow> slot < length m)"
  proof (cases "slot \<ge> length (io base)")
    case True
    then have "evmap_make_space_io base slot = (base1, r)" using ms by simp
    then show ?thesis
    proof (cases rule: evmap_make_space_io_cases)
      case (fail n)
      then show ?thesis using assms(2) by (intro exI [of _ "io base"] exI [of _ n]) auto
    next
      case (ok n k)
      then show ?thesis using assms(2)
        by (intro exI [of _ "io base @ replicate k None"] exI [of _ n]) (simp add: io_are_grow)
    qed
  next
    case False
    then show ?thesis using ms assms(2)
      by (intro exI [of _ "io base"] exI [of _ "mm_calls base"]) auto
  qed
  then obtain m n where b1: "base1 = base\<lparr>mm_calls := n, io := m\<rparr>" "io_are (mem base) m S"
    "r \<noteq> -1 \<longrightarrow> slot < length m" by blast
  show thesis
  proof (cases "r = -1")
    case True
    then show thesis
      using assms(1) ms b1 by (intro that [of m n]) (simp_all add: io_slot_for_def)
  next
    case r: False
    then have g: "GET_IO_SLOT_AND_CTOR base1 slot = (base2, c)" using assms(1) ms by (simp add: io_slot_for_def)
    have len: "slot < length m" using b1(3) r by blast
    show thesis
    proof (cases "m ! slot")
      case (Some ctx)
      then show thesis using g b1 len by (intro that [of m n]) (auto simp: GET_IO_SLOT_AND_CTOR_def)
    next
      case none: None
      show thesis
      proof (cases "mm base n")
        case None
        then show thesis
          using g b1 none by (intro that [of m "Suc n"]) (auto simp: GET_IO_SLOT_AND_CTOR_def mm_alloc_def)
      next
        case (Some p)
        then show thesis
          using g b1 none len io_are_ctor [OF b1(2) len none]
          by (intro that [of "m[slot := Some evmap_io_init]" "Suc n"])
             (auto simp: GET_IO_SLOT_AND_CTOR_def mm_alloc_def)
      qed
    qed
  qed
qed

lemma sig_slot_for_ok:
  assumes "sig_slot_for base slot = (base2, c)" "sig_are (mem base) (sigmap base) S"
  obtains m n where "base2 = base\<lparr>mm_calls := n, sigmap := m\<rparr>" "sig_are (mem base) m S"
    "\<And>ctx. c = Some ctx \<Longrightarrow> slot < length m \<and> m ! slot = Some ctx"
proof -
  obtain base1 r where ms: "(if slot \<ge> length (sigmap base) then evmap_make_space_signal base slot else (base, 0)) = (base1, r)"
    by force
  have "\<exists>m n. base1 = base\<lparr>mm_calls := n, sigmap := m\<rparr> \<and> sig_are (mem base) m S \<and> (r \<noteq> -1 \<longrightarrow> slot < length m)"
  proof (cases "slot \<ge> length (sigmap base)")
    case True
    then have "evmap_make_space_signal base slot = (base1, r)" using ms by simp
    then show ?thesis
    proof (cases rule: evmap_make_space_signal_cases)
      case (fail n)
      then show ?thesis using assms(2) by (intro exI [of _ "sigmap base"] exI [of _ n]) auto
    next
      case (ok n k)
      then show ?thesis using assms(2)
        by (intro exI [of _ "sigmap base @ replicate k None"] exI [of _ n]) (simp add: sig_are_grow)
    qed
  next
    case False
    then show ?thesis using ms assms(2)
      by (intro exI [of _ "sigmap base"] exI [of _ "mm_calls base"]) auto
  qed
  then obtain m n where b1: "base1 = base\<lparr>mm_calls := n, sigmap := m\<rparr>" "sig_are (mem base) m S"
    "r \<noteq> -1 \<longrightarrow> slot < length m" by blast
  show thesis
  proof (cases "r = -1")
    case True
    then show thesis
      using assms(1) ms b1 by (intro that [of m n]) (simp_all add: sig_slot_for_def)
  next
    case r: False
    then have g: "GET_SIGNAL_SLOT_AND_CTOR base1 slot = (base2, c)" using assms(1) ms by (simp add: sig_slot_for_def)
    have len: "slot < length m" using b1(3) r by blast
    show thesis
    proof (cases "m ! slot")
      case (Some ctx)
      then show thesis using g b1 len by (intro that [of m n]) (auto simp: GET_SIGNAL_SLOT_AND_CTOR_def)
    next
      case none: None
      show thesis
      proof (cases "mm base n")
        case None
        then show thesis
          using g b1 none by (intro that [of m "Suc n"]) (auto simp: GET_SIGNAL_SLOT_AND_CTOR_def mm_alloc_def)
      next
        case (Some p)
        then show thesis
          using g b1 none len sig_are_ctor [OF b1(2) len none]
          by (intro that [of "m[slot := Some evmap_signal_init]" "Suc n"])
             (auto simp: GET_SIGNAL_SLOT_AND_CTOR_def mm_alloc_def)
      qed
    qed
  qed
qed

lemma evmap_io_add_slot:
  assumes "0 \<le> ev_fd (mem base e)"
  defines "slot \<equiv> nat (ev_fd (mem base e))" and "evts \<equiv> ev_events (mem base e)"
  shows "evmap_io_add base (ev_fd (mem base e)) e =
    (case io_slot_for base slot of
       (base2, None) \<Rightarrow> (base2, -1)
     | (base2, Some ctx) \<Rightarrow>
         let nr = nread ctx + (if has evts EV_READ then 1 else 0);
             nw = nwrite ctx + (if has evts EV_WRITE then 1 else 0);
             nc = nclose ctx + (if has evts EV_CLOSED then 1 else 0);
             old = io_old ctx; res = io_turned evts 0 ctx
         in if nr > 0xffff \<or> nw > 0xffff \<or> nc > 0xffff then (base2, -1)
            else case (if res \<noteq> 0
                       then evop_add (evsel base2) (evbase base2) (ev_fd (mem base2 e)) old
                              ((evts AND EV_ET) OR res) (fdinfo ctx)
                       else (evbase base2, fdinfo ctx, 0)) of
              (b, fi, r) \<Rightarrow>
                let base3 = base2\<lparr>evbase := b, io := (io base2)[slot := Some (ctx\<lparr>fdinfo := fi\<rparr>)]\<rparr>
                in if res \<noteq> 0 \<and> r = -1 then (base3, -1)
                   else (base3\<lparr>io := (io base3)[slot := Some (ctx\<lparr>fdinfo := fi, nread := nr,
                           nwrite := nw, nclose := nc, io_events := e # io_events ctx\<rparr>)]\<rparr>,
                         if res \<noteq> 0 then 1 else 0))"
proof -
  have c: "check (ev_fd (mem base e) = ev_fd (mem base e)) base = base" by (simp add: check_def)
  have "\<not> ev_fd (mem base e) < 0" using assms(1) by simp
  then show ?thesis
    unfolding evmap_io_add_def c Let_def slot_def evts_def by (simp only: if_False)
qed

lemma evmap_io_add_ok:
  assumes maps: "maps_are base S" and e: "e \<notin> S" "io_kind (mem base e)"
    and r: "evmap_io_add base (ev_fd (mem base e)) e = (base', r)"
  shows "r \<in> {-1, 0, 1} \<and> maps_are base' (if r = -1 then S else insert e S) \<and>
    (\<exists>m b n. base' = base\<lparr>io := m, evbase := b, mm_calls := n\<rparr>)"
proof (cases "ev_fd (mem base e) < 0")
  case True
  then have "base' = base" "r = 0" using r by (auto simp: evmap_io_add_def Let_def check_def)
  then show ?thesis
    using maps True e io_are_unmapped(1) sig_are_other(1)
    by (auto simp: maps_are_def intro!: exI [of _ "io base"] exI [of _ "evbase base"] exI [of _ "mm_calls base"])
next
  case False
  let ?slot = "nat (ev_fd (mem base e))" and ?evts = "ev_events (mem base e)"
  have fd: "ev_fd (mem base e) = int ?slot" and nonneg: "0 \<le> ev_fd (mem base e)" using False by auto
  obtain base2 c where sl: "io_slot_for base ?slot = (base2, c)" by force
  obtain m n where b2: "base2 = base\<lparr>mm_calls := n, io := m\<rparr>" "io_are (mem base) m S"
      "\<And>ctx. c = Some ctx \<Longrightarrow> ?slot < length m \<and> m ! ?slot = Some ctx"
    using io_slot_for_ok [OF sl] maps by (auto simp: maps_are_def)
  have sig: "sig_are (mem base) (sigmap base) S" "sig_are (mem base) (sigmap base) (insert e S)"
    using maps sig_are_other(1) [of "mem base" "sigmap base" S e] e(2) by (auto simp: maps_are_def)
  note add = evmap_io_add_slot [of base e, unfolded r sl]
  have shape: "\<exists>m' b n. base\<lparr>mm_calls := n0, io := m0, evbase := b0\<rparr> = base\<lparr>io := m', evbase := b, mm_calls := n\<rparr>"
    for n0 m0 b0 by (intro exI [of _ m0] exI [of _ b0] exI [of _ n0]) simp
  have shape2: "\<exists>m' b n. base\<lparr>mm_calls := n0, io := m0\<rparr> = base\<lparr>io := m', evbase := b, mm_calls := n\<rparr>"
    for n0 m0 by (intro exI [of _ m0] exI [of _ "evbase base"] exI [of _ n0]) simp
  show ?thesis
  proof (cases c)
    case None
    then have "base' = base2" "r = -1" using add False by auto
    then show ?thesis using b2(1,2) sig shape2 by (simp add: maps_are_def)
  next
    case (Some ctx)
    note at = b2(3) [OF Some]
    let ?nr = "nread ctx + (if has ?evts EV_READ then 1 else 0)"
    let ?nw = "nwrite ctx + (if has ?evts EV_WRITE then 1 else 0)"
    let ?nc = "nclose ctx + (if has ?evts EV_CLOSED then 1 else 0)"
    let ?res = "io_turned ?evts 0 ctx"
    show ?thesis
    proof (cases "?nr > 0xffff \<or> ?nw > 0xffff \<or> ?nc > 0xffff")
      case True
      then have "base' = base2" "r = -1" using add False Some by (auto simp: Let_def split: if_splits)
      then show ?thesis using b2(1,2) sig shape2 by (simp add: maps_are_def)
    next
      case ok: False
      obtain b fi q where be: "(if ?res \<noteq> 0
          then evop_add (evsel base2) (evbase base2) (ev_fd (mem base2 e)) (io_old ctx)
                 ((?evts AND EV_ET) OR ?res) (fdinfo ctx)
          else (evbase base2, fdinfo ctx, 0)) = (b, fi, q)" by (metis prod_cases3)
      let ?ctx' = "ctx\<lparr>fdinfo := fi, nread := ?nr, nwrite := ?nw, nclose := ?nc, io_events := e # io_events ctx\<rparr>"
      have eqs: "(base', r) = (if ?res \<noteq> 0 \<and> q = -1
          then (base\<lparr>mm_calls := n, io := m[?slot := Some (ctx\<lparr>fdinfo := fi\<rparr>)], evbase := b\<rparr>, -1)
          else (base\<lparr>mm_calls := n, io := m[?slot := Some ?ctx'], evbase := b\<rparr>, if ?res \<noteq> 0 then 1 else 0))"
        using add [OF nonneg] unfolding Some Let_def prod.case option.case if_not_P [OF ok] be
        by (simp add: b2(1))
      have i1: "io_are (mem base) (m[?slot := Some (ctx\<lparr>fdinfo := fi\<rparr>)]) S"
        using at by (intro io_are_fdinfo [OF b2(2)]) auto
      have i2: "io_are (mem base) (m[?slot := Some ?ctx']) (insert e S)"
        using at ok fd e by (intro io_are_insert [OF b2(2)]) auto
      show ?thesis
        using eqs i1 i2 sig shape by (auto simp: maps_are_def split: if_splits)
    qed
  qed
qed

lemma evmap_io_del_ok:
  assumes maps: "maps_are base S" and e: "e \<in> S" "io_kind (mem base e)"
    and r: "evmap_io_del base (ev_fd (mem base e)) e = (base', r)"
  shows "r \<in> {-1, 0, 1} \<and> maps_are base' (S - {e}) \<and> (\<exists>m b. base' = base\<lparr>io := m, evbase := b\<rparr>)"
proof (cases "ev_fd (mem base e) < 0")
  case True
  then have "base' = base" "r = 0" using r by (auto simp: evmap_io_del_def)
  then show ?thesis
    using maps True e io_are_unmapped(2) sig_are_other(2)
    by (auto simp: maps_are_def intro!: exI [of _ "io base"] exI [of _ "evbase base"])
next
  case False
  let ?slot = "nat (ev_fd (mem base e))" and ?evts = "ev_events (mem base e)"
  have fd: "ev_fd (mem base e) = int ?slot" using False by simp
  have ia: "io_are (mem base) (io base) S" using maps by (simp add: maps_are_def)
  have "e \<in> set (io_at (io base) ?slot)" using io_areD(2) [OF ia, of e ?slot] e fd by blast
  then obtain ctx where at: "?slot < length (io base)" "io base ! ?slot = Some ctx"
    unfolding io_at_def by (cases "?slot < length (io base)"; cases "io base ! ?slot") auto
  let ?res = "io_turned ?evts 1 ctx"
  let ?nr = "nread ctx - (if has ?evts EV_READ then 1 else 0)"
  let ?nw = "nwrite ctx - (if has ?evts EV_WRITE then 1 else 0)"
  let ?nc = "nclose ctx - (if has ?evts EV_CLOSED then 1 else 0)"
  obtain b fi q where be: "(if ?res \<noteq> 0
      then evop_del (evsel base) (evbase base) (ev_fd (mem base e)) (io_old ctx) ?res (fdinfo ctx)
      else (evbase base, fdinfo ctx, 0)) = (b, fi, q)" by (metis prod_cases3)
  let ?ctx' = "ctx\<lparr>fdinfo := fi, nread := ?nr, nwrite := ?nw, nclose := ?nc, io_events := remove1 e (io_events ctx)\<rparr>"
  note rem = io_are_remove [OF ia at e fd, of ?ctx']
  have c: "check (ev_fd (mem base e) = ev_fd (mem base e)) base = base"
    "check ((has ?evts EV_READ \<longrightarrow> nread ctx > 0) \<and> (has ?evts EV_WRITE \<longrightarrow> nwrite ctx > 0) \<and>
       (has ?evts EV_CLOSED \<longrightarrow> nclose ctx > 0)) base = base"
    using rem by (simp_all add: check_def)
  have inside: "\<not> length (io base) \<le> ?slot" using at(1) by simp
  have eqs: "(base', r) = (base\<lparr>evbase := b, io := (io base)[?slot := Some ?ctx']\<rparr>,
      if ?res \<noteq> 0 then (if q = -1 then -1 else 1) else 0)"
    using r at(1) unfolding evmap_io_del_def Let_def c if_not_P [OF False] if_not_P [OF inside] at(2)
      option.case be prod.case by simp
  have "\<exists>m b'. base\<lparr>evbase := b, io := m0\<rparr> = base\<lparr>io := m, evbase := b'\<rparr>" for m0
    by (intro exI [of _ m0] exI [of _ b]) simp
  then show ?thesis
    using eqs rem(1) maps sig_are_other(2) [of "mem base" "sigmap base" S e] e(2) by (auto simp: maps_are_def)
qed

lemma evmap_signal_add_ok:
  assumes maps: "maps_are base S" and e: "e \<notin> S" "\<not> io_kind (mem base e)"
      "has (ev_events (mem base e)) EV_SIGNAL" "0 \<le> ev_fd (mem base e)"
    and r: "evmap_signal_add base (ev_fd (mem base e)) e = (base', r)"
  shows "r \<in> {-1, 1} \<and> maps_are base' (if r = -1 then S else insert e S) \<and>
    (\<exists>m b n. base' = base\<lparr>sigmap := m, evbase := b, mm_calls := n\<rparr>)"
proof -
  let ?slot = "nat (ev_fd (mem base e))"
  have fd: "ev_fd (mem base e) = int ?slot" using e(4) by simp
  obtain base2 c where sl: "sig_slot_for base ?slot = (base2, c)" by force
  obtain m n where b2: "base2 = base\<lparr>mm_calls := n, sigmap := m\<rparr>" "sig_are (mem base) m S"
      "\<And>ctx. c = Some ctx \<Longrightarrow> ?slot < length m \<and> m ! ?slot = Some ctx"
    using sig_slot_for_ok [OF sl] maps by (auto simp: maps_are_def)
  have ioa: "io_are (mem base) (io base) S" "io_are (mem base) (io base) (insert e S)"
    using maps io_are_other(1) [of "mem base" "io base" S e] e(2) by (auto simp: maps_are_def)
  have ck: "check (0 \<le> ev_fd (mem base e)) base = base" using e(4) by (simp add: check_def)
  note add = r [unfolded evmap_signal_add_def ck Let_def sl]
  have shape: "\<exists>m' b n. base\<lparr>mm_calls := n0, sigmap := m0, evbase := b0\<rparr> = base\<lparr>sigmap := m', evbase := b, mm_calls := n\<rparr>"
    for n0 m0 b0 by (intro exI [of _ m0] exI [of _ b0] exI [of _ n0]) simp
  have shape2: "\<exists>m' b n. base\<lparr>mm_calls := n0, sigmap := m0\<rparr> = base\<lparr>sigmap := m', evbase := b, mm_calls := n\<rparr>"
    for n0 m0 by (intro exI [of _ m0] exI [of _ "evbase base"] exI [of _ n0]) simp
  show ?thesis
  proof (cases c)
    case None
    then have "base' = base2" "r = -1" using add by auto
    then show ?thesis using b2(1,2) ioa shape2 by (simp add: maps_are_def)
  next
    case (Some ctx)
    note at = b2(3) [OF Some]
    obtain b fi q where be: "(if sig_events ctx = []
        then evop_add (evsigsel base2) (evbase base2) (ev_fd (mem base2 e)) 0 EV_SIGNAL 0
        else (evbase base2, 0, 0)) = (b, fi, q)" by (metis prod_cases3)
    let ?ctx' = "ctx\<lparr>sig_events := e # sig_events ctx\<rparr>"
    have eqs: "(base', r) = (if sig_events ctx = [] \<and> q = -1
        then (base\<lparr>mm_calls := n, sigmap := m, evbase := b\<rparr>, -1)
        else (base\<lparr>mm_calls := n, sigmap := m[?slot := Some ?ctx'], evbase := b\<rparr>, 1))"
      using add unfolding Some prod.case option.case be by (auto simp: b2(1) split: if_splits)
    have "sig_are (mem base) (m[?slot := Some ?ctx']) (insert e S)"
    proof (rule sig_are_upd [OF b2(2)])
      note ss = sig_slot [OF b2(2) conjunct1 [OF at] conjunct2 [OF at]]
      show "distinct (sig_events ?ctx')" using ss(1) ss(2) [of e] e(1) by simp
      show "x \<in> insert e S \<and> \<not> io_kind (mem base x) \<and> ev_fd (mem base x) = int ?slot \<longleftrightarrow>
          x \<in> set (sig_events ?ctx')" for x
        using ss(2) [of x] e fd by auto
      show "?slot < length m" using at by blast
      show "x \<in> insert e S \<longleftrightarrow> x \<in> S" if "ev_fd (mem base x) \<noteq> int ?slot" for x using that fd by blast
      show "has (ev_events (mem base x)) EV_SIGNAL \<and> 0 \<le> ev_fd (mem base x)"
        if "x \<in> insert e S" "\<not> io_kind (mem base x)" for x
        using that e(3,4) sig_areD(3) [OF b2(2)] by blast
    qed
    then show ?thesis
      using eqs b2(2) ioa shape by (auto simp: maps_are_def split: if_splits)
  qed
qed

lemma evmap_signal_del_ok:
  assumes maps: "maps_are base S" and e: "e \<in> S" "\<not> io_kind (mem base e)"
    and r: "evmap_signal_del base (ev_fd (mem base e)) e = (base', r)"
  shows "r \<in> {-1, 1} \<and> maps_are base' (S - {e}) \<and> (\<exists>m b. base' = base\<lparr>sigmap := m, evbase := b\<rparr>)"
proof -
  let ?slot = "nat (ev_fd (mem base e))"
  have sa: "sig_are (mem base) (sigmap base) S" using maps by (simp add: maps_are_def)
  have nn: "0 \<le> ev_fd (mem base e)" using sig_areD(3) [OF sa] e by blast
  then have fd: "ev_fd (mem base e) = int ?slot" by simp
  have "e \<in> set (sig_at (sigmap base) ?slot)" using sig_areD(2) [OF sa, of e ?slot] e fd by blast
  then obtain ctx where at: "?slot < length (sigmap base)" "sigmap base ! ?slot = Some ctx"
    unfolding sig_at_def by (cases "?slot < length (sigmap base)"; cases "sigmap base ! ?slot") auto
  have inside: "\<not> length (sigmap base) \<le> ?slot" using at(1) by simp
  have ck: "check (0 \<le> ev_fd (mem base e)) base = base" using nn by (simp add: check_def)
  let ?ctx' = "ctx\<lparr>sig_events := remove1 e (sig_events ctx)\<rparr>"
  let ?b1 = "base\<lparr>sigmap := (sigmap base)[?slot := Some ?ctx']\<rparr>"
  obtain b fi q where be: "(if sig_events ?ctx' = []
      then evop_del (evsigsel ?b1) (evbase ?b1) (ev_fd (mem ?b1 e)) 0 EV_SIGNAL 0
      else (evbase ?b1, 0, 0)) = (b, fi, q)" by (metis prod_cases3)
  have eqs: "base' = base\<lparr>sigmap := (sigmap base)[?slot := Some ?ctx'], evbase := b\<rparr>" "r \<in> {-1, 1}"
    using r unfolding evmap_signal_del_def Let_def ck if_not_P [OF inside] at(2) option.case be prod.case
    by (auto split: if_splits)
  have "sig_are (mem base) ((sigmap base)[?slot := Some ?ctx']) (S - {e})"
  proof (rule sig_are_upd [OF sa at(1)])
    note ss = sig_slot [OF sa at]
    show "distinct (sig_events ?ctx')" using ss(1) by simp
    show "x \<in> S - {e} \<and> \<not> io_kind (mem base x) \<and> ev_fd (mem base x) = int ?slot \<longleftrightarrow>
        x \<in> set (sig_events ?ctx')" for x
      using ss(1) ss(2) [of x] by auto
    show "x \<in> S - {e} \<longleftrightarrow> x \<in> S" if "ev_fd (mem base x) \<noteq> int ?slot" for x using that fd by blast
  qed (use sig_areD(3) [OF sa] in blast)
  then show ?thesis
    using eqs maps io_are_other(2) [of "mem base" "io base" S e] e(2) by (auto simp: maps_are_def)
qed

end
