(* ===== verification/Event_Core.thy ===== *)
theory Event_Core
  imports Evmap
begin

text \<open>
  Assigning, adding, deleting and activating events (\<^verbatim>\<open>event.c\<close>), with common timeouts,
  deferred callbacks, finalisation and the processing of elapsed timers.  An operation takes the
  base and the address of an event and returns the base, with the C result where there is one.
\<close>

subsection \<open>Setting an event up\<close>

definition event_assign ::
  "'b event_base \<Rightarrow> ev_ptr \<Rightarrow> nat option \<Rightarrow> int \<Rightarrow> u16 \<Rightarrow> nat \<Rightarrow> nat \<Rightarrow> 'b event_base \<times> int" where
  "event_assign base ev bs fd evts callback arg =
     (let base1 = set_ev ev (\<lambda>e. e\<lparr>ev_base := bs, ev_callback := callback, ev_arg := arg, ev_fd := fd,
                    ev_events := evts, ev_res := 0, ev_flags := EVLIST_INIT, ev_ncalls := 0,
                    ev_pncalls := False\<rparr>) base
      in if has evts EV_SIGNAL \<and> has evts (EV_READ OR EV_WRITE OR EV_CLOSED) then (base1, -1)
         else let base2 =
                (if has evts EV_SIGNAL then set_ev ev (ev_closure_update (\<lambda>_. EV_CLOSURE_EVENT_SIGNAL)) base1
                 else if has evts EV_PERSIST
                 then set_ev ev (\<lambda>e. e\<lparr>ev_io_timeout := evutil_timerclear,
                                       ev_closure := EV_CLOSURE_EVENT_PERSIST\<rparr>) base1
                 else set_ev ev (ev_closure_update (\<lambda>_. EV_CLOSURE_EVENT)) base1);
                  base3 = base2\<lparr>mem := min_heap_elem_init ev (mem base2)\<rparr>;
                  base4 = (if bs \<noteq> None
                           then set_ev ev (ev_pri_update (\<lambda>_. nactivequeues base3 div 2)) base3 else base3)
              in (base4, 0))"

definition event_base_set :: "'b event_base \<Rightarrow> ev_ptr \<Rightarrow> nat \<Rightarrow> 'b event_base \<times> int" where
  "event_base_set base ev bs =
     (if flags_of base ev \<noteq> EVLIST_INIT then (base, -1)
      else (set_ev ev (\<lambda>e. e\<lparr>ev_base := Some bs, ev_pri := nactivequeues base div 2\<rparr>) base, 0))"

definition event_priority_set :: "'b event_base \<Rightarrow> ev_ptr \<Rightarrow> int \<Rightarrow> 'b event_base \<times> int" where
  "event_priority_set base ev pri =
     (if has (flags_of base ev) EVLIST_ACTIVE then (base, -1)
      else if pri < 0 \<or> pri \<ge> int (nactivequeues base) then (base, -1)
      else (set_ev ev (ev_pri_update (\<lambda>_. nat pri)) base, 0))"

abbreviation EVENT_MAX_PRIORITIES :: int where "EVENT_MAX_PRIORITIES \<equiv> 256"

definition event_base_priority_init :: "'b event_base \<Rightarrow> int \<Rightarrow> 'b event_base \<times> int" where
  "event_base_priority_init base npriorities =
     (if N_ACTIVE_CALLBACKS base \<noteq> 0 \<or> npriorities < 1 \<or> npriorities \<ge> EVENT_MAX_PRIORITIES then (base, -1)
      else if npriorities = int (nactivequeues base) then (base, 0)
      else let base1 = base\<lparr>activequeues := []\<rparr>
           in case mm_alloc base1 of
                (base2, None) \<Rightarrow> (base2, -1)
              | (base2, Some _) \<Rightarrow> (base2\<lparr>activequeues := replicate (nat npriorities) []\<rparr>, 0))"

subsection \<open>Queries\<close>

text \<open>The second component is what \<^verbatim>\<open>event_pending\<close> stores through its last argument.\<close>

definition event_pending :: "'b event_base \<Rightarrow> ev_ptr \<Rightarrow> u16 \<Rightarrow> bool \<Rightarrow> u16 \<times> timeval option" where
  "event_pending base ev event want_tv =
     (if ev_base (mem base ev) = None then (0, None)
      else let fl = flags_of base ev;
               flags0 = 0;
               flags1 = (if has fl EVLIST_INSERTED
                         then flags0 OR (ev_events (mem base ev) AND (EV_READ OR EV_WRITE OR EV_CLOSED OR EV_SIGNAL))
                         else flags0);
               flags2 = (if has fl (EVLIST_ACTIVE OR EVLIST_ACTIVE_LATER)
                         then flags1 OR ev_res (mem base ev) else flags1);
               flags3 = (if has fl EVLIST_TIMEOUT then flags2 OR EV_TIMEOUT else flags2);
               event1 = event AND (EV_TIMEOUT OR EV_READ OR EV_WRITE OR EV_CLOSED OR EV_SIGNAL)
           in (flags3 AND event1,
               if want_tv \<and> flags3 AND event1 AND EV_TIMEOUT \<noteq> 0
               then Some (evutil_timeradd (tv_clock_diff base) (mask_usec (ev_timeout (mem base ev))))
               else None))"

definition event_initialized :: "'b event_base \<Rightarrow> ev_ptr \<Rightarrow> bool" where
  "event_initialized base ev \<longleftrightarrow> has (flags_of base ev) EVLIST_INIT"

subsection \<open>Adding\<close>

text \<open>\<^verbatim>\<open>min_heap_reserve_\<close> with the allocator of the base.\<close>

definition heap_reserve :: "'b event_base \<Rightarrow> nat \<Rightarrow> 'b event_base \<times> int" where
  "heap_reserve base n =
     (let (base1, p) = (if mh_a (timeheap base) < n then mm_alloc base else (base, None))
      in case min_heap_reserve (p \<noteq> None) (timeheap base1) n of
           (h, r) \<Rightarrow> (base1\<lparr>timeheap := h\<rparr>, r))"

text \<open>The part of \<^verbatim>\<open>event_add_nolock_\<close> that enters the event into the maps.\<close>

definition event_add_map :: "'b event_base \<Rightarrow> ev_ptr \<Rightarrow> 'b event_base \<times> int" where
  "event_add_map base ev =
     (let evts = ev_events (mem base ev)
      in if has evts (EV_READ OR EV_WRITE OR EV_CLOSED OR EV_SIGNAL) \<and>
            \<not> has (flags_of base ev) (EVLIST_INSERTED OR EVLIST_ACTIVE OR EVLIST_ACTIVE_LATER) then
           case (if has evts (EV_READ OR EV_WRITE OR EV_CLOSED)
                 then evmap_io_add base (ev_fd (mem base ev)) ev
                 else evmap_signal_add base (ev_fd (mem base ev)) ev) of
             (base1, res) \<Rightarrow>
               let base2 = (if res \<noteq> -1 then event_queue_insert_inserted base1 ev else base1)
               in (base2, if res = 1 then 0 else res)
         else (base, 0))"

text \<open>\<^verbatim>\<open>*ev->ev_pncalls = 0\<close>, when a signal callback of this event is being repeated.\<close>

definition abort_signal_loop :: "'b event_base \<Rightarrow> ev_ptr \<Rightarrow> 'b event_base" where
  "abort_signal_loop base ev =
     (if has (ev_events (mem base ev)) EV_SIGNAL \<and> ev_ncalls (mem base ev) \<noteq> 0 \<and> ev_pncalls (mem base ev)
      then base\<lparr>sig_ncalls := 0\<rparr> else base)"

text \<open>The deadline of an added event.\<close>

definition event_deadline :: "timeval \<Rightarrow> timeval \<Rightarrow> bool \<Rightarrow> bool \<Rightarrow> timeval" where
  "event_deadline now tv tv_is_absolute common_timeout =
     (if tv_is_absolute then tv
      else if common_timeout then
        let t = evutil_timeradd now (mask_usec tv)
        in Timeval (tv_sec t) (tv_usec t OR (tv_usec tv AND NOT MICROSECONDS_MASK))
      else evutil_timeradd now tv)"

text \<open>The part of \<^verbatim>\<open>event_add_nolock_\<close> that enters the event into the timers, up to and
  including \<^verbatim>\<open>event_queue_insert_timeout\<close>; the flag returned is \<^verbatim>\<open>common_timeout\<close>.\<close>

definition event_add_timer :: "'b event_base \<Rightarrow> ev_ptr \<Rightarrow> timeval \<Rightarrow> bool \<Rightarrow> 'b event_base \<times> bool" where
  "event_add_timer base ev tv tv_is_absolute =
     (let base1 = (if ev_closure (mem base ev) = EV_CLOSURE_EVENT_PERSIST \<and> \<not> tv_is_absolute
                   then set_ev ev (ev_io_timeout_update (\<lambda>_. tv)) base else base);
          base2 = (if has (flags_of base1 ev) EVLIST_TIMEOUT then event_queue_remove_timeout base1 ev else base1);
          base3 = (if has (flags_of base2 ev) EVLIST_ACTIVE \<and> has (ev_res (mem base2 ev)) EV_TIMEOUT
                   then event_queue_remove_active (abort_signal_loop base2 ev) ev else base2);
          (base4, now) = gettime_now base3;
          common_timeout = is_common_timeout tv base4;
          base5 = set_ev ev (ev_timeout_update (\<lambda>_. event_deadline now tv tv_is_absolute common_timeout)) base4
      in (event_queue_insert_timeout base5 ev, common_timeout))"

definition is_magic :: "timeval option \<Rightarrow> bool" where
  "is_magic tv \<longleftrightarrow> (case tv of None \<Rightarrow> False
     | Some t \<Rightarrow> tv_usec t AND COMMON_TIMEOUT_MASK = COMMON_TIMEOUT_MAGIC)"

lemma mask_usec_not_magic: "\<not> is_magic (Some (mask_usec tv))"
proof -
  have "(tv_usec tv AND MICROSECONDS_MASK) AND COMMON_TIMEOUT_MASK = 0"
    by (simp add: MICROSECONDS_MASK_def COMMON_TIMEOUT_MASK_def and.assoc)
  then show ?thesis by (simp add: is_magic_def mask_usec_def COMMON_TIMEOUT_MAGIC_def)
qed

text \<open>\<^verbatim>\<open>event_add_nolock_\<close> up to the timers; the flag says whether the event went to a
  common-timeout queue.\<close>

definition event_add_body ::
  "'b event_base \<Rightarrow> ev_ptr \<Rightarrow> timeval option \<Rightarrow> bool \<Rightarrow> 'b event_base \<times> int \<times> bool" where
  "event_add_body base ev tv tv_is_absolute =
     (let base0 = check (\<not> has (flags_of base ev) (NOT EVLIST_ALL)) base
      in if has (flags_of base0 ev) EVLIST_FINALIZING then (base0, -1, False)
         else case (if tv \<noteq> None \<and> \<not> has (flags_of base0 ev) EVLIST_TIMEOUT
                    then heap_reserve base0 (1 + min_heap_size (timeheap base0)) else (base0, 0)) of
           (base1, r) \<Rightarrow>
             if r = -1 then (base1, -1, False)
             else case event_add_map base1 ev of
               (base2, res) \<Rightarrow>
                 (case tv of
                    None \<Rightarrow> (base2, res, False)
                  | Some t \<Rightarrow>
                      if res = -1 then (base2, res, False)
                      else case event_add_timer base2 ev t tv_is_absolute of
                        (base3, common_timeout) \<Rightarrow> (base3, res, common_timeout)))"

lemma event_add_body_common:
  "event_add_body base ev tv ab = (base', res, True) \<Longrightarrow> is_magic tv"
  by (auto simp: event_add_body_def event_add_timer_def is_magic_def is_common_timeout_def Let_def
      split: prod.splits if_splits option.splits)

text \<open>Scheduling the first event of a common-timeout queue adds the queue's own timer with the
  masked, absolute deadline, so the recursion is at most one deep.\<close>

function event_add_nolock ::
  "'b event_base \<Rightarrow> ev_ptr \<Rightarrow> timeval option \<Rightarrow> bool \<Rightarrow> 'b event_base \<times> int" where
  "event_add_nolock base ev tv tv_is_absolute =
     (case event_add_body base ev tv tv_is_absolute of
        (base3, res, common_timeout) \<Rightarrow>
          let ctl = common_timeout_queues base3 ! COMMON_TIMEOUT_IDX (ev_timeout (mem base3 ev))
          in if common_timeout \<and> ctl_events ctl \<noteq> [] \<and> hd (ctl_events ctl) = ev
             then (fst (event_add_nolock base3 (timeout_event ctl)
                     (Some (mask_usec (ev_timeout (mem base3 ev)))) True), res)
             else (base3, res))"
  by pat_completeness auto

termination
proof (relation "measure (\<lambda>(base, ev, tv, ab). if is_magic tv then 1 else 0)")
qed (auto simp: mask_usec_not_magic dest: event_add_body_common [OF sym])

declare event_add_nolock.simps [simp del]

text \<open>The schedule step by name, as the callback of the queue's timer uses it.\<close>

definition common_timeout_schedule :: "'b event_base \<Rightarrow> common_timeout_list \<Rightarrow> ev_ptr \<Rightarrow> 'b event_base" where
  "common_timeout_schedule base ctl head =
     fst (event_add_nolock base (timeout_event ctl) (Some (mask_usec (ev_timeout (mem base head)))) True)"

definition event_add :: "'b event_base \<Rightarrow> ev_ptr \<Rightarrow> timeval option \<Rightarrow> 'b event_base \<times> int" where
  "event_add base ev tv =
     (if ev_base (mem base ev) = None then (base, -1) else event_add_nolock base ev tv False)"

text \<open>\<open>ev_io.ev_timeout\<close> shares its storage with the call counters of a signal event, so clearing
  it clears those as well.\<close>

definition event_remove_timer_nolock :: "'b event_base \<Rightarrow> ev_ptr \<Rightarrow> 'b event_base \<times> int" where
  "event_remove_timer_nolock base ev =
     (if has (flags_of base ev) EVLIST_TIMEOUT
      then (set_ev ev (\<lambda>e. e\<lparr>ev_io_timeout := evutil_timerclear, ev_ncalls := 0, ev_pncalls := False\<rparr>)
              (event_queue_remove_timeout base ev), 0)
      else (base, 0))"

definition event_remove_timer :: "'b event_base \<Rightarrow> ev_ptr \<Rightarrow> 'b event_base \<times> int" where
  "event_remove_timer base ev =
     (if ev_base (mem base ev) = None then (base, -1) else event_remove_timer_nolock base ev)"

subsection \<open>Deleting\<close>

datatype del_mode =
    EVENT_DEL_NOBLOCK
  | EVENT_DEL_BLOCK
  | EVENT_DEL_AUTOBLOCK
  | EVENT_DEL_EVEN_IF_FINALIZING

text \<open>The part of \<^verbatim>\<open>event_del_nolock_\<close> that takes the event off the active queues, and the
  part that takes it out of the maps.\<close>

definition event_del_active :: "'b event_base \<Rightarrow> ev_ptr \<Rightarrow> 'b event_base" where
  "event_del_active base ev =
     (if has (flags_of base ev) EVLIST_ACTIVE then event_queue_remove_active base ev
      else if has (flags_of base ev) EVLIST_ACTIVE_LATER then event_queue_remove_active_later base ev
      else base)"

definition event_del_map :: "'b event_base \<Rightarrow> ev_ptr \<Rightarrow> 'b event_base \<times> int" where
  "event_del_map base ev =
     (if has (flags_of base ev) EVLIST_INSERTED then
        let base1 = event_queue_remove_inserted base ev
        in case (if has (ev_events (mem base1 ev)) (EV_READ OR EV_WRITE OR EV_CLOSED)
                 then evmap_io_del base1 (ev_fd (mem base1 ev)) ev
                 else evmap_signal_del base1 (ev_fd (mem base1 ev)) ev) of
             (base2, res) \<Rightarrow> (base2, if res = 1 then 0 else res)
      else (base, 0))"

definition event_del_nolock :: "'b event_base \<Rightarrow> ev_ptr \<Rightarrow> del_mode \<Rightarrow> 'b event_base \<times> int" where
  "event_del_nolock base ev blocking =
     (if ev_base (mem base ev) = None then (base, -1)
      else if blocking \<noteq> EVENT_DEL_EVEN_IF_FINALIZING \<and> has (flags_of base ev) EVLIST_FINALIZING then (base, 0)
      else let base0 = check (\<not> has (flags_of base ev) (NOT EVLIST_ALL)) base;
               base1 = abort_signal_loop base0 ev;
               base2 = (if has (flags_of base1 ev) EVLIST_TIMEOUT then event_queue_remove_timeout base1 ev else base1)
           in event_del_map (event_del_active base2 ev) ev)"

definition event_del_mode :: "'b event_base \<Rightarrow> ev_ptr \<Rightarrow> del_mode \<Rightarrow> 'b event_base \<times> int" where
  "event_del_mode base ev blocking =
     (if ev_base (mem base ev) = None then (base, -1) else event_del_nolock base ev blocking)"

definition event_del :: "'b event_base \<Rightarrow> ev_ptr \<Rightarrow> 'b event_base \<times> int" where
  "event_del base ev = event_del_mode base ev EVENT_DEL_AUTOBLOCK"

subsection \<open>Activating\<close>

definition event_callback_activate_nolock :: "'b event_base \<Rightarrow> ev_ptr \<Rightarrow> 'b event_base \<times> int" where
  "event_callback_activate_nolock base evcb =
     (let a = has (flags_of base evcb) EVLIST_ACTIVE; l = has (flags_of base evcb) EVLIST_ACTIVE_LATER
      in if has (flags_of base evcb) EVLIST_FINALIZING then (base, 0)
         else if a \<and> \<not> l then (base, 0)
         else if l then
           let base1 = check (\<not> a) base
           in (event_queue_insert_active (event_queue_remove_active_later base1 evcb) evcb, 0)
         else (event_queue_insert_active base evcb, 1))"

definition event_active_nolock :: "'b event_base \<Rightarrow> ev_ptr \<Rightarrow> u16 \<Rightarrow> int \<Rightarrow> 'b event_base" where
  "event_active_nolock base ev res ncalls =
     (let a = has (flags_of base ev) EVLIST_ACTIVE; l = has (flags_of base ev) EVLIST_ACTIVE_LATER
      in if has (flags_of base ev) EVLIST_FINALIZING then base
         else if a \<and> \<not> l then set_ev ev (ev_res_update (\<lambda>r. r OR res)) base
         else let base1 = (if a \<and> l then check False base
                           else if l then set_ev ev (ev_res_update (\<lambda>r. r OR res)) base
                           else set_ev ev (ev_res_update (\<lambda>_. res)) base);
                  base2 = (if int (ev_pri (mem base1 ev)) < event_running_priority base1
                           then base1\<lparr>event_continue := True\<rparr> else base1);
                  base3 = (if has (ev_events (mem base2 ev)) EV_SIGNAL
                           then set_ev ev (\<lambda>e. e\<lparr>ev_ncalls := ncalls, ev_pncalls := False\<rparr>) base2 else base2)
              in fst (event_callback_activate_nolock base3 ev))"

definition event_active :: "'b event_base \<Rightarrow> ev_ptr \<Rightarrow> u16 \<Rightarrow> int \<Rightarrow> 'b event_base" where
  "event_active base ev res ncalls =
     (if ev_base (mem base ev) = None then base else event_active_nolock base ev res ncalls)"

definition event_callback_activate_later_nolock :: "'b event_base \<Rightarrow> ev_ptr \<Rightarrow> 'b event_base \<times> int" where
  "event_callback_activate_later_nolock base evcb =
     (if has (flags_of base evcb) (EVLIST_ACTIVE OR EVLIST_ACTIVE_LATER) then (base, 0)
      else (event_queue_insert_active_later base evcb, 1))"

definition event_active_later_nolock :: "'b event_base \<Rightarrow> ev_ptr \<Rightarrow> u16 \<Rightarrow> 'b event_base" where
  "event_active_later_nolock base ev res =
     (if has (flags_of base ev) (EVLIST_ACTIVE OR EVLIST_ACTIVE_LATER)
      then set_ev ev (ev_res_update (\<lambda>r. r OR res)) base
      else fst (event_callback_activate_later_nolock (set_ev ev (ev_res_update (\<lambda>_. res)) base) ev))"

definition event_callback_cancel_nolock :: "'b event_base \<Rightarrow> ev_ptr \<Rightarrow> bool \<Rightarrow> 'b event_base \<times> int" where
  "event_callback_cancel_nolock base evcb even_if_finalizing =
     (let a = has (flags_of base evcb) EVLIST_ACTIVE; l = has (flags_of base evcb) EVLIST_ACTIVE_LATER
      in if has (flags_of base evcb) EVLIST_FINALIZING \<and> \<not> even_if_finalizing then (base, 0)
         else if has (flags_of base evcb) EVLIST_INIT then
           event_del_nolock base evcb
             (if even_if_finalizing then EVENT_DEL_EVEN_IF_FINALIZING else EVENT_DEL_AUTOBLOCK)
         else if a \<and> l then (check False base, 0)
         else if a then (event_queue_remove_active base evcb, 0)
         else if l then (event_queue_remove_active_later base evcb, 0)
         else (base, 0))"

subsection \<open>Deferred callbacks\<close>

text \<open>\<^verbatim>\<open>memset(cb, 0, sizeof(*cb))\<close> clears the callback part of the structure only.\<close>

definition evcb_clear :: "event \<Rightarrow> event" where
  "evcb_clear e = e\<lparr>ev_flags := 0, ev_pri := 0, ev_closure := EV_CLOSURE_EVENT, ev_callback := 0, ev_arg := 0\<rparr>"

definition event_callback_init :: "'b event_base \<Rightarrow> ev_ptr \<Rightarrow> 'b event_base" where
  "event_callback_init base cb = set_ev cb (\<lambda>e. (evcb_clear e)\<lparr>ev_pri := nactivequeues base - 1\<rparr>) base"

definition event_deferred_cb_init :: "'b event_base \<Rightarrow> ev_ptr \<Rightarrow> nat \<Rightarrow> nat \<Rightarrow> nat \<Rightarrow> 'b event_base" where
  "event_deferred_cb_init base cb priority fn arg =
     set_ev cb (\<lambda>e. (evcb_clear e)\<lparr>ev_callback := fn, ev_arg := arg, ev_pri := priority,
                                   ev_closure := EV_CLOSURE_CB_SELF\<rparr>) base"

definition event_deferred_cb_set_priority :: "'b event_base \<Rightarrow> ev_ptr \<Rightarrow> nat \<Rightarrow> 'b event_base" where
  "event_deferred_cb_set_priority base cb priority = set_ev cb (ev_pri_update (\<lambda>_. priority)) base"

definition event_deferred_cb_cancel :: "'b event_base \<Rightarrow> ev_ptr \<Rightarrow> 'b event_base" where
  "event_deferred_cb_cancel base cb = fst (event_callback_cancel_nolock base cb False)"

definition MAX_DEFERREDS_QUEUED :: int where "MAX_DEFERREDS_QUEUED = 32"

definition event_deferred_cb_schedule :: "'b event_base \<Rightarrow> ev_ptr \<Rightarrow> 'b event_base \<times> int" where
  "event_deferred_cb_schedule base cb =
     (if n_deferreds_queued base > MAX_DEFERREDS_QUEUED then event_callback_activate_later_nolock base cb
      else case event_callback_activate_nolock base cb of
             (base1, r) \<Rightarrow>
               (if r \<noteq> 0 then base1\<lparr>n_deferreds_queued := n_deferreds_queued base1 + 1\<rparr> else base1, r))"

subsection \<open>Finalising\<close>

definition event_finalize_nolock :: "'b event_base \<Rightarrow> bool \<Rightarrow> ev_ptr \<Rightarrow> nat \<Rightarrow> 'b event_base \<times> int" where
  "event_finalize_nolock base free ev cb =
     (let base1 = fst (event_del_nolock base ev EVENT_DEL_NOBLOCK);
          base2 = set_ev ev (\<lambda>e. e\<lparr>ev_closure := (if free then EV_CLOSURE_EVENT_FINALIZE_FREE
                                                 else EV_CLOSURE_EVENT_FINALIZE), ev_callback := cb\<rparr>) base1;
          base3 = event_active_nolock base2 ev EV_FINALIZE 1
      in (set_ev ev (set_flag EVLIST_FINALIZING) base3, 0))"

definition event_finalize_impl :: "'b event_base \<Rightarrow> bool \<Rightarrow> ev_ptr \<Rightarrow> nat \<Rightarrow> 'b event_base \<times> int" where
  "event_finalize_impl base free ev cb =
     (if ev_base (mem base ev) = None then (base, -1) else event_finalize_nolock base free ev cb)"

definition event_callback_finalize_nolock :: "'b event_base \<Rightarrow> ev_ptr \<Rightarrow> nat \<Rightarrow> 'b event_base" where
  "event_callback_finalize_nolock base evcb cb =
     (let base1 = (if has (flags_of base evcb) EVLIST_INIT
                   then fst (event_del_nolock base evcb EVENT_DEL_NOBLOCK)
                   else fst (event_callback_cancel_nolock base evcb False));
          base2 = set_ev evcb (\<lambda>e. e\<lparr>ev_closure := EV_CLOSURE_CB_FINALIZE, ev_callback := cb\<rparr>) base1;
          base3 = fst (event_callback_activate_nolock base2 evcb)
      in set_ev evcb (set_flag EVLIST_FINALIZING) base3)"

fun finalize_many_loop :: "'b event_base \<Rightarrow> ev_ptr list \<Rightarrow> nat \<Rightarrow> nat \<Rightarrow> 'b event_base \<times> nat" where
  "finalize_many_loop base [] cb n_pending = (base, n_pending)"
| "finalize_many_loop base (evcb # evcbs) cb n_pending =
     (if current_event base = Some evcb
      then finalize_many_loop (event_callback_finalize_nolock base evcb cb) evcbs cb (n_pending + 1)
      else finalize_many_loop (fst (event_callback_cancel_nolock base evcb False)) evcbs cb n_pending)"

text \<open>With no callback at all, \<^verbatim>\<open>evcbs[0]\<close> is read out of bounds.\<close>

definition event_callback_finalize_many :: "'b event_base \<Rightarrow> ev_ptr list \<Rightarrow> nat \<Rightarrow> 'b event_base \<times> int" where
  "event_callback_finalize_many base evcbs cb =
     (case finalize_many_loop base evcbs cb 0 of
        (base1, n_pending) \<Rightarrow>
          if n_pending = 0 then
            (case evcbs of [] \<Rightarrow> (check False base1, 0)
             | evcb # _ \<Rightarrow> (event_callback_finalize_nolock base1 evcb cb, 0))
          else (base1, 0))"
subsection \<open>Reports of the backend\<close>

definition evmap_io_active :: "'b event_base \<Rightarrow> int \<Rightarrow> u16 \<Rightarrow> 'b event_base" where
  "evmap_io_active base fd events =
     (if fd < 0 \<or> fd \<ge> int (length (io base)) then base
      else case io base ! nat fd of
             None \<Rightarrow> base
           | Some ctx \<Rightarrow>
               fold (\<lambda>ev b. if has (ev_events (mem b ev)) events
                            then event_active_nolock b ev (ev_events (mem b ev) AND events) 1 else b)
                 (io_events ctx) base)"

definition evmap_signal_active :: "'b event_base \<Rightarrow> int \<Rightarrow> int \<Rightarrow> 'b event_base" where
  "evmap_signal_active base sig ncalls =
     (if sig < 0 \<or> sig \<ge> int (length (sigmap base)) then base
      else case sigmap base ! nat sig of
             None \<Rightarrow> base
           | Some ctx \<Rightarrow> fold (\<lambda>ev b. event_active_nolock b ev EV_SIGNAL ncalls) (sig_events ctx) base)"

subsection \<open>Elapsed timers\<close>

text \<open>\<^verbatim>\<open>timeout_next\<close> gets the timeout variable of the loop; the second component of its
  result is what \<^verbatim>\<open>*tv_p\<close> then points at.\<close>

definition timeout_next :: "'b event_base \<Rightarrow> timeval \<Rightarrow> 'b event_base \<times> timeval option \<times> int" where
  "timeout_next base tv =
     (case min_heap_top (timeheap base) of
        None \<Rightarrow> (base, None, 0)
      | Some ev \<Rightarrow>
          (case gettime base of
             (base1, None) \<Rightarrow> (base1, Some tv, -1)
           | (base1, Some now) \<Rightarrow>
               if ev_timeout (mem base1 ev) \<le> now then (base1, Some evutil_timerclear, 0)
               else let tv1 = evutil_timersub (ev_timeout (mem base1 ev)) now
                    in (check (tv_usec tv1 \<ge> 0) (check (tv_sec tv1 \<ge> 0) base1), Some tv1, 0)))"

partial_function (option) timeout_process_loop :: "'b event_base \<Rightarrow> timeval \<Rightarrow> 'b event_base option" where
  "timeout_process_loop base now =
     (case min_heap_top (timeheap base) of
        None \<Rightarrow> Some base
      | Some ev \<Rightarrow>
          if ev_timeout (mem base ev) > now then Some base
          else timeout_process_loop
                 (event_active_nolock (fst (event_del_nolock base ev EVENT_DEL_NOBLOCK)) ev EV_TIMEOUT 1) now)"

definition timeout_process :: "'b event_base \<Rightarrow> 'b event_base option" where
  "timeout_process base =
     (if min_heap_empty (timeheap base) then Some base
      else case gettime_now base of (base1, now) \<Rightarrow> timeout_process_loop base1 now)"

subsection \<open>Common-timeout queues\<close>

definition common_timeout_due :: "timeval \<Rightarrow> timeval \<Rightarrow> bool" where
  "common_timeout_due t now \<longleftrightarrow>
     \<not> (tv_sec t > tv_sec now \<or> tv_sec t = tv_sec now \<and> tv_usec t AND MICROSECONDS_MASK > tv_usec now)"

partial_function (option) common_timeout_loop ::
  "'b event_base \<Rightarrow> nat \<Rightarrow> timeval \<Rightarrow> 'b event_base option" where
  "common_timeout_loop base i now =
     (case ctl_events (common_timeout_queues base ! i) of
        [] \<Rightarrow> Some base
      | ev # _ \<Rightarrow>
          if \<not> common_timeout_due (ev_timeout (mem base ev)) now
          then Some (common_timeout_schedule base (common_timeout_queues base ! i) ev)
          else common_timeout_loop
                 (event_active_nolock (fst (event_del_nolock base ev EVENT_DEL_NOBLOCK)) ev EV_TIMEOUT 1) i now)"

text \<open>The argument of the callback, the list's address, is its index among the queues.\<close>

definition common_timeout_callback :: "'b event_base \<Rightarrow> nat \<Rightarrow> 'b event_base option" where
  "common_timeout_callback base ctl =
     (case gettime_now base of (base1, now) \<Rightarrow> common_timeout_loop base1 ctl now)"

text \<open>The functions of the library that are installed as callbacks, and the address of the base.\<close>

abbreviation CB_common_timeout_callback :: nat where "CB_common_timeout_callback \<equiv> 1"
abbreviation CB_event_once_cb :: nat where "CB_event_once_cb \<equiv> 2"
abbreviation CB_event_loopexit_cb :: nat where "CB_event_loopexit_cb \<equiv> 3"
abbreviation this_base :: nat where "this_base \<equiv> 1"

text \<open>The duration normalised as \<^verbatim>\<open>event_base_init_common_timeout\<close> does it.\<close>

definition common_duration :: "'b event_base \<Rightarrow> timeval \<Rightarrow> timeval" where
  "common_duration base duration =
     (if tv_usec duration > 1000000 then
        let tv = (if is_common_timeout duration base then mask_usec duration else duration)
        in Timeval (tv_sec tv + tv_usec tv div 1000000) (tv_usec tv mod 1000000)
      else duration)"

fun find_common_timeout :: "common_timeout_list list \<Rightarrow> timeval \<Rightarrow> common_timeout_list option" where
  "find_common_timeout [] duration = None"
| "find_common_timeout (ctl # ctls) duration =
     (if tv_sec duration = tv_sec (ctl_duration ctl) \<and>
         tv_usec duration = tv_usec (ctl_duration ctl) AND MICROSECONDS_MASK
      then Some ctl else find_common_timeout ctls duration)"

definition grow_common_timeouts :: "'b event_base \<Rightarrow> 'b event_base \<times> bool" where
  "grow_common_timeouts base =
     (if n_common_timeouts_allocated base = n_common_timeouts base then
        let n = (if n_common_timeouts base < 16 then 16 else n_common_timeouts base * 2)
        in case mm_alloc base of
             (base1, None) \<Rightarrow> (base1, False)
           | (base1, Some _) \<Rightarrow> (base1\<lparr>n_common_timeouts_allocated := n\<rparr>, True)
      else (base, True))"

definition append_common_timeout :: "'b event_base \<Rightarrow> ev_ptr \<Rightarrow> timeval \<Rightarrow> 'b event_base \<times> timeval" where
  "append_common_timeout base p duration =
     (let n = n_common_timeouts base;
          dur = Timeval (tv_sec duration)
                  ((tv_usec duration OR COMMON_TIMEOUT_MAGIC) OR push_bit 20 (int n));
          base1 = set_ev p (\<lambda>_. zero_event) base;
          base2 = fst (event_assign base1 p (Some this_base) (-1) 0 CB_common_timeout_callback n);
          base3 = set_ev p (set_flag EVLIST_INTERNAL) base2;
          base4 = fst (event_priority_set base3 p 0);
          ctl = \<lparr>ctl_events = [], ctl_duration = dur, timeout_event = p\<rparr>
      in (base4\<lparr>common_timeout_queues := common_timeout_queues base4 @ [ctl]\<rparr>, dur))"

definition event_base_init_common_timeout :: "'b event_base \<Rightarrow> timeval \<Rightarrow> 'b event_base \<times> timeval option" where
  "event_base_init_common_timeout base duration =
     (let dur = common_duration base duration
      in case find_common_timeout (common_timeout_queues base) dur of
           Some ctl \<Rightarrow> (check (is_common_timeout (ctl_duration ctl) base) base, Some (ctl_duration ctl))
         | None \<Rightarrow>
             if n_common_timeouts base = MAX_COMMON_TIMEOUTS then (base, None)
             else case grow_common_timeouts base of
               (base1, False) \<Rightarrow> (base1, None)
             | (base1, True) \<Rightarrow>
                 (case mm_alloc base1 of
                    (base2, None) \<Rightarrow> (base2, None)
                  | (base2, Some p) \<Rightarrow>
                      (case append_common_timeout base2 p dur of
                         (base3, result) \<Rightarrow> (check (is_common_timeout result base3) base3, Some result))))"

subsection \<open>Allocated and one-time events\<close>

definition event_new :: "'b event_base \<Rightarrow> int \<Rightarrow> u16 \<Rightarrow> nat \<Rightarrow> nat \<Rightarrow> 'b event_base \<times> ev_ptr option" where
  "event_new base fd events cb arg =
     (case mm_alloc base of
        (base1, None) \<Rightarrow> (base1, None)
      | (base1, Some ev) \<Rightarrow>
          (case event_assign base1 ev (Some this_base) fd events cb arg of
             (base2, r) \<Rightarrow> if r < 0 then (base2, None) else (base2, Some ev)))"

definition event_free :: "'b event_base \<Rightarrow> ev_ptr \<Rightarrow> 'b event_base" where
  "event_free base ev = fst (event_del base ev)"

definition event_base_once ::
  "'b event_base \<Rightarrow> int \<Rightarrow> u16 \<Rightarrow> nat \<Rightarrow> nat \<Rightarrow> timeval option \<Rightarrow> 'b event_base \<times> int" where
  "event_base_once base fd events callback arg tv =
     (if has events (EV_SIGNAL OR EV_PERSIST) then (base, -1)
      else case mm_alloc base of
        (base1, None) \<Rightarrow> (base1, -1)
      | (base1, Some eonce) \<Rightarrow>
          let base2 = set_ev eonce (\<lambda>_. zero_event) base1;
              is_timeout = (events AND (EV_TIMEOUT OR EV_SIGNAL OR EV_READ OR EV_WRITE OR EV_CLOSED) = EV_TIMEOUT);
              activate = (is_timeout \<and> (tv = None \<or> \<not> evutil_timerisset (the tv)))
          in if \<not> is_timeout \<and> \<not> has events (EV_READ OR EV_WRITE OR EV_CLOSED) then (base2, -1)
             else let base3 =
                    (if is_timeout
                     then fst (event_assign base2 eonce (Some this_base) (-1) 0 CB_event_once_cb eonce)
                     else fst (event_assign base2 eonce (Some this_base) fd
                            (events AND (EV_READ OR EV_WRITE OR EV_CLOSED)) CB_event_once_cb eonce));
                  (base4, res) =
                    (if activate then (event_active_nolock base3 eonce EV_TIMEOUT 1, 0)
                     else event_add_nolock base3 eonce tv False)
              in if res \<noteq> 0 then (base4, res)
                 else (base4\<lparr>once_events :=
                         \<lparr>once_ev = eonce, once_cb = callback, once_arg = arg\<rparr> # once_events base4\<rparr>, 0))"

definition event_base_loopexit :: "'b event_base \<Rightarrow> timeval option \<Rightarrow> 'b event_base \<times> int" where
  "event_base_loopexit base tv = event_base_once base (-1) EV_TIMEOUT CB_event_loopexit_cb this_base tv"

end
