(* ===== verification/Event_Loop.thy ===== *)
theory Event_Loop
  imports Event_Core
begin

text \<open>
  Running callbacks and the main loop (\<^verbatim>\<open>event.c\<close>).  The functions of the user are one
  parameter \<open>ucb\<close>, which gets the call (function pointer and arguments) and the base, and returns
  the base as the callback leaves it; every call is appended to \<open>called\<close>.  A callback may activate
  itself again, so no loop below has a bound: each is a partial function whose value \<open>None\<close> means
  that it does not return.
\<close>

subsection \<open>Calling\<close>

type_synonym 'b callbacks = "call \<Rightarrow> 'b event_base \<Rightarrow> 'b event_base"

definition invoke :: "'b callbacks \<Rightarrow> call \<Rightarrow> 'b event_base \<Rightarrow> 'b event_base" where
  "invoke ucb c base = ucb c (base\<lparr>called := called base @ [c]\<rparr>)"

definition event_loopexit_cb :: "'b event_base \<Rightarrow> 'b event_base" where
  "event_loopexit_cb base = base\<lparr>event_gotterm := True\<rparr>"

definition event_once_cb :: "'b callbacks \<Rightarrow> 'b event_base \<Rightarrow> int \<Rightarrow> u16 \<Rightarrow> nat \<Rightarrow> 'b event_base" where
  "event_once_cb ucb base fd events arg =
     (case find (\<lambda>eonce. once_ev eonce = arg) (once_events base) of
        None \<Rightarrow> check False base
      | Some eonce \<Rightarrow>
          let base1 = (if once_cb eonce = CB_event_loopexit_cb then event_loopexit_cb base
                       else invoke ucb (Call_event (once_cb eonce) fd events (once_arg eonce)) base)
          in base1\<lparr>once_events := remove1 eonce (once_events base1)\<rparr>)"

text \<open>\<^verbatim>\<open>(*ev->ev_callback)(fd, res, arg)\<close>, for the library's own functions and the user's.\<close>

definition call_event ::
  "'b callbacks \<Rightarrow> 'b event_base \<Rightarrow> nat \<Rightarrow> int \<Rightarrow> u16 \<Rightarrow> nat \<Rightarrow> 'b event_base option" where
  "call_event ucb base fn fd res arg =
     (if fn = CB_common_timeout_callback then common_timeout_callback base arg
      else if fn = CB_event_once_cb then Some (event_once_cb ucb base fd res arg)
      else if fn = CB_event_loopexit_cb then Some (event_loopexit_cb base)
      else Some (invoke ucb (Call_event fn fd res arg) base))"

subsection \<open>Closures\<close>

text \<open>Conversion to \<^verbatim>\<open>short\<close>.\<close>

definition to_short :: "int \<Rightarrow> int" where
  "to_short n = (n + 0x8000) mod 0x10000 - 0x8000"

text \<open>The local \<^verbatim>\<open>ncalls\<close> of \<^verbatim>\<open>event_signal_closure\<close> is the field \<open>sig_ncalls\<close>, which
  \<^verbatim>\<open>event_del\<close> and \<^verbatim>\<open>event_add\<close> clear through \<^verbatim>\<open>ev_pncalls\<close>.\<close>

partial_function (option) event_signal_loop ::
  "'b callbacks \<Rightarrow> 'b event_base \<Rightarrow> ev_ptr \<Rightarrow> 'b event_base option" where
  "event_signal_loop ucb base ev =
     (if sig_ncalls base = 0 then Some base
      else let n = to_short (sig_ncalls base - 1);
               base1 = set_ev ev (ev_ncalls_update (\<lambda>_. n)) (base\<lparr>sig_ncalls := n\<rparr>);
               base2 = (if n = 0 then set_ev ev (ev_pncalls_update (\<lambda>_. False)) base1 else base1);
               e = mem base2 ev
           in Option.bind (call_event ucb base2 (ev_callback e) (ev_fd e) (ev_res e) (ev_arg e))
                (\<lambda>base3. if event_break base3
                  then Some (if sig_ncalls base3 \<noteq> 0 then set_ev ev (ev_pncalls_update (\<lambda>_. False)) base3
                             else base3)
                  else event_signal_loop ucb base3 ev))"

definition event_signal_closure :: "'b callbacks \<Rightarrow> 'b event_base \<Rightarrow> ev_ptr \<Rightarrow> 'b event_base option" where
  "event_signal_closure ucb base ev =
     (let base1 = base\<lparr>sig_ncalls := ev_ncalls (mem base ev)\<rparr>;
          base2 = (if sig_ncalls base1 \<noteq> 0 then set_ev ev (ev_pncalls_update (\<lambda>_. True)) base1 else base1)
      in event_signal_loop ucb base2 ev)"

text \<open>When a persistent event with a timeout runs next.\<close>

definition persist_run_at :: "'b event_base \<Rightarrow> ev_ptr \<Rightarrow> timeval \<Rightarrow> timeval" where
  "persist_run_at base ev now =
     (let e = mem base ev;
          common = is_common_timeout (ev_timeout e) base;
          usec_mask = (if common then tv_usec (ev_io_timeout e) AND NOT MICROSECONDS_MASK else 0);
          delay = (if common then mask_usec (ev_io_timeout e) else ev_io_timeout e);
          relative_to = (if has (ev_res e) EV_TIMEOUT
                         then (if common then mask_usec (ev_timeout e) else ev_timeout e) else now);
          run_at0 = evutil_timeradd relative_to delay;
          run_at = (if run_at0 < now then evutil_timeradd now delay else run_at0)
      in Timeval (tv_sec run_at) (tv_usec run_at OR usec_mask))"

definition persist_reschedule :: "'b event_base \<Rightarrow> ev_ptr \<Rightarrow> 'b event_base" where
  "persist_reschedule base ev =
     (if evutil_timerisset (ev_io_timeout (mem base ev)) then
        let base1 = check (is_same_common_timeout (ev_timeout (mem base ev)) (ev_io_timeout (mem base ev))) base
        in case gettime_now base1 of
             (base2, now) \<Rightarrow> fst (event_add_nolock base2 ev (Some (persist_run_at base2 ev now)) True)
      else base)"

definition event_persist_closure :: "'b callbacks \<Rightarrow> 'b event_base \<Rightarrow> ev_ptr \<Rightarrow> 'b event_base option" where
  "event_persist_closure ucb base ev =
     (let base1 = persist_reschedule base ev; e = mem base1 ev
      in call_event ucb base1 (ev_callback e) (ev_fd e) (ev_res e) (ev_arg e))"

subsection \<open>Active queues\<close>

definition run_closure :: "'b callbacks \<Rightarrow> 'b event_base \<Rightarrow> ev_ptr \<Rightarrow> bool \<Rightarrow> 'b event_base option" where
  "run_closure ucb base evcb is_event =
     (let e = mem base evcb
      in case ev_closure e of
           EV_CLOSURE_EVENT_SIGNAL \<Rightarrow> event_signal_closure ucb (check is_event base) evcb
         | EV_CLOSURE_EVENT_PERSIST \<Rightarrow> event_persist_closure ucb (check is_event base) evcb
         | EV_CLOSURE_EVENT \<Rightarrow>
             call_event ucb (check is_event base) (ev_callback e) (ev_fd e) (ev_res e) (ev_arg e)
         | EV_CLOSURE_CB_SELF \<Rightarrow> Some (invoke ucb (Call_self (ev_callback e) evcb (ev_arg e)) base)
         | EV_CLOSURE_CB_FINALIZE \<Rightarrow>
             (let base1 = check (has (ev_flags e) EVLIST_FINALIZING) (base\<lparr>current_event := None\<rparr>)
              in Some (invoke ucb (Call_cbfinalize (ev_callback e) evcb (ev_arg e)) base1))
         | _ \<Rightarrow>
             (let base1 = (check is_event base)\<lparr>current_event := None\<rparr>;
                  base2 = check (has (ev_flags e) EVLIST_FINALIZING) base1
              in Some (invoke ucb (Call_evfinalize (ev_callback e) evcb (ev_arg e)) base2)))"

text \<open>What happens to the callback at the head of the queue before its closure runs.\<close>

definition take_active :: "'b event_base \<Rightarrow> ev_ptr \<Rightarrow> 'b event_base" where
  "take_active base evcb =
     (if has (flags_of base evcb) EVLIST_INIT then
        if has (ev_events (mem base evcb)) EV_PERSIST \<or> has (flags_of base evcb) EVLIST_FINALIZING
        then event_queue_remove_active base evcb
        else fst (event_del_nolock base evcb EVENT_DEL_NOBLOCK)
      else event_queue_remove_active base evcb)"

text \<open>The end of an iteration: the result to return, or \<open>None\<close> to go on.\<close>

definition after_callback ::
  "'b event_base \<Rightarrow> int \<Rightarrow> int \<Rightarrow> timeval option \<Rightarrow> 'b event_base \<times> int option" where
  "after_callback base cnt max_to_process endtime =
     (if event_break base then (base, Some (-1))
      else if cnt \<ge> max_to_process then (base, Some cnt)
      else case (case endtime of
                   None \<Rightarrow> (base, False)
                 | Some e \<Rightarrow>
                     if cnt \<noteq> 0
                     then (case gettime_now (update_time_cache base) of (base1, now) \<Rightarrow> (base1, now \<ge> e))
                     else (base, False)) of
             (base1, late) \<Rightarrow>
               (base1, if late \<or> event_continue base1 then Some cnt else None))"

partial_function (option) process_queue_loop ::
  "'b callbacks \<Rightarrow> 'b event_base \<Rightarrow> nat \<Rightarrow> int \<Rightarrow> timeval option \<Rightarrow> int \<Rightarrow> ('b event_base \<times> int) option" where
  "process_queue_loop ucb base i max_to_process endtime cnt =
     (case activequeues base ! i of
        [] \<Rightarrow> Some (base, cnt)
      | evcb # _ \<Rightarrow>
          let is_event = has (flags_of base evcb) EVLIST_INIT;
              base1 = take_active base evcb;
              cnt1 = (if has (flags_of base1 evcb) EVLIST_INTERNAL then cnt else cnt + 1);
              base2 = base1\<lparr>current_event := Some evcb\<rparr>
          in Option.bind (run_closure ucb base2 evcb is_event)
               (\<lambda>base3. case after_callback (base3\<lparr>current_event := None\<rparr>) cnt1 max_to_process endtime of
                  (base4, Some r) \<Rightarrow> Some (base4, r)
                | (base4, None) \<Rightarrow> process_queue_loop ucb base4 i max_to_process endtime cnt1))"

definition event_process_active_single_queue ::
  "'b callbacks \<Rightarrow> 'b event_base \<Rightarrow> nat \<Rightarrow> int \<Rightarrow> timeval option \<Rightarrow> ('b event_base \<times> int) option" where
  "event_process_active_single_queue ucb base i max_to_process endtime =
     process_queue_loop ucb base i max_to_process endtime 0"

abbreviation INT_MAX :: int where "INT_MAX \<equiv> 2147483647"

partial_function (option) process_queues ::
  "'b callbacks \<Rightarrow> 'b event_base \<Rightarrow> nat \<Rightarrow> int \<Rightarrow> int \<Rightarrow> timeval option \<Rightarrow> int \<Rightarrow> ('b event_base \<times> int) option" where
  "process_queues ucb base i maxcb limit_after_prio endtime c =
     (if i \<ge> nactivequeues base then Some (base, c)
      else if activequeues base ! i = [] then process_queues ucb base (i + 1) maxcb limit_after_prio endtime c
      else Option.bind
             (if int i < limit_after_prio
              then event_process_active_single_queue ucb (base\<lparr>event_running_priority := int i\<rparr>) i INT_MAX None
              else event_process_active_single_queue ucb (base\<lparr>event_running_priority := int i\<rparr>) i maxcb endtime)
             (\<lambda>(base1, c1). if c1 \<noteq> 0 then Some (base1, c1)
                else process_queues ucb base1 (i + 1) maxcb limit_after_prio endtime c1))"

definition process_endtime :: "'b event_base \<Rightarrow> 'b event_base \<times> timeval option" where
  "process_endtime base =
     (if tv_sec (max_dispatch_time base) \<ge> 0 then
        case gettime_now (update_time_cache base) of
          (base1, tv) \<Rightarrow> (base1, Some (evutil_timeradd (max_dispatch_time base1) tv))
      else (base, None))"

definition event_process_active :: "'b callbacks \<Rightarrow> 'b event_base \<Rightarrow> ('b event_base \<times> int) option" where
  "event_process_active ucb base =
     (case process_endtime base of
        (base1, endtime) \<Rightarrow>
          Option.bind
            (process_queues ucb base1 0 (max_dispatch_callbacks base) (limit_callbacks_after_prio base) endtime 0)
            (\<lambda>(base2, c). Some (base2\<lparr>event_running_priority := -1\<rparr>, c)))"

subsection \<open>The loop\<close>

definition event_base_loopbreak :: "'b event_base \<Rightarrow> 'b event_base \<times> int" where
  "event_base_loopbreak base = (base\<lparr>event_break := True\<rparr>, 0)"

definition event_base_loopcontinue :: "'b event_base \<Rightarrow> 'b event_base \<times> int" where
  "event_base_loopcontinue base = (base\<lparr>event_continue := True\<rparr>, 0)"

definition event_base_got_break :: "'b event_base \<Rightarrow> bool" where
  "event_base_got_break base = event_break base"

definition event_base_got_exit :: "'b event_base \<Rightarrow> bool" where
  "event_base_got_exit base = event_gotterm base"

definition deliver :: "ready \<Rightarrow> 'b event_base \<Rightarrow> 'b event_base" where
  "deliver r base =
     (case r of ReadyIO fd events \<Rightarrow> evmap_io_active base fd events
      | ReadySignal sig ncalls \<Rightarrow> evmap_signal_active base sig ncalls)"

text \<open>\<^verbatim>\<open>evsel->dispatch(base, tv_p)\<close>: the backend waits and reports what is ready.\<close>

definition dispatch :: "'b event_base \<Rightarrow> timeval option \<Rightarrow> 'b event_base \<times> int" where
  "dispatch base tv_p =
     (case evop_dispatch (evsel base) (evbase base) (io base) tv_p of
        (b, m, readies, res) \<Rightarrow> (fold deliver readies (base\<lparr>evbase := b, io := m\<rparr>), res))"

abbreviation EVLOOP_ONCE :: u16 where "EVLOOP_ONCE \<equiv> 0x01"
abbreviation EVLOOP_NONBLOCK :: u16 where "EVLOOP_NONBLOCK \<equiv> 0x02"
abbreviation EVLOOP_NO_EXIT_ON_EMPTY :: u16 where "EVLOOP_NO_EXIT_ON_EMPTY \<equiv> 0x04"

text \<open>How long to wait: the timeout variable and what \<^verbatim>\<open>tv_p\<close> points at.\<close>

definition loop_timeout :: "'b event_base \<Rightarrow> u16 \<Rightarrow> timeval \<Rightarrow> 'b event_base \<times> timeval \<times> timeval option" where
  "loop_timeout base flags tv =
     (if N_ACTIVE_CALLBACKS base = 0 \<and> \<not> has flags EVLOOP_NONBLOCK then
        case timeout_next base tv of
          (base1, None, _) \<Rightarrow> (base1, tv, None)
        | (base1, Some t, _) \<Rightarrow> (base1, t, Some t)
      else (base, evutil_timerclear, Some evutil_timerclear))"

text \<open>The second half of an iteration, after a successful dispatch; the flag is \<^verbatim>\<open>done\<close>.\<close>

definition loop_process :: "'b callbacks \<Rightarrow> 'b event_base \<Rightarrow> u16 \<Rightarrow> ('b event_base \<times> bool) option" where
  "loop_process ucb base flags =
     Option.bind (timeout_process (update_time_cache base))
       (\<lambda>base1.
          if N_ACTIVE_CALLBACKS base1 \<noteq> 0 then
            Option.bind (event_process_active ucb base1)
              (\<lambda>(base2, n). Some (base2, has flags EVLOOP_ONCE \<and> N_ACTIVE_CALLBACKS base2 = 0 \<and> n \<noteq> 0))
          else Some (base1, has flags EVLOOP_NONBLOCK))"

partial_function (option) event_loop_iter ::
  "'b callbacks \<Rightarrow> 'b event_base \<Rightarrow> u16 \<Rightarrow> timeval \<Rightarrow> ('b event_base \<times> int) option" where
  "event_loop_iter ucb base flags tv =
     (let base1 = base\<lparr>event_continue := False, n_deferreds_queued := 0\<rparr>
      in if event_gotterm base1 \<or> event_break base1 then Some (base1, 0)
         else case loop_timeout base1 flags tv of
           (base2, tv1, tv_p) \<Rightarrow>
             if \<not> has flags EVLOOP_NO_EXIT_ON_EMPTY \<and> \<not> event_haveevents base2 \<and> N_ACTIVE_CALLBACKS base2 = 0
             then Some (base2, 1)
             else case dispatch (clear_time_cache (event_queue_make_later_events_active base2)) tv_p of
               (base3, res) \<Rightarrow>
                 if res = -1 then Some (base3, -1)
                 else Option.bind (loop_process ucb base3 flags)
                        (\<lambda>(base4, don). if don then Some (base4, 0) else event_loop_iter ucb base4 flags tv1))"

definition event_base_loop :: "'b callbacks \<Rightarrow> 'b event_base \<Rightarrow> u16 \<Rightarrow> ('b event_base \<times> int) option" where
  "event_base_loop ucb base flags =
     (if running_loop base then Some (base, -1)
      else let base1 = (clear_time_cache (base\<lparr>running_loop := True\<rparr>))\<lparr>event_gotterm := False, event_break := False\<rparr>
           in Option.bind (event_loop_iter ucb base1 flags (stack_junk base1))
                (\<lambda>(base2, retval). Some ((clear_time_cache base2)\<lparr>running_loop := False\<rparr>, retval)))"

definition event_base_dispatch :: "'b callbacks \<Rightarrow> 'b event_base \<Rightarrow> ('b event_base \<times> int) option" where
  "event_base_dispatch ucb base = event_base_loop ucb base 0"

end
