(* ===== verification/Event_Inv.thy ===== *)
theory Event_Inv
  imports Event_Core
begin

text \<open>
  The invariant of the event core and that every operation of \<^verbatim>\<open>event.c\<close> keeps it.  The
  queue operations change nothing of an event but its flags and its index in the heap
  (\<open>payload\<close>), so what an operation does is described by its effect on the flags; the
  invariant \<open>wf_base\<close> ties the flags to the queues, the timers, the counters and the maps.
\<close>

subsection \<open>What the queue operations leave of an event\<close>

definition noidx :: "event \<Rightarrow> event" where
  "noidx e = e\<lparr>min_heap_idx := 0\<rparr>"

definition payload :: "event \<Rightarrow> event" where
  "payload e = e\<lparr>ev_flags := 0, min_heap_idx := 0\<rparr>"

lemma noidx_upd [simp]: "noidx (min_heap_idx_update f e) = noidx e"
  by (simp add: noidx_def)

lemma noidx_upd_ev [simp]: "noidx (upd_ev e (min_heap_idx_update f) evs x) = noidx (evs x)"
  by (simp add: upd_ev_apply)

lemma noidx_fields:
  assumes "noidx a = noidx b"
  shows "payload a = payload b" "ev_flags a = ev_flags b"
proof -
  have "payload a = payload (noidx a)" "ev_flags a = ev_flags (noidx a)" for a
    by (simp_all add: payload_def noidx_def)
  then show "payload a = payload b" "ev_flags a = ev_flags b" using assms by metis+
qed

lemma payload_fields:
  assumes "payload a = payload b"
  shows "ev_pri a = ev_pri b" "ev_closure a = ev_closure b" "ev_callback a = ev_callback b"
    "ev_arg a = ev_arg b" "ev_fd a = ev_fd b" "ev_base a = ev_base b" "ev_io_timeout a = ev_io_timeout b"
    "ev_ncalls a = ev_ncalls b" "ev_pncalls a = ev_pncalls b" "ev_events a = ev_events b"
    "ev_res a = ev_res b" "ev_timeout a = ev_timeout b"
  using assms by (simp_all add: payload_def event.equality) (cases a; cases b; simp)+

lemma payload_flags [simp]: "payload (ev_flags_update f e) = payload e"
  by (simp add: payload_def)

lemma payload_upd_flags [simp]: "payload (upd_ev e (ev_flags_update f) evs x) = payload (evs x)"
  by (simp add: upd_ev_apply)

lemma shift_up_noidx [simp]: "noidx (snd (min_heap_shift_up s evs h e) x) = noidx (evs x)"
proof (induction s evs h e rule: min_heap_shift_up.induct)
  case (1 s evs h e)
  show ?case
    by (subst min_heap_shift_up.simps) (use 1 in \<open>simp add: Let_def heap_place_def\<close>)
qed

lemma shift_down_noidx [simp]: "noidx (snd (min_heap_shift_down s evs h e) x) = noidx (evs x)"
proof (induction s evs h e rule: min_heap_shift_down.induct)
  case (1 s evs h e)
  show ?case
    by (subst min_heap_shift_down.simps) (use 1 in \<open>simp add: Let_def heap_place_def\<close>)
qed

lemma push_noidx [simp]: "noidx (fst (snd (min_heap_push ok s evs e)) x) = noidx (evs x)"
  using shift_up_noidx by (simp add: min_heap_push_def case_prod_unfold)

lemma erase_noidx [simp]: "noidx (fst (snd (min_heap_erase s evs e)) x) = noidx (evs x)"
  by (simp add: min_heap_erase_def min_heap_shift_up_unconditional_def min_heap_elem_init_def
      case_prod_unfold Let_def heap_place_def)

lemma clr_idle: "\<not> has f m \<Longrightarrow> clr f m = f"
  unfolding has_def clr_def by (rule bit_eqI) (auto simp: bit_eq_iff bit_simps)

subsection \<open>Effect on the flags\<close>

lemma queue_flags_effect [simp]:
  "flags_of (event_queue_remove_inserted base e) x =
     (if x = e then clr (flags_of base x) EVLIST_INSERTED else flags_of base x)"
  "flags_of (event_queue_remove_active base e) x =
     (if x = e then clr (flags_of base x) EVLIST_ACTIVE else flags_of base x)"
  "flags_of (event_queue_remove_active_later base e) x =
     (if x = e then clr (flags_of base x) EVLIST_ACTIVE_LATER else flags_of base x)"
  by (simp_all add: event_queue_remove_inserted_def event_queue_remove_active_def
      event_queue_remove_active_later_def Let_def clr_idle)

lemma remove_timeout_noidx:
  "noidx (mem (event_queue_remove_timeout base e) x) =
     noidx (if x = e then clear_flag EVLIST_TIMEOUT (mem base x) else mem base x)"
proof (cases "has (flags_of base e) EVLIST_TIMEOUT")
  case True
  then show ?thesis
    by (simp add: event_queue_remove_timeout_def Let_def case_prod_unfold upd_ev_apply)
next
  case False
  then show ?thesis
    by (simp add: event_queue_remove_timeout_def clr_idle noidx_def)
qed

lemma heap_push_noidx [simp]: "noidx (mem (heap_push base e) x) = noidx (mem base x)"
  by (simp add: heap_push_def Let_def case_prod_unfold mm_alloc_def)

lemma inorder_mem [simp]: "mem (insert_common_timeout_inorder base i e) = mem base"
  by (simp add: insert_common_timeout_inorder_def Let_def case_prod_unfold)

lemma insert_timeout_noidx:
  "noidx (mem (event_queue_insert_timeout base e) x) =
     noidx (if x = e \<and> \<not> has (flags_of base e) EVLIST_TIMEOUT
            then set_flag EVLIST_TIMEOUT (mem base x) else mem base x)"
  by (simp add: event_queue_insert_timeout_def Let_def upd_ev_apply)

lemma timeout_flags_effect [simp]:
  "flags_of (event_queue_remove_timeout base e) x =
     (if x = e then clr (flags_of base x) EVLIST_TIMEOUT else flags_of base x)"
  "flags_of (event_queue_insert_timeout base e) x =
     (if x = e \<and> \<not> has (flags_of base e) EVLIST_TIMEOUT
      then flags_of base x OR EVLIST_TIMEOUT else flags_of base x)"
  using noidx_fields(2) [OF remove_timeout_noidx [of base e x]]
    noidx_fields(2) [OF insert_timeout_noidx [of base e x]] by simp_all

lemma insert_flags_effect [simp]:
  "flags_of (event_queue_insert_inserted base e) x =
     (if x = e \<and> \<not> has (flags_of base e) EVLIST_INSERTED
      then flags_of base x OR EVLIST_INSERTED else flags_of base x)"
  "flags_of (event_queue_insert_active base e) x =
     (if x = e \<and> \<not> has (flags_of base e) EVLIST_ACTIVE
      then flags_of base x OR EVLIST_ACTIVE else flags_of base x)"
  "flags_of (event_queue_insert_active_later base e) x =
     (if x = e \<and> \<not> has (flags_of base e) EVLIST_ACTIVE \<and> \<not> has (flags_of base e) EVLIST_ACTIVE_LATER
      then flags_of base x OR EVLIST_ACTIVE_LATER else flags_of base x)"
  by (simp_all add: event_queue_insert_inserted_def event_queue_insert_active_def
      event_queue_insert_active_later_def Let_def flag_simps)

subsection \<open>Operations that keep the events and the maps\<close>

definition keeps :: "'b event_base \<Rightarrow> 'b event_base \<Rightarrow> bool" where
  "keeps base base' \<longleftrightarrow>
     (\<forall>x. payload (mem base' x) = payload (mem base x)) \<and> io base' = io base \<and> sigmap base' = sigmap base \<and>
     nactivequeues base' = nactivequeues base \<and>
     map ctl_duration (common_timeout_queues base') = map ctl_duration (common_timeout_queues base) \<and>
     map timeout_event (common_timeout_queues base') = map timeout_event (common_timeout_queues base)"

lemma keeps_refl [simp]: "keeps base base"
  by (simp add: keeps_def)

lemma keeps_trans: "keeps a b \<Longrightarrow> keeps b c \<Longrightarrow> keeps a c"
  by (simp add: keeps_def)

lemma keepsD:
  assumes "keeps base base'"
  shows "ev_pri (mem base' x) = ev_pri (mem base x)" "ev_closure (mem base' x) = ev_closure (mem base x)"
    "ev_fd (mem base' x) = ev_fd (mem base x)" "ev_base (mem base' x) = ev_base (mem base x)"
    "ev_events (mem base' x) = ev_events (mem base x)" "ev_res (mem base' x) = ev_res (mem base x)"
    "ev_timeout (mem base' x) = ev_timeout (mem base x)" "nactivequeues base' = nactivequeues base"
    "io base' = io base" "sigmap base' = sigmap base" "n_common_timeouts base' = n_common_timeouts base"
    "ev_io_timeout (mem base' x) = ev_io_timeout (mem base x)"
proof -
  have "payload (mem base' x) = payload (mem base x)" using assms by (simp add: keeps_def)
  note payload_fields [OF this]
  then show "ev_pri (mem base' x) = ev_pri (mem base x)" "ev_closure (mem base' x) = ev_closure (mem base x)"
    "ev_fd (mem base' x) = ev_fd (mem base x)" "ev_base (mem base' x) = ev_base (mem base x)"
    "ev_events (mem base' x) = ev_events (mem base x)" "ev_res (mem base' x) = ev_res (mem base x)"
    "ev_timeout (mem base' x) = ev_timeout (mem base x)"
    "ev_io_timeout (mem base' x) = ev_io_timeout (mem base x)" by blast+
  show "nactivequeues base' = nactivequeues base" "io base' = io base" "sigmap base' = sigmap base"
    using assms by (simp_all add: keeps_def)
  show "n_common_timeouts base' = n_common_timeouts base"
    using assms unfolding keeps_def by (metis length_map)
qed

lemma queue_keeps [simp, intro]:
  "keeps base (event_queue_remove_inserted base e)" "keeps base (event_queue_insert_inserted base e)"
  "keeps base (event_queue_remove_active base e)" "keeps base (event_queue_insert_active base e)"
  "keeps base (event_queue_remove_active_later base e)" "keeps base (event_queue_insert_active_later base e)"
  by (simp_all add: keeps_def event_queue_remove_inserted_def event_queue_insert_inserted_def
      event_queue_remove_active_def event_queue_insert_active_def event_queue_remove_active_later_def
      event_queue_insert_active_later_def Let_def)

lemma map_upd_same: "f y = f (xs ! i) \<Longrightarrow> map f (xs[i := y]) = map f xs"
  by (simp add: map_update list_update_same_conv nth_map) (metis list_update_beyond list_update_id map_update not_le)

lemma timeout_keeps [simp, intro]:
  "keeps base (event_queue_remove_timeout base e)" "keeps base (event_queue_insert_timeout base e)"
proof -
  have "payload (mem (event_queue_remove_timeout base e) x) = payload (mem base x)" for x
    using noidx_fields(1) [OF remove_timeout_noidx [of base e x]] by (simp split: if_splits)
  then show "keeps base (event_queue_remove_timeout base e)"
    by (simp add: keeps_def event_queue_remove_timeout_def Let_def case_prod_unfold map_upd_same)
  have "payload (mem (event_queue_insert_timeout base e) x) = payload (mem base x)" for x
    using noidx_fields(1) [OF insert_timeout_noidx [of base e x]] by (simp split: if_splits)
  then show "keeps base (event_queue_insert_timeout base e)"
    by (simp add: keeps_def event_queue_insert_timeout_def insert_common_timeout_inorder_def Let_def
        case_prod_unfold map_upd_same)
qed

lemma maps_keep: "keeps base base' \<Longrightarrow> maps_are base S \<Longrightarrow> maps_are base' S"
  by (erule maps_cong) (simp_all add: keepsD)

subsection \<open>The invariant\<close>

text \<open>An event that is ready to be activated: assigned to the base, with a valid priority.\<close>

definition set_up :: "'b event_base \<Rightarrow> ev_ptr \<Rightarrow> bool" where
  "set_up base e \<longleftrightarrow>
     ev_pri (mem base e) < nactivequeues base \<and> ev_base (mem base e) \<noteq> None \<and> has (flags_of base e) EVLIST_INIT"

definition event_ok :: "'b event_base \<Rightarrow> ev_ptr \<Rightarrow> bool" where
  "event_ok base e \<longleftrightarrow>
     \<not> has (flags_of base e) (NOT EVLIST_ALL) \<and>
     (has (flags_of base e) EVLIST_FINALIZING \<longrightarrow>
        \<not> has (flags_of base e) EVLIST_TIMEOUT \<and> \<not> has (flags_of base e) EVLIST_INSERTED) \<and>
     (has (flags_of base e) EVLIST_TIMEOUT \<or> has (flags_of base e) EVLIST_INSERTED \<longrightarrow> set_up base e)"

definition core_ok :: "'b event_base \<Rightarrow> bool" where
  "core_ok base \<longleftrightarrow>
     queues_ok base \<and> timers_ok base \<and> counts_ok base \<and> (\<forall>e. event_ok base e) \<and> \<not> died base"

definition wf_base :: "'b event_base \<Rightarrow> bool" where
  "wf_base base \<longleftrightarrow> core_ok base \<and> maps_are base (flagged base EVLIST_INSERTED)"

lemma coreD:
  assumes "core_ok base"
  shows "queues_ok base" "timers_ok base" "counts_ok base" "event_ok base e" "\<not> died base"
  using assms by (simp_all add: core_ok_def)

lemma coreI:
  assumes "queues_ok base" "timers_ok base" "counts_ok base" "\<And>e. event_ok base e" "\<not> died base"
  shows "core_ok base"
  using assms by (simp add: core_ok_def)

lemma has_neg_literals [simp]:
  "has (numeral a :: 'a::len word) (- numeral b) \<longleftrightarrow> (numeral a AND - numeral b :: 'a word) \<noteq> 0"
  "has (1 :: 'a::len word) (- numeral b) \<longleftrightarrow> (1 AND - numeral b :: 'a word) \<noteq> 0"
  by (simp_all add: has_def)

text \<open>An operation that sets or clears the flag \<open>m\<close> of one event and keeps the rest of every event
  keeps \<open>event_ok\<close>.\<close>

lemma event_ok_clear:
  assumes k: "keeps base base'" and m: "m \<in> {EVLIST_INSERTED, EVLIST_TIMEOUT, EVLIST_ACTIVE, EVLIST_ACTIVE_LATER}"
    and fl: "\<And>x. flags_of base' x = (if x = e then clr (flags_of base x) m else flags_of base x)"
    and ok: "event_ok base x"
  shows "event_ok base' x"
  using m ok unfolding event_ok_def set_up_def fl keepsD [OF k] by auto

lemma event_ok_set:
  assumes k: "keeps base base'" and m: "m \<in> {EVLIST_INSERTED, EVLIST_TIMEOUT, EVLIST_ACTIVE, EVLIST_ACTIVE_LATER}"
    and fl: "\<And>x. flags_of base' x = (if x = e then flags_of base x OR m else flags_of base x)"
    and ok: "event_ok base x"
    and e: "m \<in> {EVLIST_INSERTED, EVLIST_TIMEOUT} \<Longrightarrow> set_up base e \<and> \<not> has (flags_of base e) EVLIST_FINALIZING"
  shows "event_ok base' x"
  using m ok e unfolding event_ok_def set_up_def fl keepsD [OF k] by auto

subsection \<open>Queue operations\<close>

lemma remove_inserted_core:
  assumes c: "core_ok base" and f: "has (flags_of base e) EVLIST_INSERTED"
  shows "core_ok (event_queue_remove_inserted base e)"
  by (rule coreI) (use coreD [OF c] remove_inserted_ok [OF f] in
      \<open>auto simp: remove_inserted_mem(2) [OF f] intro: event_ok_clear [OF queue_keeps(1)]\<close>)

lemma insert_inserted_core:
  assumes c: "core_ok base" and f: "\<not> has (flags_of base e) EVLIST_INSERTED"
    and e: "set_up base e" "\<not> has (flags_of base e) EVLIST_FINALIZING"
  shows "core_ok (event_queue_insert_inserted base e)"
  by (rule coreI) (use coreD [OF c] insert_inserted_ok [OF f] f e in
      \<open>auto simp: insert_inserted_mem(2) [OF f] intro: event_ok_set [OF queue_keeps(2), where m = EVLIST_INSERTED]\<close>)

lemma remove_active_core:
  assumes c: "core_ok base" and f: "has (flags_of base e) EVLIST_ACTIVE"
  shows "core_ok (event_queue_remove_active base e)"
  by (rule coreI) (use coreD [OF c] remove_active_queues [OF _ f] remove_active_ok [OF f] in
      \<open>auto simp: remove_active_mem(3) [OF f] intro: event_ok_clear [OF queue_keeps(3)]\<close>)

lemma insert_active_core:
  assumes c: "core_ok base" and f: "\<not> has (flags_of base e) EVLIST_ACTIVE_LATER"
    and e: "ev_pri (mem base e) < nactivequeues base"
  shows "core_ok (event_queue_insert_active base e)"
proof (cases "has (flags_of base e) EVLIST_ACTIVE")
  case True
  then show ?thesis using c by (simp add: insert_active_idle)
next
  case False
  show ?thesis
    by (rule coreI) (use coreD [OF c] insert_active_queues [OF _ False f e] insert_active_ok [OF False] e False in
        \<open>auto simp: insert_active_mem(3) [OF False] intro: event_ok_set [OF queue_keeps(4), where m = EVLIST_ACTIVE]\<close>)
qed

lemma remove_later_core:
  assumes c: "core_ok base" and f: "has (flags_of base e) EVLIST_ACTIVE_LATER"
  shows "core_ok (event_queue_remove_active_later base e)"
  by (rule coreI) (use coreD [OF c] remove_later_queues [OF _ f] remove_later_ok [OF f] in
      \<open>auto simp: remove_later_mem(3) [OF f] intro: event_ok_clear [OF queue_keeps(5)]\<close>)

lemma insert_later_core:
  assumes c: "core_ok base" and e: "ev_pri (mem base e) < nactivequeues base"
  shows "core_ok (event_queue_insert_active_later base e)"
proof (cases "has (flags_of base e) EVLIST_ACTIVE \<or> has (flags_of base e) EVLIST_ACTIVE_LATER")
  case True
  then show ?thesis using c by (auto simp: event_queue_insert_active_later_def flag_simps)
next
  case False
  then have f: "\<not> has (flags_of base e) EVLIST_ACTIVE" "\<not> has (flags_of base e) EVLIST_ACTIVE_LATER" by auto
  show ?thesis
    by (rule coreI) (use coreD [OF c] insert_later_queues [OF _ f e] insert_later_ok [OF f] e f in
        \<open>auto simp: insert_later_mem(3) [OF f] intro: event_ok_set [OF queue_keeps(6), where m = EVLIST_ACTIVE_LATER]\<close>)
qed

lemma remove_timeout_core:
  assumes c: "core_ok base" and f: "has (flags_of base e) EVLIST_TIMEOUT"
  shows "core_ok (event_queue_remove_timeout base e)"
  by (rule coreI) (use coreD [OF c] remove_timeout_ok(1,2) [OF coreD(2) [OF c] f]
      remove_timeout_rest [OF coreD(2) [OF c] f] in
      \<open>auto intro: event_ok_clear [OF timeout_keeps(1)]\<close>)

lemma insert_timeout_core:
  assumes c: "core_ok base" and f: "\<not> has (flags_of base e) EVLIST_TIMEOUT" and r: "timer_ready base e"
    and e: "set_up base e" "\<not> has (flags_of base e) EVLIST_FINALIZING"
  shows "core_ok (event_queue_insert_timeout base e)"
  by (rule coreI) (use coreD [OF c] insert_timeout_ok(1,2) [OF coreD(2) [OF c] f r]
      insert_timeout_rest [OF coreD(2) [OF c] f r] f e in
      \<open>auto intro: event_ok_set [OF timeout_keeps(2), where m = EVLIST_TIMEOUT]\<close>)

subsection \<open>Changes outside the queues\<close>

lemma core_cong:
  assumes c: "core_ok base"
    and q: "activequeues base' = activequeues base" "active_later_queue base' = active_later_queue base"
      "timeheap base' = timeheap base" "common_timeout_queues base' = common_timeout_queues base"
      "event_count base' = event_count base" "event_count_max base' = event_count_max base"
      "event_count_active base' = event_count_active base"
      "event_count_active_max base' = event_count_active_max base" "died base' = died base"
    and e: "\<And>x. flags_of base' x = flags_of base x" "\<And>x. ev_pri (mem base' x) = ev_pri (mem base x)"
      "\<And>x. ev_base (mem base' x) = ev_base (mem base x)"
      "\<And>x. has (flags_of base x) EVLIST_TIMEOUT \<Longrightarrow>
        tmo (mem base') x = tmo (mem base) x \<and> min_heap_idx (mem base' x) = min_heap_idx (mem base x)"
  shows "core_ok base'"
proof (rule coreI)
  show "queues_ok base'" by (rule queues_cong [OF q(1,2) _ _ _ coreD(1) [OF c]]) (simp_all add: e)
  show "timers_ok base'" by (rule timers_cong [OF q(3,4) _ _ coreD(2) [OF c]]) (simp_all add: e)
  show "counts_ok base'" by (rule counts_cong [OF q(5-8) _ coreD(3) [OF c]]) (simp_all add: e)
  show "event_ok base' x" for x using coreD(4) [OF c, of x] by (simp add: event_ok_def set_up_def e q)
  show "\<not> died base'" using coreD(5) [OF c] q by simp
qed

lemma core_set_ev:
  assumes "core_ok base" "ev_flags (f (mem base e)) = flags_of base e" "ev_pri (f (mem base e)) = ev_pri (mem base e)"
    "ev_base (f (mem base e)) = ev_base (mem base e)"
    "has (flags_of base e) EVLIST_TIMEOUT \<Longrightarrow>
      ev_timeout (f (mem base e)) = tmo (mem base) e \<and> min_heap_idx (f (mem base e)) = min_heap_idx (mem base e)"
  shows "core_ok (set_ev e f base)"
  by (rule core_cong [OF assms(1)]) (use assms(2-) in \<open>auto simp: upd_ev_apply\<close>)

lemma inv_cong:
  assumes i: "wf_base base" and c: "core_ok base'" and m: "io base' = io base" "sigmap base' = sigmap base"
    and e: "\<And>x. ev_events (mem base' x) = ev_events (mem base x)" "\<And>x. ev_fd (mem base' x) = ev_fd (mem base x)"
      "\<And>x. has (flags_of base' x) EVLIST_INSERTED = has (flags_of base x) EVLIST_INSERTED"
  shows "wf_base base'"
proof -
  have "flagged base' EVLIST_INSERTED = flagged base EVLIST_INSERTED" by (simp add: flagged_def e)
  moreover have "maps_are base' (flagged base EVLIST_INSERTED)"
    by (rule maps_cong [of base]) (use i m e in \<open>auto simp: wf_base_def\<close>)
  ultimately show ?thesis using c by (simp add: wf_base_def)
qed

lemma inv_keeps:
  assumes "wf_base base" "keeps base base'" "core_ok base'"
    and "\<And>x. has (flags_of base' x) EVLIST_INSERTED = has (flags_of base x) EVLIST_INSERTED"
  shows "wf_base base'"
  by (rule inv_cong [OF assms(1,3)]) (use assms(2,4) in \<open>simp_all add: keepsD\<close>)

lemma abort_signal_loop_fields [simp]:
  "mem (abort_signal_loop base e) = mem base" "io (abort_signal_loop base e) = io base"
  "sigmap (abort_signal_loop base e) = sigmap base" "activequeues (abort_signal_loop base e) = activequeues base"
  "active_later_queue (abort_signal_loop base e) = active_later_queue base"
  "timeheap (abort_signal_loop base e) = timeheap base"
  "common_timeout_queues (abort_signal_loop base e) = common_timeout_queues base"
  "event_count (abort_signal_loop base e) = event_count base"
  "event_count_max (abort_signal_loop base e) = event_count_max base"
  "event_count_active (abort_signal_loop base e) = event_count_active base"
  "event_count_active_max (abort_signal_loop base e) = event_count_active_max base"
  "mm (abort_signal_loop base e) = mm base" "mm_calls (abort_signal_loop base e) = mm_calls base"
  "died (abort_signal_loop base e) = died base" "keeps base (abort_signal_loop base e)"
  by (simp_all add: abort_signal_loop_def keeps_def)

lemma abort_signal_loop_core: "core_ok base \<Longrightarrow> core_ok (abort_signal_loop base e)"
  by (erule core_cong) simp_all

subsection \<open>Deleting\<close>

lemma clr_clr: "clr (clr f a) b = clr f (a OR b)"
  by (simp add: clr_def and.assoc bit.de_Morgan_disj)

lemma event_del_active_ok:
  assumes "core_ok base"
  shows "core_ok (event_del_active base e)" "keeps base (event_del_active base e)"
    "flags_of (event_del_active base e) x = (if x = e then clr (flags_of base x) 0x28 else flags_of base x)"
proof -
  let ?f = "flags_of base e"
  have ex: "\<not> (has ?f EVLIST_ACTIVE \<and> has ?f EVLIST_ACTIVE_LATER)"
    using queuesD(5) [OF coreD(1) [OF assms], of e] by blast
  show "core_ok (event_del_active base e)"
    using assms remove_active_core [OF assms] remove_later_core [OF assms]
    by (simp add: event_del_active_def)
  show "keeps base (event_del_active base e)" by (simp add: event_del_active_def)
  have "clr ?f EVLIST_ACTIVE = clr ?f 0x28" if "\<not> has ?f EVLIST_ACTIVE_LATER"
    using clr_clr [of ?f EVLIST_ACTIVE_LATER EVLIST_ACTIVE] that by (simp add: clr_idle)
  moreover have "clr ?f EVLIST_ACTIVE_LATER = clr ?f 0x28" if "\<not> has ?f EVLIST_ACTIVE"
    using clr_clr [of ?f EVLIST_ACTIVE EVLIST_ACTIVE_LATER] that by (simp add: clr_idle)
  moreover have "clr ?f 0x28 = ?f" if "\<not> has ?f EVLIST_ACTIVE" "\<not> has ?f EVLIST_ACTIVE_LATER"
    using that by (intro clr_idle) (simp add: flag_simps)
  ultimately show "flags_of (event_del_active base e) x =
      (if x = e then clr (flags_of base x) 0x28 else flags_of base x)"
    using ex by (auto simp: event_del_active_def)
qed

text \<open>Taking an event out of the maps, and putting it in.\<close>

lemma evmap_del_ok:
  assumes m: "maps_are base S" and e: "e \<in> S"
    and r: "(if io_kind (mem base e) then evmap_io_del base (ev_fd (mem base e)) e
        else evmap_signal_del base (ev_fd (mem base e)) e) = (base', r)"
  shows "r \<in> {-1, 0, 1} \<and> maps_are base' (S - {e}) \<and> (\<exists>m s b. base' = base\<lparr>io := m, sigmap := s, evbase := b\<rparr>)"
proof (cases "io_kind (mem base e)")
  case True
  then obtain m b where "r \<in> {-1, 0, 1}" "maps_are base' (S - {e})" "base' = base\<lparr>io := m, evbase := b\<rparr>"
    using evmap_io_del_ok [OF m e True] r by auto
  moreover have "base\<lparr>io := m, evbase := b\<rparr> = base\<lparr>io := m, sigmap := sigmap base, evbase := b\<rparr>" by simp
  ultimately show ?thesis by blast
next
  case False
  then obtain m b where "r \<in> {-1, 0, 1}" "maps_are base' (S - {e})" "base' = base\<lparr>sigmap := m, evbase := b\<rparr>"
    using evmap_signal_del_ok [OF m e False] r by auto
  moreover have "base\<lparr>sigmap := m, evbase := b\<rparr> = base\<lparr>io := io base, sigmap := m, evbase := b\<rparr>" by simp
  ultimately show ?thesis by blast
qed

lemma evmap_add_ok:
  assumes m: "maps_are base S" and e: "e \<notin> S"
    and k: "\<not> io_kind (mem base e) \<Longrightarrow> has (ev_events (mem base e)) EV_SIGNAL \<and> 0 \<le> ev_fd (mem base e)"
    and r: "(if io_kind (mem base e) then evmap_io_add base (ev_fd (mem base e)) e
        else evmap_signal_add base (ev_fd (mem base e)) e) = (base', r)"
  shows "r \<in> {-1, 0, 1} \<and> maps_are base' (if r = -1 then S else insert e S) \<and>
    (\<exists>m s b n. base' = base\<lparr>io := m, sigmap := s, evbase := b, mm_calls := n\<rparr>)"
proof (cases "io_kind (mem base e)")
  case True
  then obtain m b n where "r \<in> {-1, 0, 1}" "maps_are base' (if r = -1 then S else insert e S)"
      "base' = base\<lparr>io := m, evbase := b, mm_calls := n\<rparr>"
    using evmap_io_add_ok [OF m e True] r by auto
  moreover have "base\<lparr>io := m, evbase := b, mm_calls := n\<rparr> =
    base\<lparr>io := m, sigmap := sigmap base, evbase := b, mm_calls := n\<rparr>" by simp
  ultimately show ?thesis by blast
next
  case False
  then obtain m b n where "r \<in> {-1, 0, 1}" "maps_are base' (if r = -1 then S else insert e S)"
      "base' = base\<lparr>sigmap := m, evbase := b, mm_calls := n\<rparr>"
    using evmap_signal_add_ok [OF m e False] k [OF False] r by auto
  moreover have "base\<lparr>sigmap := m, evbase := b, mm_calls := n\<rparr> =
    base\<lparr>io := io base, sigmap := m, evbase := b, mm_calls := n\<rparr>" by simp
  ultimately show ?thesis by blast
qed

lemma event_del_map_ok:
  assumes i: "wf_base base" and r: "event_del_map base e = (base', r)"
  shows "wf_base base'" "r \<in> {-1, 0}" "\<exists>m s b. base' = (if has (flags_of base e) EVLIST_INSERTED
    then event_queue_remove_inserted base e else base)\<lparr>io := m, sigmap := s, evbase := b\<rparr>"
proof -
  have "wf_base base' \<and> r \<in> {-1, 0} \<and> (\<exists>m s b. base' = (if has (flags_of base e) EVLIST_INSERTED
    then event_queue_remove_inserted base e else base)\<lparr>io := m, sigmap := s, evbase := b\<rparr>)"
  proof (cases "has (flags_of base e) EVLIST_INSERTED")
    case True
    let ?b1 = "event_queue_remove_inserted base e" and ?S = "flagged base EVLIST_INSERTED"
    have c: "core_ok base" and m: "maps_are base ?S" using i by (simp_all add: wf_base_def)
    have c1: "core_ok ?b1" by (rule remove_inserted_core [OF c True])
    have m1: "maps_are ?b1 ?S" by (rule maps_keep [OF queue_keeps(1) m])
    have e: "e \<in> ?S" using True by (simp add: flagged_def)
    obtain r2 where eq: "(if io_kind (mem ?b1 e) then evmap_io_del ?b1 (ev_fd (mem ?b1 e)) e
        else evmap_signal_del ?b1 (ev_fd (mem ?b1 e)) e) = (base', r2)" and rr: "r = (if r2 = 1 then 0 else r2)"
      using r True by (auto simp: event_del_map_def Let_def io_kind_def split: prod.splits)
    note * = evmap_del_ok [OF m1 e eq]
    then obtain m s b where b': "base' = ?b1\<lparr>io := m, sigmap := s, evbase := b\<rparr>" by blast
    have "core_ok base'" by (rule core_cong [OF c1]) (simp_all add: b')
    moreover have "flagged base' EVLIST_INSERTED = ?S - {e}" by (auto simp: flagged_def b')
    ultimately have "wf_base base'" using * by (simp add: wf_base_def)
    then show ?thesis using * True rr by auto
  next
    case False
    then show ?thesis using i r
      by (auto simp: event_del_map_def intro!: exI [of _ "io base"] exI [of _ "sigmap base"] exI [of _ "evbase base"])
  qed
  then show "wf_base base'" "r \<in> {-1, 0}" "\<exists>m s b. base' = (if has (flags_of base e) EVLIST_INSERTED
    then event_queue_remove_inserted base e else base)\<lparr>io := m, sigmap := s, evbase := b\<rparr>" by blast+
qed

text \<open>The whole deletion: the event is on no queue and in no map any more, and no other event is
  touched.\<close>

definition assigned :: "event \<Rightarrow> int \<times> u16 \<times> nat option \<times> nat \<times> closure \<times> nat \<times> nat" where
  "assigned e = (ev_fd e, ev_events e, ev_base e, ev_pri e, ev_closure e, ev_callback e, ev_arg e)"

definition untouched :: "'b event_base \<Rightarrow> 'b event_base \<Rightarrow> bool" where
  "untouched base base' \<longleftrightarrow>
     (\<forall>x. assigned (mem base' x) = assigned (mem base x)) \<and> nactivequeues base' = nactivequeues base \<and>
     map ctl_duration (common_timeout_queues base') = map ctl_duration (common_timeout_queues base) \<and>
     map timeout_event (common_timeout_queues base') = map timeout_event (common_timeout_queues base)"

lemma payload_assigned: "payload a = payload b \<Longrightarrow> assigned a = assigned b"
  using payload_fields [of a b] by (simp add: assigned_def)

lemma keeps_untouched: "keeps base base' \<Longrightarrow> untouched base base'"
  unfolding keeps_def untouched_def using payload_assigned by blast

lemma untouchedD:
  assumes "untouched base base'"
  shows "ev_pri (mem base' x) = ev_pri (mem base x)" "ev_closure (mem base' x) = ev_closure (mem base x)"
    "ev_fd (mem base' x) = ev_fd (mem base x)" "ev_base (mem base' x) = ev_base (mem base x)"
    "ev_events (mem base' x) = ev_events (mem base x)" "ev_callback (mem base' x) = ev_callback (mem base x)"
    "ev_arg (mem base' x) = ev_arg (mem base x)" "nactivequeues base' = nactivequeues base"
    "n_common_timeouts base' = n_common_timeouts base"
proof -
  have "assigned (mem base' x) = assigned (mem base x)" using assms by (simp add: untouched_def)
  then show "ev_pri (mem base' x) = ev_pri (mem base x)" "ev_closure (mem base' x) = ev_closure (mem base x)"
    "ev_fd (mem base' x) = ev_fd (mem base x)" "ev_base (mem base' x) = ev_base (mem base x)"
    "ev_events (mem base' x) = ev_events (mem base x)" "ev_callback (mem base' x) = ev_callback (mem base x)"
    "ev_arg (mem base' x) = ev_arg (mem base x)" by (simp_all add: assigned_def)
  show "nactivequeues base' = nactivequeues base" "n_common_timeouts base' = n_common_timeouts base"
    using assms unfolding untouched_def by (metis length_map)+
qed

lemma untouched_refl [simp]: "untouched base base"
  by (simp add: untouched_def)

lemma untouched_trans: "untouched a b \<Longrightarrow> untouched b c \<Longrightarrow> untouched a c"
  by (simp add: untouched_def)

lemma event_del_nolock_ok:
  assumes i: "wf_base base" and b: "ev_base (mem base e) \<noteq> None"
    and f: "has (flags_of base e) EVLIST_FINALIZING \<Longrightarrow> blocking = EVENT_DEL_EVEN_IF_FINALIZING"
    and r: "event_del_nolock base e blocking = (base', r)"
  shows "wf_base base'" "r \<in> {-1, 0}" "untouched base base'"
    "flags_of base' x = (if x = e then clr (flags_of base x) 0x2b else flags_of base x)"
    "payload (mem base' x) = payload (mem base x)"
proof -
  have c: "core_ok base" using i by (simp add: wf_base_def)
  let ?b1 = "abort_signal_loop base e"
  let ?b2 = "if has (flags_of base e) EVLIST_TIMEOUT then event_queue_remove_timeout ?b1 e else ?b1"
  let ?b3 = "event_del_active ?b2 e"
  have c1: "core_ok ?b1" by (rule abort_signal_loop_core [OF c])
  have c2: "core_ok ?b2" using remove_timeout_core [OF c1, of e] c1 by simp
  note a = event_del_active_ok [OF c2, of e]
  have k: "keeps base ?b2"
    using keeps_trans [OF abort_signal_loop_fields(15) timeout_keeps(1), of base e] by simp
  have k3: "keeps base ?b3" by (rule keeps_trans [OF k a(2)])
  have f2: "flags_of ?b2 x = (if x = e then clr (flags_of base x) EVLIST_TIMEOUT else flags_of base x)" for x
    by (simp add: clr_idle)
  have f3: "flags_of ?b3 x = (if x = e then clr (flags_of base x) 0x29 else flags_of base x)" for x
    unfolding a(3) f2 by (simp add: clr_clr)
  have i3: "wf_base ?b3"
    by (rule inv_keeps [OF i k3 a(1)]) (unfold f3, simp)
  have m: "event_del_map ?b3 e = (base', r)"
    using r b f coreD(4) [OF c, of e]
    by (auto simp: event_del_nolock_def Let_def check_def event_ok_def split: if_splits)
  note d = event_del_map_ok [OF i3 m]
  then obtain m s bb where b': "base' = (if has (flags_of ?b3 e) EVLIST_INSERTED
    then event_queue_remove_inserted ?b3 e else ?b3)\<lparr>io := m, sigmap := s, evbase := bb\<rparr>" by blast
  show "wf_base base'" "r \<in> {-1, 0}" using d by blast+
  let ?b4 = "if has (flags_of ?b3 e) EVLIST_INSERTED then event_queue_remove_inserted ?b3 e else ?b3"
  have "untouched ?b3 ?b4" by (auto intro: keeps_untouched)
  moreover have "untouched ?b4 base'" by (simp add: b' untouched_def)
  ultimately show "untouched base base'"
    using keeps_untouched [OF k3] untouched_trans by blast
  have "payload (mem base' x) = payload (mem ?b4 x)" by (simp add: b')
  also have "\<dots> = payload (mem ?b3 x)" using queue_keeps(1) [of ?b3 e] by (simp add: keeps_def)
  also have "\<dots> = payload (mem base x)" using k3 by (simp add: keeps_def)
  finally show "payload (mem base' x) = payload (mem base x)" .
  have "flags_of base' x = flags_of ?b4 x" by (simp add: b')
  also have "\<dots> = (if x = e then clr (flags_of ?b3 x) EVLIST_INSERTED else flags_of ?b3 x)" by (simp add: clr_idle)
  also have "\<dots> = (if x = e then clr (flags_of base x) 0x2b else flags_of base x)"
    unfolding f3 by (simp add: clr_clr)
  finally show "flags_of base' x = (if x = e then clr (flags_of base x) 0x2b else flags_of base x)" .
qed

subsection \<open>Activating\<close>

lemma active_not_later:
  assumes "core_ok base"
  shows "has (flags_of base e) EVLIST_ACTIVE \<Longrightarrow> \<not> has (flags_of base e) EVLIST_ACTIVE_LATER"
  using queuesD(5) [OF coreD(1) [OF assms], of e] by blast

lemma event_callback_activate_nolock_ok:
  assumes i: "wf_base base" and p: "ev_pri (mem base e) < nactivequeues base"
    and r: "event_callback_activate_nolock base e = (base', r)"
  shows "wf_base base'" "keeps base base'"
    "flags_of base' x = (if x = e \<and> \<not> has (flags_of base e) EVLIST_FINALIZING \<and> \<not> has (flags_of base e) EVLIST_ACTIVE
       then clr (flags_of base x) EVLIST_ACTIVE_LATER OR EVLIST_ACTIVE else flags_of base x)"
    "r = (if has (flags_of base e) EVLIST_FINALIZING \<or> has (flags_of base e) EVLIST_ACTIVE \<or>
            has (flags_of base e) EVLIST_ACTIVE_LATER then 0 else 1)"
proof -
  let ?f = "flags_of base e" and ?l = "event_queue_remove_active_later base e"
  let ?a = "event_queue_insert_active (if has ?f EVLIST_ACTIVE_LATER then ?l else base) e"
  have c: "core_ok base" using i by (simp add: wf_base_def)
  have eq: "base' = (if has ?f EVLIST_FINALIZING \<or> has ?f EVLIST_ACTIVE then base else ?a)"
    "r = (if has ?f EVLIST_FINALIZING \<or> has ?f EVLIST_ACTIVE \<or> has ?f EVLIST_ACTIVE_LATER then 0 else 1)"
    using r active_not_later [OF c, of e]
    by (auto simp: event_callback_activate_nolock_def Let_def check_def split: if_splits)
  have k: "keeps base ?a" using keeps_trans [OF queue_keeps(5) queue_keeps(4), of base e e] by simp
  have "core_ok (if has ?f EVLIST_ACTIVE_LATER then ?l else base)" using remove_later_core [OF c] c by simp
  then have ca: "core_ok ?a"
    by (rule insert_active_core) (use p in \<open>simp_all add: keepsD(1,8) [OF queue_keeps(5)]\<close>)
  show "keeps base base'" using k by (simp add: eq)
  show fl: "flags_of base' x = (if x = e \<and> \<not> has ?f EVLIST_FINALIZING \<and> \<not> has ?f EVLIST_ACTIVE
       then clr (flags_of base x) EVLIST_ACTIVE_LATER OR EVLIST_ACTIVE else flags_of base x)" for x
    by (simp add: eq clr_idle)
  show "r = (if has ?f EVLIST_FINALIZING \<or> has ?f EVLIST_ACTIVE \<or> has ?f EVLIST_ACTIVE_LATER then 0 else 1)"
    by (rule eq(2))
  show "wf_base base'"
    by (rule inv_keeps [OF i \<open>keeps base base'\<close>]) (use ca c in \<open>simp_all add: fl, simp add: eq\<close>)
qed

text \<open>What activating an event does to the event itself.\<close>

definition activated :: "u16 \<Rightarrow> int \<Rightarrow> event \<Rightarrow> event" where
  "activated res ncalls e =
     (if has (ev_flags e) EVLIST_FINALIZING then e
      else if has (ev_flags e) EVLIST_ACTIVE then ev_res_update (\<lambda>r. r OR res) e
      else (if has (ev_events e) EV_SIGNAL then (\<lambda>e. e\<lparr>ev_ncalls := ncalls, ev_pncalls := False\<rparr>) else (\<lambda>e. e))
             (ev_res_update (\<lambda>r. if has (ev_flags e) EVLIST_ACTIVE_LATER then r OR res else res) e))"

lemma activated_fields [simp]:
  "ev_flags (activated res n e) = ev_flags e" "ev_pri (activated res n e) = ev_pri e"
  "ev_base (activated res n e) = ev_base e" "ev_events (activated res n e) = ev_events e"
  "ev_fd (activated res n e) = ev_fd e" "ev_timeout (activated res n e) = ev_timeout e"
  "ev_closure (activated res n e) = ev_closure e" "ev_callback (activated res n e) = ev_callback e"
  "ev_arg (activated res n e) = ev_arg e" "min_heap_idx (activated res n e) = min_heap_idx e"
  "ev_io_timeout (activated res n e) = ev_io_timeout e"
  by (simp_all add: activated_def)

lemma event_active_nolock_eq:
  assumes c: "core_ok base"
  shows "\<exists>c. event_active_nolock base e res n =
    (if has (flags_of base e) EVLIST_FINALIZING \<or> has (flags_of base e) EVLIST_ACTIVE
     then set_ev e (activated res n) base
     else fst (event_callback_activate_nolock ((set_ev e (activated res n) base)\<lparr>event_continue := c\<rparr>) e))"
proof -
  let ?f = "flags_of base e"
  let ?c = "event_continue base \<or> int (ev_pri (mem base e)) < event_running_priority base"
  have set: "set_ev e (activated res n) base = base\<lparr>mem := (mem base)(e := activated res n (mem base e))\<rparr>"
    by (simp add: set_ev_def upd_ev_def)
  note ex = active_not_later [OF c, of e]
  show ?thesis
  proof (rule exI [of _ ?c])
    show "event_active_nolock base e res n =
    (if has (flags_of base e) EVLIST_FINALIZING \<or> has (flags_of base e) EVLIST_ACTIVE
     then set_ev e (activated res n) base
     else fst (event_callback_activate_nolock ((set_ev e (activated res n) base)\<lparr>event_continue := ?c\<rparr>) e))"
    proof (cases "has ?f EVLIST_FINALIZING \<or> has ?f EVLIST_ACTIVE")
      case True
      then show ?thesis using ex unfolding set
        by (auto simp: event_active_nolock_def Let_def activated_def set_ev_def upd_ev_def)
    next
      case False
      have arg: "(let base1 = (if has ?f EVLIST_ACTIVE_LATER then set_ev e (ev_res_update (\<lambda>r. r OR res)) base
                     else set_ev e (ev_res_update (\<lambda>_. res)) base);
              base2 = (if int (ev_pri (mem base1 e)) < event_running_priority base1
                       then base1\<lparr>event_continue := True\<rparr> else base1)
          in if has (ev_events (mem base2 e)) EV_SIGNAL
             then set_ev e (\<lambda>e. e\<lparr>ev_ncalls := n, ev_pncalls := False\<rparr>) base2 else base2) =
        (set_ev e (activated res n) base)\<lparr>event_continue := ?c\<rparr>"
        unfolding set using False
        by (intro event_base.equality) (simp_all add: Let_def set_ev_def upd_ev_def activated_def)
      show ?thesis
        using False unfolding arg [symmetric] by (simp add: event_active_nolock_def Let_def)
    qed
  qed
qed

lemma event_active_nolock_ok:
  assumes i: "wf_base base" and p: "ev_pri (mem base e) < nactivequeues base"
    and base'_def: "base' = event_active_nolock base e res n"
  shows "wf_base base'" "untouched base base'"
    "flags_of base' x = (if x = e \<and> \<not> has (flags_of base e) EVLIST_FINALIZING \<and> \<not> has (flags_of base e) EVLIST_ACTIVE
       then clr (flags_of base x) EVLIST_ACTIVE_LATER OR EVLIST_ACTIVE else flags_of base x)"
    "payload (mem base' x) = payload (if x = e then activated res n (mem base e) else mem base x)"
proof -
  let ?b1 = "set_ev e (activated res n) base"
  have c: "core_ok base" using i by (simp add: wf_base_def)
  obtain ct where eq: "base' = (if has (flags_of base e) EVLIST_FINALIZING \<or> has (flags_of base e) EVLIST_ACTIVE
     then ?b1 else fst (event_callback_activate_nolock (?b1\<lparr>event_continue := ct\<rparr>) e))"
    using event_active_nolock_eq [OF c, of e res n] by (auto simp: base'_def)
  have c1: "core_ok ?b1" by (rule core_set_ev [OF c]) simp_all
  have i1: "wf_base ?b1" by (rule inv_cong [OF i c1]) (simp_all add: upd_ev_apply)
  have u1: "untouched base ?b1" by (simp add: untouched_def assigned_def upd_ev_apply)
  let ?b2 = "?b1\<lparr>event_continue := ct\<rparr>"
  have c2: "core_ok ?b2" by (rule core_cong [OF c1]) simp_all
  have i2: "wf_base ?b2" by (rule inv_cong [OF i1 c2]) simp_all
  note a = event_callback_activate_nolock_ok [OF i2, of e, OF _ surjective_pairing]
  have p2: "ev_pri (mem ?b2 e) < nactivequeues ?b2" using p by simp
  note a = a [OF p2]
  have u2: "untouched ?b1 ?b2" by (simp add: untouched_def)
  have fl: "flags_of ?b2 x = flags_of base x" for x by (simp add: upd_ev_apply)
  show "wf_base base'" using i1 a(1) by (simp add: eq)
  show "untouched base base'"
    using u1 untouched_trans [OF u1 untouched_trans [OF u2 keeps_untouched [OF a(2)]]] by (simp add: eq)
  show "flags_of base' x = (if x = e \<and> \<not> has (flags_of base e) EVLIST_FINALIZING \<and> \<not> has (flags_of base e) EVLIST_ACTIVE
       then clr (flags_of base x) EVLIST_ACTIVE_LATER OR EVLIST_ACTIVE else flags_of base x)"
    using a(3) [unfolded fl, of x] by (auto simp: eq upd_ev_apply)
  show "payload (mem base' x) = payload (if x = e then activated res n (mem base e) else mem base x)"
    unfolding eq using a(2) by (simp add: keeps_def upd_ev_apply)
qed

subsection \<open>Deferring, cancelling and finalising\<close>

lemma event_del_inv: "wf_base base \<Longrightarrow> wf_base (fst (event_del_nolock base e blocking))"
proof (cases "ev_base (mem base e) = None \<or>
    blocking \<noteq> EVENT_DEL_EVEN_IF_FINALIZING \<and> has (flags_of base e) EVLIST_FINALIZING")
  case True
  then show "wf_base base \<Longrightarrow> ?thesis" by (auto simp: event_del_nolock_def)
next
  case False
  assume "wf_base base"
  with False show ?thesis using event_del_nolock_ok(1) [OF _ _ _ surjective_pairing] by blast
qed

lemma event_callback_activate_later_ok:
  assumes i: "wf_base base" and p: "ev_pri (mem base e) < nactivequeues base"
  shows "wf_base (fst (event_callback_activate_later_nolock base e))"
    "untouched base (fst (event_callback_activate_later_nolock base e))"
proof -
  have c: "core_ok base" using i by (simp add: wf_base_def)
  have "wf_base (event_queue_insert_active_later base e)"
    by (rule inv_keeps [OF i queue_keeps(6) insert_later_core [OF c p]]) simp
  then show "wf_base (fst (event_callback_activate_later_nolock base e))"
    using i by (simp add: event_callback_activate_later_nolock_def)
  show "untouched base (fst (event_callback_activate_later_nolock base e))"
    by (simp add: event_callback_activate_later_nolock_def keeps_untouched)
qed

lemma set_res_inv:
  assumes i: "wf_base base"
  shows "wf_base (set_ev e (ev_res_update f) base)"
proof -
  have "core_ok (set_ev e (ev_res_update f) base)" by (rule core_set_ev) (use i in \<open>simp_all add: wf_base_def\<close>)
  then show ?thesis by (rule inv_cong [OF i]) (simp_all add: upd_ev_apply)
qed

lemma event_active_later_nolock_ok:
  assumes i: "wf_base base" and p: "ev_pri (mem base e) < nactivequeues base"
  shows "wf_base (event_active_later_nolock base e res)"
proof -
  have "wf_base (fst (event_callback_activate_later_nolock (set_ev e (ev_res_update f) base) e))" for f
    by (rule event_callback_activate_later_ok(1) [OF set_res_inv [OF i]]) (use p in simp)
  then show ?thesis using set_res_inv [OF i] by (simp add: event_active_later_nolock_def)
qed

lemma event_callback_cancel_nolock_ok:
  assumes i: "wf_base base"
  shows "wf_base (fst (event_callback_cancel_nolock base e efin))"
proof -
  have c: "core_ok base" using i by (simp add: wf_base_def)
  have "wf_base (event_queue_remove_active base e)" if "has (flags_of base e) EVLIST_ACTIVE"
    by (rule inv_keeps [OF i queue_keeps(3) remove_active_core [OF c that]]) simp
  moreover have "wf_base (event_queue_remove_active_later base e)" if "has (flags_of base e) EVLIST_ACTIVE_LATER"
    by (rule inv_keeps [OF i queue_keeps(5) remove_later_core [OF c that]]) simp
  ultimately show ?thesis
    using i event_del_inv [OF i] active_not_later [OF c, of e]
    by (auto simp: event_callback_cancel_nolock_def Let_def)
qed

lemma event_deferred_cb_schedule_ok:
  assumes i: "wf_base base" and p: "ev_pri (mem base e) < nactivequeues base"
  shows "wf_base (fst (event_deferred_cb_schedule base e))"
proof -
  note a = event_callback_activate_nolock_ok [OF i p surjective_pairing]
  let ?b = "fst (event_callback_activate_nolock base e)"
  have "core_ok (?b\<lparr>n_deferreds_queued := n\<rparr>)" for n
    by (rule core_cong [of ?b]) (use a(1) in \<open>simp_all add: wf_base_def\<close>)
  then have "wf_base (?b\<lparr>n_deferreds_queued := n\<rparr>)" for n
    by (rule inv_cong [OF a(1)]) simp_all
  then show ?thesis
    using a(1) event_callback_activate_later_ok(1) [OF i p]
    by (simp add: event_deferred_cb_schedule_def case_prod_unfold)
qed

text \<open>Marking an idle event as finalising, and redirecting its callback.\<close>

lemma set_finalizing_inv:
  assumes i: "wf_base base" and f: "\<not> has (flags_of base e) EVLIST_TIMEOUT" "\<not> has (flags_of base e) EVLIST_INSERTED"
  shows "wf_base (set_ev e (set_flag EVLIST_FINALIZING) base)"
proof -
  let ?b = "set_ev e (set_flag EVLIST_FINALIZING) base"
  have c: "core_ok base" using i by (simp add: wf_base_def)
  have "core_ok ?b"
  proof (rule coreI)
    show "queues_ok ?b" by (rule queues_cong [OF _ _ _ _ _ coreD(1) [OF c]]) (auto simp: upd_ev_apply)
    show "timers_ok ?b" by (rule timers_cong [OF _ _ _ _ coreD(2) [OF c]]) (auto simp: upd_ev_apply)
    show "counts_ok ?b" by (rule counts_cong [OF _ _ _ _ _ coreD(3) [OF c]]) (auto simp: upd_ev_apply)
    show "event_ok ?b x" for x
      using coreD(4) [OF c, of x] f by (auto simp: event_ok_def set_up_def upd_ev_apply)
    show "\<not> died ?b" using coreD(5) [OF c] by simp
  qed
  then show ?thesis by (rule inv_cong [OF i]) (simp_all add: upd_ev_apply)
qed

lemma set_callback_inv:
  assumes i: "wf_base base"
  shows "wf_base (set_ev e (\<lambda>x. x\<lparr>ev_closure := k, ev_callback := cb\<rparr>) base)"
proof -
  have "core_ok (set_ev e (\<lambda>x. x\<lparr>ev_closure := k, ev_callback := cb\<rparr>) base)"
    by (rule core_set_ev) (use i in \<open>simp_all add: wf_base_def\<close>)
  then show ?thesis by (rule inv_cong [OF i]) (simp_all add: upd_ev_apply)
qed

lemma event_finalize_nolock_ok:
  assumes i: "wf_base base" and b: "ev_base (mem base e) \<noteq> None" and p: "ev_pri (mem base e) < nactivequeues base"
    and r: "event_finalize_nolock base free e cb = (base', r)"
  shows "wf_base base'" "r = 0" "has (flags_of base' e) EVLIST_FINALIZING"
    "\<not> has (flags_of base e) EVLIST_FINALIZING \<Longrightarrow> has (flags_of base' e) EVLIST_ACTIVE"
    "x \<noteq> e \<Longrightarrow> flags_of base' x = flags_of base x"
proof -
  let ?k = "if free then EV_CLOSURE_EVENT_FINALIZE_FREE else EV_CLOSURE_EVENT_FINALIZE"
  define b1 where "b1 = fst (event_del_nolock base e EVENT_DEL_NOBLOCK)"
  define b2 where "b2 = set_ev e (\<lambda>e. e\<lparr>ev_closure := ?k, ev_callback := cb\<rparr>) b1"
  define b3 where "b3 = event_active_nolock b2 e EV_FINALIZE 1"
  let ?fin = "has (flags_of base e) EVLIST_FINALIZING"
  have f1: "flags_of b1 x = (if x = e \<and> \<not> ?fin then clr (flags_of base x) 0x2b else flags_of base x)"
    and u1: "untouched base b1" for x
  proof (atomize (full), cases ?fin)
    case True
    then show "(flags_of b1 x = (if x = e \<and> \<not> ?fin then clr (flags_of base x) 0x2b else flags_of base x)) \<and> untouched base b1"
      using b by (simp add: b1_def event_del_nolock_def)
  next
    case False
    then show "(flags_of b1 x = (if x = e \<and> \<not> ?fin then clr (flags_of base x) 0x2b else flags_of base x)) \<and> untouched base b1"
      using event_del_nolock_ok(3,4) [OF i b _ surjective_pairing, of EVENT_DEL_NOBLOCK] by (simp add: b1_def)
  qed
  have i2: "wf_base b2" unfolding b1_def b2_def by (rule set_callback_inv [OF event_del_inv [OF i]])
  have f2: "flags_of b2 x = flags_of b1 x" for x by (simp add: b2_def upd_ev_apply)
  have p2: "ev_pri (mem b2 e) < nactivequeues b2"
    using p untouchedD(1,8) [OF u1] by (simp add: b2_def)
  note a = event_active_nolock_ok [OF i2 p2 b3_def]
  have eq: "base' = set_ev e (set_flag EVLIST_FINALIZING) b3" and rr: "r = 0"
    using r by (auto simp: event_finalize_nolock_def Let_def b1_def b2_def b3_def)
  have ne: "\<not> has (flags_of b3 e) EVLIST_TIMEOUT" "\<not> has (flags_of b3 e) EVLIST_INSERTED"
    using coreD(4) [of base e] i unfolding a(3) f2 f1 by (auto simp: wf_base_def event_ok_def)
  show "wf_base base'" unfolding eq by (rule set_finalizing_inv [OF a(1) ne])
  show "r = 0" by (rule rr)
  show "has (flags_of base' e) EVLIST_FINALIZING" by (simp add: eq)
  show "has (flags_of base' e) EVLIST_ACTIVE" if "\<not> ?fin"
    using that by (simp add: eq a(3) f2 f1)
  show "flags_of base' x = flags_of base x" if "x \<noteq> e"
    using that by (simp add: eq a(3) f2 f1)
qed

end
