(* ===== verification/Backend.thy ===== *)
theory Backend
  imports Evmap
begin

text \<open>
  The contract between the map of descriptors and a backend (\<^verbatim>\<open>struct eventop\<close>).  The map tells the
  backend about a descriptor only when the first event of a kind appears on it or the last one
  disappears; a backend that enables and disables what it is told then has exactly those kinds
  enabled that some event in the map waits for.
\<close>

abbreviation io_flags :: "u16 set" where
  "io_flags \<equiv> {EV_READ, EV_WRITE, EV_CLOSED}"

definition io_count :: "evmap_io \<Rightarrow> u16 \<Rightarrow> nat" where
  "io_count ctx f = (if f = EV_READ then nread ctx else if f = EV_WRITE then nwrite ctx else nclose ctx)"

lemma io_old_has: "f \<in> io_flags \<Longrightarrow> has (io_old ctx) f \<longleftrightarrow> io_count ctx f \<noteq> 0"
  by (auto simp: io_old_def io_count_def)

lemma io_turned_has: "f \<in> io_flags \<Longrightarrow> has (io_turned evts k ctx) f \<longleftrightarrow> has evts f \<and> io_count ctx f = k"
  by (auto simp: io_turned_def io_count_def)

lemma io_no_signal: "\<not> has (io_old ctx) EV_SIGNAL" "\<not> has (io_turned evts k ctx) EV_SIGNAL"
  by (simp_all add: io_old_def io_turned_def)

lemma et_only: "f \<in> io_flags \<union> {EV_SIGNAL} \<Longrightarrow> \<not> has (evts AND EV_ET) f"
  by (auto simp: has_def and.assoc)

text \<open>What the map wants enabled on a descriptor.\<close>

definition io_wanted :: "evmap_io option list \<Rightarrow> nat \<Rightarrow> u16 \<Rightarrow> bool" where
  "io_wanted m fd f \<longleftrightarrow> (if fd < length m then case m ! fd of None \<Rightarrow> False | Some ctx \<Rightarrow> io_count ctx f \<noteq> 0 else False)"

lemma io_wanted_upd:
  "s < length m \<Longrightarrow> io_wanted (m[s := Some ctx]) fd f \<longleftrightarrow> (if fd = s then io_count ctx f \<noteq> 0 else io_wanted m fd f)"
  by (simp add: io_wanted_def)

lemma io_wanted_grow: "io_wanted (m @ replicate k None) fd f = io_wanted m fd f"
  by (simp add: io_wanted_def nth_append)

lemma io_slot_for_wanted:
  assumes "io_slot_for base slot = (base2, c)"
  obtains m n where "base2 = base\<lparr>mm_calls := n, io := m\<rparr>" "\<And>fd f. io_wanted m fd f = io_wanted (io base) fd f"
    "\<And>ctx. c = Some ctx \<Longrightarrow> slot < length m \<and> m ! slot = Some ctx"
proof -
  obtain base1 r where ms: "(if slot \<ge> length (io base) then evmap_make_space_io base slot else (base, 0)) = (base1, r)"
    by force
  have "\<exists>k n. base1 = base\<lparr>mm_calls := n, io := io base @ replicate k None\<rparr> \<and>
      (r \<noteq> -1 \<longrightarrow> slot < length (io base) + k)"
  proof (cases "slot \<ge> length (io base)")
    case True
    then have "evmap_make_space_io base slot = (base1, r)" using ms by simp
    then show ?thesis
    proof (cases rule: evmap_make_space_io_cases)
      case (fail n)
      then show ?thesis by (intro exI [of _ 0] exI [of _ n]) simp
    next
      case (ok n k)
      then show ?thesis by (intro exI [of _ k] exI [of _ n]) simp
    qed
  next
    case False
    then show ?thesis using ms by (intro exI [of _ 0] exI [of _ "mm_calls base"]) auto
  qed
  then obtain m n where b1: "base1 = base\<lparr>mm_calls := n, io := m\<rparr>" "r \<noteq> -1 \<longrightarrow> slot < length m"
    and w: "\<And>fd f. io_wanted m fd f = io_wanted (io base) fd f"
    using io_wanted_grow by (metis length_append length_replicate)
  show thesis
  proof (cases "r = -1")
    case True
    then show thesis using assms ms b1 w by (intro that [of m n]) (simp_all add: io_slot_for_def)
  next
    case r: False
    then have g: "GET_IO_SLOT_AND_CTOR base1 slot = (base2, c)" using assms ms by (simp add: io_slot_for_def)
    have len: "slot < length m" using b1(2) r by blast
    show thesis
    proof (cases "m ! slot = None \<and> mm base n \<noteq> None")
      case True
      then obtain p where "mm base n = Some p" by blast
      then have b2: "base2 = base\<lparr>mm_calls := Suc n, io := m[slot := Some evmap_io_init]\<rparr>" "c = Some evmap_io_init"
        using g True by (auto simp: b1(1) GET_IO_SLOT_AND_CTOR_def mm_alloc_def)
      have "\<not> io_wanted m slot f" for f using True len by (simp add: io_wanted_def)
      then have "io_wanted (m[slot := Some evmap_io_init]) fd f = io_wanted m fd f" for fd f
        using len by (simp add: io_wanted_upd io_count_def evmap_io_init_def)
      then show thesis using b2 len w by (intro that [of "m[slot := Some evmap_io_init]" "Suc n"]) simp_all
    next
      case False
      then have "base2 = base\<lparr>mm_calls := (if m ! slot = None then Suc n else n), io := m\<rparr> \<and> c = m ! slot"
        using g by (auto simp: b1(1) GET_IO_SLOT_AND_CTOR_def mm_alloc_def split: option.splits)
      then have "\<exists>n'. base2 = base\<lparr>mm_calls := n', io := m\<rparr> \<and> c = m ! slot" by blast
      then show thesis using that [of m] w len by blast
    qed
  qed
qed

locale io_backend =
  fixes ops :: "'b eventop" and valid :: "'b \<Rightarrow> bool" and enabled :: "'b \<Rightarrow> int \<Rightarrow> u16 \<Rightarrow> bool"
  assumes add_law: "\<lbrakk>valid b; \<not> has old EV_SIGNAL; \<not> has events EV_SIGNAL; f \<in> io_flags;
      \<And>g. g \<in> io_flags \<Longrightarrow> enabled b fd g \<longleftrightarrow> has old g; evop_add ops b fd old events p = (b', p', r)\<rbrakk> \<Longrightarrow>
      valid b' \<and> (enabled b' x f \<longleftrightarrow> enabled b x f \<or> r \<noteq> -1 \<and> x = fd \<and> has events f)"
    and del_law: "\<lbrakk>valid b; \<not> has old EV_SIGNAL; \<not> has events EV_SIGNAL; f \<in> io_flags;
      \<And>g. g \<in> io_flags \<Longrightarrow> enabled b fd g \<longleftrightarrow> has old g; evop_del ops b fd old events p = (b', p', r)\<rbrakk> \<Longrightarrow>
      valid b' \<and> (enabled b' x f \<longleftrightarrow> enabled b x f \<and> \<not> (r \<noteq> -1 \<and> x = fd \<and> has events f))"
begin

definition agrees :: "'b event_base \<Rightarrow> bool" where
  "agrees base \<longleftrightarrow> evsel base = ops \<and> valid (evbase base) \<and>
     (\<forall>fd. \<forall>f \<in> io_flags. enabled (evbase base) (int fd) f \<longleftrightarrow> io_wanted (io base) fd f)"

lemma agreesI:
  assumes "evsel base = ops" "valid (evbase base)"
    "\<And>fd f. f \<in> io_flags \<Longrightarrow> enabled (evbase base) (int fd) f \<longleftrightarrow> io_wanted (io base) fd f"
  shows "agrees base"
  using assms unfolding agrees_def by blast

lemma agreesD:
  assumes "agrees base"
  shows "evsel base = ops" "valid (evbase base)"
    "f \<in> io_flags \<Longrightarrow> enabled (evbase base) (int fd) f \<longleftrightarrow> io_wanted (io base) fd f"
  using assms unfolding agrees_def by blast+

lemma evmap_io_add_agrees:
  assumes ag: "agrees base" and r: "evmap_io_add base (ev_fd (mem base e)) e = (base', r)"
  shows "agrees base'"
proof (cases "ev_fd (mem base e) < 0")
  case True
  then have "base' = base" using r by (auto simp: evmap_io_add_def Let_def check_def)
  then show ?thesis using ag by simp
next
  case False
  let ?evts = "ev_events (mem base e)"
  define slot where "slot = nat (ev_fd (mem base e))"
  have fd: "ev_fd (mem base e) = int slot" and nonneg: "0 \<le> ev_fd (mem base e)" using False by (auto simp: slot_def)
  obtain base2 c where sl: "io_slot_for base slot = (base2, c)" by force
  obtain m n where b2: "base2 = base\<lparr>mm_calls := n, io := m\<rparr>" "\<And>fd f. io_wanted m fd f = io_wanted (io base) fd f"
      "\<And>ctx. c = Some ctx \<Longrightarrow> slot < length m \<and> m ! slot = Some ctx"
    using io_slot_for_wanted [OF sl] by metis
  have a2: "agrees base2" by (rule agreesI) (use agreesD [OF ag] in \<open>simp_all add: b2(1,2)\<close>)
  note add = evmap_io_add_slot [of base e, folded slot_def, unfolded r sl, OF nonneg]
  show ?thesis
  proof (cases "\<exists>ctx. c = Some ctx \<and> \<not> (nread ctx + (if has ?evts EV_READ then 1 else 0) > 0xffff \<or>
      nwrite ctx + (if has ?evts EV_WRITE then 1 else 0) > 0xffff \<or> nclose ctx + (if has ?evts EV_CLOSED then 1 else 0) > 0xffff)")
    case False
    then have "base' = base2" using add by (cases c) (auto simp: Let_def split: if_splits)
    then show ?thesis using a2 by simp
  next
    case True
    then obtain ctx where ctx: "c = Some ctx" and ok: "\<not> (nread ctx + (if has ?evts EV_READ then 1 else 0) > 0xffff \<or>
      nwrite ctx + (if has ?evts EV_WRITE then 1 else 0) > 0xffff \<or> nclose ctx + (if has ?evts EV_CLOSED then 1 else 0) > 0xffff)"
      by blast
    note at = b2(3) [OF ctx]
    let ?res = "io_turned ?evts 0 ctx"
    obtain b fi q where be: "(if ?res \<noteq> 0
        then evop_add (evsel base2) (evbase base2) (ev_fd (mem base2 e)) (io_old ctx) ((?evts AND EV_ET) OR ?res) (fdinfo ctx)
        else (evbase base2, fdinfo ctx, 0)) = (b, fi, q)" by (metis prod_cases3)
    let ?up = "\<lambda>k f. k + (if has ?evts f then 1 else 0)"
    let ?ctx' = "ctx\<lparr>fdinfo := fi, nread := ?up (nread ctx) EV_READ, nwrite := ?up (nwrite ctx) EV_WRITE,
        nclose := ?up (nclose ctx) EV_CLOSED, io_events := e # io_events ctx\<rparr>"
    have "(base', r) = (if ?res \<noteq> 0 \<and> q = -1
        then (base\<lparr>mm_calls := n, io := m[slot := Some (ctx\<lparr>fdinfo := fi\<rparr>)], evbase := b\<rparr>, -1)
        else (base\<lparr>mm_calls := n, io := m[slot := Some ?ctx'], evbase := b\<rparr>, if ?res \<noteq> 0 then 1 else 0))"
      using add unfolding ctx Let_def prod.case option.case if_not_P [OF ok] be by (simp add: b2(1))
    then have eqs: "base' = base\<lparr>mm_calls := n,
        io := m[slot := Some (if ?res \<noteq> 0 \<and> q = -1 then ctx\<lparr>fdinfo := fi\<rparr> else ?ctx')], evbase := b\<rparr>"
      by (cases "?res \<noteq> 0 \<and> q = -1") (simp_all only: if_True if_False prod.inject simp_thms)
    have up: "io_count ?ctx' f = ?up (io_count ctx f) f" if "f \<in> io_flags" for f
      using that by (auto simp: io_count_def)
    have same: "io_count (ctx\<lparr>fdinfo := fi\<rparr>) f = io_count ctx f" for f by (simp add: io_count_def)
    have old: "enabled (evbase base) (int slot) g \<longleftrightarrow> has (io_old ctx) g" if "g \<in> io_flags" for g
      using agreesD(3) [OF a2 that, of slot] at io_old_has [OF that, of ctx] by (simp add: b2(1) io_wanted_def)
    have et: "has ((?evts AND EV_ET) OR ?res) f \<longleftrightarrow> has ?res f" if "f \<in> io_flags \<union> {EV_SIGNAL}" for f
      using et_only [OF that] by simp
    have res: "valid b \<and> (enabled b x f \<longleftrightarrow> enabled (evbase base) x f \<or>
        (?res \<noteq> 0 \<longrightarrow> q \<noteq> -1) \<and> x = int slot \<and> has ?res f)" if f: "f \<in> io_flags" for x f
    proof (cases "?res = 0")
      case True
      then show ?thesis using be agreesD(2) [OF ag] by (simp add: b2(1))
    next
      case False
      have "evop_add ops (evbase base) (int slot) (io_old ctx) ((?evts AND EV_ET) OR ?res) (fdinfo ctx) = (b, fi, q)"
        using be False agreesD(1) [OF ag] fd by (simp add: b2(1))
      note l = add_law [OF agreesD(2) [OF ag] io_no_signal(1) _ f old this, where x = x]
      have "\<not> has ((?evts AND EV_ET) OR ?res) EV_SIGNAL" using et [of EV_SIGNAL] io_no_signal(2) by simp
      then show ?thesis using l False et f by simp
    qed
    show ?thesis
    proof (rule agreesI)
      fix x f assume f: "f \<in> io_flags"
      have "io_wanted (io base') x f \<longleftrightarrow> (if x = slot then
          io_count ctx f \<noteq> 0 \<or> \<not> (?res \<noteq> 0 \<and> q = -1) \<and> has ?evts f else io_wanted (io base) x f)"
        using at up [OF f] by (auto simp: eqs io_wanted_upd same b2(2))
      moreover have "enabled (evbase base') (int x) f \<longleftrightarrow> io_wanted (io base) x f \<or>
          (?res \<noteq> 0 \<longrightarrow> q \<noteq> -1) \<and> x = slot \<and> has ?res f"
        using res [OF f, of "int x"] agreesD(3) [OF ag f, of x] by (simp add: eqs)
      moreover have "io_wanted (io base) slot f \<longleftrightarrow> io_count ctx f \<noteq> 0"
        using b2(2) [of slot f] at by (simp add: io_wanted_def)
      ultimately show "enabled (evbase base') (int x) f \<longleftrightarrow> io_wanted (io base') x f"
        using io_turned_has [OF f, of ?evts 0 ctx] by auto
    qed (use res [of EV_READ] agreesD(1) [OF ag] in \<open>simp_all add: eqs\<close>)
  qed
qed

lemma evmap_io_del_agrees:
  assumes ag: "agrees base" and maps: "maps_are base S" and e: "e \<in> S" "io_kind (mem base e)"
    and r: "evmap_io_del base (ev_fd (mem base e)) e = (base', r)" and ok: "r \<noteq> -1"
  shows "agrees base'"
proof (cases "ev_fd (mem base e) < 0")
  case True
  then have "base' = base" using r by (auto simp: evmap_io_del_def)
  then show ?thesis using ag by simp
next
  case False
  let ?evts = "ev_events (mem base e)"
  define slot where "slot = nat (ev_fd (mem base e))"
  have fd: "ev_fd (mem base e) = int slot" using False by (simp add: slot_def)
  have ia: "io_are (mem base) (io base) S" using maps by (simp add: maps_are_def)
  have "e \<in> set (io_at (io base) slot)" using io_areD(2) [OF ia, of e slot] e fd by blast
  then obtain ctx where at: "slot < length (io base)" "io base ! slot = Some ctx"
    unfolding io_at_def by (cases "slot < length (io base)"; cases "io base ! slot") auto
  let ?res = "io_turned ?evts 1 ctx"
  obtain b fi q where be: "(if ?res \<noteq> 0
      then evop_del (evsel base) (evbase base) (ev_fd (mem base e)) (io_old ctx) ?res (fdinfo ctx)
      else (evbase base, fdinfo ctx, 0)) = (b, fi, q)" by (metis prod_cases3)
  let ?dn = "\<lambda>k f. k - (if has ?evts f then 1 else 0)"
  let ?ctx' = "ctx\<lparr>fdinfo := fi, nread := ?dn (nread ctx) EV_READ, nwrite := ?dn (nwrite ctx) EV_WRITE,
      nclose := ?dn (nclose ctx) EV_CLOSED, io_events := remove1 e (io_events ctx)\<rparr>"
  note rem = io_are_remove [OF ia at e fd, of ?ctx']
  have c: "check (ev_fd (mem base e) = ev_fd (mem base e)) base = base"
    "check ((has ?evts EV_READ \<longrightarrow> nread ctx > 0) \<and> (has ?evts EV_WRITE \<longrightarrow> nwrite ctx > 0) \<and>
       (has ?evts EV_CLOSED \<longrightarrow> nclose ctx > 0)) base = base"
    using rem by (simp_all add: check_def)
  have inside: "\<not> length (io base) \<le> slot" using at(1) by simp
  have eqs: "(base', r) = (base\<lparr>evbase := b, io := (io base)[slot := Some ?ctx']\<rparr>,
      if ?res \<noteq> 0 then (if q = -1 then -1 else 1) else 0)"
    using r at(1) unfolding evmap_io_del_def Let_def slot_def [symmetric] c if_not_P [OF False] if_not_P [OF inside] at(2)
      option.case be prod.case by simp
  have pos: "has ?evts f \<Longrightarrow> 0 < io_count ctx f" if "f \<in> io_flags" for f
    using rem that by (auto simp: io_count_def)
  have dn: "io_count ?ctx' f = ?dn (io_count ctx f) f" if "f \<in> io_flags" for f
    using that by (auto simp: io_count_def)
  have wn: "io_wanted (io base) slot f \<longleftrightarrow> io_count ctx f \<noteq> 0" for f using at by (simp add: io_wanted_def)
  have old: "enabled (evbase base) (int slot) g \<longleftrightarrow> has (io_old ctx) g" if "g \<in> io_flags" for g
    using agreesD(3) [OF ag that, of slot] wn io_old_has [OF that, of ctx] by simp
  have res: "valid b \<and> (enabled b x f \<longleftrightarrow> enabled (evbase base) x f \<and> \<not> (x = int slot \<and> has ?res f))"
    if f: "f \<in> io_flags" for x f
  proof (cases "?res = 0")
    case True
    then show ?thesis using be agreesD(2) [OF ag] by simp
  next
    case False
    have h: "evop_del ops (evbase base) (int slot) (io_old ctx) ?res (fdinfo ctx) = (b, fi, q)"
      using be False agreesD(1) [OF ag] fd by simp
    have "q \<noteq> -1" using eqs ok False by auto
    then show ?thesis
      using del_law [OF agreesD(2) [OF ag] io_no_signal(1) io_no_signal(2) f old h, where x = x] by simp
  qed
  show ?thesis
  proof (rule agreesI)
    fix x f assume f: "f \<in> io_flags"
    have "io_wanted (io base') x f \<longleftrightarrow> (if x = slot then ?dn (io_count ctx f) f \<noteq> 0 else io_wanted (io base) x f)"
      using at(1) dn [OF f] eqs by (auto simp: io_wanted_upd)
    moreover have "enabled (evbase base') (int x) f \<longleftrightarrow> io_wanted (io base) x f \<and> \<not> (x = slot \<and> has ?res f)"
      using res [OF f, of "int x"] agreesD(3) [OF ag f, of x] eqs by simp
    ultimately show "enabled (evbase base') (int x) f \<longleftrightarrow> io_wanted (io base') x f"
      using io_turned_has [OF f, of ?evts 1 ctx] pos [OF f] wn [of f] by (cases "x = slot"; cases "has ?evts f") auto
  qed (use res [of EV_READ] agreesD(1) [OF ag] eqs in simp_all)
qed

end

end
