(* ===== verification/Changelist.thy ===== *)
theory Changelist
  imports Backend
begin

text \<open>
  The changelist (\<^verbatim>\<open>changelist-internal.h\<close>, \<^verbatim>\<open>evmap.c\<close>): changes to the events enabled on
  a descriptor are collected per descriptor and handed to the kernel once per dispatch.  The
  descriptor's slot in the map of descriptors holds, as its \<^verbatim>\<open>fdinfo\<close>, one more than the
  position of its change in the list, or 0.

  \<open>cl_mm\<close> gives the outcome of each \<^verbatim>\<open>mm_realloc\<close>; \<open>cl_died\<close> is set when an
  \<^verbatim>\<open>EVUTIL_ASSERT\<close> fails.  Only descriptors are modelled: a signal has \<^verbatim>\<open>fdinfo\<close> only with
  the kqueue backend.
\<close>

abbreviation EV_CHANGE_ADD :: u8 where "EV_CHANGE_ADD \<equiv> 0x01"
abbreviation EV_CHANGE_DEL :: u8 where "EV_CHANGE_DEL \<equiv> 0x02"
abbreviation EV_CHANGE_SIGNAL :: u8 where "EV_CHANGE_SIGNAL \<equiv> 0x08"
abbreviation EV_CHANGE_PERSIST :: u8 where "EV_CHANGE_PERSIST \<equiv> 0x10"
abbreviation EV_CHANGE_ET :: u8 where "EV_CHANGE_ET \<equiv> 0x20"

record event_change =
  change_fd :: int
  old_events :: u16
  read_change :: u8
  write_change :: u8
  close_change :: u8

record event_changelist =
  changes :: "event_change list"
  changes_size :: nat
  cl_mm :: "nat \<Rightarrow> bool"
  cl_mm_calls :: nat
  cl_died :: bool

abbreviation n_changes :: "event_changelist \<Rightarrow> nat" where
  "n_changes cl \<equiv> length (changes cl)"

definition cl_check :: "bool \<Rightarrow> event_changelist \<Rightarrow> event_changelist" where
  "cl_check c cl = (if c then cl else cl\<lparr>cl_died := True\<rparr>)"

definition event_changelist_init :: "event_changelist \<Rightarrow> event_changelist" where
  "event_changelist_init cl = cl\<lparr>changes := [], changes_size := 0\<rparr>"

definition event_changelist_freemem :: "event_changelist \<Rightarrow> event_changelist" where
  "event_changelist_freemem cl = event_changelist_init cl"

definition event_changelist_grow :: "event_changelist \<Rightarrow> event_changelist \<times> int" where
  "event_changelist_grow cl =
     (let new_size = (if changes_size cl < 64 then 64 else changes_size cl * 2);
          cl1 = cl\<lparr>cl_mm_calls := cl_mm_calls cl + 1\<rparr>
      in if \<not> cl_mm cl (cl_mm_calls cl) then (cl1, -1) else (cl1\<lparr>changes_size := new_size\<rparr>, 0))"

text \<open>The new \<^verbatim>\<open>fdinfo\<close> and the position of the change, \<open>None\<close> for NULL.\<close>

definition event_changelist_get_or_construct ::
  "event_changelist \<Rightarrow> int \<Rightarrow> u16 \<Rightarrow> nat \<Rightarrow> event_changelist \<times> nat \<times> nat option" where
  "event_changelist_get_or_construct cl fd old idxplus1 =
     (if idxplus1 = 0 then
        let cl1 = cl_check (n_changes cl \<le> changes_size cl) cl;
            (cl2, r) = (if n_changes cl1 = changes_size cl1 then event_changelist_grow cl1 else (cl1, 0))
        in if r < 0 then (cl2, idxplus1, None)
           else let idx = n_changes cl2
                in (cl2\<lparr>changes := changes cl2 @ [\<lparr>change_fd = fd, old_events = old, read_change = 0,
                      write_change = 0, close_change = 0\<rparr>]\<rparr>, idx + 1, Some idx)
      else (cl_check (change_fd (changes cl ! (idxplus1 - 1)) = fd) cl, idxplus1, Some (idxplus1 - 1)))"

definition add_change :: "u16 \<Rightarrow> event_change \<Rightarrow> event_change" where
  "add_change events ch =
     (let c = EV_CHANGE_ADD OR ucast (events AND (EV_ET OR EV_PERSIST OR EV_SIGNAL));
          ch1 = (if has events (EV_READ OR EV_SIGNAL) then ch\<lparr>read_change := c\<rparr> else ch);
          ch2 = (if has events EV_WRITE then ch1\<lparr>write_change := c\<rparr> else ch1)
      in if has events EV_CLOSED then ch2\<lparr>close_change := c\<rparr> else ch2)"

definition event_changelist_add ::
  "event_changelist \<Rightarrow> int \<Rightarrow> u16 \<Rightarrow> u16 \<Rightarrow> nat \<Rightarrow> event_changelist \<times> nat \<times> int" where
  "event_changelist_add cl fd old events p =
     (case event_changelist_get_or_construct cl fd old p of
        (cl1, p1, None) \<Rightarrow> (cl1, p1, -1)
      | (cl1, p1, Some i) \<Rightarrow>
          (cl1\<lparr>changes := (changes cl1)[i := add_change events (changes cl1 ! i)]\<rparr>, p1, 0))"

definition del_change :: "u16 \<Rightarrow> event_change \<Rightarrow> event_change" where
  "del_change events ch =
     (let ch1 = (if has events (EV_READ OR EV_SIGNAL)
                 then (if \<not> has (old_events ch) (EV_READ OR EV_SIGNAL) then ch\<lparr>read_change := 0\<rparr>
                       else ch\<lparr>read_change := EV_CHANGE_DEL\<rparr>) else ch);
          ch2 = (if has events EV_WRITE
                 then (if \<not> has (old_events ch1) EV_WRITE then ch1\<lparr>write_change := 0\<rparr>
                       else ch1\<lparr>write_change := EV_CHANGE_DEL\<rparr>) else ch1)
      in if has events EV_CLOSED
         then (if \<not> has (old_events ch2) EV_CLOSED then ch2\<lparr>close_change := 0\<rparr>
               else ch2\<lparr>close_change := EV_CHANGE_DEL\<rparr>) else ch2)"

definition event_changelist_del ::
  "event_changelist \<Rightarrow> int \<Rightarrow> u16 \<Rightarrow> u16 \<Rightarrow> nat \<Rightarrow> event_changelist \<times> nat \<times> int" where
  "event_changelist_del cl fd old events p =
     (case event_changelist_get_or_construct cl fd old p of
        (cl1, p1, None) \<Rightarrow> (cl1, p1, -1)
      | (cl1, p1, Some i) \<Rightarrow>
          (cl1\<lparr>changes := (changes cl1)[i := del_change events (changes cl1 ! i)]\<rparr>, p1, 0))"

text \<open>The \<^verbatim>\<open>fdinfo\<close> of a change's descriptor.\<close>

definition event_change_get_fdinfo :: "evmap_io option list \<Rightarrow> event_change \<Rightarrow> nat option" where
  "event_change_get_fdinfo m ch =
     (if has (read_change ch) EV_CHANGE_SIGNAL then None
      else if nat (change_fd ch) < length m then map_option fdinfo (m ! nat (change_fd ch)) else None)"

definition set_fdinfo :: "evmap_io option list \<Rightarrow> nat \<Rightarrow> nat \<Rightarrow> evmap_io option list" where
  "set_fdinfo m fd i = m[fd := map_option (fdinfo_update (\<lambda>_. i)) (m ! fd)]"

fun remove_all_loop ::
  "event_change list \<Rightarrow> nat \<Rightarrow> event_changelist \<Rightarrow> evmap_io option list \<Rightarrow> event_changelist \<times> evmap_io option list" where
  "remove_all_loop [] i cl m = (cl, m)"
| "remove_all_loop (ch # chs) i cl m =
     remove_all_loop chs (i + 1) (cl_check (event_change_get_fdinfo m ch = Some (i + 1)) cl)
       (set_fdinfo m (nat (change_fd ch)) 0)"

definition event_changelist_remove_all ::
  "event_changelist \<Rightarrow> evmap_io option list \<Rightarrow> event_changelist \<times> evmap_io option list" where
  "event_changelist_remove_all cl m =
     (case remove_all_loop (changes cl) 0 cl m of (cl1, m1) \<Rightarrow> (cl1\<lparr>changes := []\<rparr>, m1))"

text \<open>The debugging check of the list against the map: whether every assertion holds.\<close>

fun assert_ok_loop :: "event_change list \<Rightarrow> nat \<Rightarrow> evmap_io option list \<Rightarrow> bool" where
  "assert_ok_loop [] i m = True"
| "assert_ok_loop (c # cs) i m \<longleftrightarrow>
     change_fd c \<ge> 0 \<and> event_change_get_fdinfo m c = Some (i + 1) \<and> assert_ok_loop cs (i + 1) m"

definition event_changelist_assert_ok_foreach_iter_fn :: "event_changelist \<Rightarrow> nat \<Rightarrow> evmap_io \<Rightarrow> bool" where
  "event_changelist_assert_ok_foreach_iter_fn cl fd ctx \<longleftrightarrow>
     (fdinfo ctx \<noteq> 0 \<longrightarrow> fdinfo ctx - 1 < n_changes cl \<and> change_fd (changes cl ! (fdinfo ctx - 1)) = int fd)"

definition event_changelist_assert_ok :: "event_changelist \<Rightarrow> evmap_io option list \<Rightarrow> bool" where
  "event_changelist_assert_ok cl m \<longleftrightarrow>
     changes_size cl \<ge> n_changes cl \<and> assert_ok_loop (changes cl) 0 m \<and>
     (\<forall>fd \<in> set [0..<length m]. case m ! fd of None \<Rightarrow> True
        | Some ctx \<Rightarrow> event_changelist_assert_ok_foreach_iter_fn cl fd ctx)"

subsection \<open>The net effect of a change\<close>

text \<open>Whether the event \<open>f\<close> will be enabled on the descriptor once the change is made.\<close>

definition change_for :: "event_change \<Rightarrow> u16 \<Rightarrow> u8" where
  "change_for ch f = (if f = EV_READ then read_change ch else if f = EV_WRITE then write_change ch else close_change ch)"

definition net :: "event_change \<Rightarrow> u16 \<Rightarrow> bool" where
  "net ch f \<longleftrightarrow> has (change_for ch f) EV_CHANGE_ADD \<or>
     \<not> has (change_for ch f) EV_CHANGE_DEL \<and> has (old_events ch) f"

text \<open>No change is both an addition and a deletion, and none is of a signal.\<close>

definition change_ok :: "event_change \<Rightarrow> bool" where
  "change_ok ch \<longleftrightarrow> (\<forall>f \<in> io_flags. \<not> (has (change_for ch f) EV_CHANGE_ADD \<and> has (change_for ch f) EV_CHANGE_DEL) \<and>
     \<not> has (change_for ch f) EV_CHANGE_SIGNAL) \<and> \<not> has (old_events ch) EV_SIGNAL"

lemma change_upd_fields [simp]:
  "old_events (add_change events ch) = old_events ch" "change_fd (add_change events ch) = change_fd ch"
  "old_events (del_change events ch) = old_events ch" "change_fd (del_change events ch) = change_fd ch"
  by (simp_all add: add_change_def del_change_def Let_def)

lemma add_change_for:
  assumes "\<not> has events EV_SIGNAL" "f \<in> io_flags"
  shows "change_for (add_change events ch) f =
      (if has events f then EV_CHANGE_ADD OR ucast (events AND (EV_ET OR EV_PERSIST OR EV_SIGNAL)) else change_for ch f)"
  using assms has_or_mask [of events EV_READ EV_SIGNAL] by (auto simp: add_change_def change_for_def Let_def)

lemma del_change_for:
  assumes "\<not> has events EV_SIGNAL" "\<not> has (old_events ch) EV_SIGNAL" "f \<in> io_flags"
  shows "change_for (del_change events ch) f =
      (if has events f then if has (old_events ch) f then EV_CHANGE_DEL else 0 else change_for ch f)"
  using assms has_or_mask [of events EV_READ EV_SIGNAL] has_or_mask [of "old_events ch" EV_READ EV_SIGNAL]
  by (auto simp: del_change_def change_for_def Let_def)

lemma net_add:
  assumes "\<not> has events EV_SIGNAL" "f \<in> io_flags"
  shows "net (add_change events ch) f \<longleftrightarrow> net ch f \<or> has events f"
  using add_change_for [OF assms, of ch] by (auto simp: net_def)

lemma net_del:
  assumes "\<not> has events EV_SIGNAL" "\<not> has (old_events ch) EV_SIGNAL" "f \<in> io_flags"
  shows "net (del_change events ch) f \<longleftrightarrow> net ch f \<and> \<not> has events f"
  using del_change_for [OF assms] by (auto simp: net_def)

lemma keep_flags:
  fixes events :: u16
  shows "\<not> has (ucast (events AND (EV_ET OR EV_PERSIST OR EV_SIGNAL)) :: u8) EV_CHANGE_DEL"
    "has (ucast (events AND (EV_ET OR EV_PERSIST OR EV_SIGNAL)) :: u8) EV_CHANGE_SIGNAL \<longleftrightarrow> has events EV_SIGNAL"
    "has (ucast (events AND (EV_ET OR EV_PERSIST OR EV_SIGNAL)) :: u8) EV_CHANGE_ET \<longleftrightarrow> has events EV_ET"
proof -
  have m: "has w (2 ^ n :: 'a::len word) \<longleftrightarrow> bit w n" if "n < LENGTH('a)" for w and n
    by (simp add: has_def and_exp_eq_0_iff_not_bit)
  let ?k = "EV_ET OR EV_PERSIST OR EV_SIGNAL" and ?u = "ucast (events AND (EV_ET OR EV_PERSIST OR EV_SIGNAL)) :: u8"
  have b: "bit ?u n \<longleftrightarrow> n < 8 \<and> bit events n \<and> bit ?k n" for n
    by (simp only: bit_ucast_iff bit_and_iff) (auto dest: bit_imp_le_length)
  have k: "\<not> bit ?k 1" "bit ?k 3" "bit ?k 5" by (simp_all add: bit_numeral_rec bit_or_iff)
  have "has ?u (2 ^ n) \<longleftrightarrow> bit events n \<and> bit ?k n" if "n < 8" for n
    using that m [of n ?u] b [of n] by simp
  note q = this [of 1] this [of 3] this [of 5]
  have e: "has events (2 ^ 3) \<longleftrightarrow> bit events 3" "has events (2 ^ 5) \<longleftrightarrow> bit events 5"
    by (rule m, simp)+
  show "\<not> has ?u EV_CHANGE_DEL" using q(1) k(1) by (simp only: power_one_right simp_thms)
  show "has ?u EV_CHANGE_SIGNAL \<longleftrightarrow> has events EV_SIGNAL" using q(2) e(1) k(2) by simp
  show "has ?u EV_CHANGE_ET \<longleftrightarrow> has events EV_ET" using q(3) e(2) k(3) by simp
qed

lemma change_okD:
  assumes "change_ok ch" "f \<in> io_flags"
  shows "\<not> (has (change_for ch f) EV_CHANGE_ADD \<and> has (change_for ch f) EV_CHANGE_DEL) \<and>
     \<not> has (change_for ch f) EV_CHANGE_SIGNAL"
  using assms unfolding change_ok_def by blast

lemma change_ok_upd:
  assumes "change_ok ch" "\<not> has events EV_SIGNAL"
  shows "change_ok (add_change events ch)" "change_ok (del_change events ch)"
proof -
  have o: "\<not> has (old_events ch) EV_SIGNAL" using assms(1) by (simp add: change_ok_def)
  have "\<not> (has (change_for (add_change events ch) f) EV_CHANGE_ADD \<and> has (change_for (add_change events ch) f) EV_CHANGE_DEL) \<and>
     \<not> has (change_for (add_change events ch) f) EV_CHANGE_SIGNAL" if "f \<in> io_flags" for f
    using change_okD [OF assms(1) that] keep_flags(1,2) [of events] assms(2)
    unfolding add_change_for [OF assms(2) that] by simp
  moreover have "\<not> (has (change_for (del_change events ch) f) EV_CHANGE_ADD \<and> has (change_for (del_change events ch) f) EV_CHANGE_DEL) \<and>
     \<not> has (change_for (del_change events ch) f) EV_CHANGE_SIGNAL" if "f \<in> io_flags" for f
    using change_okD [OF assms(1) that] unfolding del_change_for [OF assms(2) o that] by simp
  ultimately show "change_ok (add_change events ch)" "change_ok (del_change events ch)"
    using o unfolding change_ok_def change_upd_fields by blast+
qed

subsection \<open>Consistency with the map of descriptors\<close>

text \<open>The list passes its own check, its changes are proper, and no assertion has failed.\<close>

definition cl_ok :: "event_changelist \<Rightarrow> evmap_io option list \<Rightarrow> bool" where
  "cl_ok cl m \<longleftrightarrow> event_changelist_assert_ok cl m \<and> (\<forall>ch \<in> set (changes cl). change_ok ch) \<and> \<not> cl_died cl"

text \<open>What will be enabled on a descriptor whose \<^verbatim>\<open>fdinfo\<close> is \<open>p\<close> and on which \<open>old\<close> is
  enabled when it has no change.\<close>

definition planned :: "event_changelist \<Rightarrow> nat \<Rightarrow> u16 \<Rightarrow> u16 \<Rightarrow> bool" where
  "planned cl p old f \<longleftrightarrow> (if p = 0 then has old f else net (changes cl ! (p - 1)) f)"

definition fdinfo_at :: "evmap_io option list \<Rightarrow> nat \<Rightarrow> nat option" where
  "fdinfo_at m fd = (if fd < length m then map_option fdinfo (m ! fd) else None)"

lemma assert_ok_loop_iff:
  "assert_ok_loop cs i m \<longleftrightarrow> (\<forall>j < length cs. 0 \<le> change_fd (cs ! j) \<and>
     \<not> has (read_change (cs ! j)) EV_CHANGE_SIGNAL \<and> fdinfo_at m (nat (change_fd (cs ! j))) = Some (i + j + 1))"
proof (induction cs i m rule: assert_ok_loop.induct)
  case (2 c cs i m)
  then show ?case
    by (auto simp: All_less_Suc2 event_change_get_fdinfo_def fdinfo_at_def)
qed simp

lemma assert_ok_iff:
  "event_changelist_assert_ok cl m \<longleftrightarrow> n_changes cl \<le> changes_size cl \<and>
     (\<forall>j < n_changes cl. 0 \<le> change_fd (changes cl ! j) \<and> \<not> has (read_change (changes cl ! j)) EV_CHANGE_SIGNAL \<and>
        fdinfo_at m (nat (change_fd (changes cl ! j))) = Some (j + 1)) \<and>
     (\<forall>fd p. fdinfo_at m fd = Some p \<and> p \<noteq> 0 \<longrightarrow> p - 1 < n_changes cl \<and> change_fd (changes cl ! (p - 1)) = int fd)"
proof -
  have "(\<forall>fd \<in> set [0..<length m]. case m ! fd of None \<Rightarrow> True
        | Some ctx \<Rightarrow> event_changelist_assert_ok_foreach_iter_fn cl fd ctx) \<longleftrightarrow>
    (\<forall>fd p. fdinfo_at m fd = Some p \<and> p \<noteq> 0 \<longrightarrow> p - 1 < n_changes cl \<and> change_fd (changes cl ! (p - 1)) = int fd)"
    by (fastforce simp: fdinfo_at_def event_changelist_assert_ok_foreach_iter_fn_def split: option.splits if_splits)
  then show ?thesis
    unfolding event_changelist_assert_ok_def assert_ok_loop_iff by simp
qed

lemma fdinfo_at_set [simp]:
  "fdinfo_at (set_fdinfo m fd i) x = (if x = fd \<and> fdinfo_at m fd \<noteq> None then Some i else fdinfo_at m x)"
  by (auto simp: fdinfo_at_def set_fdinfo_def nth_list_update)

lemma cl_ok_cong:
  assumes "\<And>x. fdinfo_at m' x = fdinfo_at m x" "changes cl' = changes cl" "cl_died cl' = cl_died cl"
    "n_changes cl \<le> changes_size cl'"
  shows "cl_ok cl m \<Longrightarrow> cl_ok cl' m'"
  using assms unfolding cl_ok_def assert_ok_iff by auto

lemma cl_okI:
  assumes "n_changes cl \<le> changes_size cl"
    "\<And>j. j < n_changes cl \<Longrightarrow> 0 \<le> change_fd (changes cl ! j) \<and> change_ok (changes cl ! j) \<and>
        fdinfo_at m (nat (change_fd (changes cl ! j))) = Some (j + 1)"
    "\<And>fd p. fdinfo_at m fd = Some p \<Longrightarrow> p \<noteq> 0 \<Longrightarrow> p - 1 < n_changes cl \<and> change_fd (changes cl ! (p - 1)) = int fd"
    "\<not> cl_died cl"
  shows "cl_ok cl m"
proof -
  have "\<not> has (read_change ch) EV_CHANGE_SIGNAL" if "change_ok ch" for ch
    using that by (auto simp: change_ok_def change_for_def)
  then show ?thesis
    using assms by (auto simp: cl_ok_def assert_ok_iff in_set_conv_nth)
qed

lemma cl_okD:
  assumes "cl_ok cl m"
  shows "n_changes cl \<le> changes_size cl"
    "j < n_changes cl \<Longrightarrow> 0 \<le> change_fd (changes cl ! j) \<and> change_ok (changes cl ! j) \<and>
        fdinfo_at m (nat (change_fd (changes cl ! j))) = Some (j + 1)"
    "fdinfo_at m fd = Some p \<Longrightarrow> p \<noteq> 0 \<Longrightarrow> p - 1 < n_changes cl \<and> change_fd (changes cl ! (p - 1)) = int fd"
    "\<not> cl_died cl"
  using assms by (auto simp: cl_ok_def assert_ok_iff)

subsection \<open>Finding or making the change of a descriptor\<close>

lemma get_or_construct_ok:
  assumes ok: "cl_ok cl m" and p: "fdinfo_at m fd = Some p" and o: "\<not> has old EV_SIGNAL"
    and r: "event_changelist_get_or_construct cl (int fd) old p = (cl', p', r)"
  shows "cl_ok cl' (set_fdinfo m fd p')"
    "r = None \<Longrightarrow> p' = p" "r = Some i \<Longrightarrow> i < n_changes cl' \<and> p' = Suc i \<and> change_fd (changes cl' ! i) = int fd"
    "f \<in> io_flags \<Longrightarrow> planned cl' p' old f = planned cl p old f"
    "fdinfo_at m fd2 = Some p2 \<Longrightarrow> planned cl' p2 old2 f = planned cl p2 old2 f"
proof -
  note d = cl_okD [OF ok]
  have "cl_ok cl' (set_fdinfo m fd p') \<and> (r = None \<longrightarrow> p' = p) \<and>
    (\<forall>i. r = Some i \<longrightarrow> i < n_changes cl' \<and> p' = Suc i \<and> change_fd (changes cl' ! i) = int fd) \<and>
    (f \<in> io_flags \<longrightarrow> planned cl' p' old f = planned cl p old f) \<and>
    (fdinfo_at m fd2 = Some p2 \<longrightarrow> planned cl' p2 old2 f = planned cl p2 old2 f)"
  proof (cases "p = 0")
    case False
    have m: "fdinfo_at (set_fdinfo m fd p) x = fdinfo_at m x" for x using p by simp
    have "cl' = cl" "p' = p" "r = Some (p - 1)"
      using r False d(3) [OF p] by (auto simp: event_changelist_get_or_construct_def cl_check_def)
    moreover have "cl_ok cl (set_fdinfo m fd p)"
      by (rule cl_ok_cong [OF m _ _ _ ok]) (use d(1) in simp_all)
    ultimately show ?thesis using d(3) [OF p False] False by simp
  next
    case True
    define new where "new = \<lparr>change_fd = int fd, old_events = old, read_change = 0, write_change = 0, close_change = 0\<rparr>"
    obtain cl2 k where g: "(if n_changes cl = changes_size cl then event_changelist_grow cl else (cl, 0)) = (cl2, k)"
      by force
    have c2: "changes cl2 = changes cl" "cl_died cl2 = cl_died cl" "n_changes cl \<le> changes_size cl2"
      "k < 0 \<or> n_changes cl < changes_size cl2"
      using g d(1) by (auto simp: event_changelist_grow_def Let_def split: if_splits)
    have res: "(cl', p', r) = (if k < 0 then (cl2, 0, None)
        else (cl2\<lparr>changes := changes cl2 @ [new]\<rparr>, Suc (n_changes cl2), Some (n_changes cl2)))"
      using r True d(1) g by (auto simp: event_changelist_get_or_construct_def cl_check_def Let_def new_def split: if_splits)
    show ?thesis
    proof (cases "k < 0")
      case True
      have m: "fdinfo_at (set_fdinfo m fd 0) x = fdinfo_at m x" for x using p \<open>p = 0\<close> by simp
      have "cl_ok cl2 (set_fdinfo m fd 0)"
        by (rule cl_ok_cong [OF m _ _ _ ok]) (use c2 in simp_all)
      then show ?thesis using res True \<open>p = 0\<close> c2 by (simp add: planned_def)
    next
      case False
      have eq: "cl' = cl2\<lparr>changes := changes cl @ [new]\<rparr>" "p' = Suc (n_changes cl)" "r = Some (n_changes cl)"
        using res False c2 by auto
      have nw: "change_ok new" "change_fd new = int fd" "\<And>f. f \<in> io_flags \<Longrightarrow> net new f = has old f"
        using o by (auto simp: new_def change_ok_def change_for_def net_def)
      have nf: "nat (change_fd (changes cl ! j)) \<noteq> fd" if "j < n_changes cl" for j
        using d(2) [OF that] p \<open>p = 0\<close> by auto
      have "cl_ok cl' (set_fdinfo m fd p')"
      proof (rule cl_okI)
        fix j assume "j < n_changes cl'"
        then show "0 \<le> change_fd (changes cl' ! j) \<and> change_ok (changes cl' ! j) \<and>
            fdinfo_at (set_fdinfo m fd p') (nat (change_fd (changes cl' ! j))) = Some (j + 1)"
          using d(2) [of j] nw nf p by (cases "j < n_changes cl") (auto simp: eq nth_append less_Suc_eq)
      next
        fix x q assume "fdinfo_at (set_fdinfo m fd p') x = Some q" "q \<noteq> 0"
        then show "q - 1 < n_changes cl' \<and> change_fd (changes cl' ! (q - 1)) = int x"
          using d(3) [of x q] nw p by (auto simp: eq nth_append split: if_splits)
      qed (use False c2 d in \<open>auto simp: eq\<close>)
      moreover have "planned cl' p2 old2 f = planned cl p2 old2 f" if "fdinfo_at m fd2 = Some p2"
        using d(3) [OF that] by (auto simp: planned_def eq nth_append)
      ultimately show ?thesis using nw \<open>p = 0\<close> by (auto simp: eq planned_def nth_append)
    qed
  qed
  then show "cl_ok cl' (set_fdinfo m fd p')"
    "r = None \<Longrightarrow> p' = p" "r = Some i \<Longrightarrow> i < n_changes cl' \<and> p' = Suc i \<and> change_fd (changes cl' ! i) = int fd"
    "f \<in> io_flags \<Longrightarrow> planned cl' p' old f = planned cl p old f"
    "fdinfo_at m fd2 = Some p2 \<Longrightarrow> planned cl' p2 old2 f = planned cl p2 old2 f" by blast+
qed

lemma set_change_ok:
  assumes ok: "cl_ok cl m" and i: "i < n_changes cl" and g: "change_fd ch = change_fd (changes cl ! i)" "change_ok ch"
  shows "cl_ok (cl\<lparr>changes := (changes cl)[i := ch]\<rparr>) m"
    "p \<noteq> Suc i \<Longrightarrow> planned (cl\<lparr>changes := (changes cl)[i := ch]\<rparr>) p old f = planned cl p old f"
    "planned (cl\<lparr>changes := (changes cl)[i := ch]\<rparr>) (Suc i) old f = net ch f"
proof -
  note d = cl_okD [OF ok]
  have fd: "change_fd ((changes cl)[i := ch] ! j) = change_fd (changes cl ! j)" for j
    using g i by (cases "j = i") simp_all
  show "cl_ok (cl\<lparr>changes := (changes cl)[i := ch]\<rparr>) m"
  proof (rule cl_okI)
    fix j assume "j < n_changes (cl\<lparr>changes := (changes cl)[i := ch]\<rparr>)"
    then show "0 \<le> change_fd (changes (cl\<lparr>changes := (changes cl)[i := ch]\<rparr>) ! j) \<and>
        change_ok (changes (cl\<lparr>changes := (changes cl)[i := ch]\<rparr>) ! j) \<and>
        fdinfo_at m (nat (change_fd (changes (cl\<lparr>changes := (changes cl)[i := ch]\<rparr>) ! j))) = Some (j + 1)"
      using d(2) [of j] fd [of j] g(2) by (cases "j = i") simp_all
  next
    fix x q assume "fdinfo_at m x = Some q" "q \<noteq> 0"
    then show "q - 1 < n_changes (cl\<lparr>changes := (changes cl)[i := ch]\<rparr>) \<and>
        change_fd (changes (cl\<lparr>changes := (changes cl)[i := ch]\<rparr>) ! (q - 1)) = int x"
      using d(3) [of x q] fd [of "q - 1"] by simp
  qed (use d in auto)
qed (use i in \<open>auto simp: planned_def nth_list_update\<close>)

subsection \<open>The operations\<close>

lemma set_fdinfo_at: "fdinfo_at m fd = Some p \<Longrightarrow> fdinfo_at (set_fdinfo m fd q) fd = Some q"
  by simp

lemma changelist_update_ok:
  assumes ok: "cl_ok cl m" and p: "fdinfo_at m fd = Some p" and o: "\<not> has old EV_SIGNAL"
    and g: "\<And>ch. change_ok ch \<Longrightarrow> change_ok (g ch)" "\<And>ch. change_fd (g ch) = change_fd ch"
    and n: "\<And>ch f. change_ok ch \<Longrightarrow> f \<in> io_flags \<Longrightarrow> net (g ch) f \<longleftrightarrow> h f (net ch f)"
    and r: "(case event_changelist_get_or_construct cl (int fd) old p of
        (cl1, p1, None) \<Rightarrow> (cl1, p1, -1)
      | (cl1, p1, Some i) \<Rightarrow> (cl1\<lparr>changes := (changes cl1)[i := g (changes cl1 ! i)]\<rparr>, p1, 0)) = (cl', p', r)"
  shows "cl_ok cl' (set_fdinfo m fd p')" "r \<in> {-1, 0 :: int}"
    "f \<in> io_flags \<Longrightarrow> planned cl' p' old f \<longleftrightarrow> (if r = 0 then h f (planned cl p old f) else planned cl p old f)"
    "fdinfo_at m fd2 = Some p2 \<Longrightarrow> fd2 \<noteq> fd \<Longrightarrow> planned cl' p2 old2 f = planned cl p2 old2 f"
proof -
  obtain cl1 p1 k where c1: "event_changelist_get_or_construct cl (int fd) old p = (cl1, p1, k)"
    by (cases "event_changelist_get_or_construct cl (int fd) old p")
  note gc = get_or_construct_ok [OF ok p o c1]
  let ?H = "\<lambda>f q q'. q' = (if r = 0 then h f q else q)"
  have "cl_ok cl' (set_fdinfo m fd p') \<and> r \<in> {-1, 0} \<and>
    (f \<in> io_flags \<longrightarrow> ?H f (planned cl p old f) (planned cl' p' old f)) \<and>
    (fdinfo_at m fd2 = Some p2 \<and> fd2 \<noteq> fd \<longrightarrow> planned cl' p2 old2 f = planned cl p2 old2 f)"
  proof (cases k)
    case None
    then have "cl' = cl1" "p' = p1" "r = -1" using r c1 by auto
    then show ?thesis using gc(1) gc(4) [of f] gc(5) [of fd2 p2 old2 f] by simp
  next
    case (Some i)
    then have eq: "cl' = cl1\<lparr>changes := (changes cl1)[i := g (changes cl1 ! i)]\<rparr>" "p' = p1" "r = 0"
      using r c1 by auto
    note i = gc(3) [OF Some]
    have ci: "change_ok (changes cl1 ! i)" using cl_okD(2) [OF gc(1)] i by blast
    note s = set_change_ok [OF gc(1) conjunct1 [OF i] g(2) g(1) [OF ci]]
    have "planned cl' p' old f = h f (planned cl p old f)" if "f \<in> io_flags"
    proof -
      have "planned cl1 p1 old f = net (changes cl1 ! i) f" using i by (simp add: planned_def)
      then show ?thesis using s(3) n [OF ci that] gc(4) [OF that] i by (simp add: eq)
    qed
    moreover have "planned cl' p2 old2 f = planned cl p2 old2 f" if q: "fdinfo_at m fd2 = Some p2" "fd2 \<noteq> fd"
    proof -
      have "p2 \<noteq> Suc i"
        using cl_okD(3) [OF gc(1), of fd2 p2] q i by auto
      then show ?thesis using s(2) [of p2] gc(5) [OF q(1)] by (simp add: eq)
    qed
    ultimately show ?thesis using s(1) by (simp add: eq)
  qed
  then show "cl_ok cl' (set_fdinfo m fd p')" "r \<in> {-1, 0 :: int}"
    "f \<in> io_flags \<Longrightarrow> planned cl' p' old f \<longleftrightarrow> (if r = 0 then h f (planned cl p old f) else planned cl p old f)"
    "fdinfo_at m fd2 = Some p2 \<Longrightarrow> fd2 \<noteq> fd \<Longrightarrow> planned cl' p2 old2 f = planned cl p2 old2 f" by blast+
qed

lemma event_changelist_add_ok:
  assumes ok: "cl_ok cl m" and p: "fdinfo_at m fd = Some p" and s: "\<not> has old EV_SIGNAL" "\<not> has events EV_SIGNAL"
    and r: "event_changelist_add cl (int fd) old events p = (cl', p', r)"
  shows "cl_ok cl' (set_fdinfo m fd p')" "r \<in> {-1, 0 :: int}"
    "f \<in> io_flags \<Longrightarrow> planned cl' p' old f \<longleftrightarrow> planned cl p old f \<or> r = 0 \<and> has events f"
    "fdinfo_at m fd2 = Some p2 \<Longrightarrow> fd2 \<noteq> fd \<Longrightarrow> planned cl' p2 old2 f = planned cl p2 old2 f"
proof -
  have g: "change_ok ch \<Longrightarrow> change_ok (add_change events ch)" "change_fd (add_change events ch) = change_fd ch"
    "change_ok ch \<Longrightarrow> f \<in> io_flags \<Longrightarrow> net (add_change events ch) f \<longleftrightarrow> net ch f \<or> has events f" for ch f
    using change_ok_upd [OF _ s(2)] net_add [OF s(2)] by (simp_all add: change_ok_def)
  note u = changelist_update_ok [where g = "add_change events" and h = "\<lambda>f b. b \<or> has events f",
      OF ok p s(1) _ _ _ r [unfolded event_changelist_add_def]]
  show "cl_ok cl' (set_fdinfo m fd p')" "r \<in> {-1, 0 :: int}"
    "fdinfo_at m fd2 = Some p2 \<Longrightarrow> fd2 \<noteq> fd \<Longrightarrow> planned cl' p2 old2 f = planned cl p2 old2 f"
    by (rule u(1,2,4); use g in blast)+
  show "planned cl' p' old f \<longleftrightarrow> planned cl p old f \<or> r = 0 \<and> has events f" if "f \<in> io_flags"
  proof -
    have "planned cl' p' old f = (if r = 0 then planned cl p old f \<or> has events f else planned cl p old f)"
      by (rule u(3)) (use g that in blast)+
    then show ?thesis by auto
  qed
qed

lemma event_changelist_del_ok:
  assumes ok: "cl_ok cl m" and p: "fdinfo_at m fd = Some p" and s: "\<not> has old EV_SIGNAL" "\<not> has events EV_SIGNAL"
    and r: "event_changelist_del cl (int fd) old events p = (cl', p', r)"
  shows "cl_ok cl' (set_fdinfo m fd p')" "r \<in> {-1, 0 :: int}"
    "f \<in> io_flags \<Longrightarrow> planned cl' p' old f \<longleftrightarrow> planned cl p old f \<and> \<not> (r = 0 \<and> has events f)"
    "fdinfo_at m fd2 = Some p2 \<Longrightarrow> fd2 \<noteq> fd \<Longrightarrow> planned cl' p2 old2 f = planned cl p2 old2 f"
proof -
  have g: "change_ok ch \<Longrightarrow> change_ok (del_change events ch)" "change_fd (del_change events ch) = change_fd ch"
    "change_ok ch \<Longrightarrow> f \<in> io_flags \<Longrightarrow> net (del_change events ch) f \<longleftrightarrow> net ch f \<and> \<not> has events f" for ch f
    using change_ok_upd [OF _ s(2)] net_del [OF s(2)] by (simp_all add: change_ok_def)
  note u = changelist_update_ok [where g = "del_change events" and h = "\<lambda>f b. b \<and> \<not> has events f",
      OF ok p s(1) _ _ _ r [unfolded event_changelist_del_def]]
  show "cl_ok cl' (set_fdinfo m fd p')" "r \<in> {-1, 0 :: int}"
    "fdinfo_at m fd2 = Some p2 \<Longrightarrow> fd2 \<noteq> fd \<Longrightarrow> planned cl' p2 old2 f = planned cl p2 old2 f"
    by (rule u(1,2,4); use g in blast)+
  show "planned cl' p' old f \<longleftrightarrow> planned cl p old f \<and> \<not> (r = 0 \<and> has events f)" if "f \<in> io_flags"
  proof -
    have "planned cl' p' old f = (if r = 0 then planned cl p old f \<and> \<not> has events f else planned cl p old f)"
      by (rule u(3)) (use g that in blast)+
    then show ?thesis by auto
  qed
qed

text \<open>What a change remembers of its descriptor, and that only the allocator can make an operation fail.\<close>

lemma get_or_construct_frame:
  assumes "event_changelist_get_or_construct cl fd old p = (cl', p', r)"
  shows "ch \<in> set (changes cl') \<Longrightarrow> ch \<in> set (changes cl) \<or> change_fd ch = fd \<and> old_events ch = old"
    "r = Some i \<Longrightarrow> i < n_changes cl' \<or> changes cl' = changes cl" "cl_mm cl' = cl_mm cl" "(\<And>j. cl_mm cl j) \<Longrightarrow> r \<noteq> None"
  using assms
  by (auto simp: event_changelist_get_or_construct_def event_changelist_grow_def cl_check_def Let_def
      split: if_splits prod.splits)

lemma changelist_update_frame:
  assumes r: "(case event_changelist_get_or_construct cl fd old p of
        (cl1, p1, None) \<Rightarrow> (cl1, p1, -1)
      | (cl1, p1, Some i) \<Rightarrow> (cl1\<lparr>changes := (changes cl1)[i := g (changes cl1 ! i)]\<rparr>, p1, 0)) = (cl', p', r :: int)"
    and g: "\<And>ch. change_fd (g ch) = change_fd ch \<and> old_events (g ch) = old_events ch"
    and P: "\<And>ch. ch \<in> set (changes cl) \<Longrightarrow> P (change_fd ch) (old_events ch)" "P fd old"
  shows "ch \<in> set (changes cl') \<Longrightarrow> P (change_fd ch) (old_events ch)" "cl_mm cl' = cl_mm cl"
    "(\<And>j. cl_mm cl j) \<Longrightarrow> r = 0"
proof -
  obtain cl1 p1 k where c1: "event_changelist_get_or_construct cl fd old p = (cl1, p1, k)"
    by (cases "event_changelist_get_or_construct cl fd old p")
  note f = get_or_construct_frame [OF c1]
  have P1: "P (change_fd ch) (old_events ch)" if "ch \<in> set (changes cl1)" for ch
    using f(1) [OF that] P by auto
  show "P (change_fd ch) (old_events ch)" if ch: "ch \<in> set (changes cl')"
  proof (cases k)
    case None
    then show ?thesis using r c1 P1 ch by auto
  next
    case (Some i)
    then have eq: "changes cl' = (changes cl1)[i := g (changes cl1 ! i)]" using r c1 by auto
    then obtain j where j: "j < n_changes cl1" "ch = (changes cl1)[i := g (changes cl1 ! i)] ! j"
      using ch by (auto simp: in_set_conv_nth)
    then show ?thesis using g P1 [of "changes cl1 ! j"] by (cases "i = j") auto
  qed
  show "cl_mm cl' = cl_mm cl" using r c1 f(3) by (auto split: option.splits)
  show "(\<And>j. cl_mm cl j) \<Longrightarrow> r = 0" using r c1 f(4) by (auto split: option.splits)
qed

text \<open>Removing all changes.\<close>

lemma remove_all_loop_ok:
  assumes "\<And>j. j < length cs \<Longrightarrow> 0 \<le> change_fd (cs ! j) \<and> \<not> has (read_change (cs ! j)) EV_CHANGE_SIGNAL \<and>
      fdinfo_at m (nat (change_fd (cs ! j))) = Some (i + j + 1)"
    and "remove_all_loop cs i cl m = (cl', m')"
  shows "cl' = cl \<and> (\<forall>fd. fdinfo_at m' fd = (if int fd \<in> change_fd ` set cs then Some 0 else fdinfo_at m fd))"
  using assms
proof (induction cs i cl m rule: remove_all_loop.induct)
  case (2 c cs i cl m)
  let ?m = "set_fdinfo m (nat (change_fd c)) 0"
  have c: "0 \<le> change_fd c" "\<not> has (read_change c) EV_CHANGE_SIGNAL" "fdinfo_at m (nat (change_fd c)) = Some (Suc i)"
    using 2(2) [of 0] by simp_all
  have g: "event_change_get_fdinfo m c = Some (i + 1)"
    using c by (simp add: event_change_get_fdinfo_def fdinfo_at_def)
  have tl: "0 \<le> change_fd (cs ! j) \<and> \<not> has (read_change (cs ! j)) EV_CHANGE_SIGNAL \<and>
      fdinfo_at ?m (nat (change_fd (cs ! j))) = Some (i + 1 + j + 1)" if "j < length cs" for j
    using 2(2) [of "Suc j"] that c by auto
  have r: "remove_all_loop cs (i + 1) cl ?m = (cl', m')" using 2(3) g by (simp add: cl_check_def)
  have "cl' = cl \<and> (\<forall>fd. fdinfo_at m' fd = (if int fd \<in> change_fd ` set cs then Some 0 else fdinfo_at ?m fd))"
    using 2(1) [OF tl] r g by (simp add: cl_check_def)
  then show ?case using c by auto
qed simp_all

lemma event_changelist_remove_all_ok:
  assumes ok: "cl_ok cl m" and r: "event_changelist_remove_all cl m = (cl', m')"
  shows "cl_ok cl' m'" "changes cl' = []" "fdinfo_at m' fd = map_option (\<lambda>_. 0) (fdinfo_at m fd)"
proof -
  note d = cl_okD [OF ok]
  obtain cl1 where c1: "remove_all_loop (changes cl) 0 cl m = (cl1, m')" and c': "cl' = cl1\<lparr>changes := []\<rparr>"
    using r by (auto simp: event_changelist_remove_all_def split: prod.splits)
  have "event_changelist_assert_ok cl m" using ok by (simp add: cl_ok_def)
  then have "0 \<le> change_fd (changes cl ! j) \<and> \<not> has (read_change (changes cl ! j)) EV_CHANGE_SIGNAL \<and>
      fdinfo_at m (nat (change_fd (changes cl ! j))) = Some (0 + j + 1)" if "j < n_changes cl" for j
    using that unfolding assert_ok_iff by simp
  note l = conjunct1 [OF remove_all_loop_ok [OF this c1]] spec [OF conjunct2 [OF remove_all_loop_ok [OF this c1]]]
  show c: "changes cl' = []" by (simp add: c')
  show f: "fdinfo_at m' fd = map_option (\<lambda>_. 0) (fdinfo_at m fd)" for fd
  proof (cases "int fd \<in> change_fd ` set (changes cl)")
    case True
    then obtain j where "j < n_changes cl" "change_fd (changes cl ! j) = int fd" by (auto simp: in_set_conv_nth)
    then show ?thesis using d(2) [of j] l(2) [of fd] True by auto
  next
    case False
    have "p = 0" if "fdinfo_at m fd = Some p" for p
      using d(3) [OF that] False by (metis image_eqI nth_mem)
    then show ?thesis using l(2) [of fd] False by (cases "fdinfo_at m fd") auto
  qed
  show "cl_ok cl' m'" by (rule cl_okI) (use c f d(4) l(1) in \<open>auto simp: c'\<close>)
qed

end
