(* ===== verification/Event_Iter.thy ===== *)
theory Event_Iter
  imports Event_Inv Changelist
begin

text \<open>
  Iterating over the events of a base: the per-descriptor and per-signal iterators of
  \<^verbatim>\<open>evmap.c\<close> and what is done with them, that is, visiting every event
  (\<^verbatim>\<open>event_base_foreach_event\<close>), telling a new backend about all events (\<^verbatim>\<open>evmap_reinit_\<close>),
  deleting all events, and checking the base (\<^verbatim>\<open>event_base_assert_ok_\<close>).
\<close>

subsection \<open>Iterators\<close>

text \<open>The callback gets the base, the descriptor, its slot and the argument; a result other
  than 0 ends the iteration.  \<open>None\<close> stands for a callback that does not return.\<close>

type_synonym ('b, 'a) io_iter = "'b event_base \<Rightarrow> nat \<Rightarrow> evmap_io \<Rightarrow> 'a \<Rightarrow> ('b event_base \<times> 'a \<times> int) option"
type_synonym ('b, 'a) sig_iter = "'b event_base \<Rightarrow> nat \<Rightarrow> evmap_signal \<Rightarrow> 'a \<Rightarrow> ('b event_base \<times> 'a \<times> int) option"

partial_function (option) io_foreach_from ::
  "('b, 'a) io_iter \<Rightarrow> 'b event_base \<Rightarrow> 'a \<Rightarrow> nat \<Rightarrow> ('b event_base \<times> 'a \<times> int) option" where
  "io_foreach_from fn base arg fd =
     (if fd < length (io base) then
        case io base ! fd of
          None \<Rightarrow> io_foreach_from fn base arg (fd + 1)
        | Some ctx \<Rightarrow>
            Option.bind (fn base fd ctx arg)
              (\<lambda>(base1, arg1, r). if r \<noteq> 0 then Some (base1, arg1, r) else io_foreach_from fn base1 arg1 (fd + 1))
      else Some (base, arg, 0))"

definition evmap_io_foreach_fd ::
  "'b event_base \<Rightarrow> ('b, 'a) io_iter \<Rightarrow> 'a \<Rightarrow> ('b event_base \<times> 'a \<times> int) option" where
  "evmap_io_foreach_fd base fn arg = io_foreach_from fn base arg 0"

partial_function (option) signal_foreach_from ::
  "('b, 'a) sig_iter \<Rightarrow> 'b event_base \<Rightarrow> 'a \<Rightarrow> nat \<Rightarrow> ('b event_base \<times> 'a \<times> int) option" where
  "signal_foreach_from fn base arg signum =
     (if signum < length (sigmap base) then
        case sigmap base ! signum of
          None \<Rightarrow> signal_foreach_from fn base arg (signum + 1)
        | Some ctx \<Rightarrow>
            Option.bind (fn base signum ctx arg)
              (\<lambda>(base1, arg1, r). if r \<noteq> 0 then Some (base1, arg1, r) else signal_foreach_from fn base1 arg1 (signum + 1))
      else Some (base, arg, 0))"

definition evmap_signal_foreach_signal ::
  "'b event_base \<Rightarrow> ('b, 'a) sig_iter \<Rightarrow> 'a \<Rightarrow> ('b event_base \<times> 'a \<times> int) option" where
  "evmap_signal_foreach_signal base fn arg = signal_foreach_from fn base arg 0"

subsection \<open>Telling a new backend\<close>

definition evmap_io_reinit_iter_fn :: "('b, int) io_iter" where
  "evmap_io_reinit_iter_fn base fd ctx result =
     (let events0 = (if nread ctx \<noteq> 0 then EV_READ else 0) OR (if nwrite ctx \<noteq> 0 then EV_WRITE else 0) OR
            (if nclose ctx \<noteq> 0 then EV_CLOSED else 0);
          extra = (if fdinfo_len (evsel base) \<noteq> 0 then 0 else fdinfo ctx);
          events = (if events0 \<noteq> 0 \<and> (case io_events ctx of [] \<Rightarrow> False | ev # _ \<Rightarrow> has (ev_events (mem base ev)) EV_ET)
                    then events0 OR EV_ET else events0)
      in case evop_add (evsel base) (evbase base) (int fd) 0 events extra of
           (b, extra1, r) \<Rightarrow>
             Some (base\<lparr>evbase := b, io := (io base)[fd := Some (ctx\<lparr>fdinfo := extra1\<rparr>)]\<rparr>,
                   if r = -1 then -1 else result, 0))"

definition evmap_signal_reinit_iter_fn :: "('b, int) sig_iter" where
  "evmap_signal_reinit_iter_fn base signum ctx result =
     (if sig_events ctx \<noteq> [] then
        case evop_add (evsigsel base) (evbase base) (int signum) 0 EV_SIGNAL 0 of
          (b, _, r) \<Rightarrow> Some (base\<lparr>evbase := b\<rparr>, if r = -1 then -1 else result, 0)
      else Some (base, result, 0))"

definition evmap_reinit :: "'b event_base \<Rightarrow> ('b event_base \<times> int) option" where
  "evmap_reinit base =
     Option.bind (evmap_io_foreach_fd base evmap_io_reinit_iter_fn 0)
       (\<lambda>(base1, result, _).
          if result < 0 then Some (base1, -1)
          else Option.bind (evmap_signal_foreach_signal base1 evmap_signal_reinit_iter_fn result)
                 (\<lambda>(base2, result2, _). Some (base2, if result2 < 0 then -1 else 0)))"

subsection \<open>Deleting all events\<close>

text \<open>\<^verbatim>\<open>delete_all_in_dlist\<close>, on the list of a descriptor and on that of a signal: the head is
  deleted until there is none.\<close>

partial_function (option) delete_all_io :: "'b event_base \<Rightarrow> nat \<Rightarrow> 'b event_base option" where
  "delete_all_io base fd =
     (case io_at (io base) fd of [] \<Rightarrow> Some base | ev # _ \<Rightarrow> delete_all_io (fst (event_del base ev)) fd)"

partial_function (option) delete_all_signal :: "'b event_base \<Rightarrow> nat \<Rightarrow> 'b event_base option" where
  "delete_all_signal base signum =
     (case sig_at (sigmap base) signum of [] \<Rightarrow> Some base | ev # _ \<Rightarrow> delete_all_signal (fst (event_del base ev)) signum)"

definition evmap_io_delete_all_iter_fn :: "('b, unit) io_iter" where
  "evmap_io_delete_all_iter_fn base fd io_info arg =
     Option.bind (delete_all_io base fd) (\<lambda>base1. Some (base1, arg, 0))"

definition evmap_signal_delete_all_iter_fn :: "('b, unit) sig_iter" where
  "evmap_signal_delete_all_iter_fn base signum sig_info arg =
     Option.bind (delete_all_signal base signum) (\<lambda>base1. Some (base1, arg, 0))"

definition evmap_delete_all :: "'b event_base \<Rightarrow> 'b event_base option" where
  "evmap_delete_all base =
     Option.bind (evmap_signal_foreach_signal base evmap_signal_delete_all_iter_fn ())
       (\<lambda>(base1, _, _). Option.bind (evmap_io_foreach_fd base1 evmap_io_delete_all_iter_fn ())
          (\<lambda>(base2, _, _). Some base2))"

subsection \<open>Checking the maps\<close>

text \<open>\<^verbatim>\<open>EVUTIL_ASSERT_LIST_OK\<close> and \<^verbatim>\<open>EVUTIL_ASSERT_TAILQ_OK\<close> walk a list and check its
  links; a list that is not corrupt has no entry twice.\<close>

fun io_integrity_loop :: "'b event_base \<Rightarrow> nat \<Rightarrow> ev_ptr list \<Rightarrow> nat \<Rightarrow> nat \<Rightarrow> nat \<Rightarrow> 'b event_base \<times> nat \<times> nat \<times> nat" where
  "io_integrity_loop base fd [] n_read n_write n_close = (base, n_read, n_write, n_close)"
| "io_integrity_loop base fd (ev # evs) n_read n_write n_close =
     (let evts = ev_events (mem base ev);
          base1 = check (has (flags_of base ev) EVLIST_INSERTED \<and> ev_fd (mem base ev) = int fd \<and>
            \<not> has evts EV_SIGNAL \<and> has evts (EV_READ OR EV_WRITE OR EV_CLOSED)) base
      in io_integrity_loop base1 fd evs (n_read + (if has evts EV_READ then 1 else 0))
           (n_write + (if has evts EV_WRITE then 1 else 0)) (n_close + (if has evts EV_CLOSED then 1 else 0)))"

definition evmap_io_check_integrity_fn :: "('b, unit) io_iter" where
  "evmap_io_check_integrity_fn base fd io_info arg =
     (case io_integrity_loop (check (distinct (io_events io_info)) base) fd (io_events io_info) 0 0 0 of
        (base1, n_read, n_write, n_close) \<Rightarrow>
          Some (check (n_read = nread io_info \<and> n_write = nwrite io_info \<and> n_close = nclose io_info) base1, arg, 0))"

fun signal_integrity_loop :: "'b event_base \<Rightarrow> nat \<Rightarrow> ev_ptr list \<Rightarrow> 'b event_base" where
  "signal_integrity_loop base signum [] = base"
| "signal_integrity_loop base signum (ev # evs) =
     (let evts = ev_events (mem base ev)
      in signal_integrity_loop (check (has (flags_of base ev) EVLIST_INSERTED \<and> ev_fd (mem base ev) = int signum \<and>
           has evts EV_SIGNAL \<and> \<not> has evts (EV_READ OR EV_WRITE OR EV_CLOSED)) base) signum evs)"

definition evmap_signal_check_integrity_fn :: "('b, unit) sig_iter" where
  "evmap_signal_check_integrity_fn base signum sig_info arg =
     Some (signal_integrity_loop (check (distinct (sig_events sig_info)) base) signum (sig_events sig_info), arg, 0)"

text \<open>\<open>cl\<close> gives the changelist of the backend, if it is one with a changelist.\<close>

definition evmap_check_integrity :: "('b \<Rightarrow> event_changelist) option \<Rightarrow> 'b event_base \<Rightarrow> 'b event_base option" where
  "evmap_check_integrity cl base =
     Option.bind (evmap_io_foreach_fd base evmap_io_check_integrity_fn ())
       (\<lambda>(base1, _, _). Option.bind (evmap_signal_foreach_signal base1 evmap_signal_check_integrity_fn ())
          (\<lambda>(base2, _, _). Some (case cl of None \<Rightarrow> base2
             | Some get \<Rightarrow> check (event_changelist_assert_ok (get (evbase base2)) (io base2)) base2)))"

fun heap_check_loop :: "'b event_base \<Rightarrow> nat list \<Rightarrow> 'b event_base" where
  "heap_check_loop base [] = base"
| "heap_check_loop base (i # is) =
     (let ev = mh_p (timeheap base) ! i; p_ev = mh_p (timeheap base) ! ((i - 1) div 2)
      in heap_check_loop (check (has (flags_of base ev) EVLIST_TIMEOUT \<and>
           evutil_timercmp (ev_timeout (mem base p_ev)) (ev_timeout (mem base ev)) (\<le>) \<and>
           min_heap_idx (mem base ev) = of_nat i) base) is)"

fun ctl_check_loop :: "'b event_base \<Rightarrow> nat \<Rightarrow> ev_ptr option \<Rightarrow> ev_ptr list \<Rightarrow> 'b event_base" where
  "ctl_check_loop base i prev [] = base"
| "ctl_check_loop base i prev (ev # evs) =
     (let base1 = (case prev of None \<Rightarrow> base
            | Some l \<Rightarrow> check (evutil_timercmp (ev_timeout (mem base l)) (ev_timeout (mem base ev)) (\<le>)) base);
          base2 = check (has (flags_of base1 ev) EVLIST_TIMEOUT) base1;
          base3 = check (is_common_timeout (ev_timeout (mem base2 ev)) base2) base2;
          base4 = check (COMMON_TIMEOUT_IDX (ev_timeout (mem base3 ev)) = i) base3
      in ctl_check_loop base4 i (Some ev) evs)"

fun active_check_loop :: "'b event_base \<Rightarrow> nat \<Rightarrow> ev_ptr list \<Rightarrow> int \<Rightarrow> 'b event_base \<times> int" where
  "active_check_loop base i [] n = (base, n)"
| "active_check_loop base i (evcb # evcbs) n =
     active_check_loop (check (flags_of base evcb AND (EVLIST_ACTIVE OR EVLIST_ACTIVE_LATER) = EVLIST_ACTIVE \<and>
       ev_pri (mem base evcb) = i) base) i evcbs (n + 1)"

fun later_check_loop :: "'b event_base \<Rightarrow> ev_ptr list \<Rightarrow> int \<Rightarrow> 'b event_base \<times> int" where
  "later_check_loop base [] n = (base, n)"
| "later_check_loop base (evcb # evcbs) n =
     later_check_loop (check (flags_of base evcb AND (EVLIST_ACTIVE OR EVLIST_ACTIVE_LATER) = EVLIST_ACTIVE_LATER) base)
       evcbs (n + 1)"

definition event_base_assert_ok_nolock ::
  "('b \<Rightarrow> event_changelist) option \<Rightarrow> 'b event_base \<Rightarrow> 'b event_base option" where
  "event_base_assert_ok_nolock cl base =
     Option.bind (evmap_check_integrity cl base)
       (\<lambda>base1.
          let base2 = heap_check_loop base1 [1..<mh_n (timeheap base1)];
              base3 = fold (\<lambda>i b. ctl_check_loop (check (distinct (ctl_events (common_timeout_queues b ! i))) b) i None
                             (ctl_events (common_timeout_queues b ! i))) [0..<n_common_timeouts base2] base2;
              (base4, n) = fold (\<lambda>i (b, n). active_check_loop (check (distinct (activequeues b ! i)) b) i (activequeues b ! i) n)
                             [0..<nactivequeues base3] (base3, 0);
              (base5, n') = later_check_loop base4 (active_later_queue base4) n
          in Some (check (n' = event_count_active base5) base5))"

subsection \<open>Visiting every event\<close>

text \<open>The visitor gets the base, an event and its argument, and returns the argument and a
  result; it may not change the base.\<close>

type_synonym ('b, 'a) visitor = "'b event_base \<Rightarrow> ev_ptr \<Rightarrow> 'a \<Rightarrow> 'a \<times> int"

text \<open>\<open>skip\<close> tells which events a loop passes over.\<close>

fun visit :: "('b, 'a) visitor \<Rightarrow> ('b event_base \<Rightarrow> ev_ptr \<Rightarrow> bool) \<Rightarrow> 'b event_base \<Rightarrow> ev_ptr list \<Rightarrow> 'a \<Rightarrow> 'a \<times> int" where
  "visit fn skip base [] arg = (arg, 0)"
| "visit fn skip base (ev # evs) arg =
     (if skip base ev then visit fn skip base evs arg
      else case fn base ev arg of (arg1, r) \<Rightarrow> if r \<noteq> 0 then (arg1, r) else visit fn skip base evs arg1)"

definition evmap_io_foreach_event_fn :: "('b, 'a) visitor \<Rightarrow> ('b, 'a) io_iter" where
  "evmap_io_foreach_event_fn fn base fd io_info arg =
     (case visit fn (\<lambda>_ _. False) base (io_events io_info) arg of (arg1, r) \<Rightarrow> Some (base, arg1, r))"

definition evmap_signal_foreach_event_fn :: "('b, 'a) visitor \<Rightarrow> ('b, 'a) sig_iter" where
  "evmap_signal_foreach_event_fn fn base signum sig_info arg =
     (case visit fn (\<lambda>_ _. False) base (sig_events sig_info) arg of (arg1, r) \<Rightarrow> Some (base, arg1, r))"

definition evmap_foreach_event :: "'b event_base \<Rightarrow> ('b, 'a) visitor \<Rightarrow> 'a \<Rightarrow> ('a \<times> int) option" where
  "evmap_foreach_event base fn arg =
     Option.bind (evmap_io_foreach_fd base (evmap_io_foreach_event_fn fn) arg)
       (\<lambda>(_, arg1, r). if r \<noteq> 0 then Some (arg1, r)
          else Option.bind (evmap_signal_foreach_signal base (evmap_signal_foreach_event_fn fn) arg1)
                 (\<lambda>(_, arg2, r2). Some (arg2, r2)))"

fun visit_queues :: "('b, 'a) visitor \<Rightarrow> ('b event_base \<Rightarrow> ev_ptr \<Rightarrow> bool) \<Rightarrow> 'b event_base \<Rightarrow> ev_ptr list list \<Rightarrow> 'a \<Rightarrow> 'a \<times> int" where
  "visit_queues fn skip base [] arg = (arg, 0)"
| "visit_queues fn skip base (q # qs) arg =
     (case visit fn skip base q arg of (arg1, r) \<Rightarrow> if r \<noteq> 0 then (arg1, r) else visit_queues fn skip base qs arg1)"

definition event_base_foreach_event_nolock :: "'b event_base \<Rightarrow> ('b, 'a) visitor \<Rightarrow> 'a \<Rightarrow> ('a \<times> int) option" where
  "event_base_foreach_event_nolock base fn arg =
     Option.bind (evmap_foreach_event base fn arg)
       (\<lambda>(arg1, r1).
          if r1 \<noteq> 0 then Some (arg1, r1)
          else case visit fn (\<lambda>b ev. has (flags_of b ev) EVLIST_INSERTED) base (take (mh_n (timeheap base)) (mh_p (timeheap base))) arg1 of
            (arg2, r2) \<Rightarrow>
              if r2 \<noteq> 0 then Some (arg2, r2)
              else case visit_queues fn (\<lambda>b ev. has (flags_of b ev) EVLIST_INSERTED) base
                          (map ctl_events (common_timeout_queues base)) arg2 of
                (arg3, r3) \<Rightarrow>
                  if r3 \<noteq> 0 then Some (arg3, r3)
                  else Some (visit_queues fn (\<lambda>b ev. flags_of b ev AND (EVLIST_INIT OR EVLIST_INSERTED OR EVLIST_TIMEOUT) \<noteq> EVLIST_INIT)
                               base (activequeues base) arg3))"

definition event_base_foreach_event :: "'b event_base \<Rightarrow> ('b, 'a) visitor \<Rightarrow> 'a \<Rightarrow> ('a \<times> int) option" where
  "event_base_foreach_event base fn arg = event_base_foreach_event_nolock base fn arg"

definition event_base_active_by_fd :: "'b event_base \<Rightarrow> int \<Rightarrow> u16 \<Rightarrow> 'b event_base" where
  "event_base_active_by_fd base fd events = evmap_io_active base fd (events AND (EV_READ OR EV_WRITE OR EV_CLOSED))"

definition event_base_active_by_signal :: "'b event_base \<Rightarrow> int \<Rightarrow> 'b event_base" where
  "event_base_active_by_signal base sig = evmap_signal_active base sig 1"

subsection \<open>The iterators visit every slot\<close>

lemma io_foreach_same:
  assumes "\<And>fd ctx. fd < length (io base) \<Longrightarrow> io base ! fd = Some ctx \<Longrightarrow> fn base fd ctx arg = Some (base, arg, 0)"
  shows "io_foreach_from fn base arg fd = Some (base, arg, 0)"
proof (induction "length (io base) - fd" arbitrary: fd)
  case (Suc n)
  then have "io_foreach_from fn base arg (fd + 1) = Some (base, arg, 0)" by simp
  then show ?case
    using Suc(2) assms by (subst io_foreach_from.simps) (auto split: option.splits)
qed (subst io_foreach_from.simps, simp)

lemma signal_foreach_same:
  assumes "\<And>s ctx. s < length (sigmap base) \<Longrightarrow> sigmap base ! s = Some ctx \<Longrightarrow> fn base s ctx arg = Some (base, arg, 0)"
  shows "signal_foreach_from fn base arg s = Some (base, arg, 0)"
proof (induction "length (sigmap base) - s" arbitrary: s)
  case (Suc n)
  then have "signal_foreach_from fn base arg (s + 1) = Some (base, arg, 0)" by simp
  then show ?case
    using Suc(2) assms by (subst signal_foreach_from.simps) (auto split: option.splits)
qed (subst signal_foreach_from.simps, simp)

subsection \<open>A well-formed base passes its check\<close>

lemma check_True [simp]: "check True base = base"
  by (simp add: check_def)

lemma io_integrity_loop_ok:
  assumes "\<And>ev. ev \<in> set evs \<Longrightarrow> has (flags_of base ev) EVLIST_INSERTED \<and> ev_fd (mem base ev) = int fd \<and>
    \<not> has (ev_events (mem base ev)) EV_SIGNAL \<and> has (ev_events (mem base ev)) (EV_READ OR EV_WRITE OR EV_CLOSED)"
  shows "io_integrity_loop base fd evs a b c =
    (base, a + wants (mem base) EV_READ evs, b + wants (mem base) EV_WRITE evs, c + wants (mem base) EV_CLOSED evs)"
  using assms
proof (induction evs arbitrary: a b c)
  case (Cons ev evs)
  have e: "has (flags_of base ev) EVLIST_INSERTED \<and> ev_fd (mem base ev) = int fd \<and>
    \<not> has (ev_events (mem base ev)) EV_SIGNAL \<and> has (ev_events (mem base ev)) (EV_READ OR EV_WRITE OR EV_CLOSED)"
    using Cons(2) by simp
  show ?case
    unfolding io_integrity_loop.simps Let_def eqTrueI [OF e] check_True by (subst Cons.IH) (use Cons(2) in simp_all)
qed simp

lemma signal_integrity_loop_ok:
  assumes "\<And>ev. ev \<in> set evs \<Longrightarrow> has (flags_of base ev) EVLIST_INSERTED \<and> ev_fd (mem base ev) = int s \<and>
    has (ev_events (mem base ev)) EV_SIGNAL \<and> \<not> has (ev_events (mem base ev)) (EV_READ OR EV_WRITE OR EV_CLOSED)"
  shows "signal_integrity_loop base s evs = base"
  using assms
proof (induction evs)
  case (Cons ev evs)
  have e: "has (flags_of base ev) EVLIST_INSERTED \<and> ev_fd (mem base ev) = int s \<and>
    has (ev_events (mem base ev)) EV_SIGNAL \<and> \<not> has (ev_events (mem base ev)) (EV_READ OR EV_WRITE OR EV_CLOSED)"
    using Cons(2) by simp
  show ?case
    unfolding signal_integrity_loop.simps Let_def eqTrueI [OF e] check_True by (rule Cons.IH) (use Cons(2) in simp)
qed simp

text \<open>An event is either for a descriptor or for a signal, as \<^verbatim>\<open>event_assign\<close> demands.\<close>

definition kinds_ok :: "'b event_base \<Rightarrow> bool" where
  "kinds_ok base \<longleftrightarrow> (\<forall>e. has (flags_of base e) EVLIST_INSERTED \<longrightarrow>
     \<not> (has (ev_events (mem base e)) EV_SIGNAL \<and> io_kind (mem base e)))"

lemma evmap_check_integrity_ok:
  assumes w: "wf_base base" and k: "kinds_ok base"
  shows "evmap_check_integrity None base = Some base"
proof -
  have m: "io_are (mem base) (io base) (flagged base EVLIST_INSERTED)" "sig_are (mem base) (sigmap base) (flagged base EVLIST_INSERTED)"
    using w by (simp_all add: wf_base_def maps_are_def)
  have io: "evmap_io_check_integrity_fn base fd ctx () = Some (base, (), 0)"
    if "fd < length (io base)" "io base ! fd = Some ctx" for fd ctx
  proof -
    have at: "io_events ctx = io_at (io base) fd" using that by (simp add: io_at_def)
    have s: "slot_ok (mem base) ctx" using io_areD(3) [OF m(1)] that by (metis nth_mem)
    have "io_integrity_loop base fd (io_events ctx) 0 0 0 = (base, wants (mem base) EV_READ (io_events ctx),
        wants (mem base) EV_WRITE (io_events ctx), wants (mem base) EV_CLOSED (io_events ctx))"
      by (subst io_integrity_loop_ok)
         (use io_areD(2) [OF m(1)] k in \<open>auto simp: at flagged_def kinds_ok_def io_kind_def\<close>)
    then show ?thesis
      using s io_areD(1) [OF m(1), of fd] by (simp add: evmap_io_check_integrity_fn_def at slot_ok_def)
  qed
  have sg: "evmap_signal_check_integrity_fn base s ctx () = Some (base, (), 0)"
    if "s < length (sigmap base)" "sigmap base ! s = Some ctx" for s ctx
  proof -
    have at: "sig_events ctx = sig_at (sigmap base) s" using that by (simp add: sig_at_def)
    have "signal_integrity_loop base s (sig_events ctx) = base"
      by (rule signal_integrity_loop_ok)
         (use sig_areD(2,3) [OF m(2)] in \<open>auto simp: at flagged_def io_kind_def\<close>)
    then show ?thesis
      using sig_areD(1) [OF m(2), of s] by (simp add: evmap_signal_check_integrity_fn_def at)
  qed
  show ?thesis
    using io_foreach_same [of base evmap_io_check_integrity_fn "()" 0, OF io]
      signal_foreach_same [of base evmap_signal_check_integrity_fn "()" 0, OF sg]
    by (simp add: evmap_check_integrity_def evmap_io_foreach_fd_def evmap_signal_foreach_signal_def)
qed

lemma heap_check_loop_ok:
  assumes t: "timers_ok base" and i: "\<And>i. i \<in> set is \<Longrightarrow> 0 < i \<and> i < mh_n (timeheap base)"
  shows "heap_check_loop base is = base"
  using i
proof (induction "is")
  case (Cons i "is")
  note wf = timersD(1) [OF t, unfolded heap_wf_def]
  have i: "0 < i" "i < mh_n (timeheap base)" using Cons(2) by auto
  have "mh_p (timeheap base) ! i \<in># heap_mset (timeheap base)"
    using i wf by (simp add: heap_mset_def heap_list_def nth_in_set_take)
  then have "has (flags_of base (mh_p (timeheap base) ! i)) EVLIST_TIMEOUT" using timersD(2) [OF t] by blast
  moreover have "evutil_timercmp (tmo (mem base) (mh_p (timeheap base) ! ((i - 1) div 2)))
      (tmo (mem base) (mh_p (timeheap base) ! i)) (\<le>)"
    using wf i unfolding heap_ord_def par_def less_eq_timeval_def by blast
  moreover have "min_heap_idx (mem base (mh_p (timeheap base) ! i)) = of_nat i" using wf i unfolding heap_idx_def by blast
  ultimately have c: "has (flags_of base (mh_p (timeheap base) ! i)) EVLIST_TIMEOUT \<and>
      evutil_timercmp (tmo (mem base) (mh_p (timeheap base) ! ((i - 1) div 2))) (tmo (mem base) (mh_p (timeheap base) ! i)) (\<le>) \<and>
      min_heap_idx (mem base (mh_p (timeheap base) ! i)) = of_nat i" by blast
  show ?case
    unfolding heap_check_loop.simps Let_def eqTrueI [OF c] check_True by (rule Cons.IH) (use Cons(2) in simp)
qed simp

lemma ctl_check_loop_ok:
  assumes "\<And>e. e \<in> set es \<Longrightarrow> has (flags_of base e) EVLIST_TIMEOUT \<and> is_common_timeout (tmo (mem base) e) base \<and>
      COMMON_TIMEOUT_IDX (tmo (mem base) e) = i"
    "sorted_wrt (\<lambda>a b. tmo (mem base) a \<le> tmo (mem base) b) (case l of None \<Rightarrow> es | Some x \<Rightarrow> x # es)"
  shows "ctl_check_loop base i l es = base"
  using assms
proof (induction es arbitrary: l)
  case (Cons e es)
  have b: "has (flags_of base e) EVLIST_TIMEOUT" "is_common_timeout (tmo (mem base) e) base" "COMMON_TIMEOUT_IDX (tmo (mem base) e) = i"
    using Cons(2) [of e] by simp_all
  have l: "(case l of None \<Rightarrow> base | Some x \<Rightarrow> check (evutil_timercmp (tmo (mem base) x) (tmo (mem base) e) (\<le>)) base) = base"
    using Cons(3) by (cases l) (simp_all add: check_def)
  have "sorted_wrt (\<lambda>a b. tmo (mem base) a \<le> tmo (mem base) b) (e # es)"
    using Cons(3) by (cases l) simp_all
  then show ?case
    unfolding ctl_check_loop.simps Let_def l eqTrueI [OF b(1)] check_True eqTrueI [OF b(2)] eqTrueI [OF b(3)]
    by (intro Cons.IH) (use Cons(2) in simp_all)
qed simp

lemma active_check_loop_ok:
  assumes "\<And>e. e \<in> set es \<Longrightarrow> flags_of base e AND (EVLIST_ACTIVE OR EVLIST_ACTIVE_LATER) = EVLIST_ACTIVE \<and> ev_pri (mem base e) = i"
  shows "active_check_loop base i es n = (base, n + int (length es))"
  using assms
proof (induction es arbitrary: n)
  case (Cons e es)
  have c: "flags_of base e AND (EVLIST_ACTIVE OR EVLIST_ACTIVE_LATER) = EVLIST_ACTIVE \<and> ev_pri (mem base e) = i"
    using Cons(2) by simp
  show ?case
    unfolding active_check_loop.simps eqTrueI [OF c] check_True by (subst Cons.IH) (use Cons(2) in simp_all)
qed simp

lemma later_check_loop_ok:
  assumes "\<And>e. e \<in> set es \<Longrightarrow> flags_of base e AND (EVLIST_ACTIVE OR EVLIST_ACTIVE_LATER) = EVLIST_ACTIVE_LATER"
  shows "later_check_loop base es n = (base, n + int (length es))"
  using assms
proof (induction es arbitrary: n)
  case (Cons e es)
  have c: "flags_of base e AND (EVLIST_ACTIVE OR EVLIST_ACTIVE_LATER) = EVLIST_ACTIVE_LATER"
    using Cons(2) by simp
  show ?case
    unfolding later_check_loop.simps eqTrueI [OF c] check_True by (subst Cons.IH) (use Cons(2) in simp_all)
qed simp

lemma active_masks:
  fixes f :: u16
  shows "f AND (EVLIST_ACTIVE OR EVLIST_ACTIVE_LATER) = EVLIST_ACTIVE \<longleftrightarrow> has f EVLIST_ACTIVE \<and> \<not> has f EVLIST_ACTIVE_LATER"
    "f AND (EVLIST_ACTIVE OR EVLIST_ACTIVE_LATER) = EVLIST_ACTIVE_LATER \<longleftrightarrow> has f EVLIST_ACTIVE_LATER \<and> \<not> has f EVLIST_ACTIVE"
proof -
  have b: "f AND 2 ^ n = (if has f (2 ^ n) then 2 ^ n else 0)" for n
    by (auto simp: has_def and_exp_eq_0_iff_not_bit intro!: bit_eqI simp: bit_simps)
  have m: "f AND (EVLIST_ACTIVE OR EVLIST_ACTIVE_LATER) = (f AND EVLIST_ACTIVE) OR (f AND EVLIST_ACTIVE_LATER)"
    by (rule bit.conj_disj_distrib)
  show "f AND (EVLIST_ACTIVE OR EVLIST_ACTIVE_LATER) = EVLIST_ACTIVE \<longleftrightarrow> has f EVLIST_ACTIVE \<and> \<not> has f EVLIST_ACTIVE_LATER"
    "f AND (EVLIST_ACTIVE OR EVLIST_ACTIVE_LATER) = EVLIST_ACTIVE_LATER \<longleftrightarrow> has f EVLIST_ACTIVE_LATER \<and> \<not> has f EVLIST_ACTIVE"
    unfolding m using b [of 3] b [of 5] by (simp_all split: if_splits)
qed

lemma fold_same: "(\<And>i. i \<in> set is \<Longrightarrow> f i b = b) \<Longrightarrow> fold f is b = b"
  by (induction "is") auto

lemma fold_count:
  "(\<And>i n. i \<in> set is \<Longrightarrow> f i (b, n) = (b, n + g i)) \<Longrightarrow> fold f is (b, n) = (b, n + sum_list (map g is))"
  for n :: int
  by (induction "is" arbitrary: n) auto

lemma sum_lengths: "(\<Sum>i\<leftarrow>[0..<length xss]. int (length (xss ! i))) = int (length (concat xss))"
proof -
  have "map (\<lambda>i. int (length (xss ! i))) [0..<length xss] = map (\<lambda>xs. int (length xs)) xss"
    by (rule nth_equalityI) simp_all
  moreover have "sum_list (map (\<lambda>xs. int (length xs)) xss) = int (length (concat xss))" by (induction xss) simp_all
  ultimately show ?thesis by simp
qed

lemma assert_ok_nolock_passes:
  assumes w: "wf_base base" and k: "kinds_ok base"
  shows "event_base_assert_ok_nolock None base = Some base"
proof -
  have c: "core_ok base" using w by (simp add: wf_base_def)
  note q = coreD(1) [OF c, unfolded queues_ok_def] and t = coreD(2) [OF c] and n = coreD(3) [OF c]
  have dq: "distinct (activequeues base ! i)" if "i < nactivequeues base" for i
    using q that by (metis distinct_concat_iff nth_mem)
  have h: "heap_check_loop base [1..<mh_n (timeheap base)] = base" by (rule heap_check_loop_ok [OF t]) auto
  have ctl: "fold (\<lambda>i b. ctl_check_loop (check (distinct (ctl_events (common_timeout_queues b ! i))) b) i None
      (ctl_events (common_timeout_queues b ! i))) [0..<n_common_timeouts base] base = base"
    by (rule fold_same, subst ctl_check_loop_ok)
       (use ctlD [OF timersD(3) [OF t]] in \<open>auto simp: check_def\<close>)
  have act: "fold (\<lambda>i (b, n). active_check_loop (check (distinct (activequeues b ! i)) b) i (activequeues b ! i) n)
      [0..<nactivequeues base] (base, 0) = (base, 0 + (\<Sum>i\<leftarrow>[0..<nactivequeues base]. int (length (activequeues base ! i))))"
  proof (rule fold_count)
    fix i n assume i: "i \<in> set [0..<nactivequeues base]"
    have "active_check_loop base i (activequeues base ! i) n = (base, n + int (length (activequeues base ! i)))"
    proof (rule active_check_loop_ok, unfold active_masks)
      fix e assume e: "e \<in> set (activequeues base ! i)"
      have "e \<in> set (concat (activequeues base))" using e i nth_mem [of i "activequeues base"] by auto
      then show "(has (flags_of base e) EVLIST_ACTIVE \<and> \<not> has (flags_of base e) EVLIST_ACTIVE_LATER) \<and> ev_pri (mem base e) = i"
        using q e i [unfolded set_upt atLeastLessThan_iff] by blast
    qed
    then show "(case (base, n) of (b, n) \<Rightarrow> active_check_loop (check (distinct (activequeues b ! i)) b) i (activequeues b ! i) n) =
        (base, n + int (length (activequeues base ! i)))"
      using dq i by simp
  qed
  have len: "(\<Sum>i\<leftarrow>[0..<nactivequeues base]. int (length (activequeues base ! i))) = int (card (flagged base EVLIST_ACTIVE))"
  proof -
    have "(\<Sum>i\<leftarrow>[0..<nactivequeues base]. int (length (activequeues base ! i))) = int (length (concat (activequeues base)))"
      by (rule sum_lengths)
    also have "\<dots> = int (card (set (concat (activequeues base))))" using q by (metis distinct_card)
    also have "set (concat (activequeues base)) = flagged base EVLIST_ACTIVE" using q by (auto simp: flagged_def)
    finally show ?thesis .
  qed
  have lat: "later_check_loop base (active_later_queue base) m = (base, m + int (length (active_later_queue base)))" for m
    by (rule later_check_loop_ok, unfold active_masks) (use q in blast)
  have len': "length (active_later_queue base) = card (flagged base EVLIST_ACTIVE_LATER)"
  proof -
    have "set (active_later_queue base) = flagged base EVLIST_ACTIVE_LATER" using q by (auto simp: flagged_def)
    then show ?thesis using q distinct_card by metis
  qed
  have "event_count_active base = int (card (flagged base EVLIST_ACTIVE) + card (flagged base EVLIST_ACTIVE_LATER))"
    using n by (simp add: counts_ok_def)
  then show ?thesis
    unfolding event_base_assert_ok_nolock_def evmap_check_integrity_ok [OF w k] Option.bind.simps Let_def h ctl act prod.case lat
    by (simp add: len len')
qed

subsection \<open>Every event is visited once\<close>

definition no_skip :: "'b event_base \<Rightarrow> ev_ptr \<Rightarrow> bool" where
  "no_skip base ev \<longleftrightarrow> False"

lemma visit_append:
  "visit fn skip base (xs @ ys) arg =
     (case visit fn skip base xs arg of (arg1, r) \<Rightarrow> if r \<noteq> 0 then (arg1, r) else visit fn skip base ys arg1)"
  by (induction xs arbitrary: arg) (auto split: prod.splits)

lemma visit_filter: "visit fn skip base xs arg = visit fn no_skip base (filter (\<lambda>e. \<not> skip base e) xs) arg"
  by (induction xs arbitrary: arg) (auto simp: no_skip_def split: prod.splits)

lemma visit_queues_concat: "visit_queues fn skip base qs arg = visit fn skip base (concat qs) arg"
  by (induction qs arbitrary: arg) (auto simp: visit_append split: prod.splits)

lemma io_foreach_visit:
  "io_foreach_from (evmap_io_foreach_event_fn fn) base arg fd =
     (case visit fn no_skip base (concat (map (io_at (io base)) [fd..<length (io base)])) arg of (arg1, r) \<Rightarrow> Some (base, arg1, r))"
proof (induction "length (io base) - fd" arbitrary: fd arg)
  case (Suc n)
  have fd: "fd < length (io base)" using Suc(2) by simp
  have ih: "io_foreach_from (evmap_io_foreach_event_fn fn) base a (fd + 1) =
     (case visit fn no_skip base (concat (map (io_at (io base)) [Suc fd..<length (io base)])) a of (arg1, r) \<Rightarrow> Some (base, arg1, r))" for a
    using Suc(1) [of "Suc fd" a] Suc(2) by simp
  have ns: "(\<lambda>_ _. False) = (no_skip :: 'a event_base \<Rightarrow> _)" by (simp add: no_skip_def fun_eq_iff)
  show ?case
  proof (cases "io base ! fd")
    case None
    then have "io_at (io base) fd = []" using fd by (simp add: io_at_def)
    then show ?thesis using fd None ih by (subst io_foreach_from.simps) (simp add: upt_conv_Cons)
  next
    case (Some ctx)
    then have "io_at (io base) fd = io_events ctx" using fd by (simp add: io_at_def)
    then show ?thesis
      using fd Some ih
      by (subst io_foreach_from.simps)
         (simp add: upt_conv_Cons visit_append evmap_io_foreach_event_fn_def ns split: prod.splits)
  qed
qed (subst io_foreach_from.simps, simp)

lemma signal_foreach_visit:
  "signal_foreach_from (evmap_signal_foreach_event_fn fn) base arg s =
     (case visit fn no_skip base (concat (map (sig_at (sigmap base)) [s..<length (sigmap base)])) arg of (arg1, r) \<Rightarrow> Some (base, arg1, r))"
proof (induction "length (sigmap base) - s" arbitrary: s arg)
  case (Suc n)
  have s: "s < length (sigmap base)" using Suc(2) by simp
  have ih: "signal_foreach_from (evmap_signal_foreach_event_fn fn) base a (s + 1) =
     (case visit fn no_skip base (concat (map (sig_at (sigmap base)) [Suc s..<length (sigmap base)])) a of (arg1, r) \<Rightarrow> Some (base, arg1, r))" for a
    using Suc(1) [of "Suc s" a] Suc(2) by simp
  have ns: "(\<lambda>_ _. False) = (no_skip :: 'a event_base \<Rightarrow> _)" by (simp add: no_skip_def fun_eq_iff)
  show ?case
  proof (cases "sigmap base ! s")
    case None
    then have "sig_at (sigmap base) s = []" using s by (simp add: sig_at_def)
    then show ?thesis using s None ih by (subst signal_foreach_from.simps) (simp add: upt_conv_Cons)
  next
    case (Some ctx)
    then have "sig_at (sigmap base) s = sig_events ctx" using s by (simp add: sig_at_def)
    then show ?thesis
      using s Some ih
      by (subst signal_foreach_from.simps)
         (simp add: upt_conv_Cons visit_append evmap_signal_foreach_event_fn_def ns split: prod.splits)
  qed
qed (subst signal_foreach_from.simps, simp)

text \<open>The events in the order in which they are visited.\<close>

definition listed :: "'b event_base \<Rightarrow> ev_ptr list" where
  "listed base =
     concat (map (io_at (io base)) [0..<length (io base)]) @ concat (map (sig_at (sigmap base)) [0..<length (sigmap base)]) @
     filter (\<lambda>e. \<not> has (flags_of base e) EVLIST_INSERTED) (heap_list (timeheap base)) @
     filter (\<lambda>e. \<not> has (flags_of base e) EVLIST_INSERTED) (concat (map ctl_events (common_timeout_queues base))) @
     filter (\<lambda>e. flags_of base e AND (EVLIST_INIT OR EVLIST_INSERTED OR EVLIST_TIMEOUT) = EVLIST_INIT) (concat (activequeues base))"

lemma foreach_visits_listed:
  "event_base_foreach_event_nolock base fn arg = Some (visit fn no_skip base (listed base) arg)"
proof -
  have "evmap_foreach_event base fn arg = Some (visit fn no_skip base
      (concat (map (io_at (io base)) [0..<length (io base)]) @ concat (map (sig_at (sigmap base)) [0..<length (sigmap base)])) arg)"
    unfolding evmap_foreach_event_def evmap_io_foreach_fd_def evmap_signal_foreach_signal_def
      io_foreach_visit signal_foreach_visit visit_append
    by (simp split: prod.splits)
  then show ?thesis
    unfolding event_base_foreach_event_nolock_def listed_def heap_list_def visit_queues_concat
    by (subst (1 2 3) visit_filter) (simp add: visit_append split: prod.splits)
qed

lemma distinct_concat_upt:
  assumes "\<And>i. i < n \<Longrightarrow> distinct (f i)" "\<And>i e. i < n \<Longrightarrow> e \<in> set (f i) \<Longrightarrow> key e = i"
  shows "distinct (concat (map f [0..<n]))"
  using assms
proof (induction n)
  case (Suc n)
  have "e \<notin> set (f i)" if "e \<in> set (f n)" "i < n" for e i
    using Suc(3) [of n e] Suc(3) [of i e] that by auto
  then show ?case using Suc by (auto simp: less_Suc_eq)
qed simp

lemma init_mask:
  fixes f :: u16
  shows "f AND (EVLIST_INIT OR EVLIST_INSERTED OR EVLIST_TIMEOUT) = EVLIST_INIT \<longleftrightarrow>
    has f EVLIST_INIT \<and> \<not> has f EVLIST_INSERTED \<and> \<not> has f EVLIST_TIMEOUT"
proof -
  have b: "f AND 2 ^ n = (if has f (2 ^ n) then 2 ^ n else 0)" for n
    by (auto simp: has_def and_exp_eq_0_iff_not_bit intro!: bit_eqI simp: bit_simps)
  show ?thesis
    unfolding bit.conj_disj_distrib using b [of 0] b [of 1] b [of 7] by (simp split: if_splits)
qed

lemma listed_spec:
  assumes w: "wf_base base"
  shows "distinct (listed base)"
    "e \<in> set (listed base) \<longleftrightarrow>
       has (flags_of base e) EVLIST_INSERTED \<and> (io_kind (mem base e) \<longrightarrow> 0 \<le> ev_fd (mem base e)) \<or>
       \<not> has (flags_of base e) EVLIST_INSERTED \<and> has (flags_of base e) EVLIST_TIMEOUT \<or>
       has (flags_of base e) EVLIST_INIT \<and> has (flags_of base e) EVLIST_ACTIVE \<and>
         \<not> has (flags_of base e) EVLIST_INSERTED \<and> \<not> has (flags_of base e) EVLIST_TIMEOUT"
proof -
  let ?I = "\<lambda>e. has (flags_of base e) EVLIST_INSERTED"
  have c: "core_ok base" using w by (simp add: wf_base_def)
  have m: "io_are (mem base) (io base) (flagged base EVLIST_INSERTED)" "sig_are (mem base) (sigmap base) (flagged base EVLIST_INSERTED)"
    using w by (simp_all add: wf_base_def maps_are_def)
  note q = coreD(1) [OF c, unfolded queues_ok_def] and t = coreD(2) [OF c]
  let ?io = "concat (map (io_at (io base)) [0..<length (io base)])"
  let ?sg = "concat (map (sig_at (sigmap base)) [0..<length (sigmap base)])"
  let ?h = "heap_list (timeheap base)" and ?c = "concat (map ctl_events (common_timeout_queues base))"
  let ?a = "concat (activequeues base)"
  have io_len: "e \<in> set (io_at (io base) fd) \<Longrightarrow> fd < length (io base)" for fd e
    by (cases "fd < length (io base)") (simp_all add: io_at_def)
  have sg_len: "e \<in> set (sig_at (sigmap base) s) \<Longrightarrow> s < length (sigmap base)" for s e
    by (cases "s < length (sigmap base)") (simp_all add: sig_at_def)
  have io: "e \<in> set ?io \<longleftrightarrow> ?I e \<and> io_kind (mem base e) \<and> 0 \<le> ev_fd (mem base e)" for e
  proof -
    have "e \<in> set ?io \<longleftrightarrow> (\<exists>fd. e \<in> set (io_at (io base) fd))" 
      unfolding set_concat set_map set_upt image_image UN_iff using io_len [of e] by force
    also have "\<dots> \<longleftrightarrow> (\<exists>fd. ?I e \<and> io_kind (mem base e) \<and> ev_fd (mem base e) = int fd)"
      unfolding io_areD(2) [OF m(1)] by (simp add: flagged_def)
    finally show ?thesis by (metis nonneg_int_cases of_nat_0_le_iff)
  qed
  have sg: "e \<in> set ?sg \<longleftrightarrow> ?I e \<and> \<not> io_kind (mem base e)" for e
  proof -
    have "e \<in> set ?sg \<longleftrightarrow> (\<exists>s. e \<in> set (sig_at (sigmap base) s))" 
      unfolding set_concat set_map set_upt image_image UN_iff using sg_len [of e] by force
    also have "\<dots> \<longleftrightarrow> (\<exists>s. ?I e \<and> \<not> io_kind (mem base e) \<and> ev_fd (mem base e) = int s)"
      unfolding sig_areD(2) [OF m(2)] by (simp add: flagged_def)
    finally show ?thesis
      using sig_areD(3) [OF m(2), of e] by (auto simp: flagged_def dest: zero_le_imp_eq_int)
  qed
  have h: "e \<in> set ?h \<longleftrightarrow> has (flags_of base e) EVLIST_TIMEOUT \<and> \<not> is_common_timeout (tmo (mem base) e) base" for e
    using timersD(2) [OF t, of e] by (simp add: heap_mset_def)
  have cc: "e \<in> set ?c \<longleftrightarrow> has (flags_of base e) EVLIST_TIMEOUT \<and> is_common_timeout (tmo (mem base) e) base" for e
  proof -
    have "e \<in> set ?c \<longleftrightarrow> (\<exists>i < n_common_timeouts base. e \<in> set (ctl_events (common_timeout_queues base ! i)))"
      by (simp, metis in_set_conv_nth)
    then show ?thesis
      using ctlD(3) [OF timersD(3) [OF t], of _ e] by (auto simp: is_common_timeout_def)
  qed
  have a: "e \<in> set ?a \<longleftrightarrow> has (flags_of base e) EVLIST_ACTIVE" for e using q by blast
  have "distinct ?io" by (rule distinct_concat_upt [where key = "\<lambda>e. nat (ev_fd (mem base e))"]) (use io_areD [OF m(1)] in auto)
  moreover have "distinct ?sg" by (rule distinct_concat_upt [where key = "\<lambda>e. nat (ev_fd (mem base e))"]) (use sig_areD [OF m(2)] in auto)
  moreover have "distinct ?h" by (rule heap_wf_distinct [OF timersD(1) [OF t]])
  moreover have "distinct ?c"
  proof -
    have "?c = concat (map (\<lambda>i. ctl_events (common_timeout_queues base ! i)) [0..<n_common_timeouts base])"
      by (rule arg_cong [of _ _ concat], rule nth_equalityI) simp_all
    then show ?thesis
      by (simp only:) (rule distinct_concat_upt [where key = "\<lambda>e. COMMON_TIMEOUT_IDX (tmo (mem base) e)"],
          use ctlD [OF timersD(3) [OF t]] in auto)
  qed
  moreover have "distinct ?a" using q by blast
  ultimately show "distinct (listed base)"
    unfolding listed_def init_mask by (auto simp: io sg h cc simp del: set_concat)
  show "e \<in> set (listed base) \<longleftrightarrow> ?I e \<and> (io_kind (mem base e) \<longrightarrow> 0 \<le> ev_fd (mem base e)) \<or>
       \<not> ?I e \<and> has (flags_of base e) EVLIST_TIMEOUT \<or>
       has (flags_of base e) EVLIST_INIT \<and> has (flags_of base e) EVLIST_ACTIVE \<and> \<not> ?I e \<and> \<not> has (flags_of base e) EVLIST_TIMEOUT"
    unfolding listed_def set_append set_filter Un_iff mem_Collect_eq io sg h cc a init_mask by blast
qed

subsection \<open>Deleting all events returns\<close>

text \<open>The events of \<open>D\<close> have been deleted.\<close>

definition deleted :: "ev_ptr set \<Rightarrow> 'b event_base \<Rightarrow> 'b event_base \<Rightarrow> bool" where
  "deleted D base base' \<longleftrightarrow> wf_base base' \<and> untouched base base' \<and>
     length (io base') = length (io base) \<and> length (sigmap base') = length (sigmap base) \<and>
     (\<forall>x. flags_of base' x = (if x \<in> D then clr (flags_of base x) 0x2b else flags_of base x))"

lemma deletedD:
  assumes "deleted D base base'"
  shows "wf_base base'" "untouched base base'" "length (io base') = length (io base)"
    "length (sigmap base') = length (sigmap base)"
    "flags_of base' x = (if x \<in> D then clr (flags_of base x) 0x2b else flags_of base x)"
    "io_kind (mem base' x) = io_kind (mem base x)" "ev_fd (mem base' x) = ev_fd (mem base x)"
  using assms unfolding deleted_def by (auto simp: untouched_def assigned_def io_kind_def)

lemma deleted_none: "wf_base base \<Longrightarrow> deleted {} base base"
  by (simp add: deleted_def untouched_def)

lemma deleted_trans: "deleted D a b \<Longrightarrow> deleted E b c \<Longrightarrow> deleted (D \<union> E) a c"
  using untouched_trans [of a b c] unfolding deleted_def by (auto simp: clr_clr)

lemma del_lengths [simp]:
  "length (io (fst (event_del_nolock base e m))) = length (io base)"
  "length (sigmap (fst (event_del_nolock base e m))) = length (sigmap base)"
proof -
  have io: "length (io (fst (evmap_io_del b fd e))) = length (io b)" "sigmap (fst (evmap_io_del b fd e)) = sigmap b"
    "length (sigmap (fst (evmap_signal_del b fd e))) = length (sigmap b)" "io (fst (evmap_signal_del b fd e)) = io b"
    for b :: "'a event_base" and fd
    by (simp_all add: evmap_io_del_def evmap_signal_del_def Let_def case_prod_unfold check_def split: option.splits)
  show "length (io (fst (event_del_nolock base e m))) = length (io base)"
    "length (sigmap (fst (event_del_nolock base e m))) = length (sigmap base)"
    by (simp_all add: event_del_nolock_def event_del_map_def event_del_active_def Let_def case_prod_unfold io)
qed

lemma event_del_deleted:
  assumes w: "wf_base base" and e: "has (flags_of base e) EVLIST_INSERTED"
  shows "deleted {e} base (fst (event_del base e))"
proof -
  have s: "ev_base (mem base e) \<noteq> None" "\<not> has (flags_of base e) EVLIST_FINALIZING"
    using w e coreD(4) [of base e] by (auto simp: wf_base_def event_ok_def set_up_def)
  have eq: "event_del base e = event_del_nolock base e EVENT_DEL_AUTOBLOCK"
    using s by (auto simp: event_del_def event_del_mode_def)
  note d = event_del_nolock_ok [OF w s(1) _ surjective_pairing, of EVENT_DEL_AUTOBLOCK]
  show ?thesis using d(1,3,4) s(2) unfolding deleted_def eq by simp
qed

text \<open>The events in the maps: those for one descriptor or signal, and those from one on.\<close>

abbreviation mapped :: "'b event_base \<Rightarrow> (event \<Rightarrow> bool) \<Rightarrow> ev_ptr set" where
  "mapped base P \<equiv> {e. has (flags_of base e) EVLIST_INSERTED \<and> P (mem base e)}"

lemma flagged_less:
  assumes "wf_base base" "deleted D base base'" "e \<in> D" "has (flags_of base e) EVLIST_INSERTED"
  shows "card (flagged base' EVLIST_INSERTED) < card (flagged base EVLIST_INSERTED)"
proof (rule psubset_card_mono)
  show "finite (flagged base EVLIST_INSERTED)" using assms(1) by (simp add: wf_base_def core_ok_def counts_ok_def)
  have "has (flags_of base' x) EVLIST_INSERTED \<longleftrightarrow> x \<notin> D \<and> has (flags_of base x) EVLIST_INSERTED" for x
    using deletedD(5) [OF assms(2), of x] by simp
  then show "flagged base' EVLIST_INSERTED \<subset> flagged base EVLIST_INSERTED" using assms(3,4) by (auto simp: flagged_def)
qed

lemma deleted_step:
  assumes d: "deleted {e} base b1" and e: "e \<in> mapped base P"
    and P: "\<And>x. P (mem b1 x) = P (mem base x)" and d': "deleted (mapped b1 P) b1 base'"
  shows "deleted (mapped base P) base base'"
proof -
  have "{e} \<union> mapped b1 P = mapped base P" using e P by (auto simp: deletedD(5) [OF d])
  then show ?thesis using deleted_trans [OF d d'] by simp
qed

lemma delete_all_io_ok:
  assumes "wf_base base"
  shows "\<exists>base'. delete_all_io base fd = Some base' \<and> deleted (mapped base (\<lambda>ev. io_kind ev \<and> ev_fd ev = int fd)) base base'"
  using assms
proof (induction "card (flagged base EVLIST_INSERTED)" arbitrary: base rule: less_induct)
  case less
  let ?P = "\<lambda>ev. io_kind ev \<and> ev_fd ev = int fd"
  have m: "set (io_at (io base) fd) = mapped base ?P"
    using less(2) io_areD(2) [of "mem base" "io base" "flagged base EVLIST_INSERTED"]
    by (auto simp: wf_base_def maps_are_def flagged_def)
  show ?case
  proof (cases "io_at (io base) fd")
    case Nil
    then have "mapped base ?P = {}" using m by (simp only: list.set)
    then have "deleted (mapped base ?P) base base" by (simp only: deleted_none [OF less(2)])
    then show ?thesis using Nil by (subst delete_all_io.simps) simp
  next
    case (Cons e es)
    then have e: "e \<in> mapped base ?P" using m by auto
    let ?b = "fst (event_del base e)"
    have i: "has (flags_of base e) EVLIST_INSERTED" using e by simp
    note d = event_del_deleted [OF less(2) i]
    obtain base' where b: "delete_all_io ?b fd = Some base'" "deleted (mapped ?b ?P) ?b base'"
      using less(1) [OF flagged_less [OF less(2) d _ i] deletedD(1) [OF d]] by auto
    have "deleted (mapped base ?P) base base'"
      by (rule deleted_step [OF d e _ b(2)]) (simp add: deletedD(6,7) [OF d])
    then show ?thesis using b(1) Cons by (subst delete_all_io.simps) simp
  qed
qed

lemma delete_all_signal_ok:
  assumes "wf_base base"
  shows "\<exists>base'. delete_all_signal base s = Some base' \<and> deleted (mapped base (\<lambda>ev. \<not> io_kind ev \<and> ev_fd ev = int s)) base base'"
  using assms
proof (induction "card (flagged base EVLIST_INSERTED)" arbitrary: base rule: less_induct)
  case less
  let ?P = "\<lambda>ev. \<not> io_kind ev \<and> ev_fd ev = int s"
  have m: "set (sig_at (sigmap base) s) = mapped base ?P"
    using less(2) sig_areD(2) [of "mem base" "sigmap base" "flagged base EVLIST_INSERTED"]
    by (auto simp: wf_base_def maps_are_def flagged_def)
  show ?case
  proof (cases "sig_at (sigmap base) s")
    case Nil
    then have "mapped base ?P = {}" using m by (simp only: list.set)
    then have "deleted (mapped base ?P) base base" by (simp only: deleted_none [OF less(2)])
    then show ?thesis using Nil by (subst delete_all_signal.simps) simp
  next
    case (Cons e es)
    then have e: "e \<in> mapped base ?P" using m by auto
    let ?b = "fst (event_del base e)"
    have i: "has (flags_of base e) EVLIST_INSERTED" using e by simp
    note d = event_del_deleted [OF less(2) i]
    obtain base' where b: "delete_all_signal ?b s = Some base'" "deleted (mapped ?b ?P) ?b base'"
      using less(1) [OF flagged_less [OF less(2) d _ i] deletedD(1) [OF d]] by auto
    have "deleted (mapped base ?P) base base'"
      by (rule deleted_step [OF d e _ b(2)]) (simp add: deletedD(6,7) [OF d])
    then show ?thesis using b(1) Cons by (subst delete_all_signal.simps) simp
  qed
qed

lemma mapped_next:
  assumes d: "deleted (mapped base (\<lambda>ev. K ev \<and> ev_fd ev = int n)) base b1" and K: "\<And>x. K (mem b1 x) = K (mem base x)"
    and d': "deleted (mapped b1 (\<lambda>ev. K ev \<and> int (Suc n) \<le> ev_fd ev)) b1 base'"
  shows "deleted (mapped base (\<lambda>ev. K ev \<and> int n \<le> ev_fd ev)) base base'"
proof -
  have "mapped base (\<lambda>ev. K ev \<and> ev_fd ev = int n) \<union> mapped b1 (\<lambda>ev. K ev \<and> int (Suc n) \<le> ev_fd ev) =
      mapped base (\<lambda>ev. K ev \<and> int n \<le> ev_fd ev)"
    using K by (auto simp: deletedD(5,7) [OF d])
  then show ?thesis using deleted_trans [OF d d'] by simp
qed

lemma mapped_beyond:
  assumes "wf_base base"
  shows "length (io base) \<le> n \<Longrightarrow> mapped base (\<lambda>ev. io_kind ev \<and> int n \<le> ev_fd ev) = {}"
    "n < length (io base) \<Longrightarrow> io base ! n = None \<Longrightarrow> mapped base (\<lambda>ev. io_kind ev \<and> ev_fd ev = int n) = {}"
    "length (sigmap base) \<le> n \<Longrightarrow> mapped base (\<lambda>ev. \<not> io_kind ev \<and> int n \<le> ev_fd ev) = {}"
    "n < length (sigmap base) \<Longrightarrow> sigmap base ! n = None \<Longrightarrow> mapped base (\<lambda>ev. \<not> io_kind ev \<and> ev_fd ev = int n) = {}"
proof -
  have m: "io_are (mem base) (io base) (flagged base EVLIST_INSERTED)" "sig_are (mem base) (sigmap base) (flagged base EVLIST_INSERTED)"
    using assms by (simp_all add: wf_base_def maps_are_def)
  have i: "e \<in> set (io_at (io base) k)" if "has (flags_of base e) EVLIST_INSERTED" "io_kind (mem base e)" "ev_fd (mem base e) = int k" for e k
    using io_areD(2) [OF m(1), of e k] that by (simp add: flagged_def)
  have s: "e \<in> set (sig_at (sigmap base) k)" if "has (flags_of base e) EVLIST_INSERTED" "\<not> io_kind (mem base e)" "ev_fd (mem base e) = int k" for e k
    using sig_areD(2) [OF m(2), of e k] that by (simp add: flagged_def)
  show "mapped base (\<lambda>ev. io_kind ev \<and> ev_fd ev = int n) = {}" if "n < length (io base)" "io base ! n = None"
    using i [of _ n] that by (fastforce simp: io_at_def)
  show "mapped base (\<lambda>ev. \<not> io_kind ev \<and> ev_fd ev = int n) = {}" if "n < length (sigmap base)" "sigmap base ! n = None"
    using s [of _ n] that by (fastforce simp: sig_at_def)
  show "mapped base (\<lambda>ev. io_kind ev \<and> int n \<le> ev_fd ev) = {}" if "length (io base) \<le> n"
  proof -
    have "False" if e: "has (flags_of base e) EVLIST_INSERTED" "io_kind (mem base e)" "int n \<le> ev_fd (mem base e)" for e
    proof -
      have b: "\<not> nat (ev_fd (mem base e)) < length (io base)" "ev_fd (mem base e) = int (nat (ev_fd (mem base e)))"
        using e(3) \<open>length (io base) \<le> n\<close> by auto
      show ?thesis using i [OF e(1,2) b(2)] b(1) by (simp add: io_at_def)
    qed
    then show ?thesis by blast
  qed
  show "mapped base (\<lambda>ev. \<not> io_kind ev \<and> int n \<le> ev_fd ev) = {}" if "length (sigmap base) \<le> n"
  proof -
    have "False" if e: "has (flags_of base e) EVLIST_INSERTED" "\<not> io_kind (mem base e)" "int n \<le> ev_fd (mem base e)" for e
    proof -
      have b: "\<not> nat (ev_fd (mem base e)) < length (sigmap base)" "ev_fd (mem base e) = int (nat (ev_fd (mem base e)))"
        using e(3) \<open>length (sigmap base) \<le> n\<close> by auto
      show ?thesis using s [OF e(1,2) b(2)] b(1) by (simp add: sig_at_def)
    qed
    then show ?thesis by blast
  qed
qed

lemma io_delete_from_ok:
  assumes "wf_base base"
  shows "\<exists>base'. io_foreach_from evmap_io_delete_all_iter_fn base () n = Some (base', (), 0) \<and>
    deleted (mapped base (\<lambda>ev. io_kind ev \<and> int n \<le> ev_fd ev)) base base'"
  using assms
proof (induction "length (io base) - n" arbitrary: base n)
  case 0
  then have "mapped base (\<lambda>ev. io_kind ev \<and> int n \<le> ev_fd ev) = {}" by (intro mapped_beyond(1)) auto
  then have "deleted (mapped base (\<lambda>ev. io_kind ev \<and> int n \<le> ev_fd ev)) base base" by (simp only: deleted_none [OF 0(2)])
  then show ?case using 0(1) by (subst io_foreach_from.simps) simp
next
  case (Suc k)
  have n: "n < length (io base)" using Suc(2) by simp
  obtain b1 where b1: "(if io base ! n = None then Some base else delete_all_io base n) = Some b1"
      "deleted (mapped base (\<lambda>ev. io_kind ev \<and> ev_fd ev = int n)) base b1"
    using delete_all_io_ok [OF Suc(3), of n] mapped_beyond(2) [OF Suc(3) n] deleted_none [OF Suc(3)]
    by (cases "io base ! n = None") (metis (no_types, lifting))+
  have "k = length (io b1) - Suc n" using Suc(2) deletedD(3) [OF b1(2)] by simp
  then obtain base' where b': "io_foreach_from evmap_io_delete_all_iter_fn b1 () (Suc n) = Some (base', (), 0)"
      "deleted (mapped b1 (\<lambda>ev. io_kind ev \<and> int (Suc n) \<le> ev_fd ev)) b1 base'"
    using Suc(1) deletedD(1) [OF b1(2)] by blast
  have "deleted (mapped base (\<lambda>ev. io_kind ev \<and> int n \<le> ev_fd ev)) base base'"
    by (rule mapped_next [OF b1(2) _ b'(2)]) (simp add: deletedD(6) [OF b1(2)])
  then show ?case
    using n b1(1) b'(1) by (subst io_foreach_from.simps)
      (auto simp: evmap_io_delete_all_iter_fn_def split: option.splits if_splits)
qed

lemma signal_delete_from_ok:
  assumes "wf_base base"
  shows "\<exists>base'. signal_foreach_from evmap_signal_delete_all_iter_fn base () n = Some (base', (), 0) \<and>
    deleted (mapped base (\<lambda>ev. \<not> io_kind ev \<and> int n \<le> ev_fd ev)) base base'"
  using assms
proof (induction "length (sigmap base) - n" arbitrary: base n)
  case 0
  then have "mapped base (\<lambda>ev. \<not> io_kind ev \<and> int n \<le> ev_fd ev) = {}" by (intro mapped_beyond(3)) auto
  then have "deleted (mapped base (\<lambda>ev. \<not> io_kind ev \<and> int n \<le> ev_fd ev)) base base" by (simp only: deleted_none [OF 0(2)])
  then show ?case using 0(1) by (subst signal_foreach_from.simps) simp
next
  case (Suc k)
  have n: "n < length (sigmap base)" using Suc(2) by simp
  obtain b1 where b1: "(if sigmap base ! n = None then Some base else delete_all_signal base n) = Some b1"
      "deleted (mapped base (\<lambda>ev. \<not> io_kind ev \<and> ev_fd ev = int n)) base b1"
    using delete_all_signal_ok [OF Suc(3), of n] mapped_beyond(4) [OF Suc(3) n] deleted_none [OF Suc(3)]
    by (cases "sigmap base ! n = None") (metis (no_types, lifting))+
  have "k = length (sigmap b1) - Suc n" using Suc(2) deletedD(4) [OF b1(2)] by simp
  then obtain base' where b': "signal_foreach_from evmap_signal_delete_all_iter_fn b1 () (Suc n) = Some (base', (), 0)"
      "deleted (mapped b1 (\<lambda>ev. \<not> io_kind ev \<and> int (Suc n) \<le> ev_fd ev)) b1 base'"
    using Suc(1) deletedD(1) [OF b1(2)] by blast
  have "deleted (mapped base (\<lambda>ev. \<not> io_kind ev \<and> int n \<le> ev_fd ev)) base base'"
    by (rule mapped_next [OF b1(2) _ b'(2)]) (simp add: deletedD(6) [OF b1(2)])
  then show ?case
    using n b1(1) b'(1) by (subst signal_foreach_from.simps)
      (auto simp: evmap_signal_delete_all_iter_fn_def split: option.splits if_splits)
qed

text \<open>All events in the maps are deleted; only events for a negative descriptor are not in them.\<close>

lemma evmap_delete_all_ok:
  assumes w: "wf_base base"
  obtains base' where "evmap_delete_all base = Some base'"
    "deleted (mapped base (\<lambda>ev. io_kind ev \<longrightarrow> 0 \<le> ev_fd ev)) base base'"
proof -
  obtain b1 where b1: "signal_foreach_from evmap_signal_delete_all_iter_fn base () 0 = Some (b1, (), 0)"
    "deleted (mapped base (\<lambda>ev. \<not> io_kind ev \<and> int 0 \<le> ev_fd ev)) base b1"
    using signal_delete_from_ok [OF w] by blast
  obtain b2 where b2: "io_foreach_from evmap_io_delete_all_iter_fn b1 () 0 = Some (b2, (), 0)"
    "deleted (mapped b1 (\<lambda>ev. io_kind ev \<and> int 0 \<le> ev_fd ev)) b1 b2"
    using io_delete_from_ok [OF deletedD(1) [OF b1(2)]] by blast
  have s: "0 \<le> ev_fd (mem base e)" if "has (flags_of base e) EVLIST_INSERTED" "\<not> io_kind (mem base e)" for e
    using w sig_areD(3) [of "mem base" "sigmap base" "flagged base EVLIST_INSERTED" e] that
    by (simp add: wf_base_def maps_are_def flagged_def)
  have "mapped base (\<lambda>ev. \<not> io_kind ev \<and> int 0 \<le> ev_fd ev) \<union> mapped b1 (\<lambda>ev. io_kind ev \<and> int 0 \<le> ev_fd ev) =
      mapped base (\<lambda>ev. io_kind ev \<longrightarrow> 0 \<le> ev_fd ev)"
    using s by (auto simp: deletedD(5,6,7) [OF b1(2)])
  then show thesis
    using that [of b2] deleted_trans [OF b1(2) b2(2)] b1(1) b2(1)
    by (simp add: evmap_delete_all_def evmap_io_foreach_fd_def evmap_signal_foreach_signal_def)
qed

end
