(* ===== verification/Event_Add_Inv.thy ===== *)
theory Event_Add_Inv
  imports Event_Inv
begin

text \<open>
  Adding keeps the invariant: the bit encoding of common timeouts, the reservation of a heap cell,
  the clock, and \<^verbatim>\<open>event_add_nolock_\<close> with the timer of a common-timeout queue.
\<close>

subsection \<open>Deadlines\<close>

text \<open>The magic bits of a common timeout are the ones above the microseconds.\<close>

abbreviation magic_bits :: "timeval \<Rightarrow> int" where
  "magic_bits t \<equiv> tv_usec t AND NOT MICROSECONDS_MASK"

lemma MICROSECONDS_MASK_mask: "MICROSECONDS_MASK = mask 20"
  by (simp add: MICROSECONDS_MASK_def mask_eq_exp_minus_1)

lemma low_bits:
  assumes "0 \<le> u" "u < 1000000"
  shows "u AND MICROSECONDS_MASK = u" "u AND NOT MICROSECONDS_MASK = 0"
proof -
  have "take_bit 20 u = u" using assms by (simp add: take_bit_int_eq_self_iff)
  then show 1: "u AND MICROSECONDS_MASK = u" by (simp add: MICROSECONDS_MASK_mask take_bit_eq_mask)
  have "u AND NOT MICROSECONDS_MASK = (u AND MICROSECONDS_MASK) AND NOT MICROSECONDS_MASK" by (simp only: 1)
  also have "\<dots> = 0" by (simp add: and.assoc)
  finally show "u AND NOT MICROSECONDS_MASK = 0" .
qed

lemma magic_determines:
  assumes "magic_bits t = magic_bits u"
  shows "is_common_timeout t base = is_common_timeout u base" "COMMON_TIMEOUT_IDX t = COMMON_TIMEOUT_IDX u"
proof -
  have m: "COMMON_TIMEOUT_MASK = NOT MICROSECONDS_MASK AND COMMON_TIMEOUT_MASK"
    "COMMON_TIMEOUT_IDX_MASK = NOT MICROSECONDS_MASK AND COMMON_TIMEOUT_IDX_MASK"
    by (simp_all add: COMMON_TIMEOUT_MASK_def COMMON_TIMEOUT_IDX_MASK_def MICROSECONDS_MASK_def)
  have "tv_usec t AND COMMON_TIMEOUT_MASK = tv_usec u AND COMMON_TIMEOUT_MASK"
    by (subst (1 2) m(1)) (simp add: and.assoc [symmetric] assms)
  moreover have "tv_usec t AND COMMON_TIMEOUT_IDX_MASK = tv_usec u AND COMMON_TIMEOUT_IDX_MASK"
    by (subst (1 2) m(2)) (simp add: and.assoc [symmetric] assms)
  ultimately show "is_common_timeout t base = is_common_timeout u base"
    "COMMON_TIMEOUT_IDX t = COMMON_TIMEOUT_IDX u"
    by (simp_all add: is_common_timeout_def COMMON_TIMEOUT_IDX_def)
qed

lemma norm_not_common: "tv_norm t \<Longrightarrow> \<not> is_common_timeout t base"
  using low_bits [of "tv_usec t"] magic_determines(1) [of t "Timeval 0 0" base]
  by (auto simp: tv_norm_def is_common_timeout_def COMMON_TIMEOUT_MAGIC_def)

text \<open>A timeout the library accepts: an ordinary one, or one that carries the magic bits of a queue.\<close>

definition tv_ok :: "'b event_base \<Rightarrow> timeval \<Rightarrow> bool" where
  "tv_ok base t \<longleftrightarrow>
     (if is_common_timeout t base
      then magic_bits t = ctl_magic (COMMON_TIMEOUT_IDX t) \<and> tv_norm (mask_usec t)
      else tv_norm t)"

lemma tv_ok_cong: "n_common_timeouts base' = n_common_timeouts base \<Longrightarrow> tv_ok base' t = tv_ok base t"
  by (simp add: tv_ok_def is_common_timeout_def)

lemma or_magic:
  assumes "0 \<le> u" "u < 1000000"
  shows "(u OR (w AND NOT MICROSECONDS_MASK)) AND NOT MICROSECONDS_MASK = w AND NOT MICROSECONDS_MASK"
    "(u OR (w AND NOT MICROSECONDS_MASK)) AND MICROSECONDS_MASK = u"
proof -
  have d: "(u OR h) AND m = (u AND m) OR (h AND m)" for h m :: int by (rule bit_eqI) (auto simp: bit_simps)
  show "(u OR (w AND NOT MICROSECONDS_MASK)) AND NOT MICROSECONDS_MASK = w AND NOT MICROSECONDS_MASK"
    unfolding d by (simp add: low_bits [OF assms] and.assoc)
  show "(u OR (w AND NOT MICROSECONDS_MASK)) AND MICROSECONDS_MASK = u"
    unfolding d by (simp add: low_bits [OF assms] and.assoc)
qed

lemma deadline_ok:
  assumes now: "tv_norm now" and t: "tv_ok base t"
    and d: "d = event_deadline now t ab (is_common_timeout t base)"
  shows "is_common_timeout d base = is_common_timeout t base" "tv_ok base d"
proof -
  have "is_common_timeout d base = is_common_timeout t base \<and> tv_ok base d"
  proof (cases "ab \<or> \<not> is_common_timeout t base")
    case True
    have "tv_norm (evutil_timeradd now t)" if "\<not> is_common_timeout t base"
      using t now that by (simp add: tv_ok_def)
    then show ?thesis
      using True t d norm_not_common [of "evutil_timeradd now t" base] by (auto simp: event_deadline_def tv_ok_def)
  next
    case False
    define s where "s = evutil_timeradd now (mask_usec t)"
    have c: "is_common_timeout t base" "magic_bits t = ctl_magic (COMMON_TIMEOUT_IDX t)" "tv_norm (mask_usec t)"
      using False t by (auto simp: tv_ok_def)
    have s: "0 \<le> tv_usec s" "tv_usec s < 1000000"
      using tv_norm_timeradd [OF now c(3)] by (auto simp: s_def tv_norm_def)
    have dd: "d = Timeval (tv_sec s) (tv_usec s OR magic_bits t)"
      using False d by (auto simp: event_deadline_def s_def Let_def)
    have m: "magic_bits d = magic_bits t" "tv_usec (mask_usec d) = tv_usec s"
      using or_magic [OF s, of "tv_usec t"] by (simp_all add: dd mask_usec_def)
    then show ?thesis
      using c s magic_determines(1) [OF m(1), of base] magic_determines(2) [OF m(1)]
      by (simp add: tv_ok_def tv_norm_def)
  qed
  then show "is_common_timeout d base = is_common_timeout t base" "tv_ok base d" by blast+
qed

lemma mask_usec_ok:
  assumes "tv_ok base t" "is_common_timeout t base"
  shows "tv_norm (mask_usec t)"
  using assms by (simp add: tv_ok_def)

subsection \<open>The heap and the clock\<close>

lemma heap_size: "timers_ok base \<Longrightarrow>
  mh_n (timeheap base) = card {e. has (flags_of base e) EVLIST_TIMEOUT \<and> \<not> is_common_timeout (tmo (mem base) e) base}"
proof -
  assume ok: "timers_ok base"
  note wf = timersD(1) [OF ok]
  have d: "distinct (heap_list (timeheap base))"
    by (rule heap_wf_distinct [OF wf])
  have "mh_n (timeheap base) = length (heap_list (timeheap base))"
    using wf by (simp add: heap_list_def heap_wf_def)
  also have "\<dots> = card (set (heap_list (timeheap base)))" using d by (simp add: distinct_card)
  also have "set (heap_list (timeheap base)) =
      {e. has (flags_of base e) EVLIST_TIMEOUT \<and> \<not> is_common_timeout (tmo (mem base) e) base}"
    using timersD(2) [OF ok] by (auto simp: heap_mset_def)
  finally show ?thesis .
qed

lemma remove_timeout_room:
  assumes ok: "timers_ok base" and c: "counts_ok base" and f: "has (flags_of base e) EVLIST_TIMEOUT"
    and h: "\<not> is_common_timeout (tmo (mem base) e) base"
  shows "mh_n (timeheap (event_queue_remove_timeout base e)) < mh_a (timeheap (event_queue_remove_timeout base e))"
proof -
  let ?b = "event_queue_remove_timeout base e"
  let ?T = "\<lambda>b. {x. has (flags_of b x) EVLIST_TIMEOUT \<and> \<not> is_common_timeout (tmo (mem b) x) b}"
  note rt = remove_timeout_ok [OF ok f]
  have com: "is_common_timeout tv ?b = is_common_timeout tv base" for tv
    by (simp add: is_common_timeout_def keepsD(11) [OF timeout_keeps(1)])
  have "?T ?b = ?T base - {e}" by (auto simp: com keepsD(7) [OF timeout_keeps(1)])
  moreover have "e \<in> ?T base" using f h by simp
  moreover have "finite (?T base)"
    by (rule finite_subset [of _ "flagged base EVLIST_TIMEOUT"]) (use c in \<open>auto simp: flagged_def counts_ok_def\<close>)
  ultimately have "card (?T ?b) < card (?T base)" by (simp only: card_Diff1_less)
  then have "mh_n (timeheap ?b) < mh_n (timeheap base)" using heap_size [OF ok] heap_size [OF rt(1)] by simp
  moreover have "mh_n (timeheap base) \<le> mh_a (timeheap base)" using timersD(1) [OF ok] by (simp add: heap_wf_def)
  ultimately show ?thesis using rt(4) by simp
qed

lemma heap_reserve_eq:
  fixes base :: "'b event_base" and n :: nat
  defines "full \<equiv> mh_a (timeheap base) < n"
  shows "heap_reserve base n =
    (case min_heap_reserve (full \<and> mm base (mm_calls base) \<noteq> None) (timeheap base) n of
       (h, r) \<Rightarrow> (base\<lparr>timeheap := h, mm_calls := (if full then mm_calls base + 1 else mm_calls base)\<rparr>, r))"
proof (cases full)
  case True
  then show ?thesis unfolding heap_reserve_def full_def mm_alloc_def by (simp split: prod.splits)
next
  case False
  then show ?thesis unfolding heap_reserve_def full_def mm_alloc_def by (simp split: prod.splits)
qed

lemma heap_reserve_ok:
  assumes i: "wf_base base" and r: "heap_reserve base n = (base', k)"
  shows "wf_base base'" "k \<in> {-1, 0}" "mem base' = mem base" "k = 0 \<Longrightarrow> n \<le> mh_a (timeheap base')"
    "mh_n (timeheap base') = mh_n (timeheap base)" "\<exists>h m. base' = base\<lparr>timeheap := h, mm_calls := m\<rparr>"
proof -
  have c: "core_ok base" using i by (simp add: wf_base_def)
  define ok where "ok \<longleftrightarrow> mh_a (timeheap base) < n \<and> mm base (mm_calls base) \<noteq> None"
  obtain h k' where hk: "min_heap_reserve ok (timeheap base) n = (h, k')" by force
  obtain m where b': "base' = base\<lparr>timeheap := h, mm_calls := m\<rparr>" and h: "min_heap_reserve ok (timeheap base) n = (h, k)"
    using r [unfolded heap_reserve_eq, folded ok_def] hk by auto
  have hh: "mh_n h = mh_n (timeheap base)" "k \<in> {-1, 0}" "k = 0 \<Longrightarrow> n \<le> mh_a h"
    "\<exists>l. mh_p h = mh_p (timeheap base) @ l \<and> mh_a h = mh_a (timeheap base) + length l"
    using h by (auto simp: min_heap_reserve_def Let_def split: if_splits)
  then obtain l where l: "mh_p h = mh_p (timeheap base) @ l" "mh_a h = mh_a (timeheap base) + length l" by blast
  note wf = timersD(1) [OF coreD(2) [OF c]]
  have len: "mh_n (timeheap base) \<le> length (mh_p (timeheap base))" using wf by (simp add: heap_wf_def)
  have wf': "heap_wf h (mem base)"
    using wf l hh(1) len by (auto simp: heap_wf_def heap_idx_def heap_ord_def nth_append dest: par_less)
  have ms: "heap_mset h = heap_mset (timeheap base)" using l hh(1) len by (simp add: heap_mset_def heap_list_def)
  have com: "is_common_timeout t base' = is_common_timeout t base" for t by (simp add: b' is_common_timeout_def)
  have "ctl_ok base' j = ctl_ok base j" for j unfolding ctl_ok_def com by (simp add: b')
  then have "timers_ok base'"
    using coreD(2) [OF c] wf' ms unfolding timers_ok_def com by (simp add: b')
  then have "core_ok base'"
    by (intro coreI queues_cong [OF _ _ _ _ _ coreD(1) [OF c]] counts_cong [OF _ _ _ _ _ coreD(3) [OF c]])
       (use coreD(4,5) [OF c] in \<open>simp_all add: event_ok_def set_up_def b'\<close>)
  then show "wf_base base'" by (rule inv_cong [OF i]) (simp_all add: b')
  show "k \<in> {-1, 0}" "mem base' = mem base" "k = 0 \<Longrightarrow> n \<le> mh_a (timeheap base')"
    "mh_n (timeheap base') = mh_n (timeheap base)" "\<exists>h m. base' = base\<lparr>timeheap := h, mm_calls := m\<rparr>"
    using hh b' by auto
qed

text \<open>Reading the clock changes nothing but the clock.\<close>

lemma gettime_now_shape:
  "\<exists>t k d l. fst (gettime_now base) =
     base\<lparr>monotonic_timer := t, clk_reads := k, tv_clock_diff := d, last_updated_clock_diff := l\<rparr>"
proof -
  have "\<exists>t k d l. fst (gettime base) =
     base\<lparr>monotonic_timer := t, clk_reads := k, tv_clock_diff := d, last_updated_clock_diff := l\<rparr>"
  proof (cases "tv_sec (tv_cache base) \<noteq> 0")
    case True
    then show ?thesis
      by (auto simp: gettime_def intro!: exI [of _ "monotonic_timer base"] exI [of _ "clk_reads base"]
          exI [of _ "tv_clock_diff base"] exI [of _ "last_updated_clock_diff base"])
  next
    case False
    obtain t r where m: "evutil_gettime_monotonic (wall base (clk_reads base)) (mclk base (clk_reads base))
                  (monotonic_timer base) = (t, r)" by force
    have s1: "\<exists>t' k' d' l'. base\<lparr>monotonic_timer := t, clk_reads := k\<rparr> =
        base\<lparr>monotonic_timer := t', clk_reads := k', tv_clock_diff := d', last_updated_clock_diff := l'\<rparr>" for k
      by (intro exI [of _ t] exI [of _ k] exI [of _ "tv_clock_diff base"] exI [of _ "last_updated_clock_diff base"]) simp
    have s2: "\<exists>t' k' d' l'. base\<lparr>monotonic_timer := t, clk_reads := k, tv_clock_diff := d, last_updated_clock_diff := l\<rparr> =
        base\<lparr>monotonic_timer := t', clk_reads := k', tv_clock_diff := d', last_updated_clock_diff := l'\<rparr>" for k d l
      by blast
    show ?thesis
      using False m s1 s2 by (auto simp: gettime_def Let_def split: option.splits)
  qed
  moreover have "fst (gettime_now base) = fst (gettime base)"
    by (simp add: gettime_now_def split: prod.splits option.splits)
  ultimately show ?thesis by simp
qed

lemma gettime_now_inv: "wf_base base \<Longrightarrow> wf_base (fst (gettime_now base))"
proof -
  assume i: "wf_base base"
  obtain t k d l where b: "fst (gettime_now base) =
     base\<lparr>monotonic_timer := t, clk_reads := k, tv_clock_diff := d, last_updated_clock_diff := l\<rparr>"
    using gettime_now_shape by blast
  have "core_ok (fst (gettime_now base))" by (rule core_cong [of base]) (use i in \<open>simp_all add: b wf_base_def\<close>)
  then show ?thesis by (rule inv_cong [OF i]) (simp_all add: b)
qed

lemma gettime_now_cong:
  assumes "tv_cache b = tv_cache a" "wall b = wall a" "mclk b = mclk a" "clk_reads b = clk_reads a"
    "monotonic_timer b = monotonic_timer a" "stack_junk b = stack_junk a"
    "last_updated_clock_diff b = last_updated_clock_diff a"
  shows "snd (gettime_now b) = snd (gettime_now a)"
  using assms by (simp add: gettime_now_def gettime_def Let_def case_prod_unfold split: option.splits)

text \<open>Clocks that do not fail and give normal values, as \<^verbatim>\<open>gettimeofday\<close> and
  \<^verbatim>\<open>clock_gettime\<close> are documented to.\<close>

definition clocks_ok :: "'b event_base \<Rightarrow> bool" where
  "clocks_ok base \<longleftrightarrow>
     (tv_sec (tv_cache base) \<noteq> 0 \<longrightarrow> tv_norm (tv_cache base)) \<and> timer_norm (monotonic_timer base) \<and>
     (\<forall>i. \<exists>tv. wall base i = Some tv \<and> tv_norm tv) \<and>
     (\<forall>i. \<exists>s ns. mclk base i = Some (s, ns) \<and> 0 \<le> ns \<and> ns < 1000000000)"

lemma clocks_ok_cong:
  assumes "tv_cache b = tv_cache a" "wall b = wall a" "mclk b = mclk a" "monotonic_timer b = monotonic_timer a"
  shows "clocks_ok b = clocks_ok a"
  using assms by (simp add: clocks_ok_def)

lemma clocks_frame [simp]:
  "clocks_ok (set_ev e f base) = clocks_ok base" "clocks_ok (check c base) = clocks_ok base"
  "clocks_ok (event_queue_insert_timeout base e) = clocks_ok base"
  "clocks_ok (event_queue_remove_timeout base e) = clocks_ok base"
  "clocks_ok (event_queue_insert_active base e) = clocks_ok base"
  "clocks_ok (event_queue_remove_active base e) = clocks_ok base"
  "clocks_ok (event_queue_insert_active_later base e) = clocks_ok base"
  "clocks_ok (event_queue_remove_active_later base e) = clocks_ok base"
  "clocks_ok (event_queue_insert_inserted base e) = clocks_ok base"
  "clocks_ok (event_queue_remove_inserted base e) = clocks_ok base"
  "clocks_ok (abort_signal_loop base e) = clocks_ok base"
  by (rule clocks_ok_cong; simp add: abort_signal_loop_def)+

lemma gettime_ok:
  assumes c: "clocks_ok base"
  obtains now base' where "gettime base = (base', Some now)" "tv_norm now" "clocks_ok base'"
proof (cases "tv_sec (tv_cache base) = 0")
  case False
  then show thesis using c by (intro that [of base "tv_cache base"]) (auto simp: gettime_def clocks_ok_def)
next
  case True
  obtain tw where tw: "wall base (clk_reads base) = Some tw" "tv_norm tw" using c by (auto simp: clocks_ok_def)
  obtain s ns where mc: "mclk base (clk_reads base) = Some (s, ns)" "0 \<le> ns" "ns < 1000000000"
    using c by (fastforce simp: clocks_ok_def)
  obtain timer tp where m: "evutil_gettime_monotonic (wall base (clk_reads base)) (mclk base (clk_reads base))
      (monotonic_timer base) = (timer, Some tp)" "tv_norm tp" "timer_norm timer"
  proof (cases "monotonic_clock (monotonic_timer base) < 0")
    case True
    obtain t' o' where a: "adjust_monotonic_time (monotonic_timer base) tw = (t', o')" by force
    have "timer_norm (monotonic_timer base)" using c by (simp add: clocks_ok_def)
    note adjust_monotonic_time_norm [OF a this tw(2)]
    then show thesis using True a tw by (intro that [of t' o']) (simp_all add: evutil_gettime_monotonic_def)
  next
    case False
    have "0 \<le> ns div 1000" "ns div 1000 < 1000000" using mc(2,3) by auto
    then have "tv_norm (Timeval s (cdiv ns 1000))" using mc(2) by (simp add: tv_norm_def)
    then show thesis
      using False c mc by (intro that [of "monotonic_timer base" "Timeval s (cdiv ns 1000)"])
        (simp_all add: evutil_gettime_monotonic_def clocks_ok_def)
  qed
  let ?b1 = "base\<lparr>monotonic_timer := timer, clk_reads := clk_reads base + 1\<rparr>"
  have "clocks_ok ?b1" using c m(3) by (simp add: clocks_ok_def)
  then have "snd (gettime base) = Some tp \<and> clocks_ok (fst (gettime base))"
    using True m(1) by (auto simp: gettime_def Let_def clocks_ok_def)
  then show thesis using that [of "fst (gettime base)" tp] m(2) by (metis surjective_pairing)
qed

lemma gettime_now_clocks:
  assumes "clocks_ok base"
  shows "tv_norm (snd (gettime_now base))" "clocks_ok (fst (gettime_now base))"
  by (rule gettime_ok [OF assms], simp add: gettime_now_def)+

lemma event_add_timer_clocks: "clocks_ok base \<Longrightarrow> clocks_ok (fst (event_add_timer base e t ab))"
  by (simp add: event_add_timer_def Let_def case_prod_unfold gettime_now_clocks(2))

subsection \<open>Adding\<close>

text \<open>An event that goes into the maps has a descriptor to wait on, or is a signal event with a
  signal number.\<close>

definition addable :: "'b event_base \<Rightarrow> ev_ptr \<Rightarrow> bool" where
  "addable base e \<longleftrightarrow> set_up base e \<and>
     (has (ev_events (mem base e)) EV_SIGNAL \<and> \<not> io_kind (mem base e) \<longrightarrow> 0 \<le> ev_fd (mem base e))"

abbreviation wants_map :: "'b event_base \<Rightarrow> ev_ptr \<Rightarrow> bool" where
  "wants_map base e \<equiv> has (ev_events (mem base e)) (EV_READ OR EV_WRITE OR EV_CLOSED OR EV_SIGNAL) \<and>
     \<not> has (flags_of base e) (EVLIST_INSERTED OR EVLIST_ACTIVE OR EVLIST_ACTIVE_LATER)"

lemma event_add_map_ok:
  assumes i: "wf_base base" and a: "addable base e" and f: "\<not> has (flags_of base e) EVLIST_FINALIZING"
    and r: "event_add_map base e = (base', k)"
  shows "wf_base base'" "k \<in> {-1, 0}"
    "flags_of base' x = (if x = e \<and> wants_map base e \<and> k \<noteq> -1 then flags_of base x OR EVLIST_INSERTED else flags_of base x)"
    "payload (mem base' x) = payload (mem base x)"
    "\<exists>m s b n. base' = (if wants_map base e \<and> k \<noteq> -1
      then event_queue_insert_inserted (base\<lparr>io := m, sigmap := s, evbase := b, mm_calls := n\<rparr>) e
      else base\<lparr>io := m, sigmap := s, evbase := b, mm_calls := n\<rparr>)"
proof -
  have "wf_base base' \<and> k \<in> {-1, 0} \<and>
    (\<forall>x. flags_of base' x = (if x = e \<and> wants_map base e \<and> k \<noteq> -1 then flags_of base x OR EVLIST_INSERTED
      else flags_of base x) \<and> payload (mem base' x) = payload (mem base x)) \<and>
    (\<exists>m s b n. base' = (if wants_map base e \<and> k \<noteq> -1
      then event_queue_insert_inserted (base\<lparr>io := m, sigmap := s, evbase := b, mm_calls := n\<rparr>) e
      else base\<lparr>io := m, sigmap := s, evbase := b, mm_calls := n\<rparr>))"
  proof (cases "wants_map base e")
    case False
    then have "base' = base" "k = 0" using r by (auto simp: event_add_map_def Let_def split: if_splits)
    then show ?thesis using i False
      by (auto intro!: exI [of _ "io base"] exI [of _ "sigmap base"] exI [of _ "evbase base"] exI [of _ "mm_calls base"])
  next
    case True
    let ?S = "flagged base EVLIST_INSERTED"
    have ni: "\<not> has (flags_of base e) EVLIST_INSERTED" using True by (auto simp: flag_simps)
    have c: "core_ok base" and ms: "maps_are base ?S" using i by (simp_all add: wf_base_def)
    obtain b1 r1 where eq: "(if io_kind (mem base e) then evmap_io_add base (ev_fd (mem base e)) e
        else evmap_signal_add base (ev_fd (mem base e)) e) = (b1, r1)" by force
    have res: "base' = (if r1 \<noteq> -1 then event_queue_insert_inserted b1 e else b1)" "k = (if r1 = 1 then 0 else r1)"
      using r True eq by (auto simp: event_add_map_def Let_def io_kind_def split: if_splits)
    have kind: "has (ev_events (mem base e)) EV_SIGNAL \<and> 0 \<le> ev_fd (mem base e)" if "\<not> io_kind (mem base e)"
      using that True a by (auto simp: io_kind_def addable_def flag_simps)
    have "e \<notin> ?S" using ni by (simp add: flagged_def)
    note add = evmap_add_ok [OF ms this kind eq]
    then obtain m s b n where b1: "b1 = base\<lparr>io := m, sigmap := s, evbase := b, mm_calls := n\<rparr>" by blast
    have c1: "core_ok b1" by (rule core_cong [OF c]) (simp_all add: b1)
    have fl: "flags_of b1 x = flags_of base x" for x by (simp add: b1)
    have su: "set_up b1 e" using a by (simp add: addable_def set_up_def b1)
    show ?thesis
    proof (cases "r1 = -1")
      case True
      have "wf_base b1" using c1 add True by (simp add: wf_base_def flagged_def fl)
      then show ?thesis using res True b1 by auto
    next
      case False
      have c2: "core_ok (event_queue_insert_inserted b1 e)"
        by (rule insert_inserted_core [OF c1 _ su]) (use ni f in \<open>simp_all add: fl\<close>)
      have "maps_are (event_queue_insert_inserted b1 e) (insert e ?S)"
        by (rule maps_keep [OF queue_keeps(2)]) (use add False in simp)
      moreover have "flagged (event_queue_insert_inserted b1 e) EVLIST_INSERTED = insert e ?S"
        using ni by (auto simp: flagged_def fl)
      ultimately have "wf_base (event_queue_insert_inserted b1 e)" using c2 by (simp add: wf_base_def)
      moreover have "payload (mem (event_queue_insert_inserted b1 e) x) = payload (mem base x)" for x
        using queue_keeps(2) [of b1 e] by (simp add: keeps_def b1)
      ultimately show ?thesis
        using res False b1 add True ni by (auto simp: fl)
    qed
  qed
  then show "wf_base base'" "k \<in> {-1, 0}"
    "flags_of base' x = (if x = e \<and> wants_map base e \<and> k \<noteq> -1 then flags_of base x OR EVLIST_INSERTED else flags_of base x)"
    "payload (mem base' x) = payload (mem base x)"
    "\<exists>m s b n. base' = (if wants_map base e \<and> k \<noteq> -1
      then event_queue_insert_inserted (base\<lparr>io := m, sigmap := s, evbase := b, mm_calls := n\<rparr>) e
      else base\<lparr>io := m, sigmap := s, evbase := b, mm_calls := n\<rparr>)" by blast+
qed

text \<open>The timer half.  A cell for the event is free when the event comes from the heap, or when one
  was reserved.\<close>

definition timer_room :: "'b event_base \<Rightarrow> ev_ptr \<Rightarrow> timeval \<Rightarrow> bool" where
  "timer_room base e t \<longleftrightarrow>
     is_common_timeout t base \<or> has (flags_of base e) EVLIST_TIMEOUT \<and> \<not> is_common_timeout (tmo (mem base) e) base \<or>
     mh_n (timeheap base) < mh_a (timeheap base)"

lemma add_timer_prepare:
  fixes e :: ev_ptr
  assumes i: "wf_base base"
  defines "b1 \<equiv> if has (flags_of base e) EVLIST_TIMEOUT then event_queue_remove_timeout base e else base"
  defines "b2 \<equiv> if has (flags_of b1 e) EVLIST_ACTIVE \<and> has (ev_res (mem b1 e)) EV_TIMEOUT
    then event_queue_remove_active (abort_signal_loop b1 e) e else b1"
  shows "wf_base b2" "keeps base b2" "snd (gettime_now b2) = snd (gettime_now base)"
    "flags_of b2 x = (if x = e then clr (flags_of base x) (EVLIST_TIMEOUT OR
       (if has (flags_of base e) EVLIST_ACTIVE \<and> has (ev_res (mem base e)) EV_TIMEOUT then EVLIST_ACTIVE else 0))
       else flags_of base x)"
    "timeheap b2 = timeheap b1"
proof -
  let ?a = "has (flags_of base e) EVLIST_ACTIVE \<and> has (ev_res (mem base e)) EV_TIMEOUT"
  have c: "core_ok base" using i by (simp add: wf_base_def)
  have c1: "core_ok b1" using remove_timeout_core [OF c, of e] c by (simp add: b1_def)
  have k1: "keeps base b1" by (simp add: b1_def)
  have f1: "flags_of b1 x = (if x = e then clr (flags_of base x) EVLIST_TIMEOUT else flags_of base x)" for x
    by (simp add: b1_def clr_idle)
  have a1: "has (flags_of b1 e) EVLIST_ACTIVE \<and> has (ev_res (mem b1 e)) EV_TIMEOUT \<longleftrightarrow> ?a"
    by (simp add: f1 keepsD(6) [OF k1])
  have b2: "b2 = (if ?a then event_queue_remove_active (abort_signal_loop b1 e) e else b1)"
    unfolding b2_def a1 ..
  have c2: "core_ok b2"
    using remove_active_core [OF abort_signal_loop_core [OF c1, of e], of e] c1 f1 unfolding b2 by auto
  show k2: "keeps base b2"
    using keeps_trans [OF k1 keeps_trans [OF abort_signal_loop_fields(15) queue_keeps(3)], of e e] k1
    unfolding b2 by simp
  show f2: "flags_of b2 x = (if x = e then clr (flags_of base x) (EVLIST_TIMEOUT OR
       (if ?a then EVLIST_ACTIVE else 0)) else flags_of base x)" for x
    unfolding b2 by (auto simp: f1 clr_clr)
  show "wf_base b2" by (rule inv_keeps [OF i k2 c2]) (unfold f2, simp)
  show "snd (gettime_now b2) = snd (gettime_now base)"
    by (rule gettime_now_cong) (simp_all add: b2 b1_def abort_signal_loop_def)
  show "timeheap b2 = timeheap b1" by (simp add: b2)
qed

lemma event_add_timer_ok:
  assumes i: "wf_base base" and s: "set_up base e" and f: "\<not> has (flags_of base e) EVLIST_FINALIZING"
    and t: "tv_ok base t" and now: "tv_norm (snd (gettime_now base))" and room: "timer_room base e t"
    and r: "event_add_timer base e t ab = (base', c)"
  shows "wf_base base'" "c = is_common_timeout t base" "untouched base base'"
    "flags_of base' x = (if x = e then clr (flags_of base x) (EVLIST_TIMEOUT OR
       (if has (flags_of base e) EVLIST_ACTIVE \<and> has (ev_res (mem base e)) EV_TIMEOUT then EVLIST_ACTIVE else 0))
       OR EVLIST_TIMEOUT else flags_of base x)"
    "tmo (mem base') x = (if x = e then event_deadline (snd (gettime_now base)) t ab c else tmo (mem base) x)"
proof -
  let ?a = "has (flags_of base e) EVLIST_ACTIVE \<and> has (ev_res (mem base e)) EV_TIMEOUT"
  define b0 where "b0 = (if ev_closure (mem base e) = EV_CLOSURE_EVENT_PERSIST \<and> \<not> ab
                   then set_ev e (ev_io_timeout_update (\<lambda>_. t)) base else base)"
  define b1 where "b1 = (if has (flags_of b0 e) EVLIST_TIMEOUT then event_queue_remove_timeout b0 e else b0)"
  define b2 where "b2 = (if has (flags_of b1 e) EVLIST_ACTIVE \<and> has (ev_res (mem b1 e)) EV_TIMEOUT
    then event_queue_remove_active (abort_signal_loop b1 e) e else b1)"
  define b3 where "b3 = fst (gettime_now b2)"
  define d where "d = event_deadline (snd (gettime_now base)) t ab (is_common_timeout t base)"
  define b4 where "b4 = set_ev e (ev_timeout_update (\<lambda>_. d)) b3"
  have cc: "core_ok base" using i by (simp add: wf_base_def)
  have c0: "core_ok b0" using core_set_ev [OF cc] cc by (simp add: b0_def)
  have e0: "flags_of b0 x = flags_of base x" "ev_res (mem b0 x) = ev_res (mem base x)"
    "assigned (mem b0 x) = assigned (mem base x)" "tmo (mem b0) x = tmo (mem base) x"
    "timeheap b0 = timeheap base" "nactivequeues b0 = nactivequeues base"
    "common_timeout_queues b0 = common_timeout_queues base" for x
    by (simp_all add: b0_def upd_ev_apply assigned_def)
  have i0: "wf_base b0" by (rule inv_cong [OF i c0]) (simp_all add: b0_def upd_ev_apply)
  have now0: "snd (gettime_now b0) = snd (gettime_now base)" by (rule gettime_now_cong) (simp_all add: b0_def)
  note p = add_timer_prepare [OF i0, of e, folded b1_def, folded b2_def, unfolded e0 now0]
  obtain tm k df l where b3: "b3 = b2\<lparr>monotonic_timer := tm, clk_reads := k, tv_clock_diff := df, last_updated_clock_diff := l\<rparr>"
    using gettime_now_shape [of b2] by (auto simp: b3_def)
  have i3: "wf_base b3" unfolding b3_def by (rule gettime_now_inv [OF p(1)])
  have k3: "keeps b0 b3" using p(2) by (simp add: b3 keeps_def)
  have com: "is_common_timeout tv b3 = is_common_timeout tv base" for tv
    using keepsD(11) [OF k3] by (simp add: is_common_timeout_def e0)
  note dl = deadline_ok [OF now t d_def]
  note rr = r [unfolded event_add_timer_def Let_def, folded b0_def, folded b1_def, folded b2_def,
    unfolded case_prod_unfold, folded b3_def, unfolded p(3) com, folded d_def, folded b4_def]
  have eq: "base' = event_queue_insert_timeout b4 e" and cq: "c = is_common_timeout t base"
    using rr by simp_all
  have f3: "flags_of b3 x = (if x = e then clr (flags_of base x) (EVLIST_TIMEOUT OR
       (if ?a then EVLIST_ACTIVE else 0)) else flags_of base x)" for x
    using p(4) by (simp add: b3)
  have c4: "core_ok b4"
    unfolding b4_def by (rule core_set_ev) (use i3 in \<open>auto simp: wf_base_def f3\<close>)
  have i4: "wf_base b4" by (rule inv_cong [OF i3 c4]) (simp_all add: b4_def upd_ev_apply)
  have f4: "flags_of b4 x = flags_of b3 x" for x by (simp add: b4_def upd_ev_apply)
  have "untouched base b0" "untouched b3 b4"
    by (simp_all add: untouched_def e0) (simp add: b4_def upd_ev_apply assigned_def)
  then have u4: "untouched base b4" using keeps_untouched [OF k3] untouched_trans by blast
  have com4: "is_common_timeout tv b4 = is_common_timeout tv base" for tv
    using untouchedD(9) [OF u4] by (simp add: is_common_timeout_def)
  have t4: "tmo (mem b4) x = (if x = e then d else tmo (mem base) x)" for x
    using keepsD(7) [OF k3, of x] by (simp add: b4_def upd_ev_apply e0)
  have "set_up b4 e" using s untouchedD [OF u4] by (simp add: set_up_def f4 f3)
  moreover have "timer_ready b4 e"
  proof (cases "is_common_timeout t base")
    case True
    then show ?thesis using dl by (simp add: timer_ready_def com4 t4 tv_ok_def)
  next
    case False
    have h4: "timeheap b4 = timeheap b1" using p(5) by (simp add: b4_def b3)
    have com0: "is_common_timeout tv b0 = is_common_timeout tv base" for tv by (simp add: is_common_timeout_def e0)
    have "mh_n (timeheap b1) < mh_a (timeheap b1)"
    proof (cases "has (flags_of base e) EVLIST_TIMEOUT \<and> \<not> is_common_timeout (tmo (mem base) e) base")
      case True
      then show ?thesis
        using remove_timeout_room [OF coreD(2,3) [OF c0], of e] by (simp add: b1_def e0 com0)
    next
      case nh: False
      then have free: "mh_n (timeheap base) < mh_a (timeheap base)" using room False by (auto simp: timer_room_def)
      have "timeheap b1 = timeheap base"
        using nh remove_timeout_common(2) [of b0 e] by (auto simp: b1_def e0 com0)
      then show ?thesis using free by simp
    qed
    then show ?thesis using False dl by (simp add: timer_ready_def com4 t4 heap_room_def h4)
  qed
  ultimately have "core_ok base'"
    unfolding eq using f by (intro insert_timeout_core c4) (simp_all add: f4 f3)
  then show "wf_base base'" unfolding eq by (intro inv_keeps [OF i4 timeout_keeps(2)]) simp_all
  show "untouched base base'"
    unfolding eq using u4 keeps_untouched [OF timeout_keeps(2)] untouched_trans by blast
  show "c = is_common_timeout t base" by (rule cq)
  show "flags_of base' x = (if x = e then clr (flags_of base x) (EVLIST_TIMEOUT OR
       (if ?a then EVLIST_ACTIVE else 0)) OR EVLIST_TIMEOUT else flags_of base x)"
    by (simp add: eq f4 f3)
  show "tmo (mem base') x = (if x = e then event_deadline (snd (gettime_now base)) t ab c else tmo (mem base) x)"
    using t4 by (simp add: eq keepsD(7) [OF timeout_keeps(2)] d_def cq)
qed

text \<open>The timeouts for which \<^verbatim>\<open>event_add\<close> works.  An event that sits on a common-timeout queue and is
  given an ordinary timeout needs a free cell in the heap already, because none is reserved for it.\<close>

definition timeout_ok :: "'b event_base \<Rightarrow> ev_ptr \<Rightarrow> timeval option \<Rightarrow> bool" where
  "timeout_ok base e tv \<longleftrightarrow>
     (case tv of None \<Rightarrow> True
      | Some t \<Rightarrow> tv_ok base t \<and>
          (has (flags_of base e) EVLIST_TIMEOUT \<and> is_common_timeout (tmo (mem base) e) base \<and> \<not> is_common_timeout t base \<longrightarrow>
             mh_n (timeheap base) < mh_a (timeheap base)))"

definition added_flags :: "'b event_base \<Rightarrow> ev_ptr \<Rightarrow> timeval option \<Rightarrow> u16" where
  "added_flags base e tv =
     (let f = (if wants_map base e then flags_of base e OR EVLIST_INSERTED else flags_of base e)
      in if tv = None then f
         else clr f (EVLIST_TIMEOUT OR
           (if has f EVLIST_ACTIVE \<and> has (ev_res (mem base e)) EV_TIMEOUT then EVLIST_ACTIVE else 0)) OR EVLIST_TIMEOUT)"

lemma event_add_body_ok:
  assumes i: "wf_base base" and a: "addable base e" and f: "\<not> has (flags_of base e) EVLIST_FINALIZING"
    and t: "timeout_ok base e tv" and now: "tv_norm (snd (gettime_now base))"
    and r: "event_add_body base e tv ab = (base', k, c)"
  shows "wf_base base'" "k \<in> {-1, 0}" "untouched base base'"
    "flags_of base' x = (if x = e \<and> k = 0 then added_flags base e tv else flags_of base x)"
    "tmo (mem base') x = (if x = e \<and> k = 0 \<and> tv \<noteq> None
       then event_deadline (snd (gettime_now base)) (the tv) ab c else tmo (mem base) x)"
    "c \<longleftrightarrow> k = 0 \<and> (\<exists>u. tv = Some u \<and> is_common_timeout u base)"
    "clocks_ok base \<Longrightarrow> clocks_ok base'"
proof -
  have cc: "core_ok base" using i by (simp add: wf_base_def)
  have ck: "check (\<not> has (flags_of base e) (NOT EVLIST_ALL)) base = base"
    using coreD(4) [OF cc, of e] by (simp add: check_def event_ok_def)
  define rs where "rs \<longleftrightarrow> tv \<noteq> None \<and> \<not> has (flags_of base e) EVLIST_TIMEOUT"
  obtain b1 r1 where b1: "(if rs then heap_reserve base (1 + min_heap_size (timeheap base)) else (base, 0)) = (b1, r1)"
    by force
  obtain b2 k2 where b2: "event_add_map b1 e = (b2, k2)" by force
  note rr = r [unfolded event_add_body_def Let_def ck if_not_P [OF f] rs_def [symmetric] b1 prod.case b2]
  have h1: "wf_base b1 \<and> r1 \<in> {-1, 0} \<and> (rs \<and> r1 = 0 \<longrightarrow> mh_n (timeheap b1) < mh_a (timeheap b1)) \<and>
    (\<not> rs \<longrightarrow> timeheap b1 = timeheap base) \<and> (\<exists>h m. b1 = base\<lparr>timeheap := h, mm_calls := m\<rparr>)"
  proof (cases rs)
    case True
    then have "heap_reserve base (1 + min_heap_size (timeheap base)) = (b1, r1)" using b1 by simp
    note hr = heap_reserve_ok [OF i this]
    show ?thesis using hr(1,2,4,5,6) True by (simp add: min_heap_size_def less_eq_Suc_le)
  next
    case False
    have "\<exists>h m. base = base\<lparr>timeheap := h, mm_calls := m\<rparr>"
      by (intro exI [of _ "timeheap base"] exI [of _ "mm_calls base"]) simp
    then show ?thesis using False b1 i by simp
  qed
  then obtain h m where bs: "b1 = base\<lparr>timeheap := h, mm_calls := m\<rparr>" by blast
  have u1: "untouched base b1" by (simp add: bs untouched_def)
  have m1: "mem b1 = mem base" "nactivequeues b1 = nactivequeues base" by (simp_all add: bs)
  have a1: "addable b1 e" using a by (simp add: addable_def set_up_def m1)
  note mp = event_add_map_ok [OF conjunct1 [OF h1] a1 _ b2, unfolded m1, OF f]
  obtain m' s' bb n' where sh: "b2 = (if wants_map base e \<and> k2 \<noteq> -1
      then event_queue_insert_inserted (b1\<lparr>io := m', sigmap := s', evbase := bb, mm_calls := n'\<rparr>) e
      else b1\<lparr>io := m', sigmap := s', evbase := bb, mm_calls := n'\<rparr>)" using mp(5) by blast
  have u2: "untouched b1 b2"
    using keeps_untouched [OF queue_keeps(2), of "b1\<lparr>io := m', sigmap := s', evbase := bb, mm_calls := n'\<rparr>" e]
    by (simp add: sh untouched_def)
  have h2: "timeheap b2 = timeheap b1" by (simp add: sh)
  have now2: "snd (gettime_now b2) = snd (gettime_now base)" by (rule gettime_now_cong) (simp_all add: sh bs)
  note p2 = payload_fields [OF mp(4)]
  have cl1: "clocks_ok b1 = clocks_ok base" by (rule clocks_ok_cong) (simp_all add: bs)
  have cl2: "clocks_ok b2 = clocks_ok base" by (rule clocks_ok_cong) (simp_all add: sh bs)
  have com2: "is_common_timeout u b2 = is_common_timeout u base" for u
    using untouchedD(9) [OF u1] untouchedD(9) [OF u2] by (simp add: is_common_timeout_def)
  have u: "untouched base b2" by (rule untouched_trans [OF u1 u2])
  have "wf_base base' \<and> k \<in> {-1, 0} \<and> untouched base base' \<and>
    (\<forall>x. flags_of base' x = (if x = e \<and> k = 0 then added_flags base e tv else flags_of base x) \<and>
      tmo (mem base') x = (if x = e \<and> k = 0 \<and> tv \<noteq> None
       then event_deadline (snd (gettime_now base)) (the tv) ab c else tmo (mem base) x)) \<and>
    (c \<longleftrightarrow> k = 0 \<and> (\<exists>u. tv = Some u \<and> is_common_timeout u base)) \<and> (clocks_ok base \<longrightarrow> clocks_ok base')"
  proof -
    consider (rfail) "r1 = -1" | (none) "r1 = 0" "tv = None" | (mfail) t' where "r1 = 0" "tv = Some t'" "k2 = -1"
      | (timer) t' where "r1 = 0" "tv = Some t'" "k2 = 0"
      using h1 mp(2) by (cases tv) auto
    then show ?thesis
    proof cases
      case rfail
      then have "base' = b1" "k = -1" "c = False" using rr by auto
      then show ?thesis using h1 u1 cl1 by (simp add: m1)
    next
      case none
      then have "base' = b2" "k = k2" "c = False" using rr by auto
      then show ?thesis using mp(1,2) mp(3) u p2(12) none cl2 by (auto simp: added_flags_def)
    next
      case mfail
      then have "base' = b2" "k = -1" "c = False" using rr by auto
      then show ?thesis using mp(1) mp(3) u p2(12) mfail cl2 by auto
    next
      case timer
      then have r2: "event_add_timer b2 e t' ab = (base', c)" and k: "k = 0" using rr by (auto split: prod.splits)
      have t2: "tv_ok b2 t'" using t timer com2 by (simp add: timeout_ok_def tv_ok_def)
      have f2: "\<not> has (flags_of b2 e) EVLIST_FINALIZING" "has (flags_of b2 e) EVLIST_TIMEOUT = has (flags_of base e) EVLIST_TIMEOUT"
        "has (flags_of b2 e) EVLIST_INIT = has (flags_of base e) EVLIST_INIT"
        using f by (simp_all add: mp(3))
      have s2: "set_up b2 e" using a f2 untouchedD [OF u] by (simp add: addable_def set_up_def)
      have room: "timer_room b2 e t'"
        using h1 timer t f2 com2 h2 p2(12) by (auto simp: timer_room_def timeout_ok_def rs_def)
      note tm = event_add_timer_ok [OF mp(1) s2 f2(1) t2 _ room r2, unfolded now2, OF now]
      have "flags_of base' x = (if x = e then added_flags base e tv else flags_of base x)" for x
        unfolding tm(4) using timer by (simp add: mp(3) added_flags_def Let_def p2(11))
      then show ?thesis
        using tm(1,2) tm(5) k untouched_trans [OF u tm(3)] timer p2(12) com2 cl2
          event_add_timer_clocks [of b2 e t' ab] r2 by simp
    qed
  qed
  then show "wf_base base'" "k \<in> {-1, 0}" "untouched base base'"
    "flags_of base' x = (if x = e \<and> k = 0 then added_flags base e tv else flags_of base x)"
    "tmo (mem base') x = (if x = e \<and> k = 0 \<and> tv \<noteq> None
       then event_deadline (snd (gettime_now base)) (the tv) ab c else tmo (mem base) x)"
    "c \<longleftrightarrow> k = 0 \<and> (\<exists>u. tv = Some u \<and> is_common_timeout u base)"
    "clocks_ok base \<Longrightarrow> clocks_ok base'" by blast+
qed

text \<open>The timers of the common-timeout queues are internal events that only ever sit in the heap.\<close>

abbreviation queue_timers :: "'b event_base \<Rightarrow> ev_ptr set" where
  "queue_timers base \<equiv> set (map timeout_event (common_timeout_queues base))"

definition queue_timer_ok :: "'b event_base \<Rightarrow> ev_ptr \<Rightarrow> bool" where
  "queue_timer_ok base t \<longleftrightarrow>
     set_up base t \<and> \<not> has (flags_of base t) EVLIST_FINALIZING \<and> has (flags_of base t) EVLIST_INTERNAL \<and>
     ev_events (mem base t) = 0 \<and> ev_closure (mem base t) = EV_CLOSURE_EVENT \<and>
     (has (flags_of base t) EVLIST_TIMEOUT \<longrightarrow> \<not> is_common_timeout (tmo (mem base) t) base)"

definition queue_timers_ok :: "'b event_base \<Rightarrow> bool" where
  "queue_timers_ok base \<longleftrightarrow> (\<forall>t \<in> queue_timers base. queue_timer_ok base t)"

definition deadlines_ok :: "'b event_base \<Rightarrow> bool" where
  "deadlines_ok base \<longleftrightarrow> (\<forall>x. has (flags_of base x) EVLIST_TIMEOUT \<longrightarrow> tv_ok base (tmo (mem base) x))"

definition base_ok :: "'b event_base \<Rightarrow> bool" where
  "base_ok base \<longleftrightarrow> wf_base base \<and> queue_timers_ok base \<and> deadlines_ok base \<and> clocks_ok base"

lemma deadlines_cong:
  assumes "deadlines_ok base" "n_common_timeouts base' = n_common_timeouts base"
    and "\<And>x. has (flags_of base' x) EVLIST_TIMEOUT \<Longrightarrow>
      has (flags_of base x) EVLIST_TIMEOUT \<and> tmo (mem base') x = tmo (mem base) x \<or> tv_ok base (tmo (mem base') x)"
  shows "deadlines_ok base'"
  using assms(1,3) tv_ok_cong [OF assms(2)] unfolding deadlines_ok_def by metis

lemma untouched_queue_timers: "untouched base base' \<Longrightarrow> queue_timers base' = queue_timers base"
  unfolding untouched_def by metis

lemma queue_timer_cong:
  assumes ok: "queue_timer_ok base t" and u: "untouched base base'"
    and f: "\<And>g. g \<in> {EVLIST_FINALIZING, EVLIST_INTERNAL, EVLIST_INIT} \<Longrightarrow>
      has (flags_of base' t) g = has (flags_of base t) g"
    and tm: "has (flags_of base' t) EVLIST_TIMEOUT \<Longrightarrow> has (flags_of base t) EVLIST_TIMEOUT \<and>
      tmo (mem base') t = tmo (mem base) t \<or> tv_norm (tmo (mem base') t)"
  shows "queue_timer_ok base' t"
proof -
  have com: "is_common_timeout tv base' = is_common_timeout tv base" for tv
    using untouchedD(9) [OF u] by (simp add: is_common_timeout_def)
  show ?thesis
    using ok tm norm_not_common f [of EVLIST_FINALIZING] f [of EVLIST_INTERNAL] f [of EVLIST_INIT]
    unfolding queue_timer_ok_def set_up_def untouchedD [OF u] com by auto
qed

lemma added_flags_other:
  assumes "g \<in> {EVLIST_FINALIZING, EVLIST_INTERNAL, EVLIST_INIT}"
  shows "has (added_flags base e tv) g = has (flags_of base e) g"
  using assms by (auto simp: added_flags_def Let_def)

text \<open>Adding with a timeout that is not common, or none, involves no queue.\<close>

lemma event_add_body_base_ok:
  assumes ok: "base_ok base" and a: "addable base e" and f: "\<not> has (flags_of base e) EVLIST_FINALIZING"
    and t: "timeout_ok base e tv" and e: "e \<notin> queue_timers base \<or> (\<forall>u. tv = Some u \<longrightarrow> tv_norm u \<and> ab)"
    and b: "event_add_body base e tv ab = (base', k, c)"
  shows "base_ok base'"
proof -
  have i: "wf_base base" and q: "queue_timers_ok base" and dl: "deadlines_ok base" and cl: "clocks_ok base"
    using ok by (auto simp: base_ok_def)
  note bd = event_add_body_ok [OF i a f t gettime_now_clocks(1) [OF cl] b]
  have "deadlines_ok base'"
  proof (rule deadlines_cong [OF dl untouchedD(9) [OF bd(3)]])
    fix x assume x: "has (flags_of base' x) EVLIST_TIMEOUT"
    show "has (flags_of base x) EVLIST_TIMEOUT \<and> tmo (mem base') x = tmo (mem base) x \<or> tv_ok base (tmo (mem base') x)"
    proof (cases "x = e \<and> k = 0 \<and> tv \<noteq> None")
      case True
      then obtain u where u: "tv = Some u" by blast
      have "tv_ok base u" using t u by (simp add: timeout_ok_def)
      moreover have "c = is_common_timeout u base" using bd(6) True u by simp
      ultimately have "tv_ok base (tmo (mem base') x)"
        unfolding bd(5) using deadline_ok(2) [OF gettime_now_clocks(1) [OF cl] _ refl, of base u ab] True u by simp
      then show ?thesis ..
    qed (use x in \<open>auto simp: bd(4,5) added_flags_def split: if_splits\<close>)
  qed
  moreover have "queue_timer_ok base' x" if x: "x \<in> queue_timers base" for x
  proof (rule queue_timer_cong [OF _ bd(3)])
    show "queue_timer_ok base x" using q x unfolding queue_timers_ok_def by blast
    show "has (flags_of base' x) g = has (flags_of base x) g"
      if "g \<in> {EVLIST_FINALIZING, EVLIST_INTERNAL, EVLIST_INIT}" for g
      using added_flags_other [OF that, of base e tv] by (simp add: bd(4))
    show "has (flags_of base x) EVLIST_TIMEOUT \<and> tmo (mem base') x = tmo (mem base) x \<or> tv_norm (tmo (mem base') x)"
      if "has (flags_of base' x) EVLIST_TIMEOUT"
      using that e x unfolding bd(4,5)
      by (cases tv) (auto simp: added_flags_def event_deadline_def split: if_splits)
  qed
  ultimately show ?thesis
    using bd(1) bd(7) [OF cl] untouched_queue_timers [OF bd(3)] unfolding base_ok_def queue_timers_ok_def by blast
qed

text \<open>Adding an event, the timer of its queue included.\<close>

lemma event_add_nolock_ok:
  assumes ok: "base_ok base" and a: "addable base e" and f: "\<not> has (flags_of base e) EVLIST_FINALIZING"
    and t: "timeout_ok base e tv" and e: "e \<notin> queue_timers base \<or> (\<forall>u. tv = Some u \<longrightarrow> tv_norm u \<and> ab)"
    and r: "event_add_nolock base e tv ab = (base', k)"
  shows "base_ok base'" "k \<in> {-1, 0}" "untouched base base'"
    "x \<notin> queue_timers base \<or> x = e \<Longrightarrow>
       flags_of base' x = (if x = e \<and> k = 0 then added_flags base e tv else flags_of base x)"
    "x \<notin> queue_timers base \<or> x = e \<Longrightarrow>
       tmo (mem base') x = (if x = e \<and> k = 0 \<and> tv \<noteq> None
         then event_deadline (snd (gettime_now base)) (the tv) ab (is_common_timeout (the tv) base)
         else tmo (mem base) x)"
proof -
  let ?F = "\<lambda>x. flags_of base' x = (if x = e \<and> k = 0 then added_flags base e tv else flags_of base x)"
  let ?T = "\<lambda>x. tmo (mem base') x = (if x = e \<and> k = 0 \<and> tv \<noteq> None
         then event_deadline (snd (gettime_now base)) (the tv) ab (is_common_timeout (the tv) base)
         else tmo (mem base) x)"
  obtain b1 c where b: "event_add_body base e tv ab = (b1, k, c)"
    using r by (cases "event_add_body base e tv ab") (auto simp: event_add_nolock.simps [of base] Let_def split: if_splits)
  have i: "wf_base base" and cl: "clocks_ok base" using ok by (auto simp: base_ok_def)
  note bd = event_add_body_ok [OF i a f t gettime_now_clocks(1) [OF cl] b]
  have ok1: "base_ok b1" by (rule event_add_body_base_ok [OF ok a f t e b])
  define ctl where "ctl = common_timeout_queues b1 ! COMMON_TIMEOUT_IDX (tmo (mem b1) e)"
  let ?tv = "Some (mask_usec (tmo (mem b1) e))"
  have rr: "base' = (if c \<and> ctl_events ctl \<noteq> [] \<and> hd (ctl_events ctl) = e
      then fst (event_add_nolock b1 (timeout_event ctl) ?tv True) else b1)"
    using r b by (auto simp: event_add_nolock.simps [of base] Let_def ctl_def split: if_splits)
  have "base_ok base' \<and> untouched base base' \<and> (\<forall>x. x \<notin> queue_timers base \<or> x = e \<longrightarrow> ?F x \<and> ?T x)"
  proof (cases "c \<and> ctl_events ctl \<noteq> [] \<and> hd (ctl_events ctl) = e")
    case False
    have "base' = b1" unfolding rr by (rule if_not_P [OF False])
    moreover have "c = is_common_timeout (the tv) base" if "k = 0" "tv \<noteq> None" using bd(6) that by auto
    ultimately show ?thesis using ok1 bd(3) bd(4) bd(5) by auto
  next
    case True
    then obtain u where u: "k = 0" "tv = Some u" "is_common_timeout u base" using bd(6) by blast
    let ?d = "event_deadline (snd (gettime_now base)) u ab (is_common_timeout u base)"
    have d: "tmo (mem b1) e = ?d" using bd(5) [of e] u bd(6) by simp
    have tu: "tv_ok base u" using t u by (simp add: timeout_ok_def)
    note dl = deadline_ok [OF gettime_now_clocks(1) [OF cl] tu refl, of ab]
    have idx: "COMMON_TIMEOUT_IDX ?d < n_common_timeouts b1"
      using dl(1) u(3) untouchedD(9) [OF bd(3)] by (simp add: is_common_timeout_def)
    let ?t = "timeout_event ctl"
    have t1: "?t \<in> queue_timers b1" using idx by (auto simp: ctl_def d)
    have et: "e \<notin> queue_timers base" using e u norm_not_common [of u base] by auto
    have ne: "e \<noteq> ?t" using et t1 untouched_queue_timers [OF bd(3)] by auto
    have qt: "queue_timer_ok b1 ?t" using ok1 t1 unfolding base_ok_def queue_timers_ok_def by blast
    have nm: "tv_norm (mask_usec ?d)" using mask_usec_ok [OF dl(2)] dl(1) u(3) by simp
    have a1: "addable b1 ?t" "\<not> has (flags_of b1 ?t) EVLIST_FINALIZING" "timeout_ok b1 ?t ?tv"
      using qt nm norm_not_common [OF nm, of b1]
      by (auto simp: addable_def queue_timer_ok_def timeout_ok_def tv_ok_def d)
    obtain b2 k2 c2 where b2: "event_add_body b1 ?t ?tv True = (b2, k2, c2)" using prod_cases3 by blast
    have i1: "wf_base b1" and cl1: "clocks_ok b1" using ok1 by (auto simp: base_ok_def)
    note bd2 = event_add_body_ok [OF i1 a1 gettime_now_clocks(1) [OF cl1] b2]
    have nc: "\<not> c2" using bd2(6) norm_not_common [OF nm, of b1] by (simp add: d)
    have "base' = b2"
      using rr True b2 nc by (simp add: event_add_nolock.simps [of b1] Let_def)
    moreover have "base_ok b2"
      by (rule event_add_body_base_ok [OF ok1 a1 _ b2]) (simp add: d nm)
    moreover have "?F x \<and> ?T x" if "x \<notin> queue_timers base \<or> x = e" for x
    proof -
      have "x \<noteq> ?t" using that ne t1 untouched_queue_timers [OF bd(3)] by auto
      then show ?thesis
        using bd2(4) [of x] bd2(5) [of x] bd(4) [of x] bd(5) [of x] bd(6) u \<open>base' = b2\<close> by simp
    qed
    ultimately show ?thesis using untouched_trans [OF bd(3) bd2(3)] by blast
  qed
  then show "base_ok base'" "untouched base base'"
    "x \<notin> queue_timers base \<or> x = e \<Longrightarrow> ?F x" "x \<notin> queue_timers base \<or> x = e \<Longrightarrow> ?T x"
    by blast+
  show "k \<in> {-1, 0}" by (rule bd(2))
qed

end
