(* ===== verification/Timeout_Inv.thy ===== *)
theory Timeout_Inv
  imports Event_Add_Inv
begin

text \<open>
  Elapsed timers: \<^verbatim>\<open>timeout_process\<close> and the callback of a common-timeout queue activate exactly
  the events whose deadline has passed, keep the invariant, and return.
\<close>

subsection \<open>Operations that leave the clock alone\<close>

lemma evmap_del_clocks [simp]:
  "clocks_ok (fst (evmap_io_del base fd e)) = clocks_ok base"
  "clocks_ok (fst (evmap_signal_del base fd e)) = clocks_ok base"
  by (rule clocks_ok_cong;
      simp add: evmap_io_del_def evmap_signal_del_def Let_def case_prod_unfold split: option.splits)+

lemma event_del_nolock_clocks [simp]: "clocks_ok (fst (event_del_nolock base e m)) = clocks_ok base"
  by (simp add: event_del_nolock_def event_del_map_def event_del_active_def Let_def case_prod_unfold)

lemma event_active_nolock_clocks [simp]: "clocks_ok (event_active_nolock base e res n) = clocks_ok base"
proof -
  have c: "clocks_ok (base\<lparr>event_continue := b\<rparr>) = clocks_ok base" for b and base :: "'a event_base"
    by (rule clocks_ok_cong) simp_all
  show ?thesis
    by (simp add: event_active_nolock_def event_callback_activate_nolock_def Let_def c)
qed

subsection \<open>Expiring one event\<close>

definition expire :: "'b event_base \<Rightarrow> ev_ptr \<Rightarrow> 'b event_base" where
  "expire base ev = event_active_nolock (fst (event_del_nolock base ev EVENT_DEL_NOBLOCK)) ev EV_TIMEOUT 1"

lemma expire_ok:
  assumes ok: "base_ok base" and t: "has (flags_of base e) EVLIST_TIMEOUT"
  shows "base_ok (expire base e)" "untouched base (expire base e)"
    "flags_of (expire base e) x = (if x = e then clr (flags_of base x) 0x2b OR EVLIST_ACTIVE else flags_of base x)"
    "tmo (mem (expire base e)) x = tmo (mem base) x"
    "ev_res (mem (expire base e) x) = (if x = e then EV_TIMEOUT else ev_res (mem base x))"
proof -
  let ?b1 = "fst (event_del_nolock base e EVENT_DEL_NOBLOCK)"
  have w: "wf_base base" and q: "queue_timers_ok base" and dl: "deadlines_ok base" and cl: "clocks_ok base"
    using ok by (auto simp: base_ok_def)
  have eo: "set_up base e" "\<not> has (flags_of base e) EVLIST_FINALIZING"
    using w t coreD(4) [of base e] by (auto simp: wf_base_def event_ok_def)
  have "ev_base (mem base e) \<noteq> None" using eo by (simp add: set_up_def)
  note d = event_del_nolock_ok [OF w this _ surjective_pairing, of EVENT_DEL_NOBLOCK]
  have f1: "flags_of ?b1 x = (if x = e then clr (flags_of base x) 0x2b else flags_of base x)" for x
    using d(4) eo(2) by simp
  have u1: "untouched base ?b1" and w1: "wf_base ?b1" using d(1,3) eo(2) by auto
  have p1: "payload (mem ?b1 x) = payload (mem base x)" for x using d(5) eo(2) by simp
  have "ev_pri (mem ?b1 e) < nactivequeues ?b1" using eo untouchedD [OF u1] by (simp add: set_up_def)
  note a = event_active_nolock_ok [OF w1 this expire_def]
  have na: "\<not> has (flags_of ?b1 e) EVLIST_FINALIZING" "\<not> has (flags_of ?b1 e) EVLIST_ACTIVE"
    "\<not> has (flags_of ?b1 e) EVLIST_ACTIVE_LATER" using eo(2) by (simp_all add: f1)
  show fl: "flags_of (expire base e) x =
      (if x = e then clr (flags_of base x) 0x2b OR EVLIST_ACTIVE else flags_of base x)" for x
    unfolding a(3) using na by (simp add: f1 clr_clr)
  show u: "untouched base (expire base e)" by (rule untouched_trans [OF u1 a(2)])
  note pf = payload_fields [OF a(4)]
  show tm: "tmo (mem (expire base e)) x = tmo (mem base) x" for x
    using pf(12) [of x] payload_fields(12) [OF p1] by (simp split: if_splits)
  show "ev_res (mem (expire base e) x) = (if x = e then EV_TIMEOUT else ev_res (mem base x))"
    using pf(11) [of x] payload_fields(11) [OF p1] na by (simp add: activated_def split: if_splits)
  have "queue_timer_ok (expire base e) x" if "x \<in> queue_timers base" for x
  proof (rule queue_timer_cong [OF _ u])
    show "queue_timer_ok base x" using q that unfolding queue_timers_ok_def by blast
    show "has (flags_of (expire base e) x) g = has (flags_of base x) g"
      if "g \<in> {EVLIST_FINALIZING, EVLIST_INTERNAL, EVLIST_INIT}" for g
      using that by (auto simp: fl)
  qed (auto simp: fl tm split: if_splits)
  moreover have "deadlines_ok (expire base e)"
    by (rule deadlines_cong [OF dl untouchedD(9) [OF u]]) (auto simp: fl tm split: if_splits)
  ultimately show "base_ok (expire base e)"
    using a(1) cl untouched_queue_timers [OF u] unfolding base_ok_def queue_timers_ok_def expire_def by auto
qed

subsection \<open>The heap\<close>

text \<open>The timers in the heap that are due.\<close>

definition due :: "'b event_base \<Rightarrow> timeval \<Rightarrow> ev_ptr set" where
  "due base now =
     {e. has (flags_of base e) EVLIST_TIMEOUT \<and> \<not> is_common_timeout (tmo (mem base) e) base \<and> tmo (mem base) e \<le> now}"

lemma due_finite: "base_ok base \<Longrightarrow> finite (due base now)"
  by (rule finite_subset [of _ "flagged base EVLIST_TIMEOUT"])
     (auto simp: due_def flagged_def base_ok_def wf_base_def core_ok_def counts_ok_def)

lemma due_expire:
  assumes "base_ok base" "has (flags_of base e) EVLIST_TIMEOUT"
  shows "due (expire base e) now = due base now - {e}"
proof -
  note x = expire_ok [OF assms]
  have "is_common_timeout t (expire base e) = is_common_timeout t base" for t
    using untouchedD(9) [OF x(2)] by (simp add: is_common_timeout_def)
  then show ?thesis by (auto simp: due_def x(3,4))
qed

lemma top_due:
  assumes ok: "base_ok base"
  shows "min_heap_top (timeheap base) = None \<Longrightarrow> due base now = {}"
    "min_heap_top (timeheap base) = Some e \<Longrightarrow> now < tmo (mem base) e \<Longrightarrow> due base now = {}"
    "min_heap_top (timeheap base) = Some e \<Longrightarrow> \<not> now < tmo (mem base) e \<Longrightarrow> e \<in> due base now"
proof -
  have t: "timers_ok base" using ok by (simp add: base_ok_def wf_base_def core_ok_def)
  note wf = timersD(1) [OF t] and el = timersD(2) [OF t]
  show "due base now = {}" if "min_heap_top (timeheap base) = None"
    using mh.top_None [OF wf] that el by (auto simp: due_def)
  show "due base now = {}" if "min_heap_top (timeheap base) = Some e" "now < tmo (mem base) e"
    using mh.no_elapsed [OF wf that] el by (fastforce simp: due_def)
  show "e \<in> due base now" if "min_heap_top (timeheap base) = Some e" "\<not> now < tmo (mem base) e"
    using mh.top_in [OF wf that(1)] el that(2) by (simp add: due_def not_less)
qed

text \<open>The loop expires the due timers and returns; everything else stays as it was.\<close>

definition expired :: "ev_ptr set \<Rightarrow> 'b event_base \<Rightarrow> 'b event_base \<Rightarrow> bool" where
  "expired E base base' \<longleftrightarrow>
     untouched base base' \<and>
     (\<forall>x. flags_of base' x = (if x \<in> E then clr (flags_of base x) 0x2b OR EVLIST_ACTIVE else flags_of base x)) \<and>
     (\<forall>x. tmo (mem base') x = tmo (mem base) x) \<and>
     (\<forall>x. ev_res (mem base' x) = (if x \<in> E then EV_TIMEOUT else ev_res (mem base x)))"

lemma expired_none: "expired {} base base"
  by (simp add: expired_def)

lemma expired_step:
  assumes "base_ok base" "has (flags_of base e) EVLIST_TIMEOUT" "expired (E - {e}) (expire base e) base'" "e \<in> E"
  shows "expired E base base'"
  using expire_ok(2-) [OF assms(1,2)] assms(3,4) untouched_trans [of base "expire base e" base']
  unfolding expired_def by auto

lemma timeout_process_loop_ok:
  assumes "base_ok base"
  shows "\<exists>base'. timeout_process_loop base now = Some base' \<and> base_ok base' \<and> due base' now = {} \<and>
    expired (due base now) base base'"
  using assms
proof (induction "card (due base now)" arbitrary: base)
  case 0
  then have "due base now = {}" using due_finite [OF 0(2), of now] by (metis card_0_eq)
  then show ?case
    using top_due(3) [OF 0(2)] 0(2) expired_none
    by (subst timeout_process_loop.simps) (auto split: option.splits)
next
  case (Suc n)
  have ne: "due base now \<noteq> {}" using Suc(2) by auto
  then obtain e where top: "min_heap_top (timeheap base) = Some e" and le: "\<not> now < tmo (mem base) e"
    using top_due(1,2) [OF Suc(3)] by (cases "min_heap_top (timeheap base)") blast+
  have e: "e \<in> due base now" by (rule top_due(3) [OF Suc(3) top le])
  then have t: "has (flags_of base e) EVLIST_TIMEOUT" by (simp add: due_def)
  have dn: "due (expire base e) now = due base now - {e}" by (rule due_expire [OF Suc(3) t])
  have "n = card (due (expire base e) now)" using Suc(2) e due_finite [OF Suc(3)] by (simp add: dn)
  then obtain base' where b: "timeout_process_loop (expire base e) now = Some base'" "base_ok base'" "due base' now = {}"
    "expired (due (expire base e) now) (expire base e) base'" using Suc(1) expire_ok(1) [OF Suc(3) t] by blast
  have "timeout_process_loop base now = Some base'"
    using b(1) top le by (subst timeout_process_loop.simps) (simp add: expire_def)
  moreover have "expired (due base now) base base'"
    using expired_step [OF Suc(3) t _ e] b(4) dn by simp
  ultimately show ?case using b by blast
qed

subsection \<open>The common-timeout queues\<close>

text \<open>The members of a queue, and those of them that are due.\<close>

definition queued :: "'b event_base \<Rightarrow> nat \<Rightarrow> ev_ptr set" where
  "queued base i = {e. has (flags_of base e) EVLIST_TIMEOUT \<and> is_common_timeout (tmo (mem base) e) base \<and>
     COMMON_TIMEOUT_IDX (tmo (mem base) e) = i}"

definition queue_due :: "'b event_base \<Rightarrow> nat \<Rightarrow> timeval \<Rightarrow> ev_ptr set" where
  "queue_due base i now = {e \<in> queued base i. common_timeout_due (tmo (mem base) e) now}"

lemma queue_members:
  assumes "base_ok base" "i < n_common_timeouts base"
  shows "set (ctl_events (common_timeout_queues base ! i)) = queued base i"
    "sorted_wrt (\<lambda>a b. tmo (mem base) a \<le> tmo (mem base) b) (ctl_events (common_timeout_queues base ! i))"
    "e \<in> queued base i \<Longrightarrow> magic_bits (tmo (mem base) e) = ctl_magic i"
proof -
  have t: "timers_ok base" using assms by (simp add: base_ok_def wf_base_def core_ok_def)
  note c = timersD(3) [OF t assms(2)]
  show s: "set (ctl_events (common_timeout_queues base ! i)) = queued base i"
    using ctlD(3) [OF c] by (auto simp: queued_def)
  show "sorted_wrt (\<lambda>a b. tmo (mem base) a \<le> tmo (mem base) b) (ctl_events (common_timeout_queues base ! i))"
    using c by (simp add: ctl_ok_def Let_def)
  show "magic_bits (tmo (mem base) e) = ctl_magic i" if "e \<in> queued base i"
    using c s that by (simp add: ctl_ok_def Let_def)
qed

text \<open>With equal magic bits the order of the full values is the order of the masked ones.\<close>

lemma usec_split: "u = (u AND NOT MICROSECONDS_MASK) + (u AND MICROSECONDS_MASK)"
  for u :: int
proof -
  have "(u AND NOT MICROSECONDS_MASK) + (u AND MICROSECONDS_MASK) =
      (u AND NOT MICROSECONDS_MASK) OR (u AND MICROSECONDS_MASK)"
    by (rule disjunctive_add) (simp add: bit_simps)
  also have "\<dots> = u" by (rule bit_eqI) (auto simp: bit_simps)
  finally show ?thesis by simp
qed

lemma common_timeout_due_mono:
  assumes "a \<le> b" "magic_bits a = magic_bits b" "common_timeout_due b now"
  shows "common_timeout_due a now"
proof -
  have "tv_usec a \<le> tv_usec b \<Longrightarrow> tv_usec a AND MICROSECONDS_MASK \<le> tv_usec b AND MICROSECONDS_MASK"
    using usec_split [of "tv_usec a"] usec_split [of "tv_usec b"] assms(2) by linarith
  then show ?thesis
    using assms(1,3) by (auto simp: common_timeout_due_def less_eq_timeval_def evutil_timercmp_def split: if_splits)
qed

lemma queued_finite: "base_ok base \<Longrightarrow> finite (queued base i)"
  by (rule finite_subset [of _ "flagged base EVLIST_TIMEOUT"])
     (auto simp: queued_def flagged_def base_ok_def wf_base_def core_ok_def counts_ok_def)

lemma queued_expire:
  assumes "base_ok base" "has (flags_of base e) EVLIST_TIMEOUT"
  shows "queued (expire base e) i = queued base i - {e}" "queue_due (expire base e) i now = queue_due base i now - {e}"
proof -
  note x = expire_ok [OF assms]
  have "is_common_timeout t (expire base e) = is_common_timeout t base" for t
    using untouchedD(9) [OF x(2)] by (simp add: is_common_timeout_def)
  then show q: "queued (expire base e) i = queued base i - {e}" by (auto simp: queued_def x(3,4))
  then show "queue_due (expire base e) i now = queue_due base i now - {e}" by (auto simp: queue_due_def q x(4))
qed

text \<open>Scheduling the timer of a queue keeps the invariant and touches no event but that timer.\<close>

lemma common_timeout_schedule_ok:
  assumes ok: "base_ok base" and i: "i < n_common_timeouts base" and e: "e \<in> queued base i"
  defines "base' \<equiv> common_timeout_schedule base (common_timeout_queues base ! i) e"
  shows "base_ok base'" "untouched base base'"
    "x \<notin> queue_timers base \<Longrightarrow> flags_of base' x = flags_of base x \<and> tmo (mem base') x = tmo (mem base) x"
proof -
  let ?t = "timeout_event (common_timeout_queues base ! i)" and ?tv = "mask_usec (tmo (mem base) e)"
  have t: "?t \<in> queue_timers base" using i by auto
  have qt: "queue_timer_ok base ?t" using ok t unfolding base_ok_def queue_timers_ok_def by blast
  have "tv_ok base (tmo (mem base) e)" "is_common_timeout (tmo (mem base) e) base"
    using ok e by (auto simp: base_ok_def deadlines_ok_def queued_def)
  then have nm: "tv_norm ?tv" by (rule mask_usec_ok)
  have a: "addable base ?t" "\<not> has (flags_of base ?t) EVLIST_FINALIZING" "timeout_ok base ?t (Some ?tv)"
    using qt nm norm_not_common [OF nm, of base]
    by (auto simp: addable_def queue_timer_ok_def timeout_ok_def tv_ok_def)
  have h: "?t \<notin> queue_timers base \<or> (\<forall>u. Some ?tv = Some u \<longrightarrow> tv_norm u \<and> True)" using nm by simp
  note ad = event_add_nolock_ok [OF ok a h surjective_pairing]
  show "base_ok base'" "untouched base base'" using ad(1,3) by (simp_all add: base'_def common_timeout_schedule_def)
  show "flags_of base' x = flags_of base x \<and> tmo (mem base') x = tmo (mem base) x" if "x \<notin> queue_timers base"
  proof -
    have "x \<noteq> ?t" using that t by auto
    then show ?thesis
      using ad(4) [of x] ad(5) [of x] that by (simp add: base'_def common_timeout_schedule_def)
  qed
qed

text \<open>The callback: the members that are due are expired, the rest of the queue waits for its timer.\<close>

lemma queue_head:
  assumes ok: "base_ok base" and i: "i < n_common_timeouts base"
  shows "ctl_events (common_timeout_queues base ! i) = [] \<Longrightarrow> queue_due base i now = {}"
    "ctl_events (common_timeout_queues base ! i) = e # es \<Longrightarrow> e \<in> queued base i"
    "ctl_events (common_timeout_queues base ! i) = e # es \<Longrightarrow>
      \<not> common_timeout_due (tmo (mem base) e) now \<Longrightarrow> queue_due base i now = {}"
proof -
  note m = queue_members [OF ok i]
  show "queue_due base i now = {}" if "ctl_events (common_timeout_queues base ! i) = []"
    using m(1) that by (auto simp: queue_due_def)
  show e: "e \<in> queued base i" if "ctl_events (common_timeout_queues base ! i) = e # es" using m(1) that by auto
  show "queue_due base i now = {}"
    if es: "ctl_events (common_timeout_queues base ! i) = e # es" and nd: "\<not> common_timeout_due (tmo (mem base) e) now"
  proof -
    have "\<not> common_timeout_due (tmo (mem base) x) now" if x: "x \<in> queued base i" for x
    proof -
      have "x = e \<or> tmo (mem base) e \<le> tmo (mem base) x" using m(1,2) x es by auto
      then show ?thesis using nd common_timeout_due_mono m(3) [OF x] m(3) [OF e [OF es]] by metis
    qed
    then show ?thesis by (auto simp: queue_due_def)
  qed
qed

lemma common_timeout_loop_ok:
  assumes "base_ok base" "i < n_common_timeouts base"
  shows "\<exists>base1 base'. common_timeout_loop base i now = Some base' \<and> base_ok base' \<and>
    base_ok base1 \<and> expired (queue_due base i now) base base1 \<and> queue_due base1 i now = {} \<and>
    (if ctl_events (common_timeout_queues base1 ! i) = [] then base' = base1
     else base' = common_timeout_schedule base1 (common_timeout_queues base1 ! i)
       (hd (ctl_events (common_timeout_queues base1 ! i))))"
  using assms
proof (induction "card (queued base i)" arbitrary: base rule: less_induct)
  case less
  note ok = less(2) and i = less(3)
  show ?case
  proof (cases "ctl_events (common_timeout_queues base ! i)")
    case Nil
    then have "common_timeout_loop base i now = Some base" by (subst common_timeout_loop.simps) simp
    then show ?thesis using Nil ok queue_head(1) [OF ok i Nil] expired_none by (intro exI [of _ base]) simp
  next
    case (Cons e es)
    note q = queue_head(2) [OF ok i Cons]
    show ?thesis
    proof (cases "common_timeout_due (tmo (mem base) e) now")
      case False
      then have "common_timeout_loop base i now = Some (common_timeout_schedule base (common_timeout_queues base ! i) e)"
        using Cons by (subst common_timeout_loop.simps) simp
      then show ?thesis
        using Cons ok queue_head(3) [OF ok i Cons False] expired_none common_timeout_schedule_ok(1) [OF ok i q]
        by - (rule exI [of _ base], rule exI [of _ "common_timeout_schedule base (common_timeout_queues base ! i) e"], simp)
    next
      case True
      have t: "has (flags_of base e) EVLIST_TIMEOUT" using q by (simp add: queued_def)
      note x = expire_ok [OF ok t] and qe = queued_expire [OF ok t, of i]
      have "card (queued (expire base e) i) < card (queued base i)"
        using q queued_finite [OF ok, of i] by (simp add: qe(1) card_Diff1_less del: card_Diff_insert)
      moreover have "i < n_common_timeouts (expire base e)" using i untouchedD(9) [OF x(2)] by simp
      ultimately obtain base1 base' where b: "common_timeout_loop (expire base e) i now = Some base'" "base_ok base'"
        "base_ok base1" "expired (queue_due (expire base e) i now) (expire base e) base1" "queue_due base1 i now = {}"
        "if ctl_events (common_timeout_queues base1 ! i) = [] then base' = base1
         else base' = common_timeout_schedule base1 (common_timeout_queues base1 ! i)
           (hd (ctl_events (common_timeout_queues base1 ! i)))"
        using less(1) [OF _ x(1)] by blast
      have "common_timeout_loop base i now = Some base'"
        using b(1) Cons True by (subst common_timeout_loop.simps) (simp add: expire_def)
      moreover have "expired (queue_due base i now) base base1"
        using expired_step [OF ok t _, of "queue_due base i now" base1] b(4) qe(2) q True
        by (simp add: queue_due_def)
      ultimately show ?thesis using b by blast
    qed
  qed
qed

end
