(* ===== verification/Epoll.thy ===== *)
theory Epoll
  imports Changelist
begin

text \<open>
  The epoll backend (\<^verbatim>\<open>epoll.c\<close>, \<^verbatim>\<open>epolltable-internal.h\<close>) and the script that generated its
  table (\<^verbatim>\<open>make_epoll_table.py\<close>).  The kernel is a parameter: its state \<open>'k\<close> and the system calls
  as functions on it, with \<open>None\<close> or the \<^verbatim>\<open>errno\<close> as result.  The build is one with
  \<^verbatim>\<open>EPOLLRDHUP\<close> and \<^verbatim>\<open>timerfd\<close>.
\<close>

subsection \<open>The table\<close>

abbreviation EPOLLIN :: u32 where "EPOLLIN \<equiv> 0x001"
abbreviation EPOLLOUT :: u32 where "EPOLLOUT \<equiv> 0x004"
abbreviation EPOLLERR :: u32 where "EPOLLERR \<equiv> 0x008"
abbreviation EPOLLHUP :: u32 where "EPOLLHUP \<equiv> 0x010"
abbreviation EPOLLRDHUP :: u32 where "EPOLLRDHUP \<equiv> 0x2000"
abbreviation EPOLLET :: u32 where "EPOLLET \<equiv> 0x80000000"

abbreviation EPOLL_CTL_ADD :: int where "EPOLL_CTL_ADD \<equiv> 1"
abbreviation EPOLL_CTL_DEL :: int where "EPOLL_CTL_DEL \<equiv> 2"
abbreviation EPOLL_CTL_MOD :: int where "EPOLL_CTL_MOD \<equiv> 3"

definition epoll_op_table_0 :: "(u32 \<times> int) list" where
  "epoll_op_table_0 =
    [(0, 0), (EPOLLRDHUP, EPOLL_CTL_ADD), (EPOLLRDHUP, EPOLL_CTL_DEL), (0, 255),
     (EPOLLIN, EPOLL_CTL_ADD), (EPOLLIN OR EPOLLRDHUP, EPOLL_CTL_ADD), (EPOLLIN, EPOLL_CTL_ADD), (0, 255),
     (EPOLLIN, EPOLL_CTL_DEL), (EPOLLRDHUP, EPOLL_CTL_ADD), (EPOLLIN OR EPOLLRDHUP, EPOLL_CTL_DEL), (0, 255),
     (0, 255), (0, 255), (0, 255), (0, 255),
     (EPOLLOUT, EPOLL_CTL_ADD), (EPOLLOUT OR EPOLLRDHUP, EPOLL_CTL_ADD), (EPOLLOUT, EPOLL_CTL_ADD), (0, 255),
     (EPOLLIN OR EPOLLOUT, EPOLL_CTL_ADD), (EPOLLIN OR EPOLLOUT OR EPOLLRDHUP, EPOLL_CTL_ADD), (EPOLLIN OR EPOLLOUT, EPOLL_CTL_ADD), (0, 255),
     (EPOLLOUT, EPOLL_CTL_ADD), (EPOLLOUT OR EPOLLRDHUP, EPOLL_CTL_ADD), (EPOLLOUT, EPOLL_CTL_ADD), (0, 255),
     (0, 255), (0, 255), (0, 255), (0, 255),
     (EPOLLOUT, EPOLL_CTL_DEL), (EPOLLRDHUP, EPOLL_CTL_ADD), (EPOLLOUT OR EPOLLRDHUP, EPOLL_CTL_DEL), (0, 255),
     (EPOLLIN, EPOLL_CTL_ADD), (EPOLLIN OR EPOLLRDHUP, EPOLL_CTL_ADD), (EPOLLIN, EPOLL_CTL_ADD), (0, 255),
     (EPOLLIN OR EPOLLOUT, EPOLL_CTL_DEL), (EPOLLRDHUP, EPOLL_CTL_ADD), (EPOLLIN OR EPOLLOUT OR EPOLLRDHUP, EPOLL_CTL_DEL), (0, 255),
     (0, 255), (0, 255), (0, 255), (0, 255),
     (0, 255), (0, 255), (0, 255), (0, 255),
     (0, 255), (0, 255), (0, 255), (0, 255),
     (0, 255), (0, 255), (0, 255), (0, 255),
     (0, 255), (0, 255), (0, 255), (0, 255)]"

definition epoll_op_table_r :: "(u32 \<times> int) list" where
  "epoll_op_table_r =
    [(0, 0), (EPOLLIN OR EPOLLRDHUP, EPOLL_CTL_MOD), (EPOLLIN, EPOLL_CTL_MOD), (0, 255),
     (EPOLLIN, EPOLL_CTL_MOD), (EPOLLIN OR EPOLLRDHUP, EPOLL_CTL_MOD), (EPOLLIN, EPOLL_CTL_MOD), (0, 255),
     (EPOLLIN, EPOLL_CTL_DEL), (EPOLLRDHUP, EPOLL_CTL_MOD), (EPOLLIN OR EPOLLRDHUP, EPOLL_CTL_DEL), (0, 255),
     (0, 255), (0, 255), (0, 255), (0, 255),
     (EPOLLIN OR EPOLLOUT, EPOLL_CTL_MOD), (EPOLLIN OR EPOLLOUT OR EPOLLRDHUP, EPOLL_CTL_MOD), (EPOLLIN OR EPOLLOUT, EPOLL_CTL_MOD), (0, 255),
     (EPOLLIN OR EPOLLOUT, EPOLL_CTL_MOD), (EPOLLIN OR EPOLLOUT OR EPOLLRDHUP, EPOLL_CTL_MOD), (EPOLLIN OR EPOLLOUT, EPOLL_CTL_MOD), (0, 255),
     (EPOLLOUT, EPOLL_CTL_MOD), (EPOLLOUT OR EPOLLRDHUP, EPOLL_CTL_MOD), (EPOLLOUT, EPOLL_CTL_MOD), (0, 255),
     (0, 255), (0, 255), (0, 255), (0, 255),
     (EPOLLIN, EPOLL_CTL_MOD), (EPOLLIN OR EPOLLRDHUP, EPOLL_CTL_MOD), (EPOLLIN, EPOLL_CTL_MOD), (0, 255),
     (EPOLLIN, EPOLL_CTL_MOD), (EPOLLIN OR EPOLLRDHUP, EPOLL_CTL_MOD), (EPOLLIN, EPOLL_CTL_MOD), (0, 255),
     (EPOLLIN OR EPOLLOUT, EPOLL_CTL_DEL), (EPOLLRDHUP, EPOLL_CTL_MOD), (EPOLLIN OR EPOLLOUT OR EPOLLRDHUP, EPOLL_CTL_DEL), (0, 255),
     (0, 255), (0, 255), (0, 255), (0, 255),
     (0, 255), (0, 255), (0, 255), (0, 255),
     (0, 255), (0, 255), (0, 255), (0, 255),
     (0, 255), (0, 255), (0, 255), (0, 255),
     (0, 255), (0, 255), (0, 255), (0, 255)]"

definition epoll_op_table_w :: "(u32 \<times> int) list" where
  "epoll_op_table_w =
    [(0, 0), (EPOLLOUT OR EPOLLRDHUP, EPOLL_CTL_MOD), (EPOLLOUT, EPOLL_CTL_MOD), (0, 255),
     (EPOLLIN OR EPOLLOUT, EPOLL_CTL_MOD), (EPOLLIN OR EPOLLOUT OR EPOLLRDHUP, EPOLL_CTL_MOD), (EPOLLIN OR EPOLLOUT, EPOLL_CTL_MOD), (0, 255),
     (EPOLLOUT, EPOLL_CTL_MOD), (EPOLLOUT OR EPOLLRDHUP, EPOLL_CTL_MOD), (EPOLLOUT, EPOLL_CTL_MOD), (0, 255),
     (0, 255), (0, 255), (0, 255), (0, 255),
     (EPOLLOUT, EPOLL_CTL_MOD), (EPOLLOUT OR EPOLLRDHUP, EPOLL_CTL_MOD), (EPOLLOUT, EPOLL_CTL_MOD), (0, 255),
     (EPOLLIN OR EPOLLOUT, EPOLL_CTL_MOD), (EPOLLIN OR EPOLLOUT OR EPOLLRDHUP, EPOLL_CTL_MOD), (EPOLLIN OR EPOLLOUT, EPOLL_CTL_MOD), (0, 255),
     (EPOLLOUT, EPOLL_CTL_MOD), (EPOLLOUT OR EPOLLRDHUP, EPOLL_CTL_MOD), (EPOLLOUT, EPOLL_CTL_MOD), (0, 255),
     (0, 255), (0, 255), (0, 255), (0, 255),
     (EPOLLOUT, EPOLL_CTL_DEL), (EPOLLRDHUP, EPOLL_CTL_MOD), (EPOLLOUT OR EPOLLRDHUP, EPOLL_CTL_DEL), (0, 255),
     (EPOLLIN, EPOLL_CTL_MOD), (EPOLLIN OR EPOLLRDHUP, EPOLL_CTL_MOD), (EPOLLIN, EPOLL_CTL_MOD), (0, 255),
     (EPOLLIN OR EPOLLOUT, EPOLL_CTL_DEL), (EPOLLRDHUP, EPOLL_CTL_MOD), (EPOLLIN OR EPOLLOUT OR EPOLLRDHUP, EPOLL_CTL_DEL), (0, 255),
     (0, 255), (0, 255), (0, 255), (0, 255),
     (0, 255), (0, 255), (0, 255), (0, 255),
     (0, 255), (0, 255), (0, 255), (0, 255),
     (0, 255), (0, 255), (0, 255), (0, 255),
     (0, 255), (0, 255), (0, 255), (0, 255)]"

definition epoll_op_table_rw :: "(u32 \<times> int) list" where
  "epoll_op_table_rw =
    [(0, 0), (EPOLLIN OR EPOLLOUT OR EPOLLRDHUP, EPOLL_CTL_MOD), (EPOLLIN OR EPOLLOUT, EPOLL_CTL_MOD), (0, 255),
     (EPOLLIN OR EPOLLOUT, EPOLL_CTL_MOD), (EPOLLIN OR EPOLLOUT OR EPOLLRDHUP, EPOLL_CTL_MOD), (EPOLLIN OR EPOLLOUT, EPOLL_CTL_MOD), (0, 255),
     (EPOLLOUT, EPOLL_CTL_MOD), (EPOLLOUT OR EPOLLRDHUP, EPOLL_CTL_MOD), (EPOLLOUT, EPOLL_CTL_MOD), (0, 255),
     (0, 255), (0, 255), (0, 255), (0, 255),
     (EPOLLIN OR EPOLLOUT, EPOLL_CTL_MOD), (EPOLLIN OR EPOLLOUT OR EPOLLRDHUP, EPOLL_CTL_MOD), (EPOLLIN OR EPOLLOUT, EPOLL_CTL_MOD), (0, 255),
     (EPOLLIN OR EPOLLOUT, EPOLL_CTL_MOD), (EPOLLIN OR EPOLLOUT OR EPOLLRDHUP, EPOLL_CTL_MOD), (EPOLLIN OR EPOLLOUT, EPOLL_CTL_MOD), (0, 255),
     (EPOLLOUT, EPOLL_CTL_MOD), (EPOLLOUT OR EPOLLRDHUP, EPOLL_CTL_MOD), (EPOLLOUT, EPOLL_CTL_MOD), (0, 255),
     (0, 255), (0, 255), (0, 255), (0, 255),
     (EPOLLIN, EPOLL_CTL_MOD), (EPOLLIN OR EPOLLRDHUP, EPOLL_CTL_MOD), (EPOLLIN, EPOLL_CTL_MOD), (0, 255),
     (EPOLLIN, EPOLL_CTL_MOD), (EPOLLIN OR EPOLLRDHUP, EPOLL_CTL_MOD), (EPOLLIN, EPOLL_CTL_MOD), (0, 255),
     (EPOLLIN OR EPOLLOUT, EPOLL_CTL_DEL), (EPOLLRDHUP, EPOLL_CTL_MOD), (EPOLLIN OR EPOLLOUT OR EPOLLRDHUP, EPOLL_CTL_DEL), (0, 255),
     (0, 255), (0, 255), (0, 255), (0, 255),
     (0, 255), (0, 255), (0, 255), (0, 255),
     (0, 255), (0, 255), (0, 255), (0, 255),
     (0, 255), (0, 255), (0, 255), (0, 255),
     (0, 255), (0, 255), (0, 255), (0, 255)]"

definition epoll_op_table_c :: "(u32 \<times> int) list" where
  "epoll_op_table_c =
    [(0, 0), (EPOLLRDHUP, EPOLL_CTL_MOD), (EPOLLRDHUP, EPOLL_CTL_DEL), (0, 255),
     (EPOLLIN OR EPOLLRDHUP, EPOLL_CTL_MOD), (EPOLLIN OR EPOLLRDHUP, EPOLL_CTL_MOD), (EPOLLIN, EPOLL_CTL_MOD), (0, 255),
     (EPOLLRDHUP, EPOLL_CTL_MOD), (EPOLLRDHUP, EPOLL_CTL_MOD), (EPOLLIN OR EPOLLRDHUP, EPOLL_CTL_DEL), (0, 255),
     (0, 255), (0, 255), (0, 255), (0, 255),
     (EPOLLOUT OR EPOLLRDHUP, EPOLL_CTL_MOD), (EPOLLOUT OR EPOLLRDHUP, EPOLL_CTL_MOD), (EPOLLOUT, EPOLL_CTL_MOD), (0, 255),
     (EPOLLIN OR EPOLLOUT OR EPOLLRDHUP, EPOLL_CTL_MOD), (EPOLLIN OR EPOLLOUT OR EPOLLRDHUP, EPOLL_CTL_MOD), (EPOLLIN OR EPOLLOUT, EPOLL_CTL_MOD), (0, 255),
     (EPOLLOUT OR EPOLLRDHUP, EPOLL_CTL_MOD), (EPOLLOUT OR EPOLLRDHUP, EPOLL_CTL_MOD), (EPOLLOUT, EPOLL_CTL_MOD), (0, 255),
     (0, 255), (0, 255), (0, 255), (0, 255),
     (EPOLLRDHUP, EPOLL_CTL_MOD), (EPOLLRDHUP, EPOLL_CTL_MOD), (EPOLLOUT OR EPOLLRDHUP, EPOLL_CTL_DEL), (0, 255),
     (EPOLLIN OR EPOLLRDHUP, EPOLL_CTL_MOD), (EPOLLIN OR EPOLLRDHUP, EPOLL_CTL_MOD), (EPOLLIN, EPOLL_CTL_MOD), (0, 255),
     (EPOLLRDHUP, EPOLL_CTL_MOD), (EPOLLRDHUP, EPOLL_CTL_MOD), (EPOLLIN OR EPOLLOUT OR EPOLLRDHUP, EPOLL_CTL_DEL), (0, 255),
     (0, 255), (0, 255), (0, 255), (0, 255),
     (0, 255), (0, 255), (0, 255), (0, 255),
     (0, 255), (0, 255), (0, 255), (0, 255),
     (0, 255), (0, 255), (0, 255), (0, 255),
     (0, 255), (0, 255), (0, 255), (0, 255)]"

definition epoll_op_table_cr :: "(u32 \<times> int) list" where
  "epoll_op_table_cr =
    [(0, 0), (EPOLLIN OR EPOLLRDHUP, EPOLL_CTL_MOD), (EPOLLIN, EPOLL_CTL_MOD), (0, 255),
     (EPOLLIN OR EPOLLRDHUP, EPOLL_CTL_MOD), (EPOLLIN OR EPOLLRDHUP, EPOLL_CTL_MOD), (EPOLLIN, EPOLL_CTL_MOD), (0, 255),
     (EPOLLRDHUP, EPOLL_CTL_MOD), (EPOLLRDHUP, EPOLL_CTL_MOD), (EPOLLIN OR EPOLLRDHUP, EPOLL_CTL_DEL), (0, 255),
     (0, 255), (0, 255), (0, 255), (0, 255),
     (EPOLLIN OR EPOLLOUT OR EPOLLRDHUP, EPOLL_CTL_MOD), (EPOLLIN OR EPOLLOUT OR EPOLLRDHUP, EPOLL_CTL_MOD), (EPOLLIN OR EPOLLOUT, EPOLL_CTL_MOD), (0, 255),
     (EPOLLIN OR EPOLLOUT OR EPOLLRDHUP, EPOLL_CTL_MOD), (EPOLLIN OR EPOLLOUT OR EPOLLRDHUP, EPOLL_CTL_MOD), (EPOLLIN OR EPOLLOUT, EPOLL_CTL_MOD), (0, 255),
     (EPOLLOUT OR EPOLLRDHUP, EPOLL_CTL_MOD), (EPOLLOUT OR EPOLLRDHUP, EPOLL_CTL_MOD), (EPOLLOUT, EPOLL_CTL_MOD), (0, 255),
     (0, 255), (0, 255), (0, 255), (0, 255),
     (EPOLLIN OR EPOLLRDHUP, EPOLL_CTL_MOD), (EPOLLIN OR EPOLLRDHUP, EPOLL_CTL_MOD), (EPOLLIN, EPOLL_CTL_MOD), (0, 255),
     (EPOLLIN OR EPOLLRDHUP, EPOLL_CTL_MOD), (EPOLLIN OR EPOLLRDHUP, EPOLL_CTL_MOD), (EPOLLIN, EPOLL_CTL_MOD), (0, 255),
     (EPOLLRDHUP, EPOLL_CTL_MOD), (EPOLLRDHUP, EPOLL_CTL_MOD), (EPOLLIN OR EPOLLOUT OR EPOLLRDHUP, EPOLL_CTL_DEL), (0, 255),
     (0, 255), (0, 255), (0, 255), (0, 255),
     (0, 255), (0, 255), (0, 255), (0, 255),
     (0, 255), (0, 255), (0, 255), (0, 255),
     (0, 255), (0, 255), (0, 255), (0, 255),
     (0, 255), (0, 255), (0, 255), (0, 255)]"

definition epoll_op_table_cw :: "(u32 \<times> int) list" where
  "epoll_op_table_cw =
    [(0, 0), (EPOLLOUT OR EPOLLRDHUP, EPOLL_CTL_MOD), (EPOLLOUT, EPOLL_CTL_MOD), (0, 255),
     (EPOLLIN OR EPOLLOUT OR EPOLLRDHUP, EPOLL_CTL_MOD), (EPOLLIN OR EPOLLOUT OR EPOLLRDHUP, EPOLL_CTL_MOD), (EPOLLIN OR EPOLLOUT, EPOLL_CTL_MOD), (0, 255),
     (EPOLLOUT OR EPOLLRDHUP, EPOLL_CTL_MOD), (EPOLLOUT OR EPOLLRDHUP, EPOLL_CTL_MOD), (EPOLLOUT, EPOLL_CTL_MOD), (0, 255),
     (0, 255), (0, 255), (0, 255), (0, 255),
     (EPOLLOUT OR EPOLLRDHUP, EPOLL_CTL_MOD), (EPOLLOUT OR EPOLLRDHUP, EPOLL_CTL_MOD), (EPOLLOUT, EPOLL_CTL_MOD), (0, 255),
     (EPOLLIN OR EPOLLOUT OR EPOLLRDHUP, EPOLL_CTL_MOD), (EPOLLIN OR EPOLLOUT OR EPOLLRDHUP, EPOLL_CTL_MOD), (EPOLLIN OR EPOLLOUT, EPOLL_CTL_MOD), (0, 255),
     (EPOLLOUT OR EPOLLRDHUP, EPOLL_CTL_MOD), (EPOLLOUT OR EPOLLRDHUP, EPOLL_CTL_MOD), (EPOLLOUT, EPOLL_CTL_MOD), (0, 255),
     (0, 255), (0, 255), (0, 255), (0, 255),
     (EPOLLRDHUP, EPOLL_CTL_MOD), (EPOLLRDHUP, EPOLL_CTL_MOD), (EPOLLOUT OR EPOLLRDHUP, EPOLL_CTL_DEL), (0, 255),
     (EPOLLIN OR EPOLLRDHUP, EPOLL_CTL_MOD), (EPOLLIN OR EPOLLRDHUP, EPOLL_CTL_MOD), (EPOLLIN, EPOLL_CTL_MOD), (0, 255),
     (EPOLLRDHUP, EPOLL_CTL_MOD), (EPOLLRDHUP, EPOLL_CTL_MOD), (EPOLLIN OR EPOLLOUT OR EPOLLRDHUP, EPOLL_CTL_DEL), (0, 255),
     (0, 255), (0, 255), (0, 255), (0, 255),
     (0, 255), (0, 255), (0, 255), (0, 255),
     (0, 255), (0, 255), (0, 255), (0, 255),
     (0, 255), (0, 255), (0, 255), (0, 255),
     (0, 255), (0, 255), (0, 255), (0, 255)]"

definition epoll_op_table_crw :: "(u32 \<times> int) list" where
  "epoll_op_table_crw =
    [(0, 0), (EPOLLIN OR EPOLLOUT OR EPOLLRDHUP, EPOLL_CTL_MOD), (EPOLLIN OR EPOLLOUT, EPOLL_CTL_MOD), (0, 255),
     (EPOLLIN OR EPOLLOUT OR EPOLLRDHUP, EPOLL_CTL_MOD), (EPOLLIN OR EPOLLOUT OR EPOLLRDHUP, EPOLL_CTL_MOD), (EPOLLIN OR EPOLLOUT, EPOLL_CTL_MOD), (0, 255),
     (EPOLLOUT OR EPOLLRDHUP, EPOLL_CTL_MOD), (EPOLLOUT OR EPOLLRDHUP, EPOLL_CTL_MOD), (EPOLLOUT, EPOLL_CTL_MOD), (0, 255),
     (0, 255), (0, 255), (0, 255), (0, 255),
     (EPOLLIN OR EPOLLOUT OR EPOLLRDHUP, EPOLL_CTL_MOD), (EPOLLIN OR EPOLLOUT OR EPOLLRDHUP, EPOLL_CTL_MOD), (EPOLLIN OR EPOLLOUT, EPOLL_CTL_MOD), (0, 255),
     (EPOLLIN OR EPOLLOUT OR EPOLLRDHUP, EPOLL_CTL_MOD), (EPOLLIN OR EPOLLOUT OR EPOLLRDHUP, EPOLL_CTL_MOD), (EPOLLIN OR EPOLLOUT, EPOLL_CTL_MOD), (0, 255),
     (EPOLLOUT OR EPOLLRDHUP, EPOLL_CTL_MOD), (EPOLLOUT OR EPOLLRDHUP, EPOLL_CTL_MOD), (EPOLLOUT, EPOLL_CTL_MOD), (0, 255),
     (0, 255), (0, 255), (0, 255), (0, 255),
     (EPOLLIN OR EPOLLRDHUP, EPOLL_CTL_MOD), (EPOLLIN OR EPOLLRDHUP, EPOLL_CTL_MOD), (EPOLLIN, EPOLL_CTL_MOD), (0, 255),
     (EPOLLIN OR EPOLLRDHUP, EPOLL_CTL_MOD), (EPOLLIN OR EPOLLRDHUP, EPOLL_CTL_MOD), (EPOLLIN, EPOLL_CTL_MOD), (0, 255),
     (EPOLLRDHUP, EPOLL_CTL_MOD), (EPOLLRDHUP, EPOLL_CTL_MOD), (EPOLLIN OR EPOLLOUT OR EPOLLRDHUP, EPOLL_CTL_DEL), (0, 255),
     (0, 255), (0, 255), (0, 255), (0, 255),
     (0, 255), (0, 255), (0, 255), (0, 255),
     (0, 255), (0, 255), (0, 255), (0, 255),
     (0, 255), (0, 255), (0, 255), (0, 255),
     (0, 255), (0, 255), (0, 255), (0, 255)]"

definition epoll_op_table :: "(u32 \<times> int) list" where
  "epoll_op_table = epoll_op_table_0 @ epoll_op_table_r @ epoll_op_table_w @ epoll_op_table_rw @
     epoll_op_table_c @ epoll_op_table_cr @ epoll_op_table_cw @ epoll_op_table_crw"

definition EPOLL_OP_TABLE_INDEX :: "event_change \<Rightarrow> nat" where
  "EPOLL_OP_TABLE_INDEX c =
     unat ((ucast (close_change c AND (EV_CHANGE_ADD OR EV_CHANGE_DEL)) :: u32) OR
           push_bit 2 (ucast (read_change c AND (EV_CHANGE_ADD OR EV_CHANGE_DEL))) OR
           push_bit 4 (ucast (write_change c AND (EV_CHANGE_ADD OR EV_CHANGE_DEL))) OR
           push_bit 5 (ucast (old_events c AND (EV_READ OR EV_WRITE))) OR
           push_bit 1 (ucast (old_events c AND EV_CLOSED)))"

text \<open>The generator.\<close>

datatype change_kind = K0 | Kadd | Kdel | Kxxx

definition get_row :: "bool \<times> bool \<times> bool \<Rightarrow> change_kind \<Rightarrow> change_kind \<Rightarrow> change_kind \<Rightarrow> u32 \<times> int" where
  "get_row old wc rc cc =
     (case old of (c, w, r) \<Rightarrow>
       if rc = Kxxx \<or> wc = Kxxx \<or> cc = Kxxx then (0, 255)
       else if rc = Kadd \<or> wc = Kadd \<or> cc = Kadd then
         ((if rc = Kadd \<or> rc \<noteq> Kdel \<and> r then EPOLLIN else 0) OR
          (if wc = Kadd \<or> wc \<noteq> Kdel \<and> w then EPOLLOUT else 0) OR
          (if cc = Kadd \<or> cc \<noteq> Kdel \<and> c then EPOLLRDHUP else 0),
          if \<not> c \<and> \<not> w \<and> \<not> r then EPOLL_CTL_ADD else EPOLL_CTL_MOD)
       else if rc = Kdel \<or> wc = Kdel \<or> cc = Kdel then
         let delevents = (if rc = Kdel then EPOLLIN else 0) OR (if wc = Kdel then EPOLLOUT else 0) OR
               (if cc = Kdel then EPOLLRDHUP else 0);
             modevents = (if r \<and> rc \<noteq> Kdel then EPOLLIN else 0) OR (if w \<and> wc \<noteq> Kdel then EPOLLOUT else 0) OR
               (if c \<and> cc \<noteq> Kdel then EPOLLRDHUP else 0)
         in if modevents \<noteq> 0 then (modevents, EPOLL_CTL_MOD) else (delevents, EPOLL_CTL_DEL)
       else (0, 0))"

abbreviation all_kinds :: "change_kind list" where "all_kinds \<equiv> [K0, Kadd, Kdel, Kxxx]"

definition generated_table :: "(u32 \<times> int) list" where
  "generated_table =
     concat (map (\<lambda>old. concat (map (\<lambda>wc. concat (map (\<lambda>rc. map (\<lambda>cc. get_row old wc rc cc) all_kinds) all_kinds)) all_kinds))
       [(False, False, False), (False, False, True), (False, True, False), (False, True, True),
        (True, False, False), (True, False, True), (True, True, False), (True, True, True)])"

subsection \<open>The backend\<close>

datatype errno = ENOENT | EEXIST | EBADF | EPERM | EINTR | EINVAL | ENOSYS | E_other

record 'k epoll_sys =
  sys_epoll_create1 :: "'k \<Rightarrow> 'k \<times> int"
  sys_epoll_create :: "'k \<Rightarrow> 'k \<times> int"
  sys_epoll_ctl :: "'k \<Rightarrow> int \<Rightarrow> int \<Rightarrow> int \<Rightarrow> u32 \<Rightarrow> 'k \<times> errno option"
  sys_epoll_wait :: "'k \<Rightarrow> int \<Rightarrow> nat \<Rightarrow> int \<Rightarrow> 'k \<times> (errno + (u32 \<times> int) list)"
  sys_timerfd_create :: "'k \<Rightarrow> 'k \<times> int"
  sys_timerfd_settime :: "'k \<Rightarrow> int \<Rightarrow> int \<times> int \<Rightarrow> 'k"
  sys_close :: "'k \<Rightarrow> int \<Rightarrow> 'k"

text \<open>\<^verbatim>\<open>struct epollop\<close>, with the kernel, the changelist of the base, the outcomes of the
  allocator and a flag that is set when an assertion fails.\<close>

record 'k epollop =
  kern :: 'k
  nevents :: nat
  epfd :: int
  timerfd :: int
  ep_changelist :: event_changelist
  ep_mm :: "nat \<Rightarrow> bool"
  ep_mm_calls :: nat
  ep_died :: bool

abbreviation INITIAL_NEVENT :: nat where "INITIAL_NEVENT \<equiv> 32"
abbreviation MAX_NEVENT :: nat where "MAX_NEVENT \<equiv> 4096"

definition MAX_EPOLL_TIMEOUT_MSEC :: int where
  "MAX_EPOLL_TIMEOUT_MSEC = 35 * 60 * 1000"

abbreviation EVENT_BASE_FLAG_IGNORE_ENV :: u16 where "EVENT_BASE_FLAG_IGNORE_ENV \<equiv> 0x02"
abbreviation EVENT_BASE_FLAG_EPOLL_USE_CHANGELIST :: u16 where "EVENT_BASE_FLAG_EPOLL_USE_CHANGELIST \<equiv> 0x10"

text \<open>The descriptor of the timer that gives precise timeouts, or \<open>-1\<close>.\<close>

definition epoll_init_timerfd :: "'k epoll_sys \<Rightarrow> u16 \<Rightarrow> int \<Rightarrow> int \<Rightarrow> 'k \<Rightarrow> 'k \<times> int" where
  "epoll_init_timerfd sys flags clk ep k =
     (if has flags EVENT_BASE_FLAG_PRECISE_TIMER \<and> clk = CLOCK_MONOTONIC then
        case sys_timerfd_create sys k of
          (k1, fd) \<Rightarrow>
            if fd \<ge> 0 then
              case sys_epoll_ctl sys k1 ep EPOLL_CTL_ADD fd EPOLLIN of
                (k2, None) \<Rightarrow> (k2, fd)
              | (k2, Some _) \<Rightarrow> (sys_close sys k2 fd, -1)
            else (k1, -1)
      else (k, -1))"

text \<open>The private data, or \<open>None\<close> for NULL, and whether \<^verbatim>\<open>epollops_changelist\<close> is installed;
  \<open>use_env\<close> says that \<^verbatim>\<open>EVENT_EPOLL_USE_CHANGELIST\<close> is in the environment.\<close>

definition epoll_init ::
  "'k epoll_sys \<Rightarrow> u16 \<Rightarrow> int \<Rightarrow> bool \<Rightarrow> (nat \<Rightarrow> bool) \<Rightarrow> 'k \<Rightarrow> 'k \<times> ('k epollop \<times> bool) option" where
  "epoll_init sys flags clk use_env mm_ok k =
     (let (k1, fd1) = sys_epoll_create1 sys k;
          (k2, fd) = (if fd1 = -1 then sys_epoll_create sys k1 else (k1, fd1))
      in if fd = -1 then (k2, None)
         else if \<not> mm_ok 0 then (sys_close sys k2 fd, None)
         else if \<not> mm_ok 1 then (sys_close sys k2 fd, None)
         else let use_changelist = has flags EVENT_BASE_FLAG_EPOLL_USE_CHANGELIST \<or>
                    \<not> has flags EVENT_BASE_FLAG_IGNORE_ENV \<and> use_env;
                  (k3, tfd) = epoll_init_timerfd sys flags clk fd k2;
                  cl = \<lparr>changes = [], changes_size = 0, cl_mm = \<lambda>i. mm_ok (2 * i + 3), cl_mm_calls = 0, cl_died = False\<rparr>
              in (k3, Some (\<lparr>kern = k3, nevents = INITIAL_NEVENT, epfd = fd, timerfd = tfd, ep_changelist = cl,
                    ep_mm = \<lambda>i. mm_ok (2 * i + 2), ep_mm_calls = 0, ep_died = False\<rparr>, use_changelist)))"

definition ep_check :: "bool \<Rightarrow> 'k epollop \<Rightarrow> 'k epollop" where
  "ep_check c ep = (if c then ep else ep\<lparr>ep_died := True\<rparr>)"

text \<open>The call that is repeated when the guess between \<^verbatim>\<open>ADD\<close> and \<^verbatim>\<open>MOD\<close> was wrong.\<close>

definition epoll_retry :: "'k epoll_sys \<Rightarrow> 'k epollop \<Rightarrow> int \<Rightarrow> int \<Rightarrow> u32 \<Rightarrow> 'k epollop \<times> int" where
  "epoll_retry sys ep op fd events =
     (case sys_epoll_ctl sys (kern ep) (epfd ep) op fd events of
        (k, r) \<Rightarrow> (ep\<lparr>kern := k\<rparr>, if r = None then 0 else -1))"

definition epoll_apply_one_change :: "'k epoll_sys \<Rightarrow> 'k epollop \<Rightarrow> event_change \<Rightarrow> 'k epollop \<times> int" where
  "epoll_apply_one_change sys ep ch =
     (let idx = EPOLL_OP_TABLE_INDEX ch;
          op = snd (epoll_op_table ! idx);
          events = fst (epoll_op_table ! idx)
      in if events = 0 then (ep_check (op = 0) ep, 0)
         else let events1 = (if has (read_change ch OR write_change ch) EV_CHANGE_ET
                             then events OR EPOLLET else events)
              in case sys_epoll_ctl sys (kern ep) (epfd ep) op (change_fd ch) events1 of
                   (k, r) \<Rightarrow>
                     let ep1 = ep\<lparr>kern := k\<rparr>
                     in if r = None then (ep1, 0)
                        else if op = EPOLL_CTL_MOD \<and> r = Some ENOENT
                        then epoll_retry sys ep1 EPOLL_CTL_ADD (change_fd ch) events1
                        else if op = EPOLL_CTL_ADD \<and> r = Some EEXIST
                        then epoll_retry sys ep1 EPOLL_CTL_MOD (change_fd ch) events1
                        else if op = EPOLL_CTL_DEL \<and> r \<in> {Some ENOENT, Some EBADF, Some EPERM} then (ep1, 0)
                        else (ep1, -1))"

fun apply_changes_loop :: "'k epoll_sys \<Rightarrow> event_change list \<Rightarrow> 'k epollop \<Rightarrow> int \<Rightarrow> 'k epollop \<times> int" where
  "apply_changes_loop sys [] ep r = (ep, r)"
| "apply_changes_loop sys (ch # chs) ep r =
     (case epoll_apply_one_change sys ep ch of
        (ep1, s) \<Rightarrow> apply_changes_loop sys chs ep1 (if s < 0 then -1 else r))"

definition epoll_apply_changes :: "'k epoll_sys \<Rightarrow> 'k epollop \<Rightarrow> 'k epollop \<times> int" where
  "epoll_apply_changes sys ep = apply_changes_loop sys (changes (ep_changelist ep)) ep 0"

definition epoll_nochangelist_add ::
  "'k epoll_sys \<Rightarrow> 'k epollop \<Rightarrow> int \<Rightarrow> u16 \<Rightarrow> u16 \<Rightarrow> nat \<Rightarrow> 'k epollop \<times> nat \<times> int" where
  "epoll_nochangelist_add sys ep fd old events p =
     (let c = EV_CHANGE_ADD OR ucast (events AND EV_ET);
          ch = \<lparr>change_fd = fd, old_events = old,
                read_change = (if has events EV_READ then c else 0),
                write_change = (if has events EV_WRITE then c else 0),
                close_change = (if has events EV_CLOSED then c else 0)\<rparr>
      in case epoll_apply_one_change sys ep ch of (ep1, r) \<Rightarrow> (ep1, p, r))"

definition epoll_nochangelist_del ::
  "'k epoll_sys \<Rightarrow> 'k epollop \<Rightarrow> int \<Rightarrow> u16 \<Rightarrow> u16 \<Rightarrow> nat \<Rightarrow> 'k epollop \<times> nat \<times> int" where
  "epoll_nochangelist_del sys ep fd old events p =
     (let ch = \<lparr>change_fd = fd, old_events = old,
                read_change = (if has events EV_READ then EV_CHANGE_DEL else 0),
                write_change = (if has events EV_WRITE then EV_CHANGE_DEL else 0),
                close_change = (if has events EV_CLOSED then EV_CHANGE_DEL else 0)\<rparr>
      in case epoll_apply_one_change sys ep ch of (ep1, r) \<Rightarrow> (ep1, p, r))"

text \<open>The timeout handed to \<^verbatim>\<open>epoll_wait\<close>, and the setting of the timer descriptor.\<close>

definition epoll_timeout :: "timeval option \<Rightarrow> int" where
  "epoll_timeout tv =
     (case tv of None \<Rightarrow> -1
      | Some t \<Rightarrow> let timeout = evutil_tv_to_msec t
                  in if timeout < 0 \<or> timeout > MAX_EPOLL_TIMEOUT_MSEC then MAX_EPOLL_TIMEOUT_MSEC else timeout)"

definition epoll_arm :: "'k epoll_sys \<Rightarrow> 'k epollop \<Rightarrow> timeval option \<Rightarrow> 'k epollop \<times> int" where
  "epoll_arm sys ep tv =
     (if timerfd ep \<ge> 0 then
        let it_value = (case tv of None \<Rightarrow> (0, 0) | Some t \<Rightarrow> (tv_sec t, tv_usec t * 1000));
            timeout = (case tv of None \<Rightarrow> -1 | Some t \<Rightarrow> if tv_sec t = 0 \<and> tv_usec t = 0 then 0 else -1)
        in (ep\<lparr>kern := sys_timerfd_settime sys (kern ep) (timerfd ep) it_value\<rparr>, timeout)
      else (ep, epoll_timeout tv))"

text \<open>The events reported for one descriptor.\<close>

definition epoll_what :: "u32 \<Rightarrow> u16" where
  "epoll_what what =
     (if has what (EPOLLHUP OR EPOLLERR) then EV_READ OR EV_WRITE
      else (if has what EPOLLIN then EV_READ else 0) OR (if has what EPOLLOUT then EV_WRITE else 0) OR
           (if has what EPOLLRDHUP then EV_CLOSED else 0))"

definition epoll_reports :: "int \<Rightarrow> (u32 \<times> int) list \<Rightarrow> ready list" where
  "epoll_reports tfd evs =
     concat (map (\<lambda>(what, fd). if fd = tfd then []
                               else if epoll_what what = 0 then []
                               else [ReadyIO fd (epoll_what what OR EV_ET)]) evs)"

definition epoll_more_events :: "nat \<Rightarrow> 'k epollop \<Rightarrow> 'k epollop" where
  "epoll_more_events res ep =
     (if res = nevents ep \<and> nevents ep < MAX_NEVENT then
        let ep1 = ep\<lparr>ep_mm_calls := ep_mm_calls ep + 1\<rparr>
        in if ep_mm ep (ep_mm_calls ep) then ep1\<lparr>nevents := nevents ep * 2\<rparr> else ep1
      else ep)"

text \<open>The part of \<^verbatim>\<open>epoll_dispatch\<close> after the changes have been made.\<close>

definition epoll_wait_and_report ::
  "'k epoll_sys \<Rightarrow> 'k epollop \<Rightarrow> int \<Rightarrow> 'k epollop \<times> ready list \<times> int" where
  "epoll_wait_and_report sys ep timeout =
     (case sys_epoll_wait sys (kern ep) (epfd ep) (nevents ep) timeout of
        (k, Inl e) \<Rightarrow> (ep\<lparr>kern := k\<rparr>, [], if e \<noteq> EINTR then -1 else 0)
      | (k, Inr evs) \<Rightarrow>
          let ep1 = ep_check (length evs \<le> nevents ep) (ep\<lparr>kern := k\<rparr>)
          in (epoll_more_events (length evs) ep1, epoll_reports (timerfd ep1) evs, 0))"

text \<open>With \<^verbatim>\<open>epollops\<close> the changelist stays empty, so making its changes and removing them does
  nothing; with \<^verbatim>\<open>epollops_changelist\<close> it also clears the \<^verbatim>\<open>fdinfo\<close> of the map of descriptors.\<close>

definition epoll_dispatch ::
  "'k epoll_sys \<Rightarrow> 'k epollop \<Rightarrow> evmap_io option list \<Rightarrow> timeval option \<Rightarrow>
    'k epollop \<times> evmap_io option list \<times> ready list \<times> int" where
  "epoll_dispatch sys ep m tv =
     (let (ep1, timeout) = epoll_arm sys ep tv;
          (ep2, _) = epoll_apply_changes sys ep1;
          (cl, m1) = event_changelist_remove_all (ep_changelist ep2) m;
          (ep3, rs, res) = epoll_wait_and_report sys (ep2\<lparr>ep_changelist := cl\<rparr>) timeout
      in (ep3, m1, rs, res))"

definition epoll_dealloc :: "'k epoll_sys \<Rightarrow> 'k epollop \<Rightarrow> 'k" where
  "epoll_dealloc sys ep =
     (let k1 = (if epfd ep \<ge> 0 then sys_close sys (kern ep) (epfd ep) else kern ep)
      in if timerfd ep \<ge> 0 then sys_close sys k1 (timerfd ep) else k1)"

definition epollops :: "'k epoll_sys \<Rightarrow> 'k epollop eventop" where
  "epollops sys =
     \<lparr>evop_add = epoll_nochangelist_add sys, evop_del = epoll_nochangelist_del sys,
      evop_dispatch = epoll_dispatch sys, fdinfo_len = 0\<rparr>"

definition epollops_changelist :: "'k epoll_sys \<Rightarrow> 'k epollop eventop" where
  "epollops_changelist sys =
     \<lparr>evop_add = \<lambda>ep fd old events p. case event_changelist_add (ep_changelist ep) fd old events p of
        (cl, p1, r) \<Rightarrow> (ep\<lparr>ep_changelist := cl\<rparr>, p1, r),
      evop_del = \<lambda>ep fd old events p. case event_changelist_del (ep_changelist ep) fd old events p of
        (cl, p1, r) \<Rightarrow> (ep\<lparr>ep_changelist := cl\<rparr>, p1, r),
      evop_dispatch = epoll_dispatch sys, fdinfo_len = 4\<rparr>"

lemma table_is_generated: "epoll_op_table = generated_table"
  unfolding generated_table_def epoll_op_table_def
    epoll_op_table_0_def epoll_op_table_r_def epoll_op_table_w_def epoll_op_table_rw_def
    epoll_op_table_c_def epoll_op_table_cr_def epoll_op_table_cw_def epoll_op_table_crw_def
  by (simp add: get_row_def)

subsection \<open>Looking a change up in the table\<close>

lemma nth_concat_map:
  "(\<And>x. length (f x) = n) \<Longrightarrow> i < length xs \<Longrightarrow> j < n \<Longrightarrow> concat (map f xs) ! (n * i + j) = f (xs ! i) ! j"
proof (induction xs arbitrary: i)
  case (Cons x xs)
  show ?case
  proof (cases i)
    case (Suc k)
    have "concat (map f (x # xs)) ! (n * i + j) = concat (map f xs) ! (n * k + j)"
      using Cons.prems(1) [of x] Suc by (simp add: nth_append)
    then show ?thesis using Cons.IH [of k] Cons.prems Suc by simp
  qed (use Cons.prems in \<open>simp add: nth_append\<close>)
qed simp

definition kind_of :: "u8 \<Rightarrow> change_kind" where
  "kind_of c = all_kinds ! (of_bool (has c EV_CHANGE_ADD) + 2 * of_bool (has c EV_CHANGE_DEL))"

definition old_of :: "u16 \<Rightarrow> bool \<times> bool \<times> bool" where
  "old_of old = (has old EV_CLOSED, has old EV_WRITE, has old EV_READ)"

lemma mask_split:
  fixes x :: "'a::len word"
  assumes "a AND b = 0"
  shows "x AND (a OR b) = (x AND a) OR (x AND b)"
  by (rule bit_eqI) (auto simp: bit_simps)

lemma mask_bit:
  fixes x :: "'a::len word"
  shows "x AND 2 ^ n = (if has x (2 ^ n) then 2 ^ n else 0)"
  by (auto simp: has_def and_exp_eq_0_iff_not_bit intro!: bit_eqI simp: bit_simps)

lemma mask_bits:
  "x AND (1 :: u8) = (if has x 1 then 1 else 0)" "x AND (2 :: u8) = (if has x 2 then 2 else 0)"
  "y AND (2 :: u16) = (if has y 2 then 2 else 0)" "y AND (4 :: u16) = (if has y 4 then 4 else 0)"
  "y AND (0x80 :: u16) = (if has y 0x80 then 0x80 else 0)"
  using mask_bit [of x 0] mask_bit [of x 1] mask_bit [of y 1] mask_bit [of y 2] mask_bit [of y 7] by simp_all

lemma index_eq:
  "EPOLL_OP_TABLE_INDEX ch =
     64 * (of_bool (has (old_events ch) EV_READ) + 2 * of_bool (has (old_events ch) EV_WRITE) + 4 * of_bool (has (old_events ch) EV_CLOSED)) +
     (16 * (of_bool (has (write_change ch) EV_CHANGE_ADD) + 2 * of_bool (has (write_change ch) EV_CHANGE_DEL)) +
      (4 * (of_bool (has (read_change ch) EV_CHANGE_ADD) + 2 * of_bool (has (read_change ch) EV_CHANGE_DEL)) +
       (of_bool (has (close_change ch) EV_CHANGE_ADD) + 2 * of_bool (has (close_change ch) EV_CHANGE_DEL))))"
proof -
  define r1 r2 w1 w2 c1 c2 o1 o2 o3 where b:
    "r1 \<longleftrightarrow> has (read_change ch) 1" "r2 \<longleftrightarrow> has (read_change ch) 2" "w1 \<longleftrightarrow> has (write_change ch) 1"
    "w2 \<longleftrightarrow> has (write_change ch) 2" "c1 \<longleftrightarrow> has (close_change ch) 1" "c2 \<longleftrightarrow> has (close_change ch) 2"
    "o1 \<longleftrightarrow> has (old_events ch) 2" "o2 \<longleftrightarrow> has (old_events ch) 4" "o3 \<longleftrightarrow> has (old_events ch) 0x80"
  have m: "x AND (1 OR 2) = (x AND 1) OR (x AND 2)" "y AND (2 OR 4) = (y AND 2) OR (y AND 4)" for x :: u8 and y :: u16
    by (rule mask_split, simp)+
  show ?thesis
    unfolding EPOLL_OP_TABLE_INDEX_def m mask_bits b [symmetric]
    by (cases c1; cases c2; cases r1; cases r2; cases w1; cases w2; cases o1; cases o2; cases o3) simp_all
qed

lemma table_row:
  "epoll_op_table ! EPOLL_OP_TABLE_INDEX ch =
     get_row (old_of (old_events ch)) (kind_of (write_change ch)) (kind_of (read_change ch)) (kind_of (close_change ch))"
proof -
  define ob where "ob = (of_bool (has (old_events ch) EV_READ) + 2 * of_bool (has (old_events ch) EV_WRITE) +
    4 * of_bool (has (old_events ch) EV_CLOSED) :: nat)"
  define k where "k c = (of_bool (has c EV_CHANGE_ADD) + 2 * of_bool (has c EV_CHANGE_DEL) :: nat)" for c :: u8
  let ?os = "[(False, False, False), (False, False, True), (False, True, False), (False, True, True),
        (True, False, False), (True, False, True), (True, True, False), (True, True, True)]"
  let ?w = "k (write_change ch)" and ?r = "k (read_change ch)" and ?c = "k (close_change ch)"
  have k4: "k c < 4" for c by (simp add: k_def)
  have kk: "all_kinds ! k c = kind_of c" for c by (simp add: k_def kind_of_def)
  have o8: "ob < 8" by (simp add: ob_def)
  have os: "?os ! ob = old_of (old_events ch)" by (simp add: old_of_def ob_def)
  have "epoll_op_table ! EPOLL_OP_TABLE_INDEX ch = generated_table ! (64 * ob + (16 * ?w + (4 * ?r + ?c)))"
    unfolding table_is_generated index_eq ob_def k_def ..
  also have "\<dots> = concat (map (\<lambda>wc. concat (map (\<lambda>rc. map (\<lambda>cc. get_row (?os ! ob) wc rc cc) all_kinds) all_kinds)) all_kinds) !
      (16 * ?w + (4 * ?r + ?c))"
    unfolding generated_table_def
    by (rule nth_concat_map) (use o8 k4 [of "write_change ch"] k4 [of "read_change ch"] k4 [of "close_change ch"] in simp_all)
  also have "\<dots> = concat (map (\<lambda>rc. map (\<lambda>cc. get_row (?os ! ob) (all_kinds ! ?w) rc cc) all_kinds) all_kinds) ! (4 * ?r + ?c)"
    by (rule nth_concat_map) (use k4 [of "write_change ch"] k4 [of "read_change ch"] k4 [of "close_change ch"] in simp_all)
  also have "\<dots> = map (\<lambda>cc. get_row (?os ! ob) (all_kinds ! ?w) (all_kinds ! ?r) cc) all_kinds ! ?c"
    by (rule nth_concat_map) (use k4 [of "read_change ch"] k4 [of "close_change ch"] in simp_all)
  also have "\<dots> = get_row (?os ! ob) (kind_of (write_change ch)) (kind_of (read_change ch)) (kind_of (close_change ch))"
    using k4 [of "close_change ch"] by (subst nth_map) (simp_all add: kk del: list.map)
  finally show ?thesis by (simp only: os)
qed

subsection \<open>What a change does to the kernel\<close>

text \<open>The epoll events for the events enabled on a descriptor.\<close>

definition epoll_bits :: "(u16 \<Rightarrow> bool) \<Rightarrow> u32" where
  "epoll_bits want = (if want EV_READ then EPOLLIN else 0) OR (if want EV_WRITE then EPOLLOUT else 0) OR
     (if want EV_CLOSED then EPOLLRDHUP else 0)"

lemma epoll_bits_0: "epoll_bits want = 0 \<longleftrightarrow> \<not> want EV_READ \<and> \<not> want EV_WRITE \<and> \<not> want EV_CLOSED"
  by (simp add: epoll_bits_def)

text \<open>A change asks for something.\<close>

definition asks :: "event_change \<Rightarrow> bool" where
  "asks ch \<longleftrightarrow> (\<exists>f \<in> io_flags. has (change_for ch f) EV_CHANGE_ADD \<or> has (change_for ch f) EV_CHANGE_DEL)"

lemma row_meaning:
  assumes ok: "change_ok ch" and row: "epoll_op_table ! EPOLL_OP_TABLE_INDEX ch = (events, op)"
  shows "\<not> asks ch \<Longrightarrow> events = 0 \<and> op = 0"
    "asks ch \<Longrightarrow> events \<noteq> 0"
    "asks ch \<Longrightarrow> epoll_bits (net ch) \<noteq> 0 \<Longrightarrow> op \<in> {EPOLL_CTL_ADD, EPOLL_CTL_MOD} \<and> events = epoll_bits (net ch)"
    "asks ch \<Longrightarrow> epoll_bits (net ch) = 0 \<Longrightarrow> op = EPOLL_CTL_DEL"
proof -
  have k: "kind_of c = (if has c 1 then if has c 2 then Kxxx else Kadd else if has c 2 then Kdel else K0)" for c
    by (simp add: kind_of_def)
  have o: "\<not> (has (read_change ch) 1 \<and> has (read_change ch) 2)" "\<not> (has (write_change ch) 1 \<and> has (write_change ch) 2)"
    "\<not> (has (close_change ch) 1 \<and> has (close_change ch) 2)"
    using ok by (auto simp: change_ok_def change_for_def)
  show "\<not> asks ch \<Longrightarrow> events = 0 \<and> op = 0"
    using row o unfolding table_row k old_of_def get_row_def asks_def change_for_def by (simp split: if_splits)
  show "asks ch \<Longrightarrow> events \<noteq> 0"
    using row o unfolding table_row k old_of_def get_row_def asks_def change_for_def
    by (auto simp: Let_def split: if_splits)
  show "asks ch \<Longrightarrow> epoll_bits (net ch) \<noteq> 0 \<Longrightarrow> op \<in> {EPOLL_CTL_ADD, EPOLL_CTL_MOD} \<and> events = epoll_bits (net ch)"
    using row o unfolding table_row k old_of_def get_row_def asks_def epoll_bits_def net_def change_for_def
    by (auto simp: Let_def split: if_splits)
  show "asks ch \<Longrightarrow> epoll_bits (net ch) = 0 \<Longrightarrow> op = EPOLL_CTL_DEL"
    using row o unfolding table_row k old_of_def get_row_def asks_def epoll_bits_0 net_def change_for_def
    by (auto simp: Let_def split: if_splits)
qed

text \<open>
  The documented behaviour of \<^verbatim>\<open>epoll_ctl\<close>: a call that succeeds registers or removes the descriptor,
  one that fails changes nothing, and a removal fails with these errors only when the
  descriptor is not registered.
\<close>

definition kernel_ok :: "'k epoll_sys \<Rightarrow> ('k \<Rightarrow> int \<Rightarrow> int \<Rightarrow> u32 option) \<Rightarrow> bool" where
  "kernel_ok sys interest \<longleftrightarrow>
     (\<forall>k ep op fd ev k' r. sys_epoll_ctl sys k ep op fd ev = (k', r) \<longrightarrow>
        interest k' ep =
          (if r = None \<and> op \<in> {EPOLL_CTL_ADD, EPOLL_CTL_MOD} then (interest k ep)(fd \<mapsto> ev)
           else if r = None \<and> op = EPOLL_CTL_DEL then (interest k ep)(fd := None)
           else interest k ep) \<and>
        (op = EPOLL_CTL_DEL \<and> r \<in> {Some ENOENT, Some EBADF, Some EPERM} \<longrightarrow> interest k ep fd = None))"

text \<open>What a change asks the kernel to watch for on its descriptor.\<close>

definition target :: "event_change \<Rightarrow> u32 option" where
  "target ch =
     (if epoll_bits (net ch) = 0 then None
      else Some (epoll_bits (net ch) OR (if has (read_change ch OR write_change ch) EV_CHANGE_ET then EPOLLET else 0)))"

lemma kernelD:
  assumes "kernel_ok sys interest" "sys_epoll_ctl sys k ep op fd ev = (k', r)"
  shows "r \<noteq> None \<Longrightarrow> interest k' ep = interest k ep"
    "r = None \<Longrightarrow> op \<in> {EPOLL_CTL_ADD, EPOLL_CTL_MOD} \<Longrightarrow> interest k' ep = (interest k ep)(fd \<mapsto> ev)"
    "r = None \<Longrightarrow> op = EPOLL_CTL_DEL \<Longrightarrow> interest k' ep = (interest k ep)(fd := None)"
    "op = EPOLL_CTL_DEL \<Longrightarrow> r \<in> {Some ENOENT, Some EBADF, Some EPERM} \<Longrightarrow> interest k ep fd = None"
proof -
  note k = assms(1) [unfolded kernel_ok_def, rule_format, OF assms(2)]
  show "r \<noteq> None \<Longrightarrow> interest k' ep = interest k ep"
    "r = None \<Longrightarrow> op \<in> {EPOLL_CTL_ADD, EPOLL_CTL_MOD} \<Longrightarrow> interest k' ep = (interest k ep)(fd \<mapsto> ev)"
    "r = None \<Longrightarrow> op = EPOLL_CTL_DEL \<Longrightarrow> interest k' ep = (interest k ep)(fd := None)"
    using k by (auto split: if_splits)
  show "op = EPOLL_CTL_DEL \<Longrightarrow> r \<in> {Some ENOENT, Some EBADF, Some EPERM} \<Longrightarrow> interest k ep fd = None"
    using k by blast
qed

lemma epoll_retry_ok:
  assumes K: "kernel_ok sys interest" and op: "op \<in> {EPOLL_CTL_ADD, EPOLL_CTL_MOD}"
    and r: "epoll_retry sys ep op fd ev = (ep', r)"
  shows "ep' = ep\<lparr>kern := kern ep'\<rparr>" "r \<in> {-1, 0 :: int}"
    "interest (kern ep') (epfd ep) = (if r = 0 then (interest (kern ep) (epfd ep))(fd \<mapsto> ev) else interest (kern ep) (epfd ep))"
proof -
  obtain k q where c: "sys_epoll_ctl sys (kern ep) (epfd ep) op fd ev = (k, q)" by force
  have eq: "ep' = ep\<lparr>kern := k\<rparr>" "r = (if q = None then 0 else -1)" using r c by (auto simp: epoll_retry_def)
  show "ep' = ep\<lparr>kern := kern ep'\<rparr>" "r \<in> {-1, 0 :: int}" by (simp_all add: eq)
  show "interest (kern ep') (epfd ep) = (if r = 0 then (interest (kern ep) (epfd ep))(fd \<mapsto> ev) else interest (kern ep) (epfd ep))"
    using kernelD(1,2) [OF K c] op by (cases q) (auto simp: eq)
qed

lemma epoll_apply_one_change_ok:
  assumes K: "kernel_ok sys interest" and ch: "change_ok ch" and r: "epoll_apply_one_change sys ep ch = (ep', r)"
  shows "ep' = ep\<lparr>kern := kern ep'\<rparr>" "r \<in> {-1, 0 :: int}"
    "interest (kern ep') (epfd ep) = (if asks ch \<and> r = 0 then (interest (kern ep) (epfd ep))(change_fd ch := target ch)
       else interest (kern ep) (epfd ep))"
proof -
  obtain events op where row: "epoll_op_table ! EPOLL_OP_TABLE_INDEX ch = (events, op)" by force
  note m = row_meaning [OF ch row]
  let ?I = "interest (kern ep) (epfd ep)" and ?fd = "change_fd ch"
  have "ep' = ep\<lparr>kern := kern ep'\<rparr> \<and> r \<in> {-1, 0} \<and>
    interest (kern ep') (epfd ep) = (if asks ch \<and> r = 0 then ?I(?fd := target ch) else ?I)"
  proof (cases "asks ch")
    case False
    then show ?thesis using r row m(1) by (auto simp: epoll_apply_one_change_def ep_check_def)
  next
    case True
    define ev where "ev = (if has (read_change ch OR write_change ch) EV_CHANGE_ET then events OR EPOLLET else events)"
    obtain k q where c: "sys_epoll_ctl sys (kern ep) (epfd ep) op ?fd ev = (k, q)" by force
    let ?ep1 = "ep\<lparr>kern := k\<rparr>"
    have eq: "(ep', r) =
        (if q = None then (?ep1, 0)
         else if op = EPOLL_CTL_MOD \<and> q = Some ENOENT then epoll_retry sys ?ep1 EPOLL_CTL_ADD ?fd ev
         else if op = EPOLL_CTL_ADD \<and> q = Some EEXIST then epoll_retry sys ?ep1 EPOLL_CTL_MOD ?fd ev
         else if op = EPOLL_CTL_DEL \<and> q \<in> {Some ENOENT, Some EBADF, Some EPERM} then (?ep1, 0) else (?ep1, -1))"
      using r [symmetric]
      unfolding epoll_apply_one_change_def Let_def row fst_conv snd_conv if_not_P [OF m(2) [OF True]]
        ev_def [symmetric] c prod.case .
    note kd = kernelD [OF K c]
    have q: "q \<noteq> None \<Longrightarrow> interest k (epfd ep) = ?I" by (rule kd(1))
    show ?thesis
    proof (cases "epoll_bits (net ch) = 0")
      case z: True
      then have op: "op = EPOLL_CTL_DEL" and t: "target ch = None" using m(4) [OF True] by (simp_all add: target_def)
      have del: "?I ?fd = None" if "q \<in> {Some ENOENT, Some EBADF, Some EPERM}" using kd(4) [OF op that] .
      show ?thesis
      proof (cases "q = None")
        case True
        then show ?thesis using eq kd(3) op t \<open>asks ch\<close> by auto
      next
        case False
        then show ?thesis using eq q op t del \<open>asks ch\<close> by (auto split: if_splits simp: fun_upd_idem)
      qed
    next
      case False
      then have op: "op \<in> {EPOLL_CTL_ADD, EPOLL_CTL_MOD}" and t: "target ch = Some ev"
        using m(3) [OF True] by (simp_all add: target_def ev_def)
      show ?thesis
      proof (cases "q = None")
        case True
        then show ?thesis using eq kd(2) op t \<open>asks ch\<close> by auto
      next
        case False
        note rt = epoll_retry_ok [OF K, of _ ?ep1 ?fd ev ep' r]
        consider (retry) op' where "op' \<in> {EPOLL_CTL_ADD, EPOLL_CTL_MOD}" "epoll_retry sys ?ep1 op' ?fd ev = (ep', r)"
          | (fail) "ep' = ?ep1" "r = -1"
          using eq False op by (auto split: if_splits)
        then show ?thesis
        proof cases
          case retry
          have "kern ep' = kern ep' \<and> ep' = ep\<lparr>kern := kern ep'\<rparr>" using rt(1) [OF retry] by simp
          then show ?thesis using rt(2,3) [OF retry] q [OF False] t \<open>asks ch\<close> by auto
        next
          case fail
          then show ?thesis using q [OF False] by simp
        qed
      qed
    qed
  qed
  then show "ep' = ep\<lparr>kern := kern ep'\<rparr>" "r \<in> {-1, 0 :: int}"
    "interest (kern ep') (epfd ep) = (if asks ch \<and> r = 0 then ?I(?fd := target ch) else ?I)" by blast+
qed

subsection \<open>The contract of a backend\<close>

definition epoll_enabled :: "('k \<Rightarrow> int \<Rightarrow> int \<Rightarrow> u32 option) \<Rightarrow> 'k epollop \<Rightarrow> int \<Rightarrow> u16 \<Rightarrow> bool" where
  "epoll_enabled interest ep fd f \<longleftrightarrow>
     (case interest (kern ep) (epfd ep) fd of None \<Rightarrow> False | Some ev \<Rightarrow> has ev (epoll_bits (\<lambda>g. g = f)))"

lemma target_has:
  "f \<in> io_flags \<Longrightarrow> (case target ch of None \<Rightarrow> False | Some ev \<Rightarrow> has ev (epoll_bits (\<lambda>g. g = f))) \<longleftrightarrow> net ch f"
  by (auto simp: target_def epoll_bits_def split: if_splits)

lemma apply_enabled:
  assumes K: "kernel_ok sys interest" and ch: "change_ok ch" and r: "epoll_apply_one_change sys ep ch = (ep', r)"
    and f: "f \<in> io_flags" and old: "\<And>g. g \<in> io_flags \<Longrightarrow> epoll_enabled interest ep (change_fd ch) g \<longleftrightarrow> has (old_events ch) g"
  shows "epoll_enabled interest ep' x f \<longleftrightarrow> (if r = 0 \<and> x = change_fd ch then net ch f else epoll_enabled interest ep x f)"
proof -
  note a = epoll_apply_one_change_ok [OF K ch r]
  have e: "epfd ep' = epfd ep" by (subst a(1)) simp
  show ?thesis
  proof (cases "asks ch \<and> r = 0")
    case True
    then show ?thesis using a(3) target_has [OF f, of ch] by (auto simp: epoll_enabled_def e)
  next
    case False
    then have "epoll_enabled interest ep' x f = epoll_enabled interest ep x f"
      using a(3) [unfolded if_not_P [OF False]] by (simp add: epoll_enabled_def e)
    moreover have "net ch f = has (old_events ch) f" if "\<not> asks ch"
      using that f unfolding asks_def net_def by blast
    ultimately show ?thesis using False old [OF f] by auto
  qed
qed

text \<open>The change that is made at once when there is no changelist.\<close>

definition direct_change :: "int \<Rightarrow> u16 \<Rightarrow> u16 \<Rightarrow> u8 \<Rightarrow> event_change" where
  "direct_change fd old events a = \<lparr>change_fd = fd, old_events = old, read_change = (if has events EV_READ then a else 0),
    write_change = (if has events EV_WRITE then a else 0), close_change = (if has events EV_CLOSED then a else 0)\<rparr>"

lemma direct_change_ok:
  assumes "\<not> has old EV_SIGNAL" "\<not> (has a EV_CHANGE_ADD \<and> has a EV_CHANGE_DEL)" "\<not> has a EV_CHANGE_SIGNAL"
  shows "change_ok (direct_change fd old events a)"
    "f \<in> io_flags \<Longrightarrow> net (direct_change fd old events a) f \<longleftrightarrow> has events f \<and> has a EV_CHANGE_ADD \<or>
       \<not> (has events f \<and> has a EV_CHANGE_DEL) \<and> has old f"
    "change_fd (direct_change fd old events a) = fd" "old_events (direct_change fd old events a) = old"
proof -
  have c: "f \<in> io_flags \<Longrightarrow> change_for (direct_change fd old events a) f = (if has events f then a else 0)" for f
    by (auto simp: direct_change_def change_for_def)
  show "change_fd (direct_change fd old events a) = fd" and o: "old_events (direct_change fd old events a) = old"
    by (simp_all add: direct_change_def)
  show "change_ok (direct_change fd old events a)" using assms c o unfolding change_ok_def by simp
  show "f \<in> io_flags \<Longrightarrow> net (direct_change fd old events a) f \<longleftrightarrow> has events f \<and> has a EV_CHANGE_ADD \<or>
       \<not> (has events f \<and> has a EV_CHANGE_DEL) \<and> has old f"
    using c o unfolding net_def by simp
qed

lemma et_flag:
  "\<not> has (ucast (events AND EV_ET) :: u8) EV_CHANGE_DEL" "\<not> has (ucast (events AND EV_ET) :: u8) EV_CHANGE_SIGNAL"
  for events :: u16
proof -
  have "ucast (events AND EV_ET) AND m = (0 :: u8)" if "ucast m AND EV_ET = 0" for m :: u8
    using that by (auto simp: bit_eq_iff bit_simps)
  then show "\<not> has (ucast (events AND EV_ET) :: u8) EV_CHANGE_DEL" "\<not> has (ucast (events AND EV_ET) :: u8) EV_CHANGE_SIGNAL"
    unfolding has_def by simp_all
qed

interpretation ep: io_backend "epollops sys" "\<lambda>_. kernel_ok sys interest" "epoll_enabled interest"
  for sys :: "'k epoll_sys" and interest
proof
  fix b :: "'k epollop" and old events :: u16 and f fd p b' p' r x
  assume K: "kernel_ok sys interest" and o: "\<not> has old EV_SIGNAL" and f: "f \<in> io_flags"
    and old: "\<And>g. g \<in> io_flags \<Longrightarrow> epoll_enabled interest b fd g \<longleftrightarrow> has old g"
  define c where "c = EV_CHANGE_ADD OR (ucast (events AND EV_ET) :: u8)"
  have c: "has c EV_CHANGE_ADD" "\<not> has c EV_CHANGE_DEL" "\<not> has c EV_CHANGE_SIGNAL"
    using et_flag [of events] by (simp_all add: c_def)
  show "kernel_ok sys interest \<and> (epoll_enabled interest b' x f \<longleftrightarrow>
      epoll_enabled interest b x f \<or> r \<noteq> -1 \<and> x = fd \<and> has events f)"
    if "evop_add (epollops sys) b fd old events p = (b', p', r)"
  proof -
    have ap: "epoll_apply_one_change sys b (direct_change fd old events c) = (b', r)"
      using that by (auto simp: epollops_def epoll_nochangelist_add_def Let_def c_def direct_change_def split: prod.splits)
    note ok = direct_change_ok [OF o, where fd = fd and events = events and a = c] 
    have n: "change_ok (direct_change fd old events c)" "net (direct_change fd old events c) f \<longleftrightarrow> has events f \<or> has old f"
      using ok(1) ok(2) [OF _ _ f] c by auto
    have "epoll_enabled interest b' x f \<longleftrightarrow> (if r = 0 \<and> x = fd then net (direct_change fd old events c) f
        else epoll_enabled interest b x f)"
      using apply_enabled [OF K n(1) ap f, of x] old ok(3,4) c by simp
    then show ?thesis using epoll_apply_one_change_ok(2) [OF K n(1) ap] old [OF f] n(2) K by auto
  qed
  show "kernel_ok sys interest \<and> (epoll_enabled interest b' x f \<longleftrightarrow>
      epoll_enabled interest b x f \<and> \<not> (r \<noteq> -1 \<and> x = fd \<and> has events f))"
    if "evop_del (epollops sys) b fd old events p = (b', p', r)"
  proof -
    have ap: "epoll_apply_one_change sys b (direct_change fd old events EV_CHANGE_DEL) = (b', r)"
      using that by (auto simp: epollops_def epoll_nochangelist_del_def Let_def direct_change_def split: prod.splits)
    note ok = direct_change_ok [OF o, where fd = fd and events = events and a = EV_CHANGE_DEL]
    have n: "change_ok (direct_change fd old events EV_CHANGE_DEL)"
      "net (direct_change fd old events EV_CHANGE_DEL) f \<longleftrightarrow> \<not> has events f \<and> has old f"
      using ok(1) ok(2) [OF _ _ f] by auto
    have "epoll_enabled interest b' x f \<longleftrightarrow> (if r = 0 \<and> x = fd then net (direct_change fd old events EV_CHANGE_DEL) f
        else epoll_enabled interest b x f)"
      using apply_enabled [OF K n(1) ap f, of x] old ok(3,4) by simp
    then show ?thesis using epoll_apply_one_change_ok(2) [OF K n(1) ap] old [OF f] n(2) K by auto
  qed
qed

subsection \<open>A batch of changes\<close>

datatype io_op = IoAdd nat u16 | IoDel nat u16



fun op_ok :: "evmap_io option list \<Rightarrow> io_op \<Rightarrow> bool" where
  "op_ok m (IoAdd fd ev) \<longleftrightarrow> fdinfo_at m fd \<noteq> None \<and> \<not> has ev EV_SIGNAL"
| "op_ok m (IoDel fd ev) \<longleftrightarrow> fdinfo_at m fd \<noteq> None \<and> \<not> has ev EV_SIGNAL"

lemma op_ok_set [simp]: "op_ok (set_fdinfo m fd p) op = op_ok m op"
  by (cases op) auto









subsection \<open>Properties\<close>

text \<open>A kernel that behaves as documented, for the witnesses.\<close>

definition ref_ctl :: "(int \<Rightarrow> int \<Rightarrow> u32 option) \<Rightarrow> int \<Rightarrow> int \<Rightarrow> int \<Rightarrow> u32 \<Rightarrow> (int \<Rightarrow> int \<Rightarrow> u32 option) \<times> errno option" where
  "ref_ctl k ep op fd ev =
     (if op = EPOLL_CTL_ADD then
        if k ep fd = None then (k(ep := (k ep)(fd \<mapsto> ev)), None) else (k, Some EEXIST)
      else if op = EPOLL_CTL_MOD then
        if k ep fd = None then (k, Some ENOENT) else (k(ep := (k ep)(fd \<mapsto> ev)), None)
      else if op = EPOLL_CTL_DEL then
        if k ep fd = None then (k, Some ENOENT) else (k(ep := (k ep)(fd := None)), None)
      else (k, Some EINVAL))"

definition ref_sys :: "(int \<Rightarrow> int \<Rightarrow> u32 option) epoll_sys" where
  "ref_sys = \<lparr>sys_epoll_create1 = \<lambda>k. (k, 3), sys_epoll_create = \<lambda>k. (k, 3), sys_epoll_ctl = ref_ctl,
     sys_epoll_wait = \<lambda>k ep n t. (k, Inr []), sys_timerfd_create = \<lambda>k. (k, -1),
     sys_timerfd_settime = \<lambda>k fd t. k, sys_close = \<lambda>k fd. k(fd := Map.empty)\<rparr>"

lemma ref_kernel_ok: "kernel_ok ref_sys (\<lambda>k. k)"
  unfolding kernel_ok_def by (auto simp: ref_sys_def ref_ctl_def split: if_splits)

definition ref_epollop :: "(int \<Rightarrow> int \<Rightarrow> u32 option) epollop" where
  "ref_epollop = \<lparr>kern = \<lambda>_. Map.empty, nevents = 32, epfd = 3, timerfd = -1,
     ep_changelist = \<lparr>changes = [], changes_size = 0, cl_mm = \<lambda>_. True, cl_mm_calls = 0, cl_died = False\<rparr>,
     ep_mm = \<lambda>_. True, ep_mm_calls = 0, ep_died = False\<rparr>"

text \<open>C21: every entry of the table of operations that a change can select is the one the generator
  script describes for the events enabled before and the kinds of the three changes.\<close>

theorem epoll_table_rows:
  "length epoll_op_table = 512 \<and> EPOLL_OP_TABLE_INDEX ch < 512 \<and>
   epoll_op_table ! EPOLL_OP_TABLE_INDEX ch =
     get_row (old_of (old_events ch)) (kind_of (write_change ch)) (kind_of (read_change ch)) (kind_of (close_change ch))"
  using table_row [of ch] unfolding index_eq
  by (simp add: table_is_generated generated_table_def length_concat)

text \<open>C20: making one change on the kernel touches no field of the backend but the kernel and fails no
  assertion; if it reports success, the kernel watches exactly what the change and the events enabled
  before it ask for (nothing is sent when it asks for nothing), and if it reports failure the kernel
  watches what it did before.  The guess between adding and modifying may be wrong.\<close>

theorem epoll_change_sets_interest:
  assumes "kernel_ok sys interest" "change_ok ch" "epoll_apply_one_change sys ep ch = (ep', r)"
  shows "ep' = ep\<lparr>kern := kern ep'\<rparr> \<and> r \<in> {-1, 0} \<and>
    interest (kern ep') (epfd ep) =
      (if asks ch \<and> r = 0 then (interest (kern ep) (epfd ep))(change_fd ch := target ch)
       else interest (kern ep) (epfd ep))"
  using epoll_apply_one_change_ok [OF assms] by blast

theorem epoll_change_sets_interest_witness:
  "(let ch = \<lparr>change_fd = 5, old_events = EV_READ, read_change = 0, write_change = EV_CHANGE_ADD, close_change = 0\<rparr>;
        (ep', r) = epoll_apply_one_change ref_sys ref_epollop ch
    in r = 0 \<and> kern ep' 3 5 = Some (EPOLLIN OR EPOLLOUT))"
proof -
  let ?ch = "\<lparr>change_fd = 5, old_events = EV_READ, read_change = 0, write_change = EV_CHANGE_ADD, close_change = 0\<rparr>"
  obtain ep' r where a: "epoll_apply_one_change ref_sys ref_epollop ?ch = (ep', r)" by force
  have c: "change_ok ?ch" by (simp add: change_ok_def change_for_def)
  have t: "asks ?ch" "target ?ch = Some (EPOLLIN OR EPOLLOUT)"
    by (simp_all add: asks_def target_def epoll_bits_def net_def change_for_def)
  have "r = 0"
    using a unfolding epoll_apply_one_change_def Let_def table_row
    by (simp add: get_row_def old_of_def kind_of_def ref_sys_def ref_ctl_def ref_epollop_def epoll_retry_def)
  then show ?thesis
    using epoll_change_sets_interest [OF ref_kernel_ok c a] t a by (simp add: ref_epollop_def)
qed






end
