(* ===== verification/Event_Setup.thy ===== *)
theory Event_Setup
  imports Event_Loop Event_Iter Timeout_Inv Epoll
begin

text \<open>
  Making and freeing a base (\<^verbatim>\<open>event.c\<close>): configurations, the choice of a backend,
  \<^verbatim>\<open>event_base_new_with_config\<close> and \<^verbatim>\<open>event_base_free\<close>.  The list of backends, the
  environment and what the system says about its clocks are arguments.
\<close>

subsection \<open>Configurations\<close>

record event_config =
  avoid_methods :: "string list"
  n_cpus_hint :: int
  max_dispatch_interval :: timeval
  cfg_max_dispatch_callbacks :: int
  cfg_limit_callbacks_after_prio :: int
  require_features :: u32
  cfg_flags :: u16

text \<open>The flags \<open>ok\<close> and \<open>ok2\<close> give the outcomes of the allocations.\<close>

definition event_config_new :: "bool \<Rightarrow> event_config option" where
  "event_config_new ok =
     (if ok then Some \<lparr>avoid_methods = [], n_cpus_hint = 0, max_dispatch_interval = Timeval (-1) 0,
        cfg_max_dispatch_callbacks = INT_MAX, cfg_limit_callbacks_after_prio = 1, require_features = 0, cfg_flags = 0\<rparr>
      else None)"

definition event_config_set_flag :: "event_config \<Rightarrow> u16 \<Rightarrow> event_config \<times> int" where
  "event_config_set_flag cfg flag = (cfg\<lparr>cfg_flags := cfg_flags cfg OR flag\<rparr>, 0)"

definition event_config_avoid_method :: "bool \<Rightarrow> bool \<Rightarrow> event_config \<Rightarrow> string \<Rightarrow> event_config \<times> int" where
  "event_config_avoid_method ok ok2 cfg method =
     (if \<not> ok then (cfg, -1) else if \<not> ok2 then (cfg, -1)
      else (cfg\<lparr>avoid_methods := avoid_methods cfg @ [method]\<rparr>, 0))"

definition event_config_require_features :: "event_config \<Rightarrow> u32 \<Rightarrow> event_config \<times> int" where
  "event_config_require_features cfg features = (cfg\<lparr>require_features := features\<rparr>, 0)"

definition event_config_set_num_cpus_hint :: "event_config \<Rightarrow> int \<Rightarrow> event_config \<times> int" where
  "event_config_set_num_cpus_hint cfg cpus = (cfg\<lparr>n_cpus_hint := cpus\<rparr>, 0)"

definition event_config_set_max_dispatch_interval ::
  "event_config \<Rightarrow> timeval option \<Rightarrow> int \<Rightarrow> int \<Rightarrow> event_config \<times> int" where
  "event_config_set_max_dispatch_interval cfg max_interval max_callbacks min_priority =
     (let cfg1 = cfg\<lparr>max_dispatch_interval :=
            (case max_interval of Some tv \<Rightarrow> tv | None \<Rightarrow> Timeval (-1) (tv_usec (max_dispatch_interval cfg)))\<rparr>
      in (cfg1\<lparr>cfg_max_dispatch_callbacks := (if max_callbacks \<ge> 0 then max_callbacks else INT_MAX),
               cfg_limit_callbacks_after_prio := (if min_priority < 0 then 0 else min_priority)\<rparr>, 0))"

definition event_config_is_avoided_method :: "event_config \<Rightarrow> string \<Rightarrow> bool" where
  "event_config_is_avoided_method cfg method \<longleftrightarrow> method \<in> set (avoid_methods cfg)"

definition EVUTIL_TOUPPER :: "char \<Rightarrow> char" where
  "EVUTIL_TOUPPER c = (if of_char c \<ge> (97 :: nat) \<and> of_char c \<le> (122 :: nat) then char_of (of_char c - 32 :: nat) else c)"

text \<open>\<^verbatim>\<open>snprintf\<close> into 64 bytes cuts the name of the variable to 63 characters.\<close>

definition event_is_method_disabled :: "(string \<Rightarrow> bool) \<Rightarrow> string \<Rightarrow> bool" where
  "event_is_method_disabled getenv name =
     (let environment = take 63 (''EVENT_NO'' @ name)
      in getenv (take 8 environment @ map EVUTIL_TOUPPER (drop 8 environment)))"

subsection \<open>A new base\<close>

text \<open>\<^verbatim>\<open>struct eventop\<close> with the operations that are used only here.  \<open>be_init\<close> gets the
  base, which it may change, and returns the private data or \<open>None\<close> for NULL.\<close>

record 'b backend =
  be_name :: string
  be_features :: u32
  be_ops :: "'b eventop"
  be_init :: "'b event_base \<Rightarrow> 'b event_base \<times> 'b option"

definition backend_allowed :: "(string \<Rightarrow> bool) \<Rightarrow> bool \<Rightarrow> event_config option \<Rightarrow> 'b backend \<Rightarrow> bool" where
  "backend_allowed getenv should_check_environment cfg be \<longleftrightarrow>
     (case cfg of None \<Rightarrow> True
      | Some c \<Rightarrow> \<not> event_config_is_avoided_method c (be_name be) \<and>
          be_features be AND require_features c = require_features c) \<and>
     \<not> (should_check_environment \<and> event_is_method_disabled getenv (be_name be))"

fun choose_backend :: "('b backend \<Rightarrow> bool) \<Rightarrow> 'b backend list \<Rightarrow> 'b event_base \<Rightarrow> 'b event_base \<times> bool" where
  "choose_backend allowed [] base = (base, False)"
| "choose_backend allowed (be # bes) base =
     (if \<not> allowed be then choose_backend allowed bes base
      else case be_init be (base\<lparr>evsel := be_ops be\<rparr>) of
             (base1, Some b) \<Rightarrow> (base1\<lparr>evbase := b\<rparr>, True)
           | (base1, None) \<Rightarrow> choose_backend allowed bes base1)"

definition configure_dispatch :: "event_config option \<Rightarrow> 'b event_base \<Rightarrow> 'b event_base" where
  "configure_dispatch cfg base =
     (let base1 = (case cfg of
            Some c \<Rightarrow> base\<lparr>max_dispatch_time := max_dispatch_interval c,
                           limit_callbacks_after_prio := cfg_limit_callbacks_after_prio c\<rparr>
          | None \<Rightarrow> base\<lparr>max_dispatch_time := Timeval (-1) (tv_usec (max_dispatch_time base)),
                         limit_callbacks_after_prio := 1\<rparr>);
          base2 = base1\<lparr>max_dispatch_callbacks :=
            (case cfg of Some c \<Rightarrow> if cfg_max_dispatch_callbacks c \<ge> 0 then cfg_max_dispatch_callbacks c else INT_MAX
             | None \<Rightarrow> INT_MAX)\<rparr>
      in if max_dispatch_callbacks base2 = INT_MAX \<and> tv_sec (max_dispatch_time base2) = -1
         then base2\<lparr>limit_callbacks_after_prio := INT_MAX\<rparr> else base2)"

abbreviation CFG_IGNORE_ENV :: u16 where "CFG_IGNORE_ENV \<equiv> 0x02"

definition configure_clock :: "(string \<Rightarrow> bool) \<Rightarrow> bool \<Rightarrow> bool \<Rightarrow> event_config option \<Rightarrow> 'b event_base \<Rightarrow> 'b event_base" where
  "configure_clock getenv coarse_ok mono_ok cfg base =
     (let base0 = (case cfg of Some c \<Rightarrow> base\<lparr>base_flags := cfg_flags c\<rparr> | None \<Rightarrow> base);
          should_check_environment = (case cfg of None \<Rightarrow> True | Some c \<Rightarrow> \<not> has (cfg_flags c) CFG_IGNORE_ENV);
          precise_time = (case cfg of None \<Rightarrow> False | Some c \<Rightarrow> has (cfg_flags c) EVENT_BASE_FLAG_PRECISE_TIMER);
          (precise, base1) =
            (if should_check_environment \<and> \<not> precise_time
             then (getenv ''EVENT_PRECISE_TIMER'', base0\<lparr>base_flags := base_flags base0 OR EVENT_BASE_FLAG_PRECISE_TIMER\<rparr>)
             else (precise_time, base0));
          base2 = base1\<lparr>monotonic_timer :=
            evutil_configure_monotonic_time coarse_ok mono_ok (monotonic_timer base1) precise False\<rparr>
      in fst (gettime base2))"

subsection \<open>Freeing a base\<close>

definition event_base_cancel_single_callback ::
  "'b callbacks \<Rightarrow> 'b event_base \<Rightarrow> ev_ptr \<Rightarrow> bool \<Rightarrow> 'b event_base \<times> int" where
  "event_base_cancel_single_callback ucb base evcb run_finalizers =
     (let (base1, result) =
        (if has (flags_of base evcb) EVLIST_INIT then
           if \<not> has (flags_of base evcb) EVLIST_INTERNAL
           then (fst (event_del_mode base evcb EVENT_DEL_EVEN_IF_FINALIZING), 1)
           else (base, 0)
         else (fst (event_callback_cancel_nolock base evcb True), 1));
          e = mem base1 evcb
      in if run_finalizers \<and> has (ev_flags e) EVLIST_FINALIZING then
           case ev_closure e of
             EV_CLOSURE_EVENT_FINALIZE \<Rightarrow> (invoke ucb (Call_evfinalize (ev_callback e) evcb (ev_arg e)) base1, result)
           | EV_CLOSURE_EVENT_FINALIZE_FREE \<Rightarrow> (invoke ucb (Call_evfinalize (ev_callback e) evcb (ev_arg e)) base1, result)
           | EV_CLOSURE_CB_FINALIZE \<Rightarrow> (invoke ucb (Call_cbfinalize (ev_callback e) evcb (ev_arg e)) base1, result)
           | _ \<Rightarrow> (base1, result)
         else (base1, result))"

text \<open>\<^verbatim>\<open>TAILQ_NEXT\<close>.\<close>

fun list_next :: "'a \<Rightarrow> 'a list \<Rightarrow> 'a option" where
  "list_next x [] = None"
| "list_next x (y # ys) = (if x = y then (case ys of [] \<Rightarrow> None | z # _ \<Rightarrow> Some z) else list_next x ys)"

partial_function (option) free_active_loop ::
  "'b callbacks \<Rightarrow> 'b event_base \<Rightarrow> bool \<Rightarrow> nat \<Rightarrow> ev_ptr option \<Rightarrow> int \<Rightarrow> ('b event_base \<times> int) option" where
  "free_active_loop ucb base run_finalizers i evcb n_deleted =
     (case evcb of
        None \<Rightarrow> Some (base, n_deleted)
      | Some cb \<Rightarrow>
          let nxt = list_next cb (activequeues base ! i);
              r = event_base_cancel_single_callback ucb base cb run_finalizers
          in free_active_loop ucb (fst r) run_finalizers i nxt (n_deleted + snd r))"

partial_function (option) free_actives ::
  "'b callbacks \<Rightarrow> 'b event_base \<Rightarrow> bool \<Rightarrow> nat \<Rightarrow> int \<Rightarrow> ('b event_base \<times> int) option" where
  "free_actives ucb base run_finalizers i n_deleted =
     (if i < nactivequeues base then
        Option.bind (free_active_loop ucb base run_finalizers i
            (case activequeues base ! i of [] \<Rightarrow> None | cb # _ \<Rightarrow> Some cb) n_deleted)
          (\<lambda>(base1, d). free_actives ucb base1 run_finalizers (i + 1) d)
      else Some (base, n_deleted))"

partial_function (option) free_later_loop ::
  "'b callbacks \<Rightarrow> 'b event_base \<Rightarrow> bool \<Rightarrow> int \<Rightarrow> ('b event_base \<times> int) option" where
  "free_later_loop ucb base run_finalizers n_deleted =
     (case active_later_queue base of
        [] \<Rightarrow> Some (base, n_deleted)
      | cb # _ \<Rightarrow>
          let r = event_base_cancel_single_callback ucb base cb run_finalizers
          in free_later_loop ucb (fst r) run_finalizers (n_deleted + snd r))"

definition event_base_free_queues :: "'b callbacks \<Rightarrow> 'b event_base \<Rightarrow> bool \<Rightarrow> ('b event_base \<times> int) option" where
  "event_base_free_queues ucb base run_finalizers =
     Option.bind (free_actives ucb base run_finalizers 0 0)
       (\<lambda>(base1, n_deleted). free_later_loop ucb base1 run_finalizers n_deleted)"

partial_function (option) free_timers :: "'b event_base \<Rightarrow> 'b event_base option" where
  "free_timers base =
     (case min_heap_top (timeheap base) of
        None \<Rightarrow> Some base
      | Some ev \<Rightarrow> free_timers (fst (event_del base ev)))"

partial_function (option) free_ctl_loop :: "'b event_base \<Rightarrow> nat \<Rightarrow> ev_ptr option \<Rightarrow> 'b event_base option" where
  "free_ctl_loop base i ev =
     (case ev of
        None \<Rightarrow> Some base
      | Some e \<Rightarrow>
          let nxt = list_next e (ctl_events (common_timeout_queues base ! i))
          in free_ctl_loop (if \<not> has (flags_of base e) EVLIST_INTERNAL then fst (event_del base e) else base) i nxt)"

partial_function (option) free_ctls :: "'b event_base \<Rightarrow> nat \<Rightarrow> 'b event_base option" where
  "free_ctls base i =
     (if i < n_common_timeouts base then
        let base1 = fst (event_del base (timeout_event (common_timeout_queues base ! i)))
        in Option.bind (free_ctl_loop base1 i (case ctl_events (common_timeout_queues base1 ! i) of [] \<Rightarrow> None | e # _ \<Rightarrow> Some e))
             (\<lambda>base2. free_ctls base2 (i + 1))
      else Some base)"

partial_function (option) free_queues_loop :: "'b callbacks \<Rightarrow> 'b event_base \<Rightarrow> bool \<Rightarrow> 'b event_base option" where
  "free_queues_loop ucb base run_finalizers =
     Option.bind (event_base_free_queues ucb base run_finalizers)
       (\<lambda>(base1, n). if n = 0 then Some base1 else free_queues_loop ucb base1 run_finalizers)"

text \<open>The base just before its memory is given back; \<open>dealloc\<close> is the backend's.\<close>

definition event_base_free_impl ::
  "'b callbacks \<Rightarrow> ('b event_base \<Rightarrow> 'b event_base) \<Rightarrow> 'b event_base \<Rightarrow> bool \<Rightarrow> 'b event_base option" where
  "event_base_free_impl ucb dealloc base run_finalizers =
     Option.bind (evmap_delete_all base) (\<lambda>base1.
     Option.bind (free_timers base1) (\<lambda>base2.
     Option.bind (free_ctls base2 0) (\<lambda>base3.
     Option.bind (free_queues_loop ucb base3 run_finalizers) (\<lambda>base4.
       let base5 = dealloc (base4\<lparr>once_events := []\<rparr>);
           base6 = check (\<forall>q \<in> set (activequeues base5). q = []) base5;
           base7 = check (min_heap_empty (timeheap base6)) base6
       in Some (base7\<lparr>timeheap := min_heap_ctor, activequeues := [], io := [], sigmap := []\<rparr>)))))"

definition event_base_free :: "'b callbacks \<Rightarrow> ('b event_base \<Rightarrow> 'b event_base) \<Rightarrow> 'b event_base \<Rightarrow> 'b event_base option" where
  "event_base_free ucb dealloc base = event_base_free_impl ucb dealloc base True"

definition event_base_free_nofinalize :: "'b callbacks \<Rightarrow> ('b event_base \<Rightarrow> 'b event_base) \<Rightarrow> 'b event_base \<Rightarrow> 'b event_base option" where
  "event_base_free_nofinalize ucb dealloc base = event_base_free_impl ucb dealloc base False"

subsection \<open>Making one\<close>

text \<open>The world and the base, or no base; \<open>None\<close> outside when freeing a base that cannot be
  made does not return.\<close>

definition event_base_new_with_config ::
  "'b callbacks \<Rightarrow> ('b event_base \<Rightarrow> 'b event_base) \<Rightarrow> (string \<Rightarrow> bool) \<Rightarrow> bool \<Rightarrow> bool \<Rightarrow> 'b backend list \<Rightarrow>
    event_config option \<Rightarrow> 'b event_base \<Rightarrow> ('b event_base \<times> bool) option" where
  "event_base_new_with_config ucb dealloc getenv coarse_ok mono_ok eventops cfg w =
     (case mm_alloc w of
        (w1, None) \<Rightarrow> Some (w1, False)
      | (w1, Some _) \<Rightarrow>
          let should_check_environment = (case cfg of None \<Rightarrow> True | Some c \<Rightarrow> \<not> has (cfg_flags c) CFG_IGNORE_ENV);
              base1 = configure_dispatch cfg (configure_clock getenv coarse_ok mono_ok cfg (calloc_base w1));
              (base2, found) = choose_backend (backend_allowed getenv should_check_environment cfg) eventops base1
          in if \<not> found then Option.bind (event_base_free ucb id base2) (\<lambda>b. Some (b, False))
             else case event_base_priority_init base2 1 of
               (base3, r) \<Rightarrow>
                 if r < 0 then Option.bind (event_base_free ucb dealloc base3) (\<lambda>b. Some (b, False))
                 else Some (base3, True))"

definition event_base_new ::
  "'b callbacks \<Rightarrow> ('b event_base \<Rightarrow> 'b event_base) \<Rightarrow> (string \<Rightarrow> bool) \<Rightarrow> bool \<Rightarrow> bool \<Rightarrow> 'b backend list \<Rightarrow>
    'b event_base \<Rightarrow> ('b event_base \<times> bool) option" where
  "event_base_new ucb dealloc getenv coarse_ok mono_ok eventops w =
     (case mm_alloc w of
        (w1, p) \<Rightarrow>
          case event_config_new (p \<noteq> None) of
            None \<Rightarrow> Some (w1, False)
          | Some cfg \<Rightarrow> event_base_new_with_config ucb dealloc getenv coarse_ok mono_ok eventops (Some cfg) w1)"

definition event_gettime_monotonic :: "'b event_base \<Rightarrow> 'b event_base \<times> timeval option" where
  "event_gettime_monotonic base =
     (case evutil_gettime_monotonic (wall base (clk_reads base)) (mclk base (clk_reads base)) (monotonic_timer base) of
        (t, r) \<Rightarrow> (base\<lparr>monotonic_timer := t, clk_reads := clk_reads base + 1\<rparr>, r))"

definition event_get_supported_methods :: "'b backend list \<Rightarrow> bool \<Rightarrow> string list option" where
  "event_get_supported_methods eventops ok = (if ok then Some (map be_name eventops) else None)"

subsection \<open>A new base is well-formed\<close>

text \<open>No event is pending or active.\<close>

definition idle :: "'b event_base \<Rightarrow> bool" where
  "idle base \<longleftrightarrow> (\<forall>e. \<not> has (flags_of base e) (NOT (EVLIST_INIT OR EVLIST_INTERNAL)))"

text \<open>The fields \<^verbatim>\<open>mm_calloc\<close> leaves empty and the setup does not touch.\<close>

definition blank :: "'b event_base \<Rightarrow> bool" where
  "blank base \<longleftrightarrow> active_later_queue base = [] \<and> common_timeout_queues base = [] \<and> io base = [] \<and> sigmap base = [] \<and>
     timeheap base = min_heap_ctor \<and> event_count base = 0 \<and> event_count_max base = 0 \<and> event_count_active base = 0 \<and>
     event_count_active_max base = 0 \<and> \<not> died base"

lemma idleD:
  assumes "idle base"
  shows "\<not> has (flags_of base e) EVLIST_TIMEOUT" "\<not> has (flags_of base e) EVLIST_INSERTED"
    "\<not> has (flags_of base e) EVLIST_ACTIVE" "\<not> has (flags_of base e) EVLIST_ACTIVE_LATER"
    "\<not> has (flags_of base e) EVLIST_FINALIZING" "\<not> has (flags_of base e) (NOT EVLIST_ALL)"
proof -
  have sub: "\<not> has (flags_of base e) m" if "m AND NOT (EVLIST_INIT OR EVLIST_INTERNAL) = m" for m
  proof -
    have "flags_of base e AND m = (flags_of base e AND NOT (EVLIST_INIT OR EVLIST_INTERNAL)) AND m"
      by (subst that [symmetric]) (simp add: and.assoc and.commute and.left_commute)
    also have "\<dots> = 0" using assms by (simp add: idle_def has_def)
    finally show ?thesis by (simp add: has_def)
  qed
  show "\<not> has (flags_of base e) EVLIST_TIMEOUT" "\<not> has (flags_of base e) EVLIST_INSERTED"
    "\<not> has (flags_of base e) EVLIST_ACTIVE" "\<not> has (flags_of base e) EVLIST_ACTIVE_LATER"
    "\<not> has (flags_of base e) EVLIST_FINALIZING" "\<not> has (flags_of base e) (NOT EVLIST_ALL)"
    by (rule sub, simp)+
qed

lemma blank_base_ok:
  assumes i: "idle base" and b: "blank base" and q: "activequeues base = replicate n []" and c: "clocks_ok base"
  shows "base_ok base"
proof -
  have none: "flagged base f = {}" "counted base f = {}"
    if "f \<in> {EVLIST_INSERTED, EVLIST_ACTIVE, EVLIST_ACTIVE_LATER, EVLIST_TIMEOUT}" for f
    using idleD [OF i] that by (auto simp: flagged_def counted_def)
  have "queues_ok base" using idleD [OF i] b q by (auto simp: queues_ok_def blank_def)
  moreover have "timers_ok base"
    using idleD [OF i] b
    by (simp add: timers_ok_def blank_def heap_wf_def heap_idx_def heap_ord_def heap_mset_def heap_list_def min_heap_ctor_def)
  moreover have "counts_ok base" using none b by (simp add: counts_ok_def blank_def)
  moreover have "event_ok base e" for e using idleD [OF i, of e] by (simp add: event_ok_def)
  ultimately have "core_ok base" using b by (intro coreI) (simp_all add: blank_def)
  moreover have "maps_are base (flagged base EVLIST_INSERTED)"
    using b none [of EVLIST_INSERTED] by (simp add: maps_are_def io_are_def sig_are_def io_at_def sig_at_def blank_def)
  ultimately show ?thesis
    using idleD(1) [OF i] b c by (simp add: base_ok_def wf_base_def queue_timers_ok_def deadlines_ok_def blank_def)
qed

lemma configure_dispatch_frame [simp]:
  "mem (configure_dispatch cfg base) = mem base" "activequeues (configure_dispatch cfg base) = activequeues base"
  "blank (configure_dispatch cfg base) = blank base" "clocks_ok (configure_dispatch cfg base) = clocks_ok base"
  "mm (configure_dispatch cfg base) = mm base"
  by (simp_all add: configure_dispatch_def Let_def blank_def clocks_ok_def split: option.split)

lemma gettime_frame:
  "mem (fst (gettime base)) = mem base" "activequeues (fst (gettime base)) = activequeues base"
  "blank (fst (gettime base)) = blank base" "mm (fst (gettime base)) = mm base"
  by (auto simp: gettime_def Let_def blank_def split: prod.splits option.splits)

lemma blank_upd [simp]:
  "blank (base\<lparr>base_flags := f\<rparr>) = blank base" "blank (base\<lparr>monotonic_timer := t\<rparr>) = blank base"
  by (simp_all add: blank_def)

lemma configure_clock_frame:
  "mem (configure_clock g a b cfg base) = mem base" "activequeues (configure_clock g a b cfg base) = activequeues base"
  "blank (configure_clock g a b cfg base) = blank base" "mm (configure_clock g a b cfg base) = mm base"
  by (simp_all add: configure_clock_def Let_def gettime_frame split: option.split)

lemma configure_clock_ok:
  assumes "clocks_ok base"
  shows "clocks_ok (configure_clock g a b cfg base)"
proof -
  have t: "timer_norm (evutil_configure_monotonic_time x y t p q) = timer_norm t" for x y t p q
    by (simp add: evutil_configure_monotonic_time_def timer_norm_def)
  have "fst (gettime_now b) = fst (gettime b)" for b :: "'a event_base"
    by (simp add: gettime_now_def split: prod.splits option.splits)
  then have g: "clocks_ok b \<Longrightarrow> clocks_ok (fst (gettime b))" for b :: "'a event_base"
    using gettime_now_clocks(2) [of b] by simp
  have u: "clocks_ok (base\<lparr>base_flags := f, monotonic_timer := evutil_configure_monotonic_time x y (monotonic_timer base) p q\<rparr>)"
    "clocks_ok (base\<lparr>monotonic_timer := evutil_configure_monotonic_time x y (monotonic_timer base) p q\<rparr>)" for f x y p q
    using assms by (simp_all add: clocks_ok_def t)
  show ?thesis
    unfolding configure_clock_def Let_def
    by (cases cfg) (simp_all add: g u)
qed

text \<open>What a backend may do to the base when it is set up: install operations for signals, replace its
  own, allocate, and set up events that are not pending.\<close>

definition init_ok :: "'b backend \<Rightarrow> bool" where
  "init_ok be \<longleftrightarrow> (\<forall>base base' r. be_init be base = (base', r) \<longrightarrow>
     base' = base\<lparr>mem := mem base', evsel := evsel base', evsigsel := evsigsel base', mm_calls := mm_calls base'\<rparr> \<and>
     (idle base \<longrightarrow> idle base'))"

lemma choose_backend_ok:
  assumes "\<And>be. be \<in> set bes \<Longrightarrow> init_ok be" "choose_backend allowed bes base = (base', found)" "idle base"
  shows "idle base' \<and> blank base' = blank base \<and> activequeues base' = activequeues base \<and> clocks_ok base' = clocks_ok base"
  using assms
proof (induction allowed bes base rule: choose_backend.induct)
  case (2 allowed be bes base)
  show ?case
  proof (cases "allowed be")
    case False
    then show ?thesis using 2 by simp
  next
    case True
    obtain b1 r where b1: "be_init be (base\<lparr>evsel := be_ops be\<rparr>) = (b1, r)" by force
    have io: "init_ok be" using 2(3) by simp
    have i0: "idle (base\<lparr>evsel := be_ops be\<rparr>)" using 2(5) by (simp add: idle_def)
    note f = io [unfolded init_ok_def, rule_format, OF b1]
    have i1: "idle b1" using f i0 by blast
    obtain m v s k where "b1 = base\<lparr>mem := m, evsel := v, evsigsel := s, mm_calls := k\<rparr>"
      using conjunct1 [OF f] by simp
    then have fr: "blank b1 = blank base" "activequeues b1 = activequeues base" "clocks_ok b1 = clocks_ok base"
      by (simp_all add: blank_def clocks_ok_def)
    show ?thesis
    proof (cases r)
      case None
      have "choose_backend allowed bes b1 = (base', found)" using 2(4) True b1 None by simp
      from 2(2) [OF _ b1 [symmetric] None _ this i1] True 2(3) show ?thesis unfolding fr by simp
    next
      case (Some d)
      then have "base' = b1\<lparr>evbase := d\<rparr>" using 2(4) True b1 by simp
      then show ?thesis unfolding fr [symmetric] using i1 by (simp add: idle_def blank_def clocks_ok_def)
    qed
  qed
qed simp

lemma calloc_base_ok:
  assumes "idle w" "\<not> died w"
  shows "idle (calloc_base w)" "blank (calloc_base w)" "activequeues (calloc_base w) = []" "mm (calloc_base w) = mm w"
  using assms by (simp_all add: calloc_base_def idle_def blank_def)

lemma priority_init_new:
  assumes "activequeues base = []" "N_ACTIVE_CALLBACKS base = 0" "event_base_priority_init base 1 = (base', r)" "\<not> r < 0"
  shows "activequeues base' = [[]] \<and> (idle base \<longrightarrow> idle base') \<and> (blank base \<longrightarrow> blank base') \<and>
    (clocks_ok base \<longrightarrow> clocks_ok base')"
  using assms
  by (auto simp: event_base_priority_init_def mm_alloc_def Let_def idle_def blank_def clocks_ok_def
      split: if_splits prod.splits option.splits)

lemma mm_alloc_keeps: "mm_alloc w = (w1, r) \<Longrightarrow> w1 = w\<lparr>mm_calls := mm_calls w + 1\<rparr>"
  by (auto simp: mm_alloc_def Let_def)

lemma event_base_new_blank:
  assumes "event_base_new_with_config ucb dealloc getenv coarse_ok mono_ok eventops cfg w = Some (base, True)"
    and "\<And>be. be \<in> set eventops \<Longrightarrow> init_ok be"
    and "idle w" "\<not> died w" "clocks_ok (calloc_base w)"
  shows "activequeues base = [[]]" "idle base" "blank base" "clocks_ok base"
proof -
  obtain w1 p where w1: "mm_alloc w = (w1, Some p)"
    using assms(1) by (cases "mm_alloc w") (auto simp: event_base_new_with_config_def split: option.splits)
  note k = mm_alloc_keeps [OF w1]
  have c: "idle (calloc_base w1)" "blank (calloc_base w1)" "activequeues (calloc_base w1) = []" "clocks_ok (calloc_base w1)"
    using assms(3-5) by (simp_all add: k calloc_base_def idle_def blank_def clocks_ok_def)
  define b1 where "b1 = configure_dispatch cfg (configure_clock getenv coarse_ok mono_ok cfg (calloc_base w1))"
  have i1: "idle b1" "blank b1" "activequeues b1 = []" "clocks_ok b1"
    using c by (simp_all add: b1_def idle_def configure_clock_frame configure_clock_ok)
  obtain al b2 found where ch: "choose_backend al eventops b1 = (b2, found)"
    and al: "al = backend_allowed getenv (case cfg of None \<Rightarrow> True | Some c \<Rightarrow> \<not> has (cfg_flags c) CFG_IGNORE_ENV) cfg"
    by (metis surj_pair)
  note i2 = choose_backend_ok [OF assms(2) ch i1(1)]
  obtain r where "event_base_priority_init b2 1 = (base, r)" "\<not> r < 0"
    using assms(1) ch unfolding event_base_new_with_config_def Let_def w1 al b1_def
    by (auto split: if_splits prod.splits simp: Option.bind_eq_Some_conv)
  from priority_init_new [OF _ _ this] i1 i2
  show "activequeues base = [[]]" "idle base" "blank base" "clocks_ok base"
    by (simp_all add: blank_def)
qed

text \<open>C22: When \<^verbatim>\<open>event_base_new_with_config\<close> returns a base, that base satisfies the full invariant
  of the event core (queues, timers, counters, maps and clocks), has one priority and nothing pending:
  whatever configuration, environment and backend list it was given, provided each backend's
  \<^verbatim>\<open>init\<close> leaves no event pending and the clock reads are normalised.\<close>

theorem event_base_new_ok:
  assumes "event_base_new_with_config ucb dealloc getenv coarse_ok mono_ok eventops cfg w = Some (base, True)"
    and "\<And>be. be \<in> set eventops \<Longrightarrow> init_ok be"
    and "idle w" "\<not> died w" "clocks_ok (calloc_base w)"
  shows "base_ok base \<and> nactivequeues base = 1 \<and> idle base"
  using event_base_new_blank [OF assms] blank_base_ok [of base 1] by simp

text \<open>A list with only the epoll backend, on the reference kernel.\<close>

definition ref_backend :: "(int \<Rightarrow> int \<Rightarrow> u32 option) epollop backend" where
  "ref_backend = \<lparr>be_name = ''epoll'', be_features = 0x0b, be_ops = epollops ref_sys,
     be_init = \<lambda>base. (base, map_option fst (snd (epoll_init ref_sys (base_flags base) 0 False (\<lambda>_. True) (\<lambda>_. Map.empty))))\<rparr>"

definition ref_world :: "(int \<Rightarrow> int \<Rightarrow> u32 option) epollop event_base" where
  "ref_world = sample_world (epollops ref_sys) ref_epollop"

lemma ref_backend_ok: "init_ok ref_backend"
  by (simp add: init_ok_def ref_backend_def)

lemma ref_world_ok: "idle ref_world" "\<not> died ref_world" "clocks_ok (calloc_base ref_world)"
  by (simp_all add: ref_world_def sample_world_def idle_def zero_event_def clocks_ok_def calloc_base_def timer_norm_def tv_norm_def)

lemma ref_backend_found:
  "\<exists>b. choose_backend (backend_allowed (\<lambda>_. False) c None) [ref_backend] base = (b, True) \<and> mm b = mm base \<and>
     activequeues b = activequeues base \<and> N_ACTIVE_CALLBACKS b = N_ACTIVE_CALLBACKS base"
proof -
  obtain ep c where "snd (epoll_init ref_sys (base_flags (base\<lparr>evsel := be_ops ref_backend\<rparr>)) 0 False (\<lambda>_. True) (\<lambda>_. Map.empty)) = Some (ep, c)"
    by (simp add: epoll_init_def ref_sys_def Let_def case_prod_unfold)
  then have "be_init ref_backend (base\<lparr>evsel := be_ops ref_backend\<rparr>) = (base\<lparr>evsel := be_ops ref_backend\<rparr>, Some ep)"
    by (simp add: ref_backend_def)
  then show ?thesis by (simp add: backend_allowed_def event_is_method_disabled_def Let_def)
qed

lemma priority_init_succeeds:
  assumes "\<And>i. mm b i \<noteq> None" "activequeues b = []" "N_ACTIVE_CALLBACKS b = 0"
  shows "\<exists>b'. event_base_priority_init b 1 = (b', 0)"
  using assms by (auto simp: event_base_priority_init_def mm_alloc_def Let_def split: option.split)

lemma ref_base_new:
  "\<exists>base. event_base_new_with_config (\<lambda>_ b. b) id (\<lambda>_. False) True True [ref_backend] None ref_world = Some (base, True)"
proof -
  obtain w1 p where w1: "mm_alloc ref_world = (w1, Some p)" "mm w1 = mm ref_world" "died w1 = died ref_world" "idle w1"
    using ref_world_ok(1) by (auto simp: mm_alloc_def ref_world_def sample_world_def idle_def)
  let ?b1 = "configure_dispatch None (configure_clock (\<lambda>_. False) True True None (calloc_base w1))"
  obtain b2 where b2: "choose_backend (backend_allowed (\<lambda>_. False) True None) [ref_backend] ?b1 = (b2, True)"
    "mm b2 = mm ?b1" "activequeues b2 = activequeues ?b1" "N_ACTIVE_CALLBACKS b2 = N_ACTIVE_CALLBACKS ?b1"
    using ref_backend_found by blast
  have "blank ?b1" using w1 ref_world_ok(2) calloc_base_ok(2) [of w1] by (simp add: configure_clock_frame)
  then obtain b3 where "event_base_priority_init b2 1 = (b3, 0)"
    using priority_init_succeeds [of b2] b2 w1 calloc_base_ok [of w1] ref_world_ok(2)
    by (auto simp: configure_clock_frame blank_def ref_world_def sample_world_def)
  then show ?thesis using w1 b2 by (simp add: event_base_new_with_config_def Let_def)
qed

theorem event_base_new_ok_witness:
  "\<exists>base. event_base_new_with_config (\<lambda>_ b. b) id (\<lambda>_. False) True True [ref_backend] None ref_world = Some (base, True) \<and> base_ok base"
  using event_base_new_ok [OF _ _ ref_world_ok] ref_backend_ok ref_base_new by fastforce

end
