(* ===== verification/Event_Api.thy ===== *)
theory Event_Api
  imports Event_Setup
begin

text \<open>
  The life of a base: the calls a program may make on it between \<^verbatim>\<open>event_base_new\<close> and
  \<^verbatim>\<open>event_base_free\<close> as a step relation, each with what the interface asks of its caller, and
  the invariant of the event core shown for every base that can be reached.
\<close>

subsection \<open>What every operation keeps\<close>

text \<open>The timers of the common-timeout queues belong to the library; every other event is the
  program's.  A quiet event is on no queue and in no map.\<close>

abbreviation own_event :: "'b event_base \<Rightarrow> ev_ptr \<Rightarrow> bool" where
  "own_event base e \<equiv> e \<notin> queue_timers base"

definition quiet :: "'b event_base \<Rightarrow> ev_ptr \<Rightarrow> bool" where
  "quiet base e \<longleftrightarrow> \<not> has (flags_of base e) EVLIST_TIMEOUT \<and> \<not> has (flags_of base e) EVLIST_INSERTED \<and>
     \<not> has (flags_of base e) EVLIST_ACTIVE \<and> \<not> has (flags_of base e) EVLIST_ACTIVE_LATER"

definition one_kind :: "event \<Rightarrow> bool" where
  "one_kind e \<longleftrightarrow> \<not> (has (ev_events e) EV_SIGNAL \<and> io_kind e)"

text \<open>The duration of a common-timeout queue carries the number of the queue.\<close>

definition durations_ok :: "'b event_base \<Rightarrow> bool" where
  "durations_ok base \<longleftrightarrow> n_common_timeouts base \<le> MAX_COMMON_TIMEOUTS \<and>
     (\<forall>i < n_common_timeouts base. let d = ctl_duration (common_timeout_queues base ! i)
        in is_common_timeout d base \<and> COMMON_TIMEOUT_IDX d = i \<and> tv_ok base d)"

definition sound :: "'b event_base \<Rightarrow> bool" where
  "sound base \<longleftrightarrow> base_ok base \<and> kinds_ok base \<and> durations_ok base"

lemma durations_cong:
  assumes "durations_ok base" "map ctl_duration (common_timeout_queues base') = map ctl_duration (common_timeout_queues base)"
  shows "durations_ok base'"
proof -
  have n: "n_common_timeouts base' = n_common_timeouts base" using assms(2) by (metis length_map)
  have d: "ctl_duration (common_timeout_queues base' ! i) = ctl_duration (common_timeout_queues base ! i)"
    if "i < n_common_timeouts base" for i
    using assms(2) n that by (metis nth_map)
  show ?thesis using assms(1) d n tv_ok_cong [OF n] by (simp add: durations_ok_def Let_def is_common_timeout_def)
qed

lemma durations_frame: "durations_ok base \<Longrightarrow> untouched base base' \<Longrightarrow> durations_ok base'"
  by (rule durations_cong) (simp_all add: untouched_def)

lemma base_ok_frame:
  assumes ok: "base_ok base" and w: "wf_base base'" and u: "untouched base base'" and c: "clocks_ok base'"
    and t: "\<And>x. has (flags_of base' x) EVLIST_TIMEOUT \<Longrightarrow>
      has (flags_of base x) EVLIST_TIMEOUT \<and> tmo (mem base') x = tmo (mem base) x"
    and f: "\<And>x g. x \<in> queue_timers base \<Longrightarrow> g \<in> {EVLIST_FINALIZING, EVLIST_INTERNAL, EVLIST_INIT} \<Longrightarrow>
      has (flags_of base' x) g = has (flags_of base x) g"
  shows "base_ok base'"
proof -
  have q: "queue_timers_ok base" and d: "deadlines_ok base" using ok by (simp_all add: base_ok_def)
  have "queue_timer_ok base' x" if "x \<in> queue_timers base" for x
    using queue_timer_cong [OF _ u, of x] q that f [OF that] t [of x] unfolding queue_timers_ok_def by blast
  moreover have "deadlines_ok base'" by (rule deadlines_cong [OF d untouchedD(9) [OF u]]) (use t in blast)
  ultimately show ?thesis
    using w c untouched_queue_timers [OF u] unfolding base_ok_def queue_timers_ok_def by blast
qed

lemma kinds_frame:
  assumes "kinds_ok base" "untouched base base'"
    and "\<And>x. has (flags_of base' x) EVLIST_INSERTED \<Longrightarrow> has (flags_of base x) EVLIST_INSERTED \<or> one_kind (mem base x)"
  shows "kinds_ok base'"
  using assms(1,3) untouchedD(5) [OF assms(2)] unfolding kinds_ok_def one_kind_def io_kind_def by metis

lemma sound_frame:
  assumes s: "sound base" and "wf_base base'" "untouched base base'" "clocks_ok base'"
    and "\<And>x. has (flags_of base' x) EVLIST_TIMEOUT \<Longrightarrow>
      has (flags_of base x) EVLIST_TIMEOUT \<and> tmo (mem base') x = tmo (mem base) x"
    and "\<And>x. has (flags_of base' x) EVLIST_INSERTED \<Longrightarrow> has (flags_of base x) EVLIST_INSERTED"
    and "\<And>x g. x \<in> queue_timers base \<Longrightarrow> g \<in> {EVLIST_FINALIZING, EVLIST_INTERNAL, EVLIST_INIT} \<Longrightarrow>
      has (flags_of base' x) g = has (flags_of base x) g"
  shows "sound base'"
  using base_ok_frame [of base base'] kinds_frame [of base base'] durations_frame [of base base'] assms
  unfolding sound_def by blast

lemma soundD:
  assumes "sound base"
  shows "base_ok base" "wf_base base" "core_ok base" "clocks_ok base" "kinds_ok base" "queue_timers_ok base" "durations_ok base"
  using assms by (simp_all add: sound_def base_ok_def wf_base_def)

subsection \<open>Deleting and activating\<close>

lemma event_del_nolock_sound:
  assumes s: "sound base"
  shows "sound (fst (event_del_nolock base e m))" "untouched base (fst (event_del_nolock base e m))"
proof -
  let ?b = "fst (event_del_nolock base e m)"
  have "sound ?b \<and> untouched base ?b"
  proof (cases "ev_base (mem base e) = None \<or> m \<noteq> EVENT_DEL_EVEN_IF_FINALIZING \<and> has (flags_of base e) EVLIST_FINALIZING")
    case True
    then have "?b = base" by (auto simp: event_del_nolock_def)
    then show ?thesis using s by simp
  next
    case False
    then have b: "ev_base (mem base e) \<noteq> None" "has (flags_of base e) EVLIST_FINALIZING \<Longrightarrow> m = EVENT_DEL_EVEN_IF_FINALIZING"
      by auto
    note d = event_del_nolock_ok [OF soundD(2) [OF s] b surjective_pairing]
    have "tmo (mem ?b) x = tmo (mem base) x" for x using payload_fields(12) [OF d(5)] by simp
    then have "sound ?b"
      by (intro sound_frame [OF s d(1,3)]) (use soundD(4) [OF s] in \<open>auto simp: d(4) split: if_splits\<close>)
    then show ?thesis using d(3) by blast
  qed
  then show "sound ?b" "untouched base ?b" by blast+
qed

lemma event_active_nolock_sound:
  assumes s: "sound base" and p: "ev_pri (mem base e) < nactivequeues base"
  shows "sound (event_active_nolock base e res n)" "untouched base (event_active_nolock base e res n)"
proof -
  note a = event_active_nolock_ok [OF soundD(2) [OF s] p refl]
  show "untouched base (event_active_nolock base e res n)" by (rule a(2))
  have "tmo (mem (event_active_nolock base e res n)) x = tmo (mem base) x" for x
    using payload_fields(12) [OF a(4)] by simp
  then show "sound (event_active_nolock base e res n)"
    by (intro sound_frame [OF s a(1,2)]) (use soundD(4) [OF s] in \<open>auto simp: a(3) split: if_splits\<close>)
qed

lemma event_finalize_nolock_sound:
  assumes s: "sound base" and o: "own_event base e" and b: "ev_base (mem base e) \<noteq> None"
    and p: "ev_pri (mem base e) < nactivequeues base"
  shows "sound (fst (event_finalize_nolock base free e cb))"
proof -
  let ?b1 = "fst (event_del_nolock base e EVENT_DEL_NOBLOCK)"
  let ?k = "if free then EV_CLOSURE_EVENT_FINALIZE_FREE else EV_CLOSURE_EVENT_FINALIZE"
  define b2 where "b2 = set_ev e (\<lambda>e. e\<lparr>ev_closure := ?k, ev_callback := cb\<rparr>) ?b1"
  define b3 where "b3 = event_active_nolock b2 e EV_FINALIZE 1"
  note d = event_del_nolock_sound [OF s, of e EVENT_DEL_NOBLOCK]
  have f2: "flags_of b2 x = flags_of ?b1 x" "tmo (mem b2) x = tmo (mem ?b1) x"
    "ev_events (mem b2 x) = ev_events (mem ?b1 x)" for x
    by (simp_all add: b2_def upd_ev_apply)
  have m2: "mem b2 x = mem ?b1 x" if "x \<noteq> e" for x using that by (simp add: b2_def upd_ev_apply)
  have q2: "common_timeout_queues b2 = common_timeout_queues ?b1" "nactivequeues b2 = nactivequeues ?b1"
    by (simp_all add: b2_def)
  have o1: "own_event ?b1 e" using o untouched_queue_timers [OF d(2)] by simp
  have cm: "is_common_timeout t b2 = is_common_timeout t ?b1" "tv_ok b2 t = tv_ok ?b1 t" for t
    using q2 by (simp_all add: is_common_timeout_def tv_ok_def)
  have "queue_timer_ok b2 x" if "x \<in> queue_timers ?b1" for x
  proof -
    have "x \<noteq> e" using o1 that by auto
    moreover have "queue_timer_ok ?b1 x" using soundD(6) [OF d(1)] that unfolding queue_timers_ok_def by blast
    ultimately show ?thesis by (simp add: queue_timer_ok_def set_up_def m2 q2 cm)
  qed
  moreover have "durations_ok b2" by (rule durations_cong [OF soundD(7) [OF d(1)]]) (simp add: q2)
  ultimately have s2: "sound b2"
    using soundD(1-6) [OF d(1)] set_callback_inv [OF soundD(2) [OF d(1)], where e = e and k = ?k and cb = cb]
    by (simp add: sound_def base_ok_def queue_timers_ok_def deadlines_ok_def kinds_ok_def io_kind_def f2 cm q2 clocks_ok_def)
       (simp add: b2_def)
  have "ev_pri (mem b2 e) < nactivequeues b2" using p untouchedD [OF d(2)] by (simp add: b2_def upd_ev_apply)
  note a = event_active_nolock_sound [OF s2 this, where res = EV_FINALIZE and n = 1, folded b3_def]
  note fin = event_finalize_nolock_ok [OF soundD(2) [OF s] b p surjective_pairing]
  have b4: "fst (event_finalize_nolock base free e cb) = set_ev e (set_flag EVLIST_FINALIZING) b3"
    by (simp add: event_finalize_nolock_def b2_def b3_def Let_def)
  show ?thesis
    unfolding b4
  proof (rule sound_frame [OF a(1)])
    show "wf_base (set_ev e (set_flag EVLIST_FINALIZING) b3)" using fin(1) [of free cb] by (simp add: b4)
    show "untouched b3 (set_ev e (set_flag EVLIST_FINALIZING) b3)" by (simp add: untouched_def assigned_def upd_ev_apply)
    show "clocks_ok (set_ev e (set_flag EVLIST_FINALIZING) b3)" using soundD(4) [OF a(1)] by (simp add: clocks_ok_def)
    have "own_event b3 e" using o1 untouched_queue_timers [OF a(2)] q2 by simp
    then show "has (flags_of (set_ev e (set_flag EVLIST_FINALIZING) b3) x) g = has (flags_of b3 x) g" 
      if "x \<in> queue_timers b3" "g \<in> {EVLIST_FINALIZING, EVLIST_INTERNAL, EVLIST_INIT}" for x g
      using that(1) by (auto simp: upd_ev_apply)
  qed (auto simp: upd_ev_apply split: if_splits)
qed

subsection \<open>Setting events up\<close>

text \<open>Whatever is done to the memory of a quiet event of the program is fine, as long as it is not
  marked as pending.\<close>

lemma quiet_update:
  assumes s: "sound base" and q: "quiet base e" and o: "own_event base e"
    and n: "\<not> has (ev_flags v) (NOT (EVLIST_INIT OR EVLIST_INTERNAL))"
  shows "sound (base\<lparr>mem := (mem base)(e := v)\<rparr>)" "quiet (base\<lparr>mem := (mem base)(e := v)\<rparr>) e"
proof -
  let ?b = "base\<lparr>mem := (mem base)(e := v)\<rparr>"
  have nf: "\<not> has (ev_flags v) m" if "m AND NOT (EVLIST_INIT OR EVLIST_INTERNAL) = m" for m
  proof -
    have "ev_flags v AND m = (ev_flags v AND NOT (EVLIST_INIT OR EVLIST_INTERNAL)) AND m"
      by (subst that [symmetric]) (simp add: and.assoc and.commute and.left_commute)
    then show ?thesis using n by (simp add: has_def)
  qed
  have v: "\<not> has (ev_flags v) EVLIST_TIMEOUT" "\<not> has (ev_flags v) EVLIST_INSERTED" "\<not> has (ev_flags v) EVLIST_ACTIVE"
    "\<not> has (ev_flags v) EVLIST_ACTIVE_LATER" "\<not> has (ev_flags v) EVLIST_FINALIZING" "\<not> has (ev_flags v) (NOT EVLIST_ALL)"
    by (rule nf, simp)+
  have f: "\<not> has (flags_of base e) EVLIST_TIMEOUT" "\<not> has (flags_of base e) EVLIST_INSERTED" "\<not> has (flags_of base e) EVLIST_ACTIVE"
    "\<not> has (flags_of base e) EVLIST_ACTIVE_LATER" using q by (simp_all add: quiet_def)
  note c = soundD(3) [OF s] and w = soundD(2) [OF s]
  have cm: "is_common_timeout t ?b = is_common_timeout t base" "tv_ok ?b t = tv_ok base t" for t
    by (simp_all add: is_common_timeout_def tv_ok_def)
  have "queues_ok ?b" by (rule queues_cong [OF _ _ _ _ _ coreD(1) [OF c]]) (use f v in auto)
  moreover have "timers_ok ?b" by (rule timers_cong [OF _ _ _ _ coreD(2) [OF c]]) (use f v in auto)
  moreover have fl: "flagged ?b m = flagged base m" "counted ?b m = counted base m"
    if "m \<in> {EVLIST_INSERTED, EVLIST_ACTIVE, EVLIST_ACTIVE_LATER, EVLIST_TIMEOUT}" for m
    using f v that by (auto simp: flagged_def counted_def)
  then have "counts_ok ?b" using coreD(3) [OF c] by (simp add: counts_ok_def)
  moreover have "event_ok ?b x" for x using coreD(4) [OF c, of x] v by (simp add: event_ok_def set_up_def)
  ultimately have "core_ok ?b" using coreD(5) [OF c] by (intro coreI) simp_all
  moreover have "maps_are ?b (flagged base EVLIST_INSERTED)"
    by (rule maps_cong [of base]) (use w f in \<open>auto simp: wf_base_def flagged_def\<close>)
  ultimately have "wf_base ?b" using fl [of EVLIST_INSERTED] by (simp add: wf_base_def)
  moreover have "queue_timer_ok ?b x" if "x \<in> queue_timers base" for x
  proof -
    have "x \<noteq> e" using o that by auto
    moreover have "queue_timer_ok base x" using soundD(6) [OF s] that unfolding queue_timers_ok_def by blast
    ultimately show ?thesis by (simp add: queue_timer_ok_def set_up_def cm)
  qed
  moreover have "deadlines_ok ?b" "clocks_ok ?b" "kinds_ok ?b"
    using s v by (auto simp: sound_def base_ok_def deadlines_ok_def clocks_ok_def kinds_ok_def cm)
  moreover have "durations_ok ?b" by (rule durations_cong [OF soundD(7) [OF s]]) simp
  ultimately show "sound ?b" by (simp add: sound_def base_ok_def queue_timers_ok_def)
  show "quiet ?b e" using v by (simp add: quiet_def)
qed

lemma event_assign_eq:
  "\<exists>v. fst (event_assign base e bs fd evts cb arg) = base\<lparr>mem := (mem base)(e := v)\<rparr> \<and> ev_flags v = EVLIST_INIT"
  by (auto simp: event_assign_def Let_def set_ev_def upd_ev_def min_heap_elem_init_def)

lemma event_assign_sound:
  assumes "sound base" "quiet base e" "own_event base e"
  shows "sound (fst (event_assign base e bs fd evts cb arg))"
proof -
  obtain v where v: "fst (event_assign base e bs fd evts cb arg) = base\<lparr>mem := (mem base)(e := v)\<rparr>" "ev_flags v = EVLIST_INIT"
    using event_assign_eq by blast
  show ?thesis unfolding v(1) by (rule quiet_update(1) [OF assms]) (simp add: v(2))
qed

lemma event_priority_set_sound:
  assumes s: "sound base"
  shows "sound (fst (event_priority_set base e pri))"
proof (cases "has (flags_of base e) EVLIST_ACTIVE \<or> pri < 0 \<or> pri \<ge> int (nactivequeues base)")
  case True
  then show ?thesis using s by (auto simp: event_priority_set_def)
next
  case False
  define b where "b = set_ev e (ev_pri_update (\<lambda>_. nat pri)) base"
  have m: "mem b x = (if x = e then (mem base e)\<lparr>ev_pri := nat pri\<rparr> else mem base x)" for x by (simp add: b_def upd_ev_apply)
  have b: "activequeues b = activequeues base" "active_later_queue b = active_later_queue base" "died b = died base"
    "common_timeout_queues b = common_timeout_queues base" "timeheap b = timeheap base" "io b = io base" "sigmap b = sigmap base"
    "event_count b = event_count base" "event_count_max b = event_count_max base" "event_count_active b = event_count_active base"
    "event_count_active_max b = event_count_active_max base" "clocks_ok b = clocks_ok base"
    by (simp_all add: b_def clocks_ok_def)
  have p: "nat pri < nactivequeues base" using False by (simp add: nat_less_iff)
  note c = soundD(3) [OF s]
  have cm: "is_common_timeout t b = is_common_timeout t base" "tv_ok b t = tv_ok base t" for t
    by (simp_all add: is_common_timeout_def tv_ok_def b)
  have "ev_pri (mem b x) = i" if "i < nactivequeues base" "x \<in> set (activequeues base ! i)" for i x
    using active_at [OF coreD(1) [OF c] that] False by (auto simp: m)
  moreover have fl: "flags_of b x = flags_of base x" for x by (simp add: m)
  moreover have "ev_pri (mem b x) < nactivequeues base" if "x \<in> set (active_later_queue base)" for x
    using coreD(1) [OF c] p that by (simp add: m queues_ok_def)
  ultimately have "queues_ok b"
    using coreD(1) [OF c] unfolding queues_ok_def b fl by blast
  moreover have "timers_ok b" by (rule timers_cong [OF b(5,4) _ _ coreD(2) [OF c]]) (simp_all add: m)
  moreover have "counts_ok b" by (rule counts_cong [OF b(8-11) _ coreD(3) [OF c]]) (simp add: m)
  moreover have "event_ok b x" for x using coreD(4) [OF c, of x] p by (cases "x = e") (simp_all add: event_ok_def set_up_def m b)
  ultimately have "core_ok b" using coreD(5) [OF c] b by (intro coreI) simp_all
  then have "wf_base b" by (rule inv_cong [OF soundD(2) [OF s] _ b(6,7)]) (simp_all add: m)
  moreover have "queue_timer_ok b x" if "queue_timer_ok base x" for x
    using that p by (cases "x = e") (simp_all add: queue_timer_ok_def set_up_def m b cm)
  moreover have "durations_ok b" by (rule durations_cong [OF soundD(7) [OF s]]) (simp add: b)
  ultimately have "sound b"
    using s unfolding sound_def base_ok_def queue_timers_ok_def deadlines_ok_def kinds_ok_def io_kind_def cm b
    by (simp add: m)
  then show ?thesis using False by (simp add: event_priority_set_def b_def)
qed

subsection \<open>Adding\<close>

lemma event_add_nolock_finalizing:
  assumes "core_ok base" "has (flags_of base e) EVLIST_FINALIZING"
  shows "event_add_nolock base e tv ab = (base, -1)"
  using assms coreD(4) [OF assms(1), of e]
  by (simp add: event_add_nolock.simps [of base] event_add_body_def event_ok_def check_def Let_def)

lemma event_add_nolock_sound:
  assumes s: "sound base" and a: "addable base e" and k: "one_kind (mem base e)" and t: "timeout_ok base e tv"
    and o: "own_event base e"
  shows "sound (fst (event_add_nolock base e tv ab))" "untouched base (fst (event_add_nolock base e tv ab))"
proof -
  let ?b = "fst (event_add_nolock base e tv ab)"
  have "sound ?b \<and> untouched base ?b"
  proof (cases "has (flags_of base e) EVLIST_FINALIZING")
    case True
    then show ?thesis using s event_add_nolock_finalizing [OF soundD(3) [OF s] True] by simp
  next
    case False
    note ad = event_add_nolock_ok [OF soundD(1) [OF s] a False t _ surjective_pairing, of ab]
    have o': "own_event base e \<or> (\<forall>u. tv = Some u \<longrightarrow> tv_norm u \<and> ab)" using o by blast
    note ad = ad [OF o']
    have ins: "has (flags_of base x) EVLIST_INSERTED \<or> one_kind (mem base x)" if "has (flags_of ?b x) EVLIST_INSERTED" for x
    proof (cases "x \<in> queue_timers base")
      case True
      then have "queue_timer_ok base x" using soundD(6) [OF s] unfolding queue_timers_ok_def by blast
      then show ?thesis by (simp add: one_kind_def io_kind_def queue_timer_ok_def)
    next
      case False
      then show ?thesis using ad(4) [of x] that k by (auto split: if_splits)
    qed
    have "kinds_ok ?b" by (rule kinds_frame [OF soundD(5) [OF s] ad(3) ins])
    then show ?thesis using ad(1,3) durations_frame [OF soundD(7) [OF s] ad(3)] by (simp add: sound_def)
  qed
  then show "sound ?b" "untouched base ?b" by blast+
qed

lemma event_remove_timer_nolock_sound:
  assumes s: "sound base"
  shows "sound (fst (event_remove_timer_nolock base e))"
proof (cases "has (flags_of base e) EVLIST_TIMEOUT")
  case False
  then show ?thesis using s by (simp add: event_remove_timer_nolock_def)
next
  case True
  let ?b1 = "event_queue_remove_timeout base e"
  have c1: "core_ok ?b1" by (rule remove_timeout_core [OF soundD(3) [OF s] True])
  have fl: "flags_of ?b1 x = (if x = e then clr (flags_of base x) EVLIST_TIMEOUT else flags_of base x)" for x
    using True by (simp add: clr_idle)
  have w1: "wf_base ?b1" by (rule inv_keeps [OF soundD(2) [OF s] timeout_keeps(1) c1]) (simp add: fl)
  let ?f = "\<lambda>v. v\<lparr>ev_io_timeout := evutil_timerclear, ev_ncalls := 0, ev_pncalls := False\<rparr>"
  have c2: "core_ok (set_ev e ?f ?b1)" by (rule core_set_ev [OF c1]) simp_all
  have w2: "wf_base (set_ev e ?f ?b1)" by (rule inv_cong [OF w1 c2]) (simp_all add: upd_ev_apply)
  have u: "untouched base (set_ev e ?f ?b1)"
    using keeps_untouched [OF timeout_keeps(1), of base e] by (simp add: untouched_def assigned_def upd_ev_apply)
  have "sound (set_ev e ?f ?b1)"
  proof (rule sound_frame [OF s w2 u])
    show "clocks_ok (set_ev e ?f ?b1)" using soundD(4) [OF s] by (simp add: clocks_ok_def)
  qed (use keepsD(7) [OF timeout_keeps(1), of base e] in \<open>auto simp: upd_ev_apply fl split: if_splits\<close>)
  then show ?thesis using True by (simp add: event_remove_timer_nolock_def)
qed

subsection \<open>Callbacks that run in the next iteration\<close>

lemma insert_later_sound:
  assumes s: "sound base" and p: "ev_pri (mem base e) < nactivequeues base"
  shows "sound (fst (event_callback_activate_later_nolock base e))"
proof -
  note a = event_callback_activate_later_ok [OF soundD(2) [OF s] p]
  show ?thesis
    by (rule sound_frame [OF s a]) (use soundD(4) [OF s] in
      \<open>auto simp: event_callback_activate_later_nolock_def event_queue_insert_active_later_def clocks_ok_def upd_ev_apply
        Let_def split: if_splits\<close>)
qed

text \<open>Fields of the base that the invariant does not speak about.\<close>

lemma sound_same:
  fixes base base' :: "'b event_base"
  assumes s: "sound base" and q: "mem base' = mem base" "activequeues base' = activequeues base"
      "active_later_queue base' = active_later_queue base" "timeheap base' = timeheap base"
      "common_timeout_queues base' = common_timeout_queues base" "io base' = io base" "sigmap base' = sigmap base"
      "event_count base' = event_count base" "event_count_max base' = event_count_max base"
      "event_count_active base' = event_count_active base" "event_count_active_max base' = event_count_active_max base"
      "died base' = died base"
    and c: "clocks_ok base'"
  shows "sound base'"
proof -
  have "core_ok base'" by (rule core_cong [OF soundD(3) [OF s]]) (simp_all add: q)
  then have w: "wf_base base'" by (rule inv_cong [OF soundD(2) [OF s]]) (simp_all add: q)
  show ?thesis by (rule sound_frame [OF s w _ c]) (simp_all add: q untouched_def)
qed

lemma make_later_one_sound:
  assumes s: "sound base" and l: "active_later_queue base = e # rest"
  shows "sound (make_later_one base e rest)"
proof -
  note c = soundD(3) [OF s]
  note m = make_later_one_ok [OF coreD(1,3,2) [OF c] l]
  let ?b = "make_later_one base e rest"
  have fl: "flags_of ?b x = (if x = e then clr (flags_of base x) EVLIST_ACTIVE_LATER OR EVLIST_ACTIVE else flags_of base x)" for x
    by (simp add: m(6) upd_ev_apply)
  have as: "assigned (mem ?b x) = assigned (mem base x)" "tmo (mem ?b) x = tmo (mem base) x" for x
    by (simp_all add: m(6) upd_ev_apply assigned_def)
  then have u: "untouched base ?b" by (simp add: untouched_def m(7))
  have "event_ok ?b x" for x
    using coreD(4) [OF c, of x] unfolding event_ok_def set_up_def fl untouchedD [OF u] by auto
  then have "core_ok ?b" using m coreD(5) [OF c] by (intro coreI) simp_all
  then have "wf_base ?b" by (rule inv_cong [OF soundD(2) [OF s]]) (simp_all add: fl untouchedD [OF u])
  then show ?thesis
    by (rule sound_frame [OF s _ u]) (use soundD(4) [OF s] as in \<open>auto simp: fl clocks_ok_def split: if_splits\<close>)
qed

lemma make_later_sound:
  fixes base :: "'b event_base"
  assumes "sound base"
  shows "sound (event_queue_make_later_events_active base)"
proof -
  have "sound (make_later_loop base es)" if "sound base" "active_later_queue base = es" for es and base :: "'b event_base"
    using that
  proof (induction es arbitrary: base)
    case (Cons e es)
    note m = make_later_one_ok [OF coreD(1,3,2) [OF soundD(3) [OF Cons(2)]] Cons(3)]
    show ?case using Cons(1) [OF make_later_one_sound [OF Cons(2,3)] m(4)] by simp
  qed simp
  then show ?thesis using assms by (simp add: event_queue_make_later_events_active_def)
qed

subsection \<open>Timers\<close>

lemma gettime_now_sound:
  assumes "sound base"
  shows "sound (fst (gettime_now base))" "untouched base (fst (gettime_now base))"
proof -
  obtain t k d l where b: "fst (gettime_now base) =
     base\<lparr>monotonic_timer := t, clk_reads := k, tv_clock_diff := d, last_updated_clock_diff := l\<rparr>"
    using gettime_now_shape by blast
  have "clocks_ok (fst (gettime_now base))" using gettime_now_clocks(2) [OF soundD(4) [OF assms]] .
  then show "sound (fst (gettime_now base))" by (rule sound_same [OF assms, rotated -1]) (simp_all add: b)
  show "untouched base (fst (gettime_now base))" by (simp add: b untouched_def)
qed

lemma expired_kinds: "kinds_ok base \<Longrightarrow> expired E base base' \<Longrightarrow> kinds_ok base'"
  by (rule kinds_frame [of base]) (auto simp: expired_def split: if_splits)

lemma timeout_process_sound:
  assumes s: "sound base"
  shows "\<exists>base'. timeout_process base = Some base' \<and> sound base'"
proof (cases "min_heap_empty (timeheap base)")
  case True
  then show ?thesis using s by (simp add: timeout_process_def)
next
  case False
  note g = gettime_now_sound(1) [OF s]
  obtain b where b: "timeout_process_loop (fst (gettime_now base)) (snd (gettime_now base)) = Some b" "base_ok b"
    "expired (due (fst (gettime_now base)) (snd (gettime_now base))) (fst (gettime_now base)) b"
    using timeout_process_loop_ok [OF soundD(1) [OF g]] by blast
  have "kinds_ok b" by (rule expired_kinds [OF soundD(5) [OF g] b(3)])
  moreover have "durations_ok b" by (rule durations_frame [OF soundD(7) [OF g]]) (use b(3) in \<open>simp add: expired_def\<close>)
  ultimately show ?thesis using False b by (simp add: timeout_process_def sound_def case_prod_unfold)
qed

lemma common_timeout_callback_sound:
  assumes s: "sound base" and i: "i < n_common_timeouts base"
  shows "\<exists>base'. common_timeout_callback base i = Some base' \<and> sound base'"
proof -
  note g = gettime_now_sound [OF s]
  let ?g = "fst (gettime_now base)" and ?now = "snd (gettime_now base)"
  have i': "i < n_common_timeouts ?g" using i untouchedD(9) [OF g(2)] by simp
  obtain b1 b' where b: "common_timeout_loop ?g i ?now = Some b'" "base_ok b'" "base_ok b1"
    "expired (queue_due ?g i ?now) ?g b1"
    "if ctl_events (common_timeout_queues b1 ! i) = [] then b' = b1
     else b' = common_timeout_schedule b1 (common_timeout_queues b1 ! i) (hd (ctl_events (common_timeout_queues b1 ! i)))"
    using common_timeout_loop_ok [OF soundD(1) [OF g(1)] i'] by blast
  have k1: "kinds_ok b1" by (rule expired_kinds [OF soundD(5) [OF g(1)] b(4)])
  have u1: "untouched ?g b1" using b(4) by (simp add: expired_def)
  have "kinds_ok b' \<and> untouched b1 b'"
  proof (cases "ctl_events (common_timeout_queues b1 ! i)")
    case Nil
    then show ?thesis using b(5) k1 by simp
  next
    case (Cons e es)
    have i1: "i < n_common_timeouts b1" using i' untouchedD(9) [of ?g b1] b(4) by (simp add: expired_def)
    note sc = common_timeout_schedule_ok [OF b(3) i1 queue_head(2) [OF b(3) i1 Cons]]
    have b': "b' = common_timeout_schedule b1 (common_timeout_queues b1 ! i) e" using b(5) Cons by simp
    have "has (flags_of b1 x) EVLIST_INSERTED \<or> one_kind (mem b1 x)" if "has (flags_of b' x) EVLIST_INSERTED" for x
    proof (cases "x \<in> queue_timers b1")
      case True
      then have "queue_timer_ok b1 x" using b(3) unfolding base_ok_def queue_timers_ok_def by blast
      then show ?thesis by (simp add: one_kind_def io_kind_def queue_timer_ok_def)
    next
      case False
      then show ?thesis using sc(3) that b' by simp
    qed
    then show ?thesis using kinds_frame [OF k1 sc(2) [folded b']] sc(2) [folded b'] by blast
  qed
  then show ?thesis
    using b(1,2) durations_frame [OF soundD(7) [OF g(1)], of b'] untouched_trans [OF u1] by (auto simp: common_timeout_callback_def sound_def split: prod.splits)
qed

subsection \<open>Common timeouts\<close>

lemma ctl_magic_bits:
  assumes "i < MAX_COMMON_TIMEOUTS" "0 \<le> u" "u < 1000000"
  shows "((u OR COMMON_TIMEOUT_MAGIC) OR push_bit 20 (int i)) AND NOT MICROSECONDS_MASK = ctl_magic i"
    "((u OR COMMON_TIMEOUT_MAGIC) OR push_bit 20 (int i)) AND MICROSECONDS_MASK = u"
    "COMMON_TIMEOUT_IDX (Timeval s (ctl_magic i)) = i" "ctl_magic i AND COMMON_TIMEOUT_MASK = COMMON_TIMEOUT_MAGIC"
proof -
  have d: "((a OR b) OR c) AND m = (a AND m) OR ((b OR c) AND m)" "(b OR c) AND m = (b AND m) OR (c AND m)"
    for a b c m :: int by (rule bit_eqI; auto simp: bit_simps)+
  have p: "push_bit 20 (int i) AND MICROSECONDS_MASK = 0" "push_bit 20 (int i) AND NOT MICROSECONDS_MASK = push_bit 20 (int i)"
    by (rule bit_eqI; auto simp: bit_simps MICROSECONDS_MASK_mask)+
  have c: "COMMON_TIMEOUT_MAGIC AND MICROSECONDS_MASK = 0" "COMMON_TIMEOUT_MAGIC AND NOT MICROSECONDS_MASK = COMMON_TIMEOUT_MAGIC"
    by (simp_all add: COMMON_TIMEOUT_MAGIC_def MICROSECONDS_MASK_def)
  show "((u OR COMMON_TIMEOUT_MAGIC) OR push_bit 20 (int i)) AND NOT MICROSECONDS_MASK = ctl_magic i"
    unfolding d(1) d(2) by (simp add: low_bits [OF assms(2,3)] p c ctl_magic_def)
  show "((u OR COMMON_TIMEOUT_MAGIC) OR push_bit 20 (int i)) AND MICROSECONDS_MASK = u"
    unfolding d(1) d(2) by (simp add: low_bits [OF assms(2,3)] p c)
  have i: "take_bit 8 (int i) = int i" using assms(1) by (simp add: take_bit_int_eq_self_iff MAX_COMMON_TIMEOUTS_def)
  have m: "COMMON_TIMEOUT_IDX_MASK = push_bit 20 (mask 8)" "COMMON_TIMEOUT_MASK = push_bit 28 (mask 4)"
    by (simp_all add: COMMON_TIMEOUT_IDX_MASK_def COMMON_TIMEOUT_MASK_def mask_eq_exp_minus_1 push_bit_eq_mult)
  have "push_bit 20 (int i) AND COMMON_TIMEOUT_IDX_MASK = push_bit 20 (take_bit 8 (int i))"
    unfolding m(1) by (simp add: take_bit_eq_mask push_bit_and)
  then have "push_bit 20 (int i) AND COMMON_TIMEOUT_IDX_MASK = push_bit 20 (int i)" by (simp only: i)
  moreover have "COMMON_TIMEOUT_MAGIC AND COMMON_TIMEOUT_IDX_MASK = 0"
    by (simp add: COMMON_TIMEOUT_MAGIC_def COMMON_TIMEOUT_IDX_MASK_def)
  ultimately show "COMMON_TIMEOUT_IDX (Timeval s (ctl_magic i)) = i"
    by (simp add: COMMON_TIMEOUT_IDX_def ctl_magic_def d(2) drop_bit_push_bit_int)
  have "push_bit 20 (int i) AND COMMON_TIMEOUT_MASK = push_bit 20 (take_bit 8 (int i)) AND COMMON_TIMEOUT_MASK" by (simp only: i)
  also have "\<dots> = 0" unfolding m(2) by (rule bit_eqI) (auto simp: bit_simps)
  finally show "ctl_magic i AND COMMON_TIMEOUT_MASK = COMMON_TIMEOUT_MAGIC"
    unfolding ctl_magic_def d(2) by (simp add: COMMON_TIMEOUT_MAGIC_def COMMON_TIMEOUT_MASK_def)
qed

text \<open>A new queue makes no deadline a common timeout that was not one before.\<close>

lemma add_queue_sound:
  assumes s: "sound base" and p: "quiet base p" "queue_timer_ok base p"
    and n: "n_common_timeouts base < MAX_COMMON_TIMEOUTS" and u: "tv_norm t"
  defines "d \<equiv> Timeval (tv_sec t) ((tv_usec t OR COMMON_TIMEOUT_MAGIC) OR push_bit 20 (int (n_common_timeouts base)))"
  defines "base' \<equiv> base\<lparr>common_timeout_queues := common_timeout_queues base @
      [\<lparr>ctl_events = [], ctl_duration = d, timeout_event = p\<rparr>]\<rparr>"
  shows "sound base'" "is_common_timeout d base'" "tv_ok base' d" "mask_usec d = t"
proof -
  let ?n = "n_common_timeouts base"
  have u': "0 \<le> tv_usec t" "tv_usec t < 1000000" using u by (simp_all add: tv_norm_def)
  note cb = ctl_magic_bits [OF n u']
  have nn: "n_common_timeouts base' = Suc ?n" by (simp add: base'_def)
  have "magic_bits d = magic_bits (Timeval 0 (ctl_magic ?n))"
  proof -
    have "ctl_magic ?n AND NOT MICROSECONDS_MASK = ctl_magic ?n"
      using ctl_magic_bits(1) [OF n, of 0] by (simp add: ctl_magic_def)
    then show ?thesis using cb(1) by (simp add: d_def)
  qed
  note md = magic_determines [OF this]
  show cd: "is_common_timeout d base'" unfolding md(1) using cb(3,4) nn by (simp add: is_common_timeout_def)
  have di: "COMMON_TIMEOUT_IDX d = ?n" unfolding md(2) by (rule cb(3))
  show mu: "mask_usec d = t" using cb(2) by (simp add: mask_usec_def d_def)
  have td: "tv_ok base' d" using cd di mu u cb(1) by (simp add: tv_ok_def d_def)
  then show "tv_ok base' d" .
  have com: "is_common_timeout x base \<Longrightarrow> is_common_timeout x base'" for x by (simp add: is_common_timeout_def nn)
  have same: "is_common_timeout x base' = is_common_timeout x base" "tv_ok base' x" if "tv_ok base x" for x
  proof -
    show c: "is_common_timeout x base' = is_common_timeout x base"
      using that com [of x] norm_not_common [of x base'] unfolding tv_ok_def by (auto split: if_splits)
    show "tv_ok base' x" using that unfolding tv_ok_def c .
  qed
  have dl: "tv_ok base (tmo (mem base) x)" if "has (flags_of base x) EVLIST_TIMEOUT" for x
    using soundD(1) [OF s] that unfolding base_ok_def deadlines_ok_def by blast
  note c = soundD(3) [OF s]
  have "ctl_ok base' i" if "i < Suc ?n" for i
  proof (cases "i = ?n")
    case True
    have "\<not> (has (flags_of base e) EVLIST_TIMEOUT \<and> is_common_timeout (tmo (mem base) e) base' \<and>
        COMMON_TIMEOUT_IDX (tmo (mem base) e) = ?n)" for e
      using same(1) [OF dl, of e] by (auto simp: is_common_timeout_def)
    then show ?thesis using True by (simp add: ctl_ok_def base'_def Let_def nth_append)
  next
    case False
    then have i: "i < ?n" using that by simp
    have "has (flags_of base e) EVLIST_TIMEOUT \<and> is_common_timeout (tmo (mem base) e) base' \<and> k \<longleftrightarrow>
      has (flags_of base e) EVLIST_TIMEOUT \<and> is_common_timeout (tmo (mem base) e) base \<and> k" for e k
      using same(1) [OF dl, of e] by blast
    then show ?thesis
      using timersD(3) [OF coreD(2) [OF c] i] i
      unfolding ctl_ok_def by (simp add: base'_def nth_append)
  qed
  moreover have "has (flags_of base e) EVLIST_TIMEOUT \<and> \<not> is_common_timeout (tmo (mem base) e) base' \<longleftrightarrow>
      has (flags_of base e) EVLIST_TIMEOUT \<and> \<not> is_common_timeout (tmo (mem base) e) base" for e
    using same(1) [OF dl, of e] by blast
  ultimately have "timers_ok base'"
    using coreD(2) [OF c] unfolding timers_ok_def nn by (simp add: base'_def)
  moreover have "queues_ok base'" by (rule queues_cong [OF _ _ _ _ _ coreD(1) [OF c]]) (simp_all add: base'_def)
  moreover have "counts_ok base'" by (rule counts_cong [OF _ _ _ _ _ coreD(3) [OF c]]) (simp_all add: base'_def)
  moreover have "event_ok base' x" for x using coreD(4) [OF c, of x] by (simp add: event_ok_def set_up_def base'_def)
  ultimately have "core_ok base'" using coreD(5) [OF c] by (intro coreI) (simp_all add: base'_def)
  then have w: "wf_base base'" by (rule inv_cong [OF soundD(2) [OF s]]) (simp_all add: base'_def)
  have "queue_timer_ok base' x" if "queue_timer_ok base x" for x
    using that same(1) [OF dl, of x] by (auto simp: queue_timer_ok_def set_up_def base'_def)
  then have "queue_timers_ok base'" using soundD(6) [OF s] p(2) by (simp add: queue_timers_ok_def base'_def)
  moreover have "deadlines_ok base'" using dl same(2) by (simp add: deadlines_ok_def base'_def)
  moreover have "clocks_ok base'" "kinds_ok base'"
    using soundD(4,5) [OF s] by (simp_all add: base'_def clocks_ok_def kinds_ok_def)
  moreover have "durations_ok base'"
  proof -
    have "is_common_timeout d' base' \<and> COMMON_TIMEOUT_IDX d' = i \<and> tv_ok base' d'"
      if "i < ?n" "d' = ctl_duration (common_timeout_queues base ! i)" for i d'
      using soundD(7) [OF s] that com same(2) unfolding durations_ok_def Let_def by blast
    then show ?thesis
      using cd di td n unfolding durations_ok_def nn Let_def by (auto simp: base'_def nth_append less_Suc_eq)
  qed
  ultimately show "sound base'" using w by (simp add: sound_def base_ok_def)
qed

text \<open>Memory from the allocator is not part of any event the base knows.\<close>

definition allocator_ok :: "'b event_base \<Rightarrow> bool" where
  "allocator_ok base \<longleftrightarrow> (\<forall>n p. mm_calls base \<le> n \<longrightarrow> mm base n = Some p \<longrightarrow> quiet base p \<and> own_event base p)"

lemma append_common_timeout_sound:
  assumes s: "sound base" and p: "quiet base p" "own_event base p" and n: "n_common_timeouts base < MAX_COMMON_TIMEOUTS"
    and t: "tv_norm t" and q: "0 < nactivequeues base" and r: "append_common_timeout base p t = (base', d)"
  shows "sound base'" "is_common_timeout d base'" "tv_ok base' d" "mask_usec d = t"
proof -
  define v where "v = zero_event\<lparr>ev_base := Some this_base, ev_callback := CB_common_timeout_callback,
     ev_arg := n_common_timeouts base, ev_fd := -1, ev_flags := EVLIST_INIT OR EVLIST_INTERNAL, ev_pri := 0,
     ev_closure := EV_CLOSURE_EVENT, min_heap_idx := -1\<rparr>"
  define b where "b = base\<lparr>mem := (mem base)(p := v)\<rparr>"
  have e: "base' = b\<lparr>common_timeout_queues := common_timeout_queues b @
        [\<lparr>ctl_events = [], ctl_duration = d, timeout_event = p\<rparr>]\<rparr>"
    "d = Timeval (tv_sec t) ((tv_usec t OR COMMON_TIMEOUT_MAGIC) OR push_bit 20 (int (n_common_timeouts b)))"
    using r q by (auto simp: append_common_timeout_def event_assign_def event_priority_set_def Let_def b_def v_def
        set_ev_def upd_ev_def min_heap_elem_init_def zero_event_def)
  have f: "\<not> has (ev_flags v) (NOT (EVLIST_INIT OR EVLIST_INTERNAL))" by (simp add: v_def)
  note sb = quiet_update [OF s p f, folded b_def]
  have qt: "queue_timer_ok b p"
    using q by (simp add: queue_timer_ok_def set_up_def b_def v_def zero_event_def)
  have n': "n_common_timeouts b < MAX_COMMON_TIMEOUTS" using n by (simp add: b_def)
  note a = add_queue_sound [OF sb qt n' t]
  show "sound base'" "is_common_timeout d base'" "tv_ok base' d" "mask_usec d = t" using a e by simp_all
qed

lemma find_common_timeout_Some:
  "find_common_timeout ctls t = Some ctl \<Longrightarrow> ctl \<in> set ctls \<and> mask_usec (ctl_duration ctl) = t"
  by (induction ctls) (auto simp: mask_usec_def timeval.expand split: if_splits)

lemma init_common_timeout_sound:
  assumes s: "sound base" and al: "allocator_ok base" and t: "tv_norm t" and q: "0 < nactivequeues base"
    and r: "event_base_init_common_timeout base t = (base', res)"
  shows "sound base'" "res = Some d \<Longrightarrow> is_common_timeout d base' \<and> tv_ok base' d \<and> mask_usec d = t"
proof -
  have l: "n_common_timeouts base \<le> MAX_COMMON_TIMEOUTS" using soundD(7) [OF s] by (simp add: durations_ok_def)
  have dur: "common_duration base t = t" using t by (simp add: common_duration_def tv_norm_def)
  have "sound base' \<and> (\<forall>d. res = Some d \<longrightarrow> is_common_timeout d base' \<and> tv_ok base' d \<and> mask_usec d = t)"
  proof (cases "find_common_timeout (common_timeout_queues base) t")
    case (Some ctl)
    then obtain i where i: "i < n_common_timeouts base" "common_timeout_queues base ! i = ctl" "mask_usec (ctl_duration ctl) = t"
      using find_common_timeout_Some in_set_conv_nth by metis
    then have "is_common_timeout (ctl_duration ctl) base" "tv_ok base (ctl_duration ctl)"
      using soundD(7) [OF s] unfolding durations_ok_def Let_def by blast+
    then show ?thesis using s r Some i(3) by (auto simp: event_base_init_common_timeout_def dur Let_def check_def)
  next
    case None
    define al1 where "al1 = (\<lambda>b::'a event_base. \<exists>k m. b = base\<lparr>mm_calls := k, n_common_timeouts_allocated := m\<rparr> \<and> mm_calls base \<le> k)"
    have al1_sound: "sound b" "mm b = mm base" "mm_calls base \<le> mm_calls b" "nactivequeues b = nactivequeues base"
      "n_common_timeouts b = n_common_timeouts base"
      "quiet b p = quiet base p" "own_event b p = own_event base p" if h: "al1 b" for b p
    proof -
      obtain k m where b: "b = base\<lparr>mm_calls := k, n_common_timeouts_allocated := m\<rparr>" "mm_calls base \<le> k"
        using h unfolding al1_def by blast
      show "sound b" by (rule sound_same [OF s]) (use soundD(4) [OF s] in \<open>simp_all add: b clocks_ok_def\<close>)
      show "mm b = mm base" "mm_calls base \<le> mm_calls b" "nactivequeues b = nactivequeues base"
        "n_common_timeouts b = n_common_timeouts base" "quiet b p = quiet base p" "own_event b p = own_event base p"
        using b(2) by (simp_all add: b(1) quiet_def)
    qed
    have a0: "al1 base" unfolding al1_def by (intro exI [of _ "mm_calls base"] exI [of _ "n_common_timeouts_allocated base"]) simp
    have am: "al1 (b\<lparr>mm_calls := mm_calls b + 1\<rparr>)" "al1 (b\<lparr>n_common_timeouts_allocated := k\<rparr>)" if h: "al1 b" for b k
    proof -
      obtain j m where b: "b = base\<lparr>mm_calls := j, n_common_timeouts_allocated := m\<rparr>" "mm_calls base \<le> j"
        using h unfolding al1_def by blast
      show "al1 (b\<lparr>mm_calls := mm_calls b + 1\<rparr>)"
        unfolding al1_def using b(2) by (intro exI [of _ "j + 1"] exI [of _ m]) (simp add: b(1))
      show "al1 (b\<lparr>n_common_timeouts_allocated := k\<rparr>)"
        unfolding al1_def using b(2) by (intro exI [of _ j] exI [of _ k]) (simp add: b(1))
    qed
    obtain b1 ok where g: "grow_common_timeouts base = (b1, ok)" by force
    have a1: "al1 b1"
      using g a0 am by (auto simp: grow_common_timeouts_def mm_alloc_def Let_def split: if_splits option.splits)
    obtain b2 p where m: "mm_alloc b1 = (b2, p)" by force
    have a2: "al1 b2" using m am(1) [OF a1] by (simp add: mm_alloc_def)
    show ?thesis
    proof (cases "n_common_timeouts base = MAX_COMMON_TIMEOUTS \<or> \<not> ok \<or> p = None")
      case True
      then show ?thesis
        using r None s g m al1_sound(1) [OF a1] al1_sound(1) [OF a2]
        by (auto simp: event_base_init_common_timeout_def dur Let_def split: bool.splits if_splits)
    next
      case False
      then obtain q' where p: "p = Some q'" by blast
      have "mm base (mm_calls b1) = Some q'" using m p al1_sound(2) [OF a1] by (simp add: mm_alloc_def)
      then have qq: "quiet b2 q'" "own_event b2 q'"
        using al al1_sound(3) [OF a1] al1_sound(6,7) [OF a2] unfolding allocator_ok_def by blast+
      obtain b3 d where ap: "append_common_timeout b2 q' t = (b3, d)" by force
      have "n_common_timeouts b2 < MAX_COMMON_TIMEOUTS" "0 < nactivequeues b2"
        using False l q al1_sound(4,5) [OF a2] by auto
      note x = append_common_timeout_sound [OF al1_sound(1) [OF a2] qq this(1) t this(2) ap]
      have "base' = check (is_common_timeout d b3) b3" "res = Some d"
        using r None g m p False ap by (auto simp: event_base_init_common_timeout_def dur Let_def split: bool.splits)
      then show ?thesis using x by (simp add: check_def)
    qed
  qed
  then show "sound base'" "res = Some d \<Longrightarrow> is_common_timeout d base' \<and> tv_ok base' d \<and> mask_usec d = t" by blast+
qed

subsection \<open>Callbacks\<close>

lemma event_callback_activate_nolock_sound:
  assumes s: "sound base" and p: "ev_pri (mem base e) < nactivequeues base"
  shows "sound (fst (event_callback_activate_nolock base e))"
proof -
  note a = event_callback_activate_nolock_ok [OF soundD(2) [OF s] p surjective_pairing]
  have "clocks_ok (fst (event_callback_activate_nolock base e))"
    using soundD(4) [OF s] by (simp add: event_callback_activate_nolock_def clocks_ok_def Let_def)
  then show ?thesis
    by (rule sound_frame [OF s a(1) keeps_untouched [OF a(2)]])
       (use keepsD(7) [OF a(2)] in \<open>auto simp: a(3) split: if_splits\<close>)
qed

lemma event_deferred_cb_schedule_sound:
  assumes s: "sound base" and p: "ev_pri (mem base e) < nactivequeues base"
  shows "sound (fst (event_deferred_cb_schedule base e))"
proof -
  note a = event_callback_activate_nolock_sound [OF s p]
  have "sound (fst (event_callback_activate_nolock base e)\<lparr>n_deferreds_queued := n\<rparr>)" for n
    by (rule sound_same [OF a]) (use soundD(4) [OF a] in \<open>simp_all add: clocks_ok_def\<close>)
  then show ?thesis
    using a insert_later_sound [OF s p] by (simp add: event_deferred_cb_schedule_def split: prod.splits)
       (metis fst_conv)
qed

subsection \<open>The life of a base\<close>

text \<open>The calls a program may make and the steps of the loop, with what is asked of the caller: an
  event is assigned only when nothing waits for it, it is added with a priority and a signal number
  that exist and a timeout that the library gave out or that is normal, and the timers of the
  common-timeout queues are left to the library.\<close>

inductive api_step :: "'b event_base \<Rightarrow> 'b event_base \<Rightarrow> bool" where
  assign: "quiet base e \<Longrightarrow> own_event base e \<Longrightarrow> event_assign base e bs fd evts cb arg = (base', r) \<Longrightarrow> api_step base base'"
| priority: "event_priority_set base e pri = (base', r) \<Longrightarrow> api_step base base'"
| add: "addable base e \<Longrightarrow> one_kind (mem base e) \<Longrightarrow> timeout_ok base e tv \<Longrightarrow> own_event base e \<Longrightarrow>
    event_add base e tv = (base', r) \<Longrightarrow> api_step base base'"
| remove_timer: "event_remove_timer base e = (base', r) \<Longrightarrow> api_step base base'"
| del: "event_del base e = (base', r) \<Longrightarrow> api_step base base'"
| active: "ev_pri (mem base e) < nactivequeues base \<Longrightarrow> event_active base e res n = base' \<Longrightarrow> api_step base base'"
| finalize: "own_event base e \<Longrightarrow> ev_pri (mem base e) < nactivequeues base \<Longrightarrow>
    event_finalize_impl base free e cb = (base', r) \<Longrightarrow> api_step base base'"
| schedule: "ev_pri (mem base e) < nactivequeues base \<Longrightarrow> event_deferred_cb_schedule base e = (base', r) \<Longrightarrow> api_step base base'"
| common: "allocator_ok base \<Longrightarrow> tv_norm t \<Longrightarrow> 0 < nactivequeues base \<Longrightarrow>
    event_base_init_common_timeout base t = (base', res) \<Longrightarrow> api_step base base'"
| make_later: "event_queue_make_later_events_active base = base' \<Longrightarrow> api_step base base'"
| timeouts: "timeout_process base = Some base' \<Longrightarrow> api_step base base'"
| queue_timer: "i < n_common_timeouts base \<Longrightarrow> common_timeout_callback base i = Some base' \<Longrightarrow> api_step base base'"
| loopbreak: "event_base_loopbreak base = (base', r) \<Longrightarrow> api_step base base'"
| loopcontinue: "event_base_loopcontinue base = (base', r) \<Longrightarrow> api_step base base'"

lemma api_step_sound: "api_step base base' \<Longrightarrow> sound base \<Longrightarrow> sound base'"
proof (induction rule: api_step.induct)
  case (assign base e bs fd evts cb arg base' r)
  then show ?case using event_assign_sound [of base e bs fd evts cb arg] by simp
next
  case (priority base e pri base' r)
  then show ?case using event_priority_set_sound [of base e pri] by simp
next
  case (add base e tv base' r)
  then show ?case using event_add_nolock_sound(1) [of base e tv False] by (auto simp: event_add_def split: if_splits)
next
  case (remove_timer base e base' r)
  then show ?case
    using event_remove_timer_nolock_sound [of base e] by (auto simp: event_remove_timer_def split: if_splits)
next
  case (del base e base' r)
  then show ?case
    using event_del_nolock_sound(1) [of base e EVENT_DEL_AUTOBLOCK]
    by (auto simp: event_del_def event_del_mode_def split: if_splits)
next
  case (active base e res n base')
  then show ?case using event_active_nolock_sound(1) [of base e res n] by (auto simp: event_active_def split: if_splits)
next
  case (finalize base e free cb base' r)
  then show ?case
    using event_finalize_nolock_sound [of base e free cb] by (auto simp: event_finalize_impl_def split: if_splits)
next
  case (schedule base e base' r)
  then show ?case using event_deferred_cb_schedule_sound [of base e] by simp
next
  case (common base t base' res)
  then show ?case using init_common_timeout_sound(1) [of base t base' res] by simp
next
  case (make_later base base')
  then show ?case using make_later_sound by blast
next
  case (timeouts base base')
  then show ?case using timeout_process_sound [of base] by auto
next
  case (queue_timer i base base')
  then show ?case using common_timeout_callback_sound [of base i] by auto
next
  case (loopbreak base base' r)
  then show ?case
    using soundD(4) [of base] by (auto simp: event_base_loopbreak_def clocks_ok_def intro!: sound_same [of base])
next
  case (loopcontinue base base' r)
  then show ?case
    using soundD(4) [of base] by (auto simp: event_base_loopcontinue_def clocks_ok_def intro!: sound_same [of base])
qed

lemma blank_sound:
  assumes "idle base" "blank base" "activequeues base = replicate n []" "clocks_ok base"
  shows "sound base"
  using blank_base_ok [OF assms] idleD(2) [OF assms(1)] assms(2)
  by (simp add: sound_def kinds_ok_def durations_ok_def blank_def)

lemma reachable_sound: "api_step\<^sup>*\<^sup>* base base' \<Longrightarrow> sound base \<Longrightarrow> sound base'"
  by (induction rule: rtranclp_induct) (auto intro: api_step_sound)

end
