(* ===== verification/Event_Props.thy ===== *)
theory Event_Props
  imports Event_Api
begin

text \<open>
  What the operations on events promise a program: the properties of adding, deleting, finalising,
  timing out and visiting events, with a base of the epoll backend on the reference kernel as the
  example.
\<close>

text \<open>A base of the epoll backend on the reference kernel, with one priority; and the same with event 5
  assigned to wait for input on descriptor 3.\<close>

definition ref_base :: "(int \<Rightarrow> int \<Rightarrow> u32 option) epollop event_base" where
  "ref_base = ref_world\<lparr>activequeues := [[]]\<rparr>"

definition ref_read :: "(int \<Rightarrow> int \<Rightarrow> u32 option) epollop event_base" where
  "ref_read = fst (event_assign ref_base 5 (Some this_base) 3 EV_READ 10 0)"

lemma ref_base_sound: "sound ref_base"
  by (rule blank_sound [where n = 1])
     (simp_all add: ref_base_def ref_world_def sample_world_def idle_def blank_def zero_event_def clocks_ok_def timer_norm_def
       tv_norm_def)

lemma ref_base_quiet: "quiet ref_base e" "own_event ref_base e"
  by (simp_all add: ref_base_def ref_world_def sample_world_def quiet_def zero_event_def)

lemma ref_read_sound: "sound ref_read"
  unfolding ref_read_def by (rule event_assign_sound [OF ref_base_sound ref_base_quiet])

lemma ref_read_event:
  "mem ref_read 5 = zero_event\<lparr>ev_base := Some this_base, ev_callback := 10, ev_fd := 3, ev_events := EV_READ, ev_flags := EVLIST_INIT,
     ev_closure := EV_CLOSURE_EVENT, ev_pri := 0, min_heap_idx := -1\<rparr>"
  "activequeues ref_read = [[]]" "common_timeout_queues ref_read = []" "timeheap ref_read = min_heap_ctor"
  "x \<noteq> 5 \<Longrightarrow> mem ref_read x = zero_event"
  by (simp_all add: ref_read_def ref_base_def ref_world_def sample_world_def event_assign_def Let_def set_ev_def upd_ev_def
      min_heap_elem_init_def zero_event_def)





text \<open>What a program sees of a base: the events, the queues and the offset of the clock.\<close>

definition seen :: "'b event_base \<Rightarrow> events \<times> timeval \<times> ev_ptr list list \<times> ev_ptr list \<times> common_timeout_list list" where
  "seen base = (mem base, tv_clock_diff base, activequeues base, active_later_queue base, common_timeout_queues base)"

lemma seen_upd [simp]:
  "seen (base\<lparr>mm_calls := n\<rparr>) = seen base" "seen (base\<lparr>io := m\<rparr>) = seen base" "seen (base\<lparr>sigmap := s\<rparr>) = seen base"
  "seen (base\<lparr>evbase := b\<rparr>) = seen base" "seen (base\<lparr>timeheap := h\<rparr>) = seen base" "seen (check c base) = seen base"
  by (simp_all add: seen_def check_def)

lemma seen_slots [simp]:
  "seen (fst (mm_alloc base)) = seen base" "seen (fst (evmap_make_space_io base k)) = seen base"
  "seen (fst (evmap_make_space_signal base k)) = seen base" "seen (fst (GET_IO_SLOT_AND_CTOR base k)) = seen base"
  "seen (fst (GET_SIGNAL_SLOT_AND_CTOR base k)) = seen base"
  by (simp_all add: mm_alloc_def evmap_make_space_io_def evmap_make_space_signal_def GET_IO_SLOT_AND_CTOR_def
      GET_SIGNAL_SLOT_AND_CTOR_def split: option.splits)

lemma seen_slots_for [simp]:
  "seen (fst (io_slot_for base k)) = seen base" "seen (fst (sig_slot_for base k)) = seen base"
  by (simp_all add: io_slot_for_def sig_slot_for_def case_prod_unfold)

lemma seen_evmap_add [simp]:
  "seen (fst (evmap_io_add base fd e)) = seen base" "seen (fst (evmap_signal_add base fd e)) = seen base"
  using seen_slots_for(1) [of "check (fd = ev_fd (mem base e)) base" "nat fd"] seen_slots_for(2) [of "check (0 \<le> fd) base" "nat fd"]
  by (simp_all add: evmap_io_add_def evmap_signal_add_def Let_def case_prod_unfold split: option.split del: seen_slots_for)

lemma seen_heap_reserve [simp]: "seen (fst (heap_reserve base n)) = seen base"
  by (simp add: heap_reserve_def Let_def case_prod_unfold)





text \<open>C7: after \<^verbatim>\<open>event_del\<close> of an event that is not being finalised, \<^verbatim>\<open>event_pending\<close> says that the event
  waits for nothing, the state of no other event has changed, and the invariant holds; the result is
  0, or -1 when the backend refused.\<close>

theorem event_del_correct:
  assumes "sound base" "ev_base (mem base e) \<noteq> None" "\<not> has (flags_of base e) EVLIST_FINALIZING"
    and "event_del base e = (base', r)"
  shows "sound base' \<and> r \<in> {-1, 0} \<and> event_pending base' e events want = (0, None) \<and>
    (\<forall>x. x \<noteq> e \<longrightarrow> flags_of base' x = flags_of base x \<and> ev_timeout (mem base' x) = ev_timeout (mem base x))"
proof -
  have d: "event_del_nolock base e EVENT_DEL_AUTOBLOCK = (base', r)"
    using assms(2,4) by (auto simp: event_del_def event_del_mode_def)
  note ok = event_del_nolock_ok [OF soundD(2) [OF assms(1)] assms(2) _ d]
  have f: "flags_of base' x = (if x = e then clr (flags_of base x) 0x2b else flags_of base x)" for x
    using ok(4) assms(3) by blast
  have "\<not> has (flags_of base' e) EVLIST_INSERTED" "\<not> has (flags_of base' e) (EVLIST_ACTIVE OR EVLIST_ACTIVE_LATER)"
    "\<not> has (flags_of base' e) EVLIST_TIMEOUT" by (simp_all add: f)
  then have "event_pending base' e events want = (0, None)" by (simp add: event_pending_def Let_def)
  moreover have "sound base'" using event_del_nolock_sound(1) [OF assms(1), of e EVENT_DEL_AUTOBLOCK] d by simp
  moreover have "r \<in> {-1, 0}" using ok(2) assms(3) by blast
  moreover have "ev_timeout (mem base' x) = ev_timeout (mem base x)" for x
    using payload_fields(12) [OF ok(5)] assms(3) by blast
  ultimately show ?thesis using f by simp
qed

theorem event_del_correct_witness:
  "\<exists>base r base' r'. event_add ref_read 5 None = (base, r) \<and> event_del base 5 = (base', r') \<and>
     event_pending base' 5 EV_READ False = (0, None)"
proof -
  obtain base r where a: "event_add ref_read 5 None = (base, r)" by force
  obtain base' r' where d: "event_del base 5 = (base', r')" by force
  have ad: "addable ref_read 5" "one_kind (mem ref_read 5)" "timeout_ok ref_read 5 None" "own_event ref_read 5"
    "\<not> has (flags_of ref_read 5) EVLIST_FINALIZING" "ev_base (mem ref_read 5) \<noteq> None"
    by (simp_all add: ref_read_event addable_def set_up_def one_kind_def io_kind_def timeout_ok_def)
  have n: "fst (event_add_nolock ref_read 5 None False) = base" using a ad(6) by (simp add: event_add_def)
  note s = event_add_nolock_sound [OF ref_read_sound ad(1-4), of False, unfolded n]
  have h: "own_event ref_read 5 \<or> (\<forall>u. None = Some u \<longrightarrow> tv_norm u \<and> False)" by simp
  have "\<not> has (flags_of base 5) EVLIST_FINALIZING"
    using event_add_nolock_ok(4) [OF soundD(1) [OF ref_read_sound] ad(1,5,3) h surjective_pairing, of 5, unfolded n]
    by (simp add: ref_read_event added_flags_def Let_def)
  moreover have "ev_base (mem base 5) \<noteq> None" using untouchedD(4) [OF s(2)] ad(6) by simp
  ultimately show ?thesis using event_del_correct [OF s(1) _ _ d, of EV_READ False] a d by blast
qed

text \<open>C4: \<^verbatim>\<open>timeout_process\<close> returns, whatever timers there are; it takes out of the heap exactly the
  events whose deadline is not after now, activates each of them with \<^verbatim>\<open>EV_TIMEOUT\<close> as the reason,
  leaves every other event as it is, and keeps the invariant.\<close>

theorem timeout_process_expires:
  assumes "base_ok base" "gettime_now base = (base1, now)"
  shows "\<exists>base'. timeout_process base = Some base' \<and> base_ok base' \<and>
    (\<forall>e. let late = has (flags_of base e) EVLIST_TIMEOUT \<and> \<not> is_common_timeout (ev_timeout (mem base e)) base \<and>
                    ev_timeout (mem base e) \<le> now
         in flags_of base' e = (if late then clr (flags_of base e) (EVLIST_TIMEOUT OR EVLIST_INSERTED OR EVLIST_ACTIVE OR EVLIST_ACTIVE_LATER)
                                             OR EVLIST_ACTIVE else flags_of base e) \<and>
            (late \<longrightarrow> ev_res (mem base' e) = EV_TIMEOUT))"
proof (cases "min_heap_empty (timeheap base)")
  case True
  then have "due base now = {}" using top_due(1) [OF assms(1), of now] by (simp add: min_heap_empty_def min_heap_top_def)
  then have "\<not> (has (flags_of base e) EVLIST_TIMEOUT \<and> \<not> is_common_timeout (ev_timeout (mem base e)) base \<and>
      ev_timeout (mem base e) \<le> now)" for e by (auto simp: due_def)
  then show ?thesis using True assms(1) unfolding timeout_process_def Let_def by auto
next
  case False
  obtain t k d l where b1: "base1 = base\<lparr>monotonic_timer := t, clk_reads := k, tv_clock_diff := d, last_updated_clock_diff := l\<rparr>"
    using gettime_now_shape [of base] assms(2) by auto
  have c: "clocks_ok base1" using gettime_now_clocks(2) [of base] assms by (simp add: base_ok_def)
  have "wf_base base1" using gettime_now_inv [of base] assms by (simp add: base_ok_def)
  then have "base_ok base1" by (rule base_ok_frame [OF assms(1) _ _ c]) (simp_all add: b1 untouched_def)
  then obtain base' where p: "timeout_process_loop base1 now = Some base'" "base_ok base'" "expired (due base1 now) base1 base'"
    using timeout_process_loop_ok by blast
  have "due base1 now = due base now" by (simp add: b1 due_def is_common_timeout_def)
  then show ?thesis
    using p False assms(2) by (auto simp: timeout_process_def expired_def b1 Let_def due_def)
qed

text \<open>The base with event 5 as a timer that was due at second 900; the clocks stand at 1000.\<close>

definition ref_idle :: "(int \<Rightarrow> int \<Rightarrow> u32 option) epollop event_base" where
  "ref_idle = fst (event_assign ref_base 5 (Some this_base) (-1) 0 10 0)"

definition ref_timer :: "(int \<Rightarrow> int \<Rightarrow> u32 option) epollop event_base" where
  "ref_timer = fst (event_add_nolock ref_idle 5 (Some (Timeval 900 0)) True)"

lemma ref_idle_event:
  "mem ref_idle 5 = zero_event\<lparr>ev_base := Some this_base, ev_callback := 10, ev_fd := -1, ev_events := 0, ev_flags := EVLIST_INIT,
     ev_closure := EV_CLOSURE_EVENT, ev_pri := 0, min_heap_idx := -1\<rparr>"
  "activequeues ref_idle = [[]]" "common_timeout_queues ref_idle = []" "timeheap ref_idle = min_heap_ctor" "mm ref_idle = (\<lambda>i. Some i)"
  by (simp_all add: ref_idle_def ref_base_def ref_world_def sample_world_def event_assign_def Let_def set_ev_def upd_ev_def
      min_heap_elem_init_def zero_event_def)

lemma ref_timer_ok:
  "base_ok ref_timer" "flags_of ref_timer 5 = EVLIST_INIT OR EVLIST_TIMEOUT" "ev_timeout (mem ref_timer 5) = Timeval 900 0"
  "n_common_timeouts ref_timer = 0"
proof -
  have c: "\<not> is_common_timeout t ref_idle" for t by (simp add: is_common_timeout_def ref_idle_event)
  have s: "sound ref_idle" unfolding ref_idle_def by (rule event_assign_sound [OF ref_base_sound ref_base_quiet])
  have ad: "addable ref_idle 5" "timeout_ok ref_idle 5 (Some (Timeval 900 0))" "\<not> has (flags_of ref_idle 5) EVLIST_FINALIZING"
    by (simp_all add: ref_idle_event addable_def set_up_def timeout_ok_def tv_ok_def c tv_norm_def)
  have h: "own_event ref_idle 5 \<or> (\<forall>u. Some (Timeval 900 0) = Some u \<longrightarrow> tv_norm u \<and> True)" by (simp add: tv_norm_def)
  have "snd (event_add_nolock ref_idle 5 (Some (Timeval 900 0)) True) = 0"
    by (simp add: event_add_nolock.simps [of ref_idle] event_add_body_def ref_idle_event check_def heap_reserve_def mm_alloc_def
        min_heap_ctor_def min_heap_size_def min_heap_reserve_def zero_event_def event_add_map_def Let_def case_prod_unfold)
  then have r: "event_add_nolock ref_idle 5 (Some (Timeval 900 0)) True = (ref_timer, 0)"
    by (metis prod.collapse ref_timer_def)
  note ok = event_add_nolock_ok [OF soundD(1) [OF s] ad(1,3,2) h r]
  show "base_ok ref_timer" by (rule ok(1))
  show "flags_of ref_timer 5 = EVLIST_INIT OR EVLIST_TIMEOUT"
    using ok(4) [of 5] by (simp add: ref_idle_event added_flags_def Let_def clr_def zero_event_def)
  show "ev_timeout (mem ref_timer 5) = Timeval 900 0" using ok(5) [of 5] by (simp add: ref_idle_event event_deadline_def)
  show "n_common_timeouts ref_timer = 0" using untouchedD(9) [OF ok(3)] by (simp add: ref_idle_event)
qed

theorem timeout_process_expires_witness:
  "\<exists>base1 now base'. gettime_now ref_timer = (base1, now) \<and> timeout_process ref_timer = Some base' \<and>
     (Timeval 900 0 \<le> now \<longrightarrow> flags_of base' 5 = EVLIST_INIT OR EVLIST_ACTIVE)"
proof -
  obtain base1 now where g: "gettime_now ref_timer = (base1, now)" by force
  have c: "\<not> is_common_timeout t ref_timer" for t using ref_timer_ok(4) by (simp add: is_common_timeout_def)
  show ?thesis
    using timeout_process_expires [OF ref_timer_ok(1) g] g ref_timer_ok(2,3) c by (fastforce simp: Let_def clr_def)
qed







definition collect :: "('b, ev_ptr list) visitor" where
  "collect base e es = (es @ [e], 0)"

lemma visit_collect: "visit collect no_skip base xs es = (es @ xs, 0)"
  by (induction xs arbitrary: es) (simp_all add: collect_def no_skip_def)

text \<open>C18: \<^verbatim>\<open>event_base_foreach_event\<close> with a function that never stops it returns, and hands the function
  every event once: each event in the maps (those for a negative descriptor are in none), each
  further event with a timeout, and each event on an active queue that is neither.\<close>

theorem foreach_event_once:
  assumes "wf_base base"
  shows "\<exists>es. event_base_foreach_event base collect [] = Some (es, 0) \<and> distinct es \<and>
    (\<forall>e. e \<in> set es \<longleftrightarrow>
       has (flags_of base e) EVLIST_INSERTED \<and> (io_kind (mem base e) \<longrightarrow> 0 \<le> ev_fd (mem base e)) \<or>
       \<not> has (flags_of base e) EVLIST_INSERTED \<and> has (flags_of base e) EVLIST_TIMEOUT \<or>
       has (flags_of base e) EVLIST_INIT \<and> has (flags_of base e) EVLIST_ACTIVE \<and>
         \<not> has (flags_of base e) EVLIST_INSERTED \<and> \<not> has (flags_of base e) EVLIST_TIMEOUT)"
  using listed_spec [OF assms] foreach_visits_listed [of base collect "[]"]
  by (auto simp: event_base_foreach_event_def visit_collect)

theorem foreach_event_once_witness:
  "\<exists>es. event_base_foreach_event ref_timer collect [] = Some (es, 0) \<and> distinct es \<and> 5 \<in> set es"
proof -
  have "wf_base ref_timer" using ref_timer_ok(1) by (simp add: base_ok_def)
  then show ?thesis using foreach_event_once [of ref_timer] ref_timer_ok(2) by auto
qed

text \<open>C17: deleting all events of the maps, as \<^verbatim>\<open>event_base_free\<close> does, returns although each list is
  walked while its head is deleted; afterwards no event is in a map but those for a negative
  descriptor, and the other state of every event is as it was.\<close>

theorem delete_all_returns:
  assumes "wf_base base"
  shows "\<exists>base'. evmap_delete_all base = Some base' \<and> wf_base base' \<and>
    (\<forall>e. let out = has (flags_of base e) EVLIST_INSERTED \<and> (io_kind (mem base e) \<longrightarrow> 0 \<le> ev_fd (mem base e))
         in flags_of base' e = (if out then clr (flags_of base e)
              (EVLIST_TIMEOUT OR EVLIST_INSERTED OR EVLIST_ACTIVE OR EVLIST_ACTIVE_LATER) else flags_of base e))"
proof -
  obtain base' where b: "evmap_delete_all base = Some base'"
    "deleted (mapped base (\<lambda>ev. io_kind ev \<longrightarrow> 0 \<le> ev_fd ev)) base base'"
    using evmap_delete_all_ok [OF assms] by blast
  then show ?thesis using deletedD(1,5) [OF b(2)] by (auto simp: Let_def)
qed

theorem delete_all_returns_witness: "\<exists>base'. evmap_delete_all ref_timer = Some base' \<and> wf_base base'"
proof -
  have "wf_base ref_timer" using ref_timer_ok(1) by (simp add: base_ok_def)
  then show ?thesis using delete_all_returns by blast
qed



end
