(* ===== verification/Evbuffer.thy ===== *)
theory Evbuffer
  imports Ev_Prelude
begin

text \<open>
  Buffers (\<^verbatim>\<open>buffer.c\<close>, \<^verbatim>\<open>evbuffer-internal.h\<close>): a buffer is a linked list of chains, each a block
  of memory with its data at \<open>misalign\<close>, \<open>off\<close> bytes long.  The list is a HOL list; \<open>cid\<close> is a chain's
  address, \<^verbatim>\<open>buf->last\<close> is the address of a chain, and \<^verbatim>\<open>last_with_datap\<close>, which points at a
  \<^verbatim>\<open>next\<close> field or at \<^verbatim>\<open>buf->first\<close>, is a \<open>slot\<close>.  Linux on 64 bits, without thread support.

  The allocator, the memory it hands out, the scheduling of deferred callbacks and the functions
  registered by the user are arguments.  \<open>fault\<close> records that an assertion failed, that a null chain
  was followed, or that memory outside a chain's block or marked immutable was written.
\<close>

subsection \<open>Data\<close>

definition EV_SIZE_MAX :: nat where "EV_SIZE_MAX = 2 ^ 64 - 1"
definition EV_SSIZE_MAX :: nat where "EV_SSIZE_MAX = 2 ^ 63 - 1"
definition EVBUFFER_CHAIN_MAX :: nat where "EVBUFFER_CHAIN_MAX = EV_SSIZE_MAX"

text \<open>\<^verbatim>\<open>sizeof(struct evbuffer_chain)\<close>: five words, and two 32-bit fields that share one.\<close>

definition EVBUFFER_CHAIN_SIZE :: nat where "EVBUFFER_CHAIN_SIZE = 48"
definition MIN_BUFFER_SIZE :: nat where "MIN_BUFFER_SIZE = 1024"
definition EVBUFFER_CHAIN_MAX_AUTO_SIZE :: nat where "EVBUFFER_CHAIN_MAX_AUTO_SIZE = 4096"
definition MAX_TO_COPY_IN_EXPAND :: nat where "MAX_TO_COPY_IN_EXPAND = 4096"
definition MAX_TO_REALIGN_IN_EXPAND :: nat where "MAX_TO_REALIGN_IN_EXPAND = 2048"

definition EVBUFFER_FILESEGMENT :: u32 where "EVBUFFER_FILESEGMENT = 0x0001"
definition EVBUFFER_SENDFILE :: u32 where "EVBUFFER_SENDFILE = 0x0002"
definition EVBUFFER_REFERENCE :: u32 where "EVBUFFER_REFERENCE = 0x0004"
definition EVBUFFER_IMMUTABLE :: u32 where "EVBUFFER_IMMUTABLE = 0x0008"
definition EVBUFFER_MEM_PINNED_R :: u32 where "EVBUFFER_MEM_PINNED_R = 0x0010"
definition EVBUFFER_MEM_PINNED_W :: u32 where "EVBUFFER_MEM_PINNED_W = 0x0020"
definition EVBUFFER_MEM_PINNED_ANY :: u32 where
  "EVBUFFER_MEM_PINNED_ANY = EVBUFFER_MEM_PINNED_R OR EVBUFFER_MEM_PINNED_W"
definition EVBUFFER_DANGLING :: u32 where "EVBUFFER_DANGLING = 0x0040"

lemmas chain_flag_defs = EVBUFFER_FILESEGMENT_def EVBUFFER_SENDFILE_def EVBUFFER_REFERENCE_def
  EVBUFFER_IMMUTABLE_def EVBUFFER_MEM_PINNED_R_def EVBUFFER_MEM_PINNED_W_def
  EVBUFFER_MEM_PINNED_ANY_def EVBUFFER_DANGLING_def

definition EVBUFFER_CB_ENABLED :: u32 where "EVBUFFER_CB_ENABLED = 1"
definition EVBUFFER_CB_NODEFER :: u32 where "EVBUFFER_CB_NODEFER = 2"
definition EVBUFFER_CB_OBSOLETE :: u32 where "EVBUFFER_CB_OBSOLETE = 0x00040000"
definition EVBUFFER_CB_INTERNAL_FLAGS :: u32 where "EVBUFFER_CB_INTERNAL_FLAGS = 0xffff0000"

text \<open>What lives behind a chain that refers to foreign memory.\<close>

datatype chain_extra = No_extra | Evbuffer_chain_reference "nat option" nat | Evbuffer_chain_file_segment nat

record evbuffer_chain =
  cid :: nat
  buffer_len :: nat
  misalign :: nat
  off :: nat
  cflags :: u32
  crefcnt :: nat
  cbuffer :: "nat \<Rightarrow> u8"
  cextra :: chain_extra

datatype slot = First | Next nat

record evbuffer_cb_entry =
  ent :: nat
  cb_func :: nat
  cbarg :: nat
  cb_flags :: u32

record evbuffer_cb_info =
  orig_size :: nat
  n_added :: nat
  n_deleted :: nat

record evbuffer =
  chains :: "evbuffer_chain list"
  blast :: "nat option"
  last_with_datap :: slot
  total_len :: nat
  n_add_for_cb :: nat
  n_del_for_cb :: nat
  freeze_start :: bool
  freeze_end :: bool
  deferred_cbs :: bool
  bflags :: u32
  brefcnt :: nat
  callbacks :: "evbuffer_cb_entry list"

datatype cb_call = Cb_func nat evbuffer_cb_info nat | Cb_obsolete nat nat nat nat

datatype release = Cleanupfn nat nat nat nat | Segment_free nat

record bworld =
  mm :: "nat \<Rightarrow> bool"
  mm_calls :: nat
  junk :: "nat \<Rightarrow> nat \<Rightarrow> u8"
  dangling :: "evbuffer_chain list"
  released :: "release list"
  cb_log :: "cb_call list"
  sched :: "nat \<Rightarrow> bool"
  sched_calls :: nat
  fault :: bool

type_synonym user_cb = "cb_call \<Rightarrow> bworld \<Rightarrow> evbuffer \<Rightarrow> bworld \<times> evbuffer"

definition bcheck :: "bool \<Rightarrow> bworld \<Rightarrow> bworld" where
  "bcheck ok w = (if ok then w else w\<lparr>fault := True\<rparr>)"

definition mm_malloc :: "bworld \<Rightarrow> bworld \<times> bool" where
  "mm_malloc w = (w\<lparr>mm_calls := mm_calls w + 1\<rparr>, mm w (mm_calls w))"

subsection \<open>Chains\<close>

definition CHAIN_PINNED :: "evbuffer_chain \<Rightarrow> bool" where
  "CHAIN_PINNED ch = has (cflags ch) EVBUFFER_MEM_PINNED_ANY"

definition CHAIN_PINNED_R :: "evbuffer_chain \<Rightarrow> bool" where
  "CHAIN_PINNED_R ch = has (cflags ch) EVBUFFER_MEM_PINNED_R"

definition CHAIN_SPACE_LEN :: "evbuffer_chain \<Rightarrow> nat" where
  "CHAIN_SPACE_LEN ch =
     (if has (cflags ch) EVBUFFER_IMMUTABLE then 0 else buffer_len ch - (misalign ch + off ch))"

text \<open>The data of a chain, and \<^verbatim>\<open>memcpy\<close> into its block.\<close>

definition chain_bytes :: "evbuffer_chain \<Rightarrow> nat \<Rightarrow> nat \<Rightarrow> bytes" where
  "chain_bytes ch p n = map (cbuffer ch) [misalign ch + p ..< misalign ch + p + n]"

definition chain_data :: "evbuffer_chain \<Rightarrow> bytes" where
  "chain_data ch = chain_bytes ch 0 (off ch)"

definition mem_write :: "(nat \<Rightarrow> u8) \<Rightarrow> nat \<Rightarrow> bytes \<Rightarrow> nat \<Rightarrow> u8" where
  "mem_write m p bs = (\<lambda>i. if p \<le> i \<and> i < p + length bs then bs ! (i - p) else m i)"

definition memcpy_to :: "bworld \<Rightarrow> evbuffer_chain \<Rightarrow> nat \<Rightarrow> bytes \<Rightarrow> bworld \<times> evbuffer_chain" where
  "memcpy_to w ch p bs =
     (bcheck (bs = [] \<or> p + length bs \<le> buffer_len ch \<and> \<not> has (cflags ch) EVBUFFER_IMMUTABLE) w,
      ch\<lparr>cbuffer := mem_write (cbuffer ch) p bs\<rparr>)"

text \<open>The size of an allocation: \<^verbatim>\<open>MIN_BUFFER_SIZE\<close> shifted left until it is large enough.\<close>

function alloc_size :: "nat \<Rightarrow> nat \<Rightarrow> nat" where
  "alloc_size k sz =
     (if push_bit k MIN_BUFFER_SIZE < sz then alloc_size (k + 1) sz else push_bit k MIN_BUFFER_SIZE)"
  by pat_completeness auto
termination
proof (relation "measure (\<lambda>(k, sz). sz - k)")
  fix k sz :: nat
  assume "push_bit k MIN_BUFFER_SIZE < sz"
  moreover have "k < push_bit k MIN_BUFFER_SIZE"
  proof -
    have "(2::nat) ^ k \<le> 1024 * 2 ^ k" by linarith
    then show ?thesis
      using less_exp [of k] by (simp only: push_bit_eq_mult MIN_BUFFER_SIZE_def)
  qed
  ultimately show "((k + 1, sz), (k, sz)) \<in> measure (\<lambda>(k, sz). sz - k)" by simp
qed simp

declare alloc_size.simps [simp del]

definition evbuffer_chain_new :: "bworld \<Rightarrow> nat \<Rightarrow> bworld \<times> evbuffer_chain option" where
  "evbuffer_chain_new w size0 =
     (if size0 > EVBUFFER_CHAIN_MAX - EVBUFFER_CHAIN_SIZE then (w, None)
      else let sz = size0 + EVBUFFER_CHAIN_SIZE;
               to_alloc = (if sz < EVBUFFER_CHAIN_MAX div 2 then alloc_size 0 sz else sz)
           in case mm_malloc w of
                (w1, ok) \<Rightarrow>
                  (w1, if \<not> ok then None
                       else Some \<lparr>cid = mm_calls w, buffer_len = to_alloc - EVBUFFER_CHAIN_SIZE, misalign = 0,
                                  off = 0, cflags = 0, crefcnt = 1, cbuffer = junk w (mm_calls w),
                                  cextra = No_extra\<rparr>))"

text \<open>A chain that stays allocated after it left its list goes to \<open>dangling\<close>.\<close>

definition evbuffer_chain_free :: "bworld \<Rightarrow> evbuffer_chain \<Rightarrow> bworld" where
  "evbuffer_chain_free w0 ch =
     (let w = bcheck (crefcnt ch > 0) w0; n = crefcnt ch - 1
      in if n > 0 then w\<lparr>dangling := ch\<lparr>crefcnt := n\<rparr> # dangling w\<rparr>
         else if CHAIN_PINNED ch
         then w\<lparr>dangling := ch\<lparr>cflags := cflags ch OR EVBUFFER_DANGLING\<rparr> # dangling w\<rparr>
         else let w1 = (if has (cflags ch) EVBUFFER_REFERENCE
                        then (case cextra ch of
                                Evbuffer_chain_reference (Some fn) extra \<Rightarrow>
                                  w\<lparr>released := released w @ [Cleanupfn fn (cid ch) (buffer_len ch) extra]\<rparr>
                              | _ \<Rightarrow> w)
                        else w)
              in (if has (cflags ch) EVBUFFER_FILESEGMENT
                  then (case cextra ch of
                          Evbuffer_chain_file_segment seg \<Rightarrow> w1\<lparr>released := released w1 @ [Segment_free seg]\<rparr>
                        | _ \<Rightarrow> w1)
                  else w1))"

fun evbuffer_free_all_chains :: "bworld \<Rightarrow> evbuffer_chain list \<Rightarrow> bworld" where
  "evbuffer_free_all_chains w [] = w"
| "evbuffer_free_all_chains w (ch # next) = evbuffer_free_all_chains (evbuffer_chain_free w ch) next"

fun evbuffer_chains_all_empty :: "evbuffer_chain list \<Rightarrow> bool" where
  "evbuffer_chains_all_empty [] = True"
| "evbuffer_chains_all_empty (ch # next) = (if off ch \<noteq> 0 then False else evbuffer_chains_all_empty next)"

definition evbuffer_chain_pin :: "bworld \<Rightarrow> evbuffer_chain \<Rightarrow> u32 \<Rightarrow> bworld \<times> evbuffer_chain" where
  "evbuffer_chain_pin w ch flag = (bcheck (\<not> has (cflags ch) flag) w, ch\<lparr>cflags := cflags ch OR flag\<rparr>)"

text \<open>A dangling chain is freed with its last pin (\<open>None\<close>).\<close>

definition evbuffer_chain_unpin :: "bworld \<Rightarrow> evbuffer_chain \<Rightarrow> u32 \<Rightarrow> bworld \<times> evbuffer_chain option" where
  "evbuffer_chain_unpin w0 ch0 flag =
     (let w = bcheck (has (cflags ch0) flag) w0; ch = ch0\<lparr>cflags := clr (cflags ch0) flag\<rparr>
      in if has (cflags ch) EVBUFFER_DANGLING then (evbuffer_chain_free w ch, None) else (w, Some ch))"

definition evbuffer_chain_should_realign :: "evbuffer_chain \<Rightarrow> nat \<Rightarrow> bool" where
  "evbuffer_chain_should_realign ch datlen \<longleftrightarrow>
     buffer_len ch - off ch \<ge> datlen \<and> off ch < buffer_len ch div 2 \<and> off ch \<le> MAX_TO_REALIGN_IN_EXPAND"

definition evbuffer_chain_align :: "bworld \<Rightarrow> evbuffer_chain \<Rightarrow> bworld \<times> evbuffer_chain" where
  "evbuffer_chain_align w0 ch =
     (let w = bcheck (\<not> has (cflags ch) EVBUFFER_IMMUTABLE \<and> \<not> has (cflags ch) EVBUFFER_MEM_PINNED_ANY) w0
      in case memcpy_to w ch 0 (chain_data ch) of (w1, ch1) \<Rightarrow> (w1, ch1\<lparr>misalign := 0\<rparr>))"

subsection \<open>Walking the list\<close>

text \<open>\<open>split_at cs s\<close> cuts the list at a slot: what is in front of it, and what it points at.\<close>

fun split_at :: "evbuffer_chain list \<Rightarrow> slot \<Rightarrow> evbuffer_chain list \<times> evbuffer_chain list" where
  "split_at cs First = ([], cs)"
| "split_at [] (Next a) = ([], [])"
| "split_at (c # cs) (Next a) =
     (if cid c = a then ([c], cs) else case split_at cs (Next a) of (pre, post) \<Rightarrow> (c # pre, post))"

definition hd_opt :: "'a list \<Rightarrow> 'a option" where
  "hd_opt xs = (case xs of [] \<Rightarrow> None | x # _ \<Rightarrow> Some x)"

text \<open>\<^verbatim>\<open>*s\<close> for a slot, and the chain at an address.\<close>

definition deref :: "evbuffer \<Rightarrow> slot \<Rightarrow> evbuffer_chain option" where
  "deref b s = hd_opt (snd (split_at (chains b) s))"

definition chain_at :: "evbuffer \<Rightarrow> nat option \<Rightarrow> evbuffer_chain option" where
  "chain_at b a = (case a of None \<Rightarrow> None | Some i \<Rightarrow> find (\<lambda>c. cid c = i) (chains b))"

text \<open>Assigning to a chain in place.\<close>

definition put_chain :: "evbuffer_chain \<Rightarrow> evbuffer \<Rightarrow> evbuffer" where
  "put_chain ch b = b\<lparr>chains := map (\<lambda>c. if cid c = cid ch then ch else c) (chains b)\<rparr>"

definition evbuffer_free_trailing_empty_chains :: "bworld \<Rightarrow> evbuffer \<Rightarrow> bworld \<times> evbuffer \<times> slot" where
  "evbuffer_free_trailing_empty_chains w b =
     (case split_at (chains b) (last_with_datap b) of
        (pre, post) \<Rightarrow>
          let used = takeWhile (\<lambda>c. off c \<noteq> 0 \<or> CHAIN_PINNED c) post;
              victims = dropWhile (\<lambda>c. off c \<noteq> 0 \<or> CHAIN_PINNED c) post;
              ch = (if used = [] then last_with_datap b else Next (cid (last used)))
          in (if victims = [] then (w, b, ch)
              else (evbuffer_free_all_chains (bcheck (evbuffer_chains_all_empty victims) w) victims,
                    b\<lparr>chains := pre @ used\<rparr>, ch)))"

definition evbuffer_chain_insert :: "bworld \<Rightarrow> evbuffer \<Rightarrow> evbuffer_chain \<Rightarrow> bworld \<times> evbuffer" where
  "evbuffer_chain_insert w b ch =
     (case (if deref b (last_with_datap b) = None
            then (bcheck (last_with_datap b = First \<and> chains b = []) w,
                  b\<lparr>chains := [ch], blast := Some (cid ch)\<rparr>)
            else case evbuffer_free_trailing_empty_chains w b of
                   (w1, b1, chp) \<Rightarrow>
                     (w1, b1\<lparr>chains := chains b1 @ [ch],
                             last_with_datap := (if off ch \<noteq> 0 then chp else last_with_datap b1),
                             blast := Some (cid ch)\<rparr>)) of
        (w2, b2) \<Rightarrow> (w2, b2\<lparr>total_len := total_len b2 + off ch\<rparr>))"

definition evbuffer_chain_insert_new :: "bworld \<Rightarrow> evbuffer \<Rightarrow> nat \<Rightarrow> bworld \<times> evbuffer \<times> evbuffer_chain option" where
  "evbuffer_chain_insert_new w b datlen =
     (case evbuffer_chain_new w datlen of
        (w1, None) \<Rightarrow> (w1, b, None)
      | (w1, Some ch) \<Rightarrow> (case evbuffer_chain_insert w1 b ch of (w2, b2) \<Rightarrow> (w2, b2, Some ch)))"

text \<open>The loop moves the slot to the next field of the chain it points at.\<close>

fun advance_over :: "slot \<Rightarrow> evbuffer_chain list \<Rightarrow> slot \<times> nat" where
  "advance_over s (c # c' # cs) =
     (if off c' \<noteq> 0 then case advance_over (Next (cid c)) (c' # cs) of (s', n) \<Rightarrow> (s', n + 1) else (s, 0))"
| "advance_over s _ = (s, 0)"

definition advance_last_with_data :: "evbuffer \<Rightarrow> evbuffer \<times> nat" where
  "advance_last_with_data b =
     (case advance_over (last_with_datap b) (snd (split_at (chains b) (last_with_datap b))) of
        (s, n) \<Rightarrow> (b\<lparr>last_with_datap := s\<rparr>, n))"

subsection \<open>Making, freeing and watching a buffer\<close>

definition evbuffer_new :: "bworld \<Rightarrow> bworld \<times> evbuffer option" where
  "evbuffer_new w =
     (case mm_malloc w of
        (w1, ok) \<Rightarrow>
          (w1, if \<not> ok then None
               else Some \<lparr>chains = [], blast = None, last_with_datap = First, total_len = 0, n_add_for_cb = 0,
                          n_del_for_cb = 0, freeze_start = False, freeze_end = False, deferred_cbs = False,
                          bflags = 0, brefcnt = 1, callbacks = []\<rparr>))"

definition evbuffer_set_flags :: "evbuffer \<Rightarrow> u64 \<Rightarrow> evbuffer \<times> int" where
  "evbuffer_set_flags b flags = (b\<lparr>bflags := bflags b OR ucast flags\<rparr>, 0)"

definition evbuffer_clear_flags :: "evbuffer \<Rightarrow> u64 \<Rightarrow> evbuffer \<times> int" where
  "evbuffer_clear_flags b flags = (b\<lparr>bflags := bflags b AND NOT (ucast flags)\<rparr>, 0)"

definition evbuffer_incref :: "evbuffer \<Rightarrow> evbuffer" where
  "evbuffer_incref b = b\<lparr>brefcnt := brefcnt b + 1\<rparr>"

text \<open>
  Running the callbacks.  The list is walked by the \<^verbatim>\<open>next\<close> pointers read before each call; new
  entries go to its front, so the walk is along the entries present at the start.
\<close>

fun run_callbacks_loop :: "user_cb \<Rightarrow> u32 \<Rightarrow> u32 \<Rightarrow> evbuffer_cb_info \<Rightarrow> nat \<Rightarrow> nat list \<Rightarrow> bworld \<Rightarrow> evbuffer \<Rightarrow>
    bworld \<times> evbuffer" where
  "run_callbacks_loop ucb cbmask masked_val info new_size [] w b = (w, b)"
| "run_callbacks_loop ucb cbmask masked_val info new_size (i # next) w b =
     (case find (\<lambda>e. ent e = i) (callbacks b) of
        None \<Rightarrow> (bcheck False w, b)
      | Some cbent \<Rightarrow>
          if cb_flags cbent AND cbmask \<noteq> masked_val
          then run_callbacks_loop ucb cbmask masked_val info new_size next w b
          else let call = (if has (cb_flags cbent) EVBUFFER_CB_OBSOLETE
                           then Cb_obsolete (cb_func cbent) (orig_size info) new_size (cbarg cbent)
                           else Cb_func (cb_func cbent) info (cbarg cbent))
               in case ucb call (w\<lparr>cb_log := cb_log w @ [call]\<rparr>) b of
                    (w1, b1) \<Rightarrow> run_callbacks_loop ucb cbmask masked_val info new_size next w1 b1)"

definition evbuffer_run_callbacks :: "user_cb \<Rightarrow> bworld \<Rightarrow> evbuffer \<Rightarrow> bool \<Rightarrow> bworld \<times> evbuffer" where
  "evbuffer_run_callbacks ucb w b running_deferred =
     (let cbmask = (if running_deferred \<or> deferred_cbs b then EVBUFFER_CB_NODEFER OR EVBUFFER_CB_ENABLED
                  else EVBUFFER_CB_ENABLED);
          masked_val = (if running_deferred then EVBUFFER_CB_ENABLED
                        else if deferred_cbs b then EVBUFFER_CB_NODEFER OR EVBUFFER_CB_ENABLED
                        else EVBUFFER_CB_ENABLED);
          clear = (running_deferred \<or> \<not> deferred_cbs b)
      in if callbacks b = [] then (w, b\<lparr>n_add_for_cb := 0, n_del_for_cb := 0\<rparr>)
         else if n_add_for_cb b = 0 \<and> n_del_for_cb b = 0 then (w, b)
         else let new_size = total_len b;
                  info = \<lparr>orig_size = new_size + n_del_for_cb b - n_add_for_cb b,
                          n_added = n_add_for_cb b, n_deleted = n_del_for_cb b\<rparr>;
                  b1 = (if clear then b\<lparr>n_add_for_cb := 0, n_del_for_cb := 0\<rparr> else b)
              in run_callbacks_loop ucb cbmask masked_val info new_size (map ent (callbacks b1)) w b1)"

text \<open>\<open>sched\<close> is what \<^verbatim>\<open>event_deferred_cb_schedule_\<close> returns: whether the callback was not pending yet.\<close>

definition evbuffer_invoke_callbacks :: "user_cb \<Rightarrow> bworld \<Rightarrow> evbuffer \<Rightarrow> bworld \<times> evbuffer" where
  "evbuffer_invoke_callbacks ucb w b =
     (if callbacks b = [] then (w, b\<lparr>n_add_for_cb := 0, n_del_for_cb := 0\<rparr>)
      else let (w1, b1) = (if deferred_cbs b
                           then (w\<lparr>sched_calls := sched_calls w + 1\<rparr>,
                                 if sched w (sched_calls w) then evbuffer_incref b else b)
                           else (w, b))
           in evbuffer_run_callbacks ucb w1 b1 False)"

definition evbuffer_remove_all_callbacks :: "evbuffer \<Rightarrow> evbuffer" where
  "evbuffer_remove_all_callbacks b = b\<lparr>callbacks := []\<rparr>"

text \<open>\<open>None\<close> is a buffer that was freed.\<close>

definition evbuffer_decref_and_unlock :: "bworld \<Rightarrow> evbuffer \<Rightarrow> bworld \<times> evbuffer option" where
  "evbuffer_decref_and_unlock w0 b =
     (let w = bcheck (brefcnt b > 0) w0
      in if brefcnt b - 1 > 0 then (w, Some (b\<lparr>brefcnt := brefcnt b - 1\<rparr>))
         else (evbuffer_free_all_chains w (chains b), None))"

definition evbuffer_free :: "bworld \<Rightarrow> evbuffer \<Rightarrow> bworld \<times> evbuffer option" where
  "evbuffer_free w b = evbuffer_decref_and_unlock w b"

definition evbuffer_deferred_callback :: "user_cb \<Rightarrow> bworld \<Rightarrow> evbuffer \<Rightarrow> bworld \<times> evbuffer option" where
  "evbuffer_deferred_callback ucb w b =
     (case evbuffer_run_callbacks ucb w b True of (w1, b1) \<Rightarrow> evbuffer_decref_and_unlock w1 b1)"

text \<open>An entry's address is the number of its allocation.\<close>

definition evbuffer_add_cb :: "bworld \<Rightarrow> evbuffer \<Rightarrow> nat \<Rightarrow> nat \<Rightarrow> bworld \<times> evbuffer \<times> nat option" where
  "evbuffer_add_cb w b cb arg =
     (case mm_malloc w of
        (w1, ok) \<Rightarrow>
          if \<not> ok then (w1, b, None)
          else (w1, b\<lparr>callbacks := \<lparr>ent = mm_calls w, cb_func = cb, cbarg = arg,
                                   cb_flags = EVBUFFER_CB_ENABLED\<rparr> # callbacks b\<rparr>, Some (mm_calls w)))"

definition put_entry :: "nat \<Rightarrow> (evbuffer_cb_entry \<Rightarrow> evbuffer_cb_entry) \<Rightarrow> evbuffer \<Rightarrow> evbuffer" where
  "put_entry i f b = b\<lparr>callbacks := map (\<lambda>e. if ent e = i then f e else e) (callbacks b)\<rparr>"

text \<open>The entry is used without a test for failure of the allocation.\<close>

definition evbuffer_setcb :: "bworld \<Rightarrow> evbuffer \<Rightarrow> nat option \<Rightarrow> nat \<Rightarrow> bworld \<times> evbuffer" where
  "evbuffer_setcb w b0 cb arg =
     (let b = (if callbacks b0 \<noteq> [] then evbuffer_remove_all_callbacks b0 else b0)
      in case cb of
           None \<Rightarrow> (w, b)
         | Some fn \<Rightarrow>
             (case evbuffer_add_cb w b 0 arg of
                (w1, b1, None) \<Rightarrow> (bcheck False w1, b1)
              | (w1, b1, Some i) \<Rightarrow>
                  (w1, put_entry i (\<lambda>e. e\<lparr>cb_func := fn, cb_flags := cb_flags e OR EVBUFFER_CB_OBSOLETE\<rparr>) b1)))"

definition evbuffer_remove_cb_entry :: "evbuffer \<Rightarrow> nat \<Rightarrow> evbuffer \<times> int" where
  "evbuffer_remove_cb_entry b i = (b\<lparr>callbacks := filter (\<lambda>e. ent e \<noteq> i) (callbacks b)\<rparr>, 0)"

definition evbuffer_remove_cb :: "evbuffer \<Rightarrow> nat \<Rightarrow> nat \<Rightarrow> evbuffer \<times> int" where
  "evbuffer_remove_cb b cb arg =
     (case find (\<lambda>e. cb = cb_func e \<and> arg = cbarg e) (callbacks b) of
        None \<Rightarrow> (b, -1)
      | Some e \<Rightarrow> evbuffer_remove_cb_entry b (ent e))"

definition evbuffer_cb_set_flags :: "evbuffer \<Rightarrow> nat \<Rightarrow> u32 \<Rightarrow> evbuffer \<times> int" where
  "evbuffer_cb_set_flags b i flags =
     (put_entry i (\<lambda>e. e\<lparr>cb_flags := cb_flags e OR clr flags EVBUFFER_CB_INTERNAL_FLAGS\<rparr>) b, 0)"

definition evbuffer_cb_clear_flags :: "evbuffer \<Rightarrow> nat \<Rightarrow> u32 \<Rightarrow> evbuffer \<times> int" where
  "evbuffer_cb_clear_flags b i flags =
     (put_entry i (\<lambda>e. e\<lparr>cb_flags := clr (cb_flags e) (clr flags EVBUFFER_CB_INTERNAL_FLAGS)\<rparr>) b, 0)"

definition evbuffer_freeze :: "evbuffer \<Rightarrow> bool \<Rightarrow> evbuffer \<times> int" where
  "evbuffer_freeze b start = (if start then b\<lparr>freeze_start := True\<rparr> else b\<lparr>freeze_end := True\<rparr>, 0)"

definition evbuffer_unfreeze :: "evbuffer \<Rightarrow> bool \<Rightarrow> evbuffer \<times> int" where
  "evbuffer_unfreeze b start = (if start then b\<lparr>freeze_start := False\<rparr> else b\<lparr>freeze_end := False\<rparr>, 0)"

definition evbuffer_get_length :: "evbuffer \<Rightarrow> nat" where
  "evbuffer_get_length b = total_len b"

definition evbuffer_get_contiguous_space :: "evbuffer \<Rightarrow> nat" where
  "evbuffer_get_contiguous_space b = (case chains b of [] \<Rightarrow> 0 | ch # _ \<Rightarrow> off ch)"

end
