(* ===== verification/Evbuffer_Ops.thy ===== *)
theory Evbuffer_Ops
  imports Evbuffer
begin

text \<open>
  The operations on buffers (\<^verbatim>\<open>buffer.c\<close>): adding, prepending, draining, copying out, pulling up,
  moving data between buffers, making room, and reading from and writing to a descriptor.  A pair of
  buffers stands for two different ones; a call with the same buffer twice returns at once and is
  left out.
\<close>

subsection \<open>Adding and prepending\<close>

definition EVBUFFER_ADDED :: "nat \<Rightarrow> evbuffer \<Rightarrow> evbuffer" where
  "EVBUFFER_ADDED n b = b\<lparr>total_len := total_len b + n, n_add_for_cb := n_add_for_cb b + n\<rparr>"

definition evbuffer_finish :: "user_cb \<Rightarrow> bworld \<Rightarrow> evbuffer \<Rightarrow> int \<Rightarrow> bworld \<times> evbuffer \<times> int" where
  "evbuffer_finish ucb w b r = (case evbuffer_invoke_callbacks ucb w b of (w1, b1) \<Rightarrow> (w1, b1, r))"

definition evbuffer_add_to :: "user_cb \<Rightarrow> bworld \<Rightarrow> evbuffer \<Rightarrow> evbuffer_chain \<Rightarrow> bytes \<Rightarrow> bworld \<times> evbuffer \<times> int" where
  "evbuffer_add_to ucb w b ch data =
     (let datlen = length data;
          mutable = (\<not> has (cflags ch) EVBUFFER_IMMUTABLE);
          remain = (if mutable then buffer_len ch - misalign ch - off ch else 0)
      in if mutable \<and> remain \<ge> datlen then
           (case memcpy_to (bcheck (misalign ch \<le> EVBUFFER_CHAIN_MAX) w) ch (misalign ch + off ch) data of
              (w1, ch1) \<Rightarrow>
                evbuffer_finish ucb w1 (EVBUFFER_ADDED datlen (put_chain (ch1\<lparr>off := off ch1 + datlen\<rparr>) b)) 0)
         else if mutable \<and> \<not> CHAIN_PINNED ch \<and> evbuffer_chain_should_realign ch datlen then
           (case evbuffer_chain_align (bcheck (misalign ch \<le> EVBUFFER_CHAIN_MAX) w) ch of
              (w1, ch1) \<Rightarrow>
                (case memcpy_to w1 ch1 (off ch1) data of
                   (w2, ch2) \<Rightarrow>
                     evbuffer_finish ucb w2 (EVBUFFER_ADDED datlen (put_chain (ch2\<lparr>off := off ch2 + datlen\<rparr>) b)) 0))
         else let w0 = (if mutable then bcheck (misalign ch \<le> EVBUFFER_CHAIN_MAX) w else w);
                  to_alloc0 = buffer_len ch;
                  to_alloc1 = (if to_alloc0 \<le> EVBUFFER_CHAIN_MAX_AUTO_SIZE div 2 then push_bit 1 to_alloc0 else to_alloc0);
                  to_alloc = (if datlen > to_alloc1 then datlen else to_alloc1)
              in case evbuffer_chain_new w0 to_alloc of
                   (w1, None) \<Rightarrow> (w1, b, -1)
                 | (w1, Some tmp) \<Rightarrow>
                     (case (if remain \<noteq> 0
                            then case memcpy_to w1 ch (misalign ch + off ch) (take remain data) of
                                   (w2, ch2) \<Rightarrow>
                                     (w2, EVBUFFER_ADDED remain (put_chain (ch2\<lparr>off := off ch2 + remain\<rparr>) b))
                            else (w1, b)) of
                        (w2, b2) \<Rightarrow>
                          (case memcpy_to w2 tmp 0 (drop remain data) of
                             (w3, tmp1) \<Rightarrow>
                               (case evbuffer_chain_insert w3 b2 (tmp1\<lparr>off := datlen - remain\<rparr>) of
                                  (w4, b4) \<Rightarrow>
                                    evbuffer_finish ucb w4
                                      (b4\<lparr>n_add_for_cb := n_add_for_cb b4 + (datlen - remain)\<rparr>) 0))))"

definition evbuffer_add :: "user_cb \<Rightarrow> bworld \<Rightarrow> evbuffer \<Rightarrow> bytes \<Rightarrow> bworld \<times> evbuffer \<times> int" where
  "evbuffer_add ucb w b data =
     (if freeze_end b then (w, b, -1)
      else if length data > EV_SIZE_MAX - total_len b then (w, b, -1)
      else case (case deref b (last_with_datap b) of None \<Rightarrow> chain_at b (blast b) | Some c \<Rightarrow> Some c) of
             Some ch \<Rightarrow> evbuffer_add_to ucb w b ch data
           | None \<Rightarrow>
               (case evbuffer_chain_insert_new w b (length data) of
                  (w1, b1, None) \<Rightarrow> (w1, b1, -1)
                | (w1, b1, Some ch) \<Rightarrow> evbuffer_add_to ucb w1 b1 ch data))"

text \<open>A new first chain with its data at the end of the block.\<close>

definition prepend_new :: "user_cb \<Rightarrow> bworld \<Rightarrow> evbuffer \<Rightarrow> bytes \<Rightarrow> bworld \<times> evbuffer \<times> int" where
  "prepend_new ucb w b data =
     (let datlen = length data
      in case evbuffer_chain_new w datlen of
           (w1, None) \<Rightarrow> (w1, b, -1)
         | (w1, Some tmp) \<Rightarrow>
             let pos = buffer_len tmp - datlen
             in case memcpy_to (bcheck (datlen \<le> buffer_len tmp) w1) tmp pos data of
                  (w2, tmp1) \<Rightarrow>
                    evbuffer_finish ucb w2
                      (EVBUFFER_ADDED datlen
                         (b\<lparr>chains := tmp1\<lparr>off := datlen, misalign := pos\<rparr> # chains b,
                            last_with_datap := (if last_with_datap b = First then Next (cid tmp)
                                                else last_with_datap b)\<rparr>)) 0)"

definition evbuffer_prepend_to :: "user_cb \<Rightarrow> bworld \<Rightarrow> evbuffer \<Rightarrow> evbuffer_chain \<Rightarrow> bytes \<Rightarrow> bworld \<times> evbuffer \<times> int" where
  "evbuffer_prepend_to ucb w b ch0 data =
     (if has (cflags ch0) EVBUFFER_IMMUTABLE then prepend_new ucb w b data
      else let w0 = bcheck (misalign ch0 \<le> EVBUFFER_CHAIN_MAX) w;
               datlen = length data;
               ch = (if off ch0 = 0 then ch0\<lparr>misalign := buffer_len ch0\<rparr> else ch0)
           in if misalign ch \<ge> datlen then
                (case memcpy_to w0 ch (misalign ch - datlen) data of
                   (w1, ch1) \<Rightarrow>
                     evbuffer_finish ucb w1
                       (EVBUFFER_ADDED datlen
                          (put_chain (ch1\<lparr>off := off ch1 + datlen, misalign := misalign ch1 - datlen\<rparr>) b)) 0)
              else if misalign ch \<noteq> 0 then
                (case memcpy_to w0 ch 0 (drop (datlen - misalign ch) data) of
                   (w1, ch1) \<Rightarrow>
                     prepend_new ucb w1
                       (EVBUFFER_ADDED (misalign ch)
                          (put_chain (ch1\<lparr>off := off ch1 + misalign ch, misalign := 0\<rparr>) b))
                       (take (datlen - misalign ch) data))
              else prepend_new ucb w0 (put_chain ch b) data)"

definition evbuffer_prepend :: "user_cb \<Rightarrow> bworld \<Rightarrow> evbuffer \<Rightarrow> bytes \<Rightarrow> bworld \<times> evbuffer \<times> int" where
  "evbuffer_prepend ucb w b data =
     (if freeze_start b then (w, b, -1)
      else if length data > EV_SIZE_MAX - total_len b then (w, b, -1)
      else case chains b of
             ch # _ \<Rightarrow> evbuffer_prepend_to ucb w b ch data
           | [] \<Rightarrow>
               (case evbuffer_chain_insert_new w b (length data) of
                  (w1, b1, None) \<Rightarrow> (w1, b1, -1)
                | (w1, b1, Some ch) \<Rightarrow> evbuffer_prepend_to ucb w1 b1 ch data))"

text \<open>The memory of the caller becomes the block of a new chain.\<close>

definition evbuffer_add_reference ::
  "user_cb \<Rightarrow> bworld \<Rightarrow> evbuffer \<Rightarrow> bytes \<Rightarrow> nat option \<Rightarrow> nat \<Rightarrow> bworld \<times> evbuffer \<times> int" where
  "evbuffer_add_reference ucb w b data cleanupfn extra =
     (case evbuffer_chain_new w 16 of
        (w1, None) \<Rightarrow> (w1, b, -1)
      | (w1, Some ch0) \<Rightarrow>
          let ch = ch0\<lparr>cflags := cflags ch0 OR (EVBUFFER_REFERENCE OR EVBUFFER_IMMUTABLE),
                       cbuffer := (\<lambda>i. data ! i), buffer_len := length data, off := length data,
                       cextra := Evbuffer_chain_reference cleanupfn extra\<rparr>
          in if freeze_end b then (w1, b, -1)
             else case evbuffer_chain_insert w1 b ch of
                    (w2, b2) \<Rightarrow> evbuffer_finish ucb w2 (b2\<lparr>n_add_for_cb := n_add_for_cb b2 + length data\<rparr>) 0)"

subsection \<open>Draining\<close>

definition HAS_PINNED_R :: "evbuffer \<Rightarrow> bool" where
  "HAS_PINNED_R b = (case chain_at b (blast b) of None \<Rightarrow> False | Some c \<Rightarrow> CHAIN_PINNED_R c)"

definition ZERO_CHAIN :: "evbuffer \<Rightarrow> evbuffer" where
  "ZERO_CHAIN b = b\<lparr>chains := [], blast := None, last_with_datap := First, total_len := 0\<rparr>"

text \<open>\<^verbatim>\<open>chain == *s\<close>, with the list as it was before the loop: \<^verbatim>\<open>buf->first\<close> is set after it.\<close>

definition points_at :: "evbuffer \<Rightarrow> slot \<Rightarrow> evbuffer_chain \<Rightarrow> bool" where
  "points_at b s ch = (map_option cid (deref b s) = Some (cid ch))"

fun drain_loop :: "evbuffer \<Rightarrow> bworld \<Rightarrow> slot \<Rightarrow> nat \<Rightarrow> evbuffer_chain list \<Rightarrow>
    bworld \<times> slot \<times> nat \<times> evbuffer_chain list" where
  "drain_loop b w s remaining [] = (bcheck False w, s, remaining, [])"
| "drain_loop b w s remaining (ch # next) =
     (if remaining \<ge> off ch then
        let remaining1 = remaining - off ch;
            s1 = (if points_at b s ch then First else s);
            s2 = (if s1 = Next (cid ch) then First else s1)
        in if CHAIN_PINNED_R ch
           then (bcheck (remaining1 = 0) w, s2, remaining1, ch\<lparr>misalign := misalign ch + off ch, off := 0\<rparr> # next)
           else drain_loop b (evbuffer_chain_free w ch) s2 remaining1 next
      else (w, s, remaining, ch # next))"

definition evbuffer_drain :: "user_cb \<Rightarrow> bworld \<Rightarrow> evbuffer \<Rightarrow> nat \<Rightarrow> bworld \<times> evbuffer \<times> int" where
  "evbuffer_drain ucb w b len0 =
     (let old_len = total_len b
      in if old_len = 0 then (w, b, 0)
         else if freeze_start b then (w, b, -1)
         else if len0 \<ge> old_len \<and> \<not> HAS_PINNED_R b then
           evbuffer_finish ucb (evbuffer_free_all_chains w (chains b))
             ((ZERO_CHAIN b)\<lparr>n_del_for_cb := n_del_for_cb b + old_len\<rparr>) 0
         else let len = (if len0 \<ge> old_len then old_len else len0)
              in case drain_loop b w (last_with_datap b) len (chains b) of
                   (w1, s, remaining, []) \<Rightarrow> (bcheck False w1, b, 0)
                 | (w1, s, remaining, ch # next) \<Rightarrow>
                     evbuffer_finish ucb (bcheck (remaining < off ch) w1)
                       (b\<lparr>total_len := total_len b - len,
                          chains := ch\<lparr>misalign := misalign ch + remaining, off := off ch - remaining\<rparr> # next,
                          last_with_datap := s, n_del_for_cb := n_del_for_cb b + len\<rparr>) 0)"

subsection \<open>Copying out\<close>

text \<open>A position in a buffer.\<close>

record evbuffer_ptr =
  pos :: int
  pchain :: "nat option"
  pos_in_chain :: nat

text \<open>The list from a chain on; a null pointer is the end of the list.\<close>

definition chains_from :: "evbuffer \<Rightarrow> nat option \<Rightarrow> evbuffer_chain list" where
  "chains_from b a = (case a of None \<Rightarrow> [] | Some i \<Rightarrow> dropWhile (\<lambda>c. cid c \<noteq> i) (chains b))"

fun copyout_loop :: "bworld \<Rightarrow> nat \<Rightarrow> nat \<Rightarrow> evbuffer_chain list \<Rightarrow> bworld \<times> bytes" where
  "copyout_loop w p datlen [] = (bcheck (datlen = 0) w, [])"
| "copyout_loop w p datlen (ch # next) =
     (if datlen \<noteq> 0 \<and> datlen \<ge> off ch - p
      then let copylen = off ch - p
           in case copyout_loop w 0 (datlen - copylen) next of (w1, d) \<Rightarrow> (w1, chain_bytes ch p copylen @ d)
      else if datlen \<noteq> 0 then (bcheck (datlen + p \<le> off ch) w, chain_bytes ch p datlen)
      else (w, []))"

definition evbuffer_copyout_from ::
  "bworld \<Rightarrow> evbuffer \<Rightarrow> evbuffer_ptr option \<Rightarrow> nat \<Rightarrow> bworld \<times> bytes \<times> int" where
  "evbuffer_copyout_from w b p datlen0 =
     (if (case p of None \<Rightarrow> False | Some q \<Rightarrow> int datlen0 > int EV_SSIZE_MAX - pos q) then (w, [], -1)
      else let (cs, pic, datlen) =
             (case p of
                None \<Rightarrow> (chains b, 0, if datlen0 > total_len b then total_len b else datlen0)
              | Some q \<Rightarrow> (chains_from b (pchain q), pos_in_chain q,
                          if int datlen0 + pos q > int (total_len b) then nat ((int (total_len b) - pos q) mod (int EV_SIZE_MAX + 1)) else datlen0))
           in if datlen = 0 then (w, [], 0)
              else if freeze_start b then (w, [], -1)
              else case copyout_loop w pic datlen cs of (w1, d) \<Rightarrow> (w1, d, int datlen))"

definition evbuffer_copyout :: "bworld \<Rightarrow> evbuffer \<Rightarrow> nat \<Rightarrow> bworld \<times> bytes \<times> int" where
  "evbuffer_copyout w b datlen = evbuffer_copyout_from w b None datlen"

text \<open>The conversion of a result to \<^verbatim>\<open>int\<close>.\<close>

definition to_int :: "int \<Rightarrow> int" where
  "to_int n = sint (word_of_int n :: 32 word)"

definition evbuffer_remove :: "user_cb \<Rightarrow> bworld \<Rightarrow> evbuffer \<Rightarrow> nat \<Rightarrow> bworld \<times> evbuffer \<times> bytes \<times> int" where
  "evbuffer_remove ucb w b datlen =
     (case evbuffer_copyout_from w b None datlen of
        (w1, d, n) \<Rightarrow>
          if n > 0 then (case evbuffer_drain ucb w1 b (nat n) of
                           (w2, b2, r) \<Rightarrow> (w2, b2, d, to_int (if r < 0 then -1 else n)))
          else (w1, b, d, to_int n))"

subsection \<open>Moving data between buffers\<close>

text \<open>
  The chains that are pinned for reading stay in the source.  The third component is the list that
  starts at \<^verbatim>\<open>*first\<close>, empty for a null pointer.
\<close>

definition PRESERVE_PINNED :: "bworld \<Rightarrow> evbuffer \<Rightarrow> bworld \<times> evbuffer \<times> evbuffer_chain list \<times> int" where
  "PRESERVE_PINNED w src =
     (if \<not> HAS_PINNED_R src then (w, src, [], 0)
      else case split_at (chains src) (last_with_datap src) of
             (pre, []) \<Rightarrow> (bcheck False w, src, [], -1)
           | (pre, c # cs) \<Rightarrow>
               let at_lwd = CHAIN_PINNED_R c;
                   front = (if at_lwd then pre else pre @ [c])
               in case (if at_lwd then c # cs else cs) of
                    [] \<Rightarrow> (bcheck False w, src, [], -1)
                  | ch # rest \<Rightarrow>
                      let w0 = bcheck (CHAIN_PINNED_R ch) w
                      in if off ch \<noteq> 0 then
                           (case evbuffer_chain_new (bcheck at_lwd w0) (off ch) of
                              (w1, None) \<Rightarrow> (w1, src, [], -1)
                            | (w1, Some tmp) \<Rightarrow>
                                (case memcpy_to w1 tmp 0 (chain_data ch) of
                                   (w2, tmp1) \<Rightarrow>
                                     (w2, src\<lparr>chains := pre @ [tmp1\<lparr>off := off ch\<rparr>], blast := Some (cid tmp)\<rparr>,
                                      ch\<lparr>misalign := misalign ch + off ch, off := 0\<rparr> # rest, 0)))
                         else (w0, src\<lparr>blast := Some (cid c), chains := front\<rparr>, ch # rest, 0))"

definition RESTORE_PINNED :: "evbuffer \<Rightarrow> evbuffer_chain list \<Rightarrow> nat option \<Rightarrow> evbuffer" where
  "RESTORE_PINNED src pinned lst =
     (if pinned = [] then ZERO_CHAIN src
      else src\<lparr>chains := pinned, blast := lst, last_with_datap := First, total_len := 0\<rparr>)"

definition COPY_CHAIN :: "evbuffer \<Rightarrow> evbuffer \<Rightarrow> evbuffer" where
  "COPY_CHAIN dst src =
     dst\<lparr>chains := chains src, last_with_datap := last_with_datap src, blast := blast src,
         total_len := total_len src\<rparr>"

definition APPEND_CHAIN :: "bworld \<Rightarrow> evbuffer \<Rightarrow> evbuffer \<Rightarrow> bworld \<times> evbuffer" where
  "APPEND_CHAIN w dst src =
     (case evbuffer_free_trailing_empty_chains w dst of
        (w1, dst1, chp) \<Rightarrow>
          (w1, dst1\<lparr>chains := chains dst1 @ chains src,
                    last_with_datap := (if last_with_datap src = First then chp else last_with_datap src),
                    blast := blast src, total_len := total_len dst1 + total_len src\<rparr>))"

definition PREPEND_CHAIN :: "evbuffer \<Rightarrow> evbuffer \<Rightarrow> evbuffer" where
  "PREPEND_CHAIN dst src =
     dst\<lparr>chains := chains src @ chains dst, total_len := total_len dst + total_len src,
         last_with_datap :=
           (if deref (dst\<lparr>chains := chains src @ chains dst\<rparr>) (last_with_datap dst) = None then last_with_datap src
            else if last_with_datap dst = First
            then (case blast src of None \<Rightarrow> First | Some a \<Rightarrow> Next a)
            else last_with_datap dst)\<rparr>"

text \<open>What the two functions below share: \<open>join\<close> puts the chains of the input into a non-empty output.\<close>

definition move_buffer :: "user_cb \<Rightarrow> (bworld \<Rightarrow> evbuffer \<Rightarrow> evbuffer \<Rightarrow> bworld \<times> evbuffer) \<Rightarrow>
    bworld \<Rightarrow> evbuffer \<Rightarrow> evbuffer \<Rightarrow> bworld \<times> evbuffer \<times> evbuffer \<times> int" where
  "move_buffer ucb join w outbuf inbuf =
     (let in_total_len = total_len inbuf; out_total_len = total_len outbuf; lst = blast inbuf
      in case PRESERVE_PINNED w inbuf of
           (w1, in1, pinned, r) \<Rightarrow>
             if r < 0 then (w1, outbuf, in1, -1)
             else case (if out_total_len = 0
                        then (evbuffer_free_all_chains w1 (chains outbuf), COPY_CHAIN outbuf in1)
                        else join w1 outbuf in1) of
                    (w2, out2) \<Rightarrow>
                      let in3 = (RESTORE_PINNED in1 pinned lst)\<lparr>n_del_for_cb := n_del_for_cb inbuf + in_total_len\<rparr>;
                          out3 = out2\<lparr>n_add_for_cb := n_add_for_cb out2 + in_total_len\<rparr>
                      in case evbuffer_invoke_callbacks ucb w2 in3 of
                           (w4, in4) \<Rightarrow>
                             (case evbuffer_invoke_callbacks ucb w4 out3 of (w5, out5) \<Rightarrow> (w5, out5, in4, 0)))"

definition evbuffer_add_buffer ::
  "user_cb \<Rightarrow> bworld \<Rightarrow> evbuffer \<Rightarrow> evbuffer \<Rightarrow> bworld \<times> evbuffer \<times> evbuffer \<times> int" where
  "evbuffer_add_buffer ucb w outbuf inbuf =
     (if total_len inbuf = 0 then (w, outbuf, inbuf, 0)
      else if freeze_end outbuf \<or> freeze_start inbuf then (w, outbuf, inbuf, -1)
      else move_buffer ucb APPEND_CHAIN w outbuf inbuf)"

definition evbuffer_prepend_buffer ::
  "user_cb \<Rightarrow> bworld \<Rightarrow> evbuffer \<Rightarrow> evbuffer \<Rightarrow> bworld \<times> evbuffer \<times> evbuffer \<times> int" where
  "evbuffer_prepend_buffer ucb w outbuf inbuf =
     (if total_len inbuf = 0 then (w, outbuf, inbuf, 0)
      else if freeze_start outbuf \<or> freeze_start inbuf then (w, outbuf, inbuf, -1)
      else move_buffer ucb (\<lambda>w dst src. (w, PREPEND_CHAIN dst src)) w outbuf inbuf)"

text \<open>The whole chains of the source that are to be moved, the bytes still wanted, and the rest.\<close>

fun remove_buffer_loop :: "evbuffer \<Rightarrow> bworld \<Rightarrow> slot \<Rightarrow> nat \<Rightarrow> nat \<Rightarrow> evbuffer_chain list \<Rightarrow> evbuffer_chain list \<Rightarrow>
    bworld \<times> slot \<times> nat \<times> nat \<times> evbuffer_chain list \<times> evbuffer_chain list" where
  "remove_buffer_loop src w s nread datlen previous [] = (bcheck False w, s, nread, datlen, previous, [])"
| "remove_buffer_loop src w s nread datlen previous (ch # next) =
     (if off ch \<le> datlen
      then remove_buffer_loop src (bcheck (\<not> points_at src s ch) w) (if s = Next (cid ch) then First else s)
             (nread + off ch) (datlen - off ch) (previous @ [ch]) next
      else (w, s, nread, datlen, previous, ch # next))"

definition evbuffer_remove_buffer ::
  "user_cb \<Rightarrow> bworld \<Rightarrow> evbuffer \<Rightarrow> evbuffer \<Rightarrow> nat \<Rightarrow> bworld \<times> evbuffer \<times> evbuffer \<times> int" where
  "evbuffer_remove_buffer ucb w src dst datlen0 =
     (if datlen0 = 0 then (w, src, dst, 0)
      else if freeze_end dst \<or> freeze_start src then (w, src, dst, -1)
      else if datlen0 \<ge> total_len src then
        (case evbuffer_add_buffer ucb w dst src of (w1, dst1, src1, r) \<Rightarrow> (w1, src1, dst1, to_int (int (total_len src))))
      else case remove_buffer_loop src w (last_with_datap src) 0 datlen0 [] (chains src) of
             (w1, s, nread, datlen, previous, []) \<Rightarrow> (w1, src, dst, 0)
           | (w1, s, nread, datlen, previous, ch # next) \<Rightarrow>
               (case (if nread \<noteq> 0
                      then case evbuffer_free_trailing_empty_chains w1 dst of
                             (w2, dst2, chp) \<Rightarrow>
                               (w2, src\<lparr>chains := ch # next, last_with_datap := s\<rparr>,
                                EVBUFFER_ADDED nread
                                  (fst (advance_last_with_data
                                     (dst2\<lparr>chains := chains dst2 @ previous, blast := Some (cid (last previous))\<rparr>))))
                      else (w1, src\<lparr>last_with_datap := s\<rparr>, dst)) of
                  (w3, src3, dst3) \<Rightarrow>
                    (case evbuffer_add ucb w3 dst3 (chain_bytes ch 0 datlen) of
                       (w4, dst4, r) \<Rightarrow>
                         let n = nread + datlen;
                             src5 = (put_chain (ch\<lparr>misalign := misalign ch + datlen, off := off ch - datlen\<rparr>) src3)
                                      \<lparr>total_len := total_len src3 - n, n_del_for_cb := n_del_for_cb src3 + n\<rparr>
                         in case (if n \<noteq> 0
                                  then case evbuffer_invoke_callbacks ucb w4 dst4 of
                                         (w6, dst6) \<Rightarrow> (case evbuffer_invoke_callbacks ucb w6 src5 of
                                                          (w7, src7) \<Rightarrow> (w7, src7, dst6))
                                  else (w4, src5, dst4)) of
                              (w8, src8, dst8) \<Rightarrow> (w8, src8, dst8, to_int (int n)))))"

subsection \<open>Pulling up\<close>

fun pullup_pinned :: "nat \<Rightarrow> evbuffer_chain list \<Rightarrow> bool" where
  "pullup_pinned remaining [] = False"
| "pullup_pinned remaining (tmp # next) =
     (if CHAIN_PINNED tmp then True else if off tmp \<ge> remaining then False else pullup_pinned (remaining - off tmp) next)"

text \<open>Copies whole chains behind each other to position \<open>p\<close> of \<open>tmp\<close>.\<close>

fun pullup_loop :: "slot \<Rightarrow> nat option \<Rightarrow> bworld \<Rightarrow> evbuffer_chain \<Rightarrow> nat \<Rightarrow> nat \<Rightarrow> bool \<Rightarrow> bool \<Rightarrow> evbuffer_chain list \<Rightarrow>
    bworld \<times> evbuffer_chain \<times> nat \<times> nat \<times> bool \<times> bool \<times> evbuffer_chain list" where
  "pullup_loop s lwd w tmp p n rem1 rem2 [] = (w, tmp, p, n, rem1, rem2, [])"
| "pullup_loop s lwd w tmp p n rem1 rem2 (ch # next) =
     (if n \<ge> off ch then
        (case memcpy_to w tmp p (chain_data ch) of
           (w1, tmp1) \<Rightarrow>
             pullup_loop s lwd (evbuffer_chain_free w1 ch) tmp1 (p + off ch) (n - off ch)
               (rem1 \<or> lwd = Some (cid ch)) (rem2 \<or> s = Next (cid ch)) next)
      else (w, tmp, p, n, rem1, rem2, ch # next))"

definition pullup_into ::
  "bworld \<Rightarrow> evbuffer \<Rightarrow> nat option \<Rightarrow> evbuffer_chain \<Rightarrow> nat \<Rightarrow> nat \<Rightarrow> evbuffer_chain list \<Rightarrow>
    bworld \<times> evbuffer \<times> (nat \<times> nat) option" where
  "pullup_into w b lwd tmp p n cs =
     (case pullup_loop (last_with_datap b) lwd w tmp p n False False cs of
        (w1, tmp1, p1, n1, rem1, rem2, rest) \<Rightarrow>
          (case (case rest of
                   [] \<Rightarrow> (w1, tmp1, [], Some (cid tmp))
                 | ch # next \<Rightarrow>
                     (case memcpy_to w1 tmp1 p1 (chain_bytes ch 0 n1) of
                        (w2, tmp2) \<Rightarrow>
                          (w2, tmp2, ch\<lparr>misalign := misalign ch + n1, off := off ch - n1\<rparr> # next, blast b))) of
             (w3, tmp3, rest3, lst) \<Rightarrow>
               (w3,
                b\<lparr>chains := tmp3 # rest3, blast := lst,
                  last_with_datap :=
                    (if rem1 then First
                     else if rem2
                     then (case rest3 of
                             [] \<Rightarrow> First
                           | ch # _ \<Rightarrow> if off ch \<noteq> 0 then Next (cid tmp) else First)
                     else last_with_datap b)\<rparr>,
                Some (cid tmp3, misalign tmp3))))"

text \<open>The result is an address: a chain and an offset into its block.\<close>

definition evbuffer_pullup :: "bworld \<Rightarrow> evbuffer \<Rightarrow> int \<Rightarrow> bworld \<times> evbuffer \<times> (nat \<times> nat) option" where
  "evbuffer_pullup w b size0 =
     (let n = (if size0 < 0 then total_len b else nat size0)
      in if n = 0 \<or> n > total_len b then (w, b, None)
         else case chains b of
                [] \<Rightarrow> (bcheck False w, b, None)
              | ch # next \<Rightarrow>
                  if off ch \<ge> n then (w, b, Some (cid ch, misalign ch))
                  else if pullup_pinned (n - off ch) next then (w, b, None)
                  else if CHAIN_PINNED ch then
                    (if CHAIN_SPACE_LEN ch < n - off ch then (w, b, None)
                     else pullup_into w b (map_option cid (deref b (last_with_datap b))) (ch\<lparr>off := n\<rparr>)
                            (misalign ch + off ch) (n - off ch) next)
                  else if buffer_len ch - misalign ch \<ge> n then
                    pullup_into w b (map_option cid (deref b (last_with_datap b))) (ch\<lparr>off := n\<rparr>)
                      (misalign ch + off ch) (n - off ch) next
                  else (case evbuffer_chain_new w n of
                          (w1, None) \<Rightarrow> (w1, b, None)
                        | (w1, Some tmp) \<Rightarrow>
                            pullup_into w1 b
                              (if last_with_datap b = First then Some (cid tmp)
                               else map_option cid (deref b (last_with_datap b)))
                              (tmp\<lparr>off := n\<rparr>) 0 n (ch # next)))"

text \<open>The bytes a caller reads through such an address.\<close>

definition bytes_at :: "evbuffer \<Rightarrow> nat \<times> nat \<Rightarrow> nat \<Rightarrow> bytes" where
  "bytes_at b a n =
     (case find (\<lambda>c. cid c = fst a) (chains b) of
        None \<Rightarrow> [] | Some ch \<Rightarrow> map (cbuffer ch) [snd a ..< snd a + n])"

end
