(* ===== verification/Evbuffer_Inv.thy ===== *)
theory Evbuffer_Inv
  imports Evbuffer_Ops
begin

text \<open>
  The invariant of a buffer and the functional behaviour of its operations: a buffer is a queue of
  bytes, its \<open>content\<close>, whatever chains hold them.  Pinned chains occur only with the overlapped
  input and output of Windows (\<^verbatim>\<open>buffer_iocp.c\<close>) and are excluded by the invariant.
\<close>

definition content :: "evbuffer \<Rightarrow> bytes" where
  "content b = concat (map chain_data (chains b))"

definition chain_ok :: "bworld \<Rightarrow> evbuffer_chain \<Rightarrow> bool" where
  "chain_ok w c \<longleftrightarrow>
     cid c < mm_calls w \<and> misalign c + off c \<le> buffer_len c \<and> 0 < buffer_len c \<and>
     buffer_len c + EVBUFFER_CHAIN_SIZE \<le> EVBUFFER_CHAIN_MAX \<and> crefcnt c = 1 \<and> \<not> CHAIN_PINNED c \<and>
     (has (cflags c) EVBUFFER_IMMUTABLE \<longrightarrow> misalign c + off c = buffer_len c \<and> off c \<noteq> 0)"

definition slot_after :: "evbuffer_chain list \<Rightarrow> slot" where
  "slot_after pre = (if pre = [] then First else Next (cid (last pre)))"

text \<open>
  \<open>cut b pre post\<close>: the slot \<^verbatim>\<open>last_with_datap\<close> is between \<open>pre\<close> and \<open>post\<close>.  It points at the last
  chain with data, or at the first chain if there is none.
\<close>

definition cut :: "evbuffer \<Rightarrow> evbuffer_chain list \<Rightarrow> evbuffer_chain list \<Rightarrow> bool" where
  "cut b pre post \<longleftrightarrow>
     chains b = pre @ post \<and> last_with_datap b = slot_after pre \<and> (\<forall>c \<in> set (tl post). off c = 0) \<and>
     (pre \<noteq> [] \<longrightarrow> post \<noteq> [] \<and> off (hd post) \<noteq> 0)"

definition last_cid :: "evbuffer_chain list \<Rightarrow> nat option" where
  "last_cid cs = (if cs = [] then None else Some (cid (last cs)))"

definition evbuffer_ok :: "bworld \<Rightarrow> evbuffer \<Rightarrow> bool" where
  "evbuffer_ok w b \<longleftrightarrow>
     distinct (map cid (chains b)) \<and> (\<forall>c \<in> set (chains b). chain_ok w c) \<and>
     blast b = last_cid (chains b) \<and> (\<exists>pre post. cut b pre post) \<and>
     total_len b = length (content b) \<and> total_len b \<le> EV_SIZE_MAX"

text \<open>What every operation keeps of the world.\<close>

definition later :: "bworld \<Rightarrow> bworld \<Rightarrow> bool" where
  "later w w' \<longleftrightarrow> mm w' = mm w \<and> junk w' = junk w \<and> mm_calls w \<le> mm_calls w' \<and> fault w' = fault w"

text \<open>Functions registered on a buffer that leave it alone.\<close>

definition observes :: "user_cb \<Rightarrow> bool" where
  "observes ucb \<longleftrightarrow> (\<forall>call w b. snd (ucb call w b) = b \<and> later w (fst (ucb call w b)))"

definition same_data :: "evbuffer \<Rightarrow> evbuffer \<Rightarrow> bool" where
  "same_data b b' \<longleftrightarrow>
     chains b' = chains b \<and> blast b' = blast b \<and> last_with_datap b' = last_with_datap b \<and>
     total_len b' = total_len b \<and> freeze_start b' = freeze_start b \<and> freeze_end b' = freeze_end b"

subsection \<open>Worlds and frames\<close>

lemma later_refl [simp]: "later w w"
  by (simp add: later_def)

lemma later_trans [trans]: "later u v \<Longrightarrow> later v w \<Longrightarrow> later u w"
  by (simp add: later_def)

lemma later_field [simp]:
  "later w (w\<lparr>dangling := d\<rparr>)" "later w (w\<lparr>released := rl\<rparr>)" "later w (w\<lparr>cb_log := l\<rparr>)"
  "later w (w\<lparr>sched_calls := k\<rparr>)"
  by (simp_all add: later_def)

lemma bcheck_True [simp]: "bcheck True w = w"
  by (simp add: bcheck_def)

lemma same_data_refl [simp]: "same_data b b"
  by (simp add: same_data_def)

lemma same_data_trans [trans]: "same_data a b \<Longrightarrow> same_data b c \<Longrightarrow> same_data a c"
  by (simp add: same_data_def)

lemma chain_ok_later: "chain_ok w c \<Longrightarrow> later w w' \<Longrightarrow> chain_ok w' c"
  by (auto simp: chain_ok_def later_def)

lemma content_same: "same_data b b' \<Longrightarrow> content b' = content b"
  by (simp add: same_data_def content_def)

lemma ok_same:
  assumes "evbuffer_ok w b" "same_data b b'" "later w w'"
  shows "evbuffer_ok w' b'"
  using assms chain_ok_later unfolding evbuffer_ok_def same_data_def cut_def content_def by auto

lemma ok_later: "evbuffer_ok w b \<Longrightarrow> later w w' \<Longrightarrow> evbuffer_ok w' b"
  by (erule ok_same) simp_all

lemma same_data_counts [simp]:
  "same_data b (b\<lparr>n_add_for_cb := x\<rparr>)" "same_data b (b\<lparr>n_del_for_cb := y\<rparr>)"
  "same_data b (b\<lparr>brefcnt := n\<rparr>)"
  by (simp_all add: same_data_def)

lemma same_data_cleared [simp]: "same_data b (b\<lparr>n_add_for_cb := x, n_del_for_cb := y\<rparr>)"
  by (simp add: same_data_def)

lemma run_callbacks_loop_observes:
  assumes "observes ucb" "set ids \<subseteq> ent ` set (callbacks b)"
    "run_callbacks_loop ucb m v info n ids w b = (w', b')"
  shows "b' = b \<and> later w w'"
  using assms(2,3)
proof (induction ids arbitrary: w)
  case (Cons i ids)
  obtain e where e: "find (\<lambda>e. ent e = i) (callbacks b) = Some e"
    using Cons.prems(1) by (cases "find (\<lambda>e. ent e = i) (callbacks b)") (auto simp: find_None_iff)
  define call where "call = (if has (cb_flags e) EVBUFFER_CB_OBSOLETE
    then Cb_obsolete (cb_func e) (orig_size info) n (cbarg e) else Cb_func (cb_func e) info (cbarg e))"
  define w1 where "w1 = w\<lparr>cb_log := cb_log w @ [call]\<rparr>"
  obtain u where u: "ucb call w1 b = (u, b)" "later w1 u"
    using assms(1) unfolding observes_def by (metis prod.collapse)
  have st: "run_callbacks_loop ucb m v info n (i # ids) w b =
      (if cb_flags e AND m \<noteq> v then run_callbacks_loop ucb m v info n ids w b
       else run_callbacks_loop ucb m v info n ids u b)"
    using u(1) by (simp add: e Let_def call_def w1_def)
  have "later w w1" by (simp add: w1_def)
  then show ?case
    using Cons st u(2) by (cases "cb_flags e AND m \<noteq> v") (auto intro: later_trans)
qed simp

lemma run_callbacks_loop_all:
  assumes "run_callbacks_loop ucb m v info n (map ent (callbacks c)) w b = (w', b')"
    "callbacks b = callbacks c" "observes ucb"
  shows "b' = b \<and> later w w'"
  using run_callbacks_loop_observes [OF assms(3) _ assms(1)] assms(2) by simp

lemma run_observes:
  assumes "observes ucb" "evbuffer_run_callbacks ucb u c d = (u', c')"
  shows "later u u'" "same_data c c'"
proof -
  define b1 where "b1 = (if d \<or> \<not> deferred_cbs c then c\<lparr>n_add_for_cb := 0, n_del_for_cb := 0\<rparr> else c)"
  have b1: "callbacks b1 = callbacks c" "same_data c b1" by (simp_all add: b1_def)
  have "later u u' \<and> same_data c c'"
  proof (cases "callbacks c = [] \<or> n_add_for_cb c = 0 \<and> n_del_for_cb c = 0")
    case True
    then show ?thesis using assms(2) by (auto simp: evbuffer_run_callbacks_def Let_def split: if_splits)
  next
    case False
    then have f: "(callbacks c = []) = False" "(n_add_for_cb c = 0 \<and> n_del_for_cb c = 0) = False" by blast+
    note r = assms(2) [unfolded evbuffer_run_callbacks_def Let_def f if_False, folded b1_def]
    then show ?thesis using run_callbacks_loop_all [OF r refl assms(1)] b1(2) by simp
  qed
  then show "later u u'" "same_data c c'" by simp_all
qed

lemma invoke_observes:
  assumes "observes ucb" "evbuffer_invoke_callbacks ucb w b = (w', b')"
  shows "later w w'" "same_data b b'"
proof -
  have "later w w' \<and> same_data b b'"
  proof (cases "callbacks b = []")
    case True
    then show ?thesis using assms(2) by (auto simp: evbuffer_invoke_callbacks_def)
  next
    case False
    then obtain u c where r: "evbuffer_run_callbacks ucb u c False = (w', b')" and
      "later w u" "same_data b c"
      using assms(2) unfolding evbuffer_invoke_callbacks_def evbuffer_incref_def
      by (cases "deferred_cbs b"; cases "sched w (sched_calls w)") auto
    then show ?thesis using run_observes [OF assms(1) r] later_trans same_data_trans by blast
  qed
  then show "later w w'" "same_data b b'" by simp_all
qed

lemma finish_observes:
  assumes "observes ucb" "evbuffer_finish ucb w b r = (w', b', r')"
  shows "r' = r" "later w w'" "same_data b b'"
  using assms(2) invoke_observes [OF assms(1), of w b] unfolding evbuffer_finish_def
  by (auto split: prod.splits)

subsection \<open>Bytes and memory\<close>

lemma chain_bytes_length [simp]: "length (chain_bytes c p n) = n"
  by (simp add: chain_bytes_def)

lemma chain_data_length [simp]: "length (chain_data c) = off c"
  by (simp add: chain_data_def)

lemma chain_bytes_nth [simp]: "i < n \<Longrightarrow> chain_bytes c p n ! i = cbuffer c (misalign c + p + i)"
  by (simp add: chain_bytes_def)

lemma chain_bytes_0 [simp]: "chain_bytes c p 0 = []"
  by (simp add: chain_bytes_def)

lemma chain_bytes_append: "chain_bytes c p m @ chain_bytes c (p + m) n = chain_bytes c p (m + n)"
  by (rule nth_equalityI) (auto simp: nth_append add.assoc)

lemma chain_data_nil [simp]: "off c = 0 \<Longrightarrow> chain_data c = []"
  by (simp add: chain_data_def)

lemma chain_bytes_take: "n \<le> off c \<Longrightarrow> chain_bytes c 0 n = take n (chain_data c)"
  by (rule nth_equalityI) (auto simp: chain_data_def)

lemma chain_data_skip:
  "k \<le> off c \<Longrightarrow> chain_data (c\<lparr>misalign := misalign c + k, off := off c - k\<rparr>) = drop k (chain_data c)"
  by (rule nth_equalityI) (auto simp: chain_data_def chain_bytes_def add.assoc)

lemma content_cons: "chains b = c # cs \<Longrightarrow> content b = chain_data c @ concat (map chain_data cs)"
  by (simp add: content_def)

lemma concat_empty_chains: "\<forall>c \<in> set cs. off c = 0 \<Longrightarrow> concat (map chain_data cs) = []"
  by simp

lemma content_cut: "cut b pre post \<Longrightarrow>
  content b = concat (map chain_data pre) @ (case post of [] \<Rightarrow> [] | c # _ \<Rightarrow> chain_data c)"
  by (auto simp: cut_def content_def split: list.splits)

text \<open>Writing behind the data, in front of it, and at the start of an empty block.\<close>

lemma write_behind:
  "chain_data (c\<lparr>cbuffer := mem_write (cbuffer c) (misalign c + off c) bs, off := off c + length bs\<rparr>) =
     chain_data c @ bs"
  by (rule nth_equalityI) (auto simp: chain_data_def chain_bytes_def mem_write_def nth_append)

lemma write_front:
  assumes "length bs \<le> misalign c"
  shows "chain_data (c\<lparr>cbuffer := mem_write (cbuffer c) (misalign c - length bs) bs,
      off := off c + length bs, misalign := misalign c - length bs\<rparr>) = bs @ chain_data c"
  using assms by (intro nth_equalityI) (auto simp: chain_data_def chain_bytes_def mem_write_def nth_append)

lemma write_start:
  "chain_data (c\<lparr>cbuffer := mem_write (cbuffer c) p bs, off := length bs, misalign := p\<rparr>) = bs"
  by (rule nth_equalityI) (auto simp: chain_data_def chain_bytes_def mem_write_def)

lemma align_data:
  "chain_data (c\<lparr>cbuffer := mem_write (cbuffer c) 0 (chain_data c), misalign := 0\<rparr>) = chain_data c"
  by (rule nth_equalityI) (auto simp: chain_data_def chain_bytes_def mem_write_def)

lemma memcpy_ok:
  assumes "p + length bs \<le> buffer_len c" "bs = [] \<or> \<not> has (cflags c) EVBUFFER_IMMUTABLE"
  shows "memcpy_to w c p bs = (w, c\<lparr>cbuffer := mem_write (cbuffer c) p bs\<rparr>)"
  using assms by (auto simp: memcpy_to_def)

subsection \<open>Slots\<close>

lemma split_at_slot:
  "distinct (map cid (pre @ post)) \<Longrightarrow> split_at (pre @ post) (slot_after pre) = (pre, post)"
proof (induction pre)
  case (Cons c pre)
  show ?case
  proof (cases "pre = []")
    case False
    then have "cid c \<noteq> cid (last pre)" using Cons.prems by (auto simp: image_iff)
    moreover have "split_at (pre @ post) (Next (cid (last pre))) = (pre, post)"
      using Cons False by (simp add: slot_after_def)
    ultimately show ?thesis using False by (simp add: slot_after_def)
  qed (simp add: slot_after_def)
qed (cases post; simp add: slot_after_def)

lemma okD:
  assumes "evbuffer_ok w b"
  shows "distinct (map cid (chains b))" "c \<in> set (chains b) \<Longrightarrow> chain_ok w c"
    "blast b = last_cid (chains b)" "total_len b = length (content b)" "total_len b \<le> EV_SIZE_MAX"
    "\<exists>pre post. cut b pre post"
  using assms by (auto simp: evbuffer_ok_def)

lemma cutD:
  assumes "cut b pre post"
  shows "chains b = pre @ post" "last_with_datap b = slot_after pre" "c \<in> set (tl post) \<Longrightarrow> off c = 0"
    "pre \<noteq> [] \<Longrightarrow> post \<noteq> []" "pre \<noteq> [] \<Longrightarrow> off (hd post) \<noteq> 0"
  using assms by (auto simp: cut_def)

lemma cutI:
  assumes "chains b = pre @ post" "last_with_datap b = slot_after pre" "\<And>c. c \<in> set (tl post) \<Longrightarrow> off c = 0"
    "pre \<noteq> [] \<Longrightarrow> post \<noteq> [] \<and> off (hd post) \<noteq> 0"
  shows "cut b pre post"
  using assms by (simp add: cut_def)

lemma split_at_cut:
  assumes "evbuffer_ok w b" "cut b pre post"
  shows "split_at (chains b) (last_with_datap b) = (pre, post)"
  using split_at_slot [of pre post] okD(1) [OF assms(1)] cutD(1,2) [OF assms(2)] by simp

lemma deref_cut:
  assumes "evbuffer_ok w b" "cut b pre post"
  shows "deref b (last_with_datap b) = hd_opt post"
  by (simp add: deref_def split_at_cut [OF assms])

lemma hd_opt_simps [simp]: "hd_opt [] = None" "hd_opt (x # xs) = Some x"
  by (simp_all add: hd_opt_def)

lemma put_chain_in:
  assumes "distinct (map cid (pre @ c # post))" "chains b = pre @ c # post" "cid ch = cid c"
  shows "put_chain ch b = b\<lparr>chains := pre @ ch # post\<rparr>"
proof -
  have "map (\<lambda>x. if cid x = cid ch then ch else x) xs = xs" if "cid c \<notin> cid ` set xs" for xs
    using that assms(3) by (intro map_idI) (auto simp: image_iff)
  then show ?thesis using assms by (simp add: put_chain_def)
qed

lemma put_chain_cids: "map cid (chains (put_chain ch b)) = map cid (chains b)"
  by (simp add: put_chain_def)

lemma slot_after_cong: "map cid xs = map cid ys \<Longrightarrow> slot_after xs = slot_after ys"
  unfolding slot_after_def by (metis last_map map_is_Nil_conv)

lemma slot_after_snoc [simp]: "slot_after (xs @ [c]) = Next (cid c)"
  by (simp add: slot_after_def)

lemma slot_after_Nil [simp]: "slot_after [] = First"
  by (simp add: slot_after_def)

lemma last_cid_simps [simp]: "last_cid [] = None" "last_cid (xs @ [c]) = Some (cid c)" "last_cid [c] = Some (cid c)"
  by (simp_all add: last_cid_def)

lemma last_cid_cong: "map cid xs = map cid ys \<Longrightarrow> last_cid xs = last_cid ys"
  unfolding last_cid_def by (metis last_map map_is_Nil_conv)

lemma last_cid_append: "ys \<noteq> [] \<Longrightarrow> last_cid (xs @ ys) = last_cid ys"
  by (simp add: last_cid_def)

lemma chain_at_last:
  assumes "evbuffer_ok w b"
  shows "chain_at b (blast b) = (if chains b = [] then None else Some (last (chains b)))"
proof (cases "chains b" rule: rev_cases)
  case (snoc cs c)
  then have "cid c \<notin> cid ` set cs" using okD(1) [OF assms] by auto
  then have "find (\<lambda>x. cid x = cid c) cs = None" by (auto simp: find_None_iff image_iff)
  then have "find (\<lambda>x. cid x = cid c) (cs @ [c]) = Some c"
    by (induction cs) (auto split: if_splits)
  then show ?thesis using okD(3) [OF assms] snoc by (simp add: chain_at_def)
qed (simp add: okD(3) [OF assms] chain_at_def)

subsection \<open>Freeing chains\<close>

lemma chain_free_later: "chain_ok u c \<Longrightarrow> later w (evbuffer_chain_free w c)"
  unfolding chain_ok_def evbuffer_chain_free_def Let_def
  by (auto simp: later_def split: chain_extra.splits option.splits)

lemma free_all_later: "\<forall>c \<in> set cs. chain_ok u c \<Longrightarrow> later w (evbuffer_free_all_chains w cs)"
proof (induction cs arbitrary: w)
  case (Cons c cs)
  then show ?case using later_trans [OF chain_free_later [of u c w]] by simp
qed simp

lemma all_empty_iff [simp]: "evbuffer_chains_all_empty cs \<longleftrightarrow> (\<forall>c \<in> set cs. off c = 0)"
  by (induction cs) auto

text \<open>The chain a cut points at, if it has data.\<close>

definition used :: "evbuffer_chain list \<Rightarrow> evbuffer_chain list" where
  "used post = (case post of [] \<Rightarrow> [] | c # _ \<Rightarrow> if off c = 0 then [] else [c])"

lemma in_tl: "x \<in> set (tl xs) \<Longrightarrow> x \<in> set xs"
  by (cases xs) auto

lemma while_none:
  "\<forall>c \<in> set xs. \<not> P c \<Longrightarrow> takeWhile P xs = [] \<and> dropWhile P xs = xs"
  by (cases xs) simp_all

lemma free_trailing:
  assumes "evbuffer_ok w b" "cut b pre post"
  obtains w' where "evbuffer_free_trailing_empty_chains w b = (w', b\<lparr>chains := pre @ used post\<rparr>, slot_after (pre @ used post))"
    "later w w'"
proof -
  have tl: "\<forall>c \<in> set (tl post). off c = 0" using assms(2) by (simp add: cut_def)
  have ok: "\<forall>c \<in> set post. chain_ok w c" using okD(2) [OF assms(1)] cutD(1) [OF assms(2)] by simp
  have np: "\<not> CHAIN_PINNED c" if "c \<in> set post" for c using ok that by (simp add: chain_ok_def)
  let ?P = "\<lambda>c. off c \<noteq> 0 \<or> CHAIN_PINNED c"
  have tw: "takeWhile ?P post = used post" and dw: "dropWhile ?P post = (if used post = [] then post else tl post)"
  proof -
    have "\<not> ?P c" if "c \<in> set (tl post)" for c using tl that np [OF in_tl [OF that]] by simp
    then have "takeWhile ?P (tl post) = []" "dropWhile ?P (tl post) = tl post"
      using while_none [of "tl post" ?P] by simp_all
    then show "takeWhile ?P post = used post" "dropWhile ?P post = (if used post = [] then post else tl post)"
      using np [of "hd post"] by (cases post; simp add: used_def)+
  qed
  have v: "\<forall>c \<in> set (if used post = [] then post else tl post). off c = 0"
    using tl by (cases post) (auto simp: used_def)
  have slot: "(if used post = [] then last_with_datap b else Next (cid (last (used post)))) = slot_after (pre @ used post)"
    using cutD(2) [OF assms(2)] by (simp add: slot_after_def)
  define V where "V = (if used post = [] then post else tl post)"
  have l: "later w (evbuffer_free_all_chains w V)"
    using ok in_tl [of _ post] unfolding V_def by (intro free_all_later [of _ w]) auto
  have nil: "b\<lparr>chains := pre @ used post\<rparr> = b" if "V = []"
  proof -
    have "used post = post" using that by (cases post) (auto simp: V_def used_def split: if_splits)
    then show ?thesis using cutD(1) [OF assms(2)] by simp
  qed
  have "evbuffer_free_trailing_empty_chains w b =
      (if V = [] then w else evbuffer_free_all_chains w V, b\<lparr>chains := pre @ used post\<rparr>, slot_after (pre @ used post))"
    using v nil unfolding evbuffer_free_trailing_empty_chains_def split_at_cut [OF assms] prod.case Let_def tw dw slot
      V_def [symmetric] by simp
  then show ?thesis using that l by (cases "V = []") simp_all
qed

subsection \<open>New chains\<close>

lemma alloc_size_bounds:
  "sz \<le> alloc_size k sz" "push_bit k MIN_BUFFER_SIZE \<le> alloc_size k sz"
  "alloc_size k sz \<le> max (push_bit k MIN_BUFFER_SIZE) (2 * sz)"
proof (induction k sz rule: alloc_size.induct)
  case (1 k sz)
  have d: "push_bit (k + 1) MIN_BUFFER_SIZE = 2 * push_bit k MIN_BUFFER_SIZE" by (simp add: push_bit_eq_mult)
  { case 1 then show ?case using "1.IH" by (subst alloc_size.simps) auto }
  { case 2 then show ?case using "1.IH" d by (subst alloc_size.simps) auto }
  { case 3 then show ?case using "1.IH" d by (subst alloc_size.simps) auto }
qed

lemma chain_max_value: "EVBUFFER_CHAIN_MAX = 9223372036854775807" "EVBUFFER_CHAIN_SIZE = 48" "MIN_BUFFER_SIZE = 1024"
  by (simp_all add: EVBUFFER_CHAIN_MAX_def EV_SSIZE_MAX_def EVBUFFER_CHAIN_SIZE_def MIN_BUFFER_SIZE_def)

lemma alloc_size_chain:
  assumes "sz < EVBUFFER_CHAIN_MAX div 2"
  shows "1024 \<le> alloc_size 0 sz" "sz \<le> alloc_size 0 sz" "alloc_size 0 sz \<le> EVBUFFER_CHAIN_MAX"
  using alloc_size_bounds(1) [of sz 0] alloc_size_bounds(2,3) [of 0 sz] assms by (auto simp: chain_max_value)

lemma not_immutable_0 [simp]: "\<not> has 0 EVBUFFER_IMMUTABLE" "\<not> has 0 EVBUFFER_MEM_PINNED_ANY"
  by simp_all

definition fresh_chain :: "bworld \<Rightarrow> nat \<Rightarrow> evbuffer_chain \<Rightarrow> bool" where
  "fresh_chain w n c \<longleftrightarrow>
     cid c = mm_calls w \<and> misalign c = 0 \<and> off c = 0 \<and> cflags c = 0 \<and> crefcnt c = 1 \<and> n \<le> buffer_len c \<and>
     0 < buffer_len c \<and> buffer_len c + EVBUFFER_CHAIN_SIZE \<le> EVBUFFER_CHAIN_MAX"

lemma chain_new_Some:
  assumes "evbuffer_chain_new w n = (w', Some c)"
  shows "later w w'" "mm_calls w' = mm_calls w + 1" "fresh_chain w n c"
proof -
  have n: "\<not> n > EVBUFFER_CHAIN_MAX - EVBUFFER_CHAIN_SIZE" and ok: "mm w (mm_calls w)"
    using assms by (auto simp: evbuffer_chain_new_def mm_malloc_def Let_def split: if_splits)
  show "later w w'" "mm_calls w' = mm_calls w + 1"
    using assms n ok by (auto simp: evbuffer_chain_new_def mm_malloc_def Let_def later_def)
  show "fresh_chain w n c"
    using assms n ok alloc_size_chain [of "n + EVBUFFER_CHAIN_SIZE"]
    by (auto simp: evbuffer_chain_new_def mm_malloc_def Let_def fresh_chain_def chain_max_value)
qed

lemma chain_new_None:
  assumes "evbuffer_chain_new w n = (w', None)"
  shows "later w w'" "n > EVBUFFER_CHAIN_MAX - EVBUFFER_CHAIN_SIZE \<or> \<not> mm w (mm_calls w)"
  using assms by (auto simp: evbuffer_chain_new_def mm_malloc_def Let_def later_def split: if_splits)

lemma fresh_chain_ok:
  assumes "fresh_chain w n c" "mm_calls w < mm_calls w'" "cid c' = cid c" "cflags c' = cflags c"
    "crefcnt c' = crefcnt c" "buffer_len c' = buffer_len c" "misalign c' + off c' \<le> buffer_len c'"
  shows "chain_ok w' c'"
  using assms by (auto simp: fresh_chain_def chain_ok_def CHAIN_PINNED_def)

lemma fresh_notin:
  assumes "evbuffer_ok w b" "fresh_chain w n c"
  shows "cid c \<notin> cid ` set (chains b)"
proof -
  have "cid d < mm_calls w" if "d \<in> set (chains b)" for d using okD(2) [OF assms(1) that] by (simp add: chain_ok_def)
  moreover have "cid c = mm_calls w" using assms(2) by (simp add: fresh_chain_def)
  ultimately show ?thesis by (metis imageE less_irrefl)
qed

subsection \<open>Inserting a chain\<close>

lemma okI:
  assumes "distinct (map cid (chains b))" "\<And>c. c \<in> set (chains b) \<Longrightarrow> chain_ok w c"
    "blast b = last_cid (chains b)" "cut b pre post" "total_len b = length (content b)" "total_len b \<le> EV_SIZE_MAX"
  shows "evbuffer_ok w b"
  using assms unfolding evbuffer_ok_def by blast

lemma concat_used: "\<forall>c \<in> set (tl post). off c = 0 \<Longrightarrow> concat (map chain_data (used post)) = concat (map chain_data post)"
  by (cases post) (auto simp: used_def)

lemma used_subset: "set (used post) \<subseteq> set post"
  by (cases post) (auto simp: used_def)

lemma used_off: "c \<in> set (used post) \<Longrightarrow> off c \<noteq> 0"
  by (cases post) (auto simp: used_def split: if_splits)

lemma distinct_used:
  assumes "distinct (map cid (pre @ post))"
  shows "distinct (map cid (pre @ used post))"
  using assms by (cases post) (auto simp: used_def)

definition inserted :: "evbuffer_chain list \<Rightarrow> evbuffer_chain list \<Rightarrow> evbuffer_chain \<Rightarrow> evbuffer \<Rightarrow> evbuffer" where
  "inserted pre post c b =
     b\<lparr>chains := pre @ used post @ [c],
       last_with_datap := (if off c \<noteq> 0 then slot_after (pre @ used post) else slot_after pre),
       blast := Some (cid c), total_len := total_len b + off c\<rparr>"

lemma chain_insert:
  assumes "evbuffer_ok w b" "cut b pre post"
  obtains w' where "evbuffer_chain_insert w b c = (w', inserted pre post c b)" "later w w'"
proof (cases post)
  case Nil
  then have "pre = []" using cutD(4) [OF assms(2)] by blast
  then have "evbuffer_chain_insert w b c = (w, inserted pre post c b)"
    using Nil deref_cut [OF assms] cutD [OF assms(2)]
    by (simp add: evbuffer_chain_insert_def inserted_def used_def)
  then show ?thesis using that by simp
next
  case (Cons d cs)
  obtain w' where f: "evbuffer_free_trailing_empty_chains w b = (w', b\<lparr>chains := pre @ used post\<rparr>, slot_after (pre @ used post))"
    and l: "later w w'" by (rule free_trailing [OF assms])
  have "evbuffer_chain_insert w b c = (w', inserted pre post c b)"
    using Cons deref_cut [OF assms] cutD(2) [OF assms(2)] f
    by (simp add: evbuffer_chain_insert_def inserted_def)
  then show ?thesis using that l by blast
qed

lemma inserted_ok:
  assumes ok: "evbuffer_ok w b" and cut: "cut b pre post" and c: "chain_ok w c" "cid c \<notin> cid ` set (chains b)"
    and len: "total_len b + off c \<le> EV_SIZE_MAX"
  shows "evbuffer_ok w (inserted pre post c b)" "content (inserted pre post c b) = content b @ chain_data c"
proof -
  have tl: "\<forall>c \<in> set (tl post). off c = 0" using cut by (simp add: cut_def)
  have ch: "chains b = pre @ post" using cutD(1) [OF cut] .
  show ct: "content (inserted pre post c b) = content b @ chain_data c"
    using concat_used [OF tl] by (simp add: content_def inserted_def ch)
  have d: "distinct (map cid (pre @ used post @ [c]))"
    using distinct_used [of pre post] okD(1) [OF ok] used_subset [of post] c(2) ch by (auto simp: image_iff)
  have emp: "pre = []" if "used post = []"
  proof (rule ccontr)
    assume "pre \<noteq> []"
    then have "post \<noteq> []" "off (hd post) \<noteq> 0" using cutD(4,5) [OF cut] by blast+
    then show False using that by (cases post) (simp_all add: used_def)
  qed
  have "cut (inserted pre post c b) (pre @ used post) [c]" if "off c \<noteq> 0"
    using that by (intro cutI) (simp_all add: inserted_def)
  moreover have "cut (inserted pre post c b) pre (used post @ [c])" if z: "off c = 0"
  proof (cases "used post")
    case Nil
    then show ?thesis using z emp by (intro cutI) (simp_all add: inserted_def)
  next
    case (Cons d ds)
    then have "ds = []" "off d \<noteq> 0" by (cases post; simp add: used_def split: if_splits)+
    then show ?thesis using z Cons by (intro cutI) (auto simp: inserted_def)
  qed
  ultimately obtain p q where "cut (inserted pre post c b) p q" by blast
  then show "evbuffer_ok w (inserted pre post c b)"
  proof (intro okI)
    fix d assume "d \<in> set (chains (inserted pre post c b))"
    then show "chain_ok w d" using c(1) okD(2) [OF ok, of d] used_subset [of post] ch by (auto simp: inserted_def)
  qed (use d ct okD(4) [OF ok] len in \<open>simp_all add: inserted_def last_cid_append\<close>)
qed

subsection \<open>Adding\<close>

text \<open>The outcome of an operation: later, well formed, with the given content and the same flags.\<close>

definition becomes :: "bworld \<Rightarrow> evbuffer \<Rightarrow> bworld \<Rightarrow> evbuffer \<Rightarrow> bytes \<Rightarrow> bool" where
  "becomes w b w' b' bs \<longleftrightarrow>
     later w w' \<and> evbuffer_ok w' b' \<and> content b' = bs \<and> freeze_start b' = freeze_start b \<and> freeze_end b' = freeze_end b"

lemma becomesI:
  assumes "later w w'" "evbuffer_ok w' b'" "content b' = bs" "freeze_start b' = freeze_start b" "freeze_end b' = freeze_end b"
  shows "becomes w b w' b' bs"
  using assms by (simp add: becomes_def)

lemma becomesD:
  assumes "becomes w b w' b' bs"
  shows "later w w'" "evbuffer_ok w' b'" "content b' = bs" "freeze_start b' = freeze_start b" "freeze_end b' = freeze_end b"
  using assms by (simp_all add: becomes_def)

lemma becomes_same: "evbuffer_ok w b \<Longrightarrow> later w w' \<Longrightarrow> becomes w b w' b (content b)"
  by (simp add: becomes_def ok_later)

lemma becomes_trans: "becomes w b w1 b1 xs \<Longrightarrow> becomes w1 b1 w2 b2 ys \<Longrightarrow> becomes w b w2 b2 ys"
  by (auto simp: becomes_def intro: later_trans)

lemma becomes_same_data:
  assumes "becomes w b w1 b1 bs" "later w1 w'" "same_data b1 b'"
  shows "becomes w b w' b' bs"
  using assms ok_same [of w1 b1 b' w'] content_same [of b1 b'] later_trans [of w w1 w']
  by (auto simp: becomes_def same_data_def)

lemma becomes_finish:
  assumes "observes ucb" "becomes w b w1 b1 bs" "evbuffer_finish ucb w1 b1 r = (w', b', r')"
  shows "becomes w b w' b' bs" "r' = r"
  using finish_observes [OF assms(1,3)] becomes_same_data [OF assms(2)] by blast+

lemma added_fields [simp]:
  "chains (EVBUFFER_ADDED n b) = chains b" "blast (EVBUFFER_ADDED n b) = blast b"
  "last_with_datap (EVBUFFER_ADDED n b) = last_with_datap b" "total_len (EVBUFFER_ADDED n b) = total_len b + n"
  "freeze_start (EVBUFFER_ADDED n b) = freeze_start b" "freeze_end (EVBUFFER_ADDED n b) = freeze_end b"
  by (simp_all add: EVBUFFER_ADDED_def)

lemma put_head:
  assumes ok: "evbuffer_ok w b" and cut: "cut b pre (c # rest)" and ch: "cid ch = cid c" "chain_ok w ch"
    "chain_data ch = chain_data c @ d" and len: "total_len b + length d \<le> EV_SIZE_MAX"
  shows "cut (EVBUFFER_ADDED (length d) (put_chain ch b)) pre (ch # rest)"
    "becomes w b w (EVBUFFER_ADDED (length d) (put_chain ch b)) (content b @ d)"
proof -
  note cs = cutD [OF cut]
  have p: "put_chain ch b = b\<lparr>chains := pre @ ch # rest\<rparr>"
    using okD(1) [OF ok] cs(1) ch(1) by (intro put_chain_in) simp_all
  have o: "off ch = off c + length d" using arg_cong [OF ch(3), of length] by simp
  show cut': "cut (EVBUFFER_ADDED (length d) (put_chain ch b)) pre (ch # rest)"
    using cut o by (simp add: cut_def p)
  have rest: "concat (map chain_data rest) = []" using cut by (simp add: cut_def)
  have ct: "content (EVBUFFER_ADDED (length d) (put_chain ch b)) = content b @ d"
    using cs(1) ch(3) rest by (simp add: content_def p del: concat_eq_Nil_conv)
  have "evbuffer_ok w (EVBUFFER_ADDED (length d) (put_chain ch b))"
  proof (intro okI [OF _ _ _ cut'])
    fix x assume "x \<in> set (chains (EVBUFFER_ADDED (length d) (put_chain ch b)))"
    then show "chain_ok w x" using ch(2) okD(2) [OF ok, of x] cs(1) by (auto simp: p)
  next
    have "last_cid (pre @ ch # rest) = last_cid (pre @ c # rest)" using ch(1) by (intro last_cid_cong) simp
    then show "blast (EVBUFFER_ADDED (length d) (put_chain ch b)) = last_cid (chains (EVBUFFER_ADDED (length d) (put_chain ch b)))"
      using okD(3) [OF ok] cs(1) by (simp add: p)
  qed (use okD(1,4) [OF ok] cs(1) ch(1) len ct in \<open>simp_all add: p\<close>)
  then show "becomes w b w (EVBUFFER_ADDED (length d) (put_chain ch b)) (content b @ d)"
    using ct by (intro becomesI) (simp_all add: p)
qed

lemma chain_okD:
  assumes "chain_ok w c"
  shows "cid c < mm_calls w" "misalign c + off c \<le> buffer_len c" "0 < buffer_len c"
    "buffer_len c + EVBUFFER_CHAIN_SIZE \<le> EVBUFFER_CHAIN_MAX" "crefcnt c = 1" "\<not> CHAIN_PINNED c"
    "has (cflags c) EVBUFFER_IMMUTABLE \<Longrightarrow> misalign c + off c = buffer_len c"
    "has (cflags c) EVBUFFER_IMMUTABLE \<Longrightarrow> off c \<noteq> 0" "misalign c \<le> EVBUFFER_CHAIN_MAX"
  using assms by (auto simp: chain_ok_def)

lemma chain_ok_grow:
  assumes "chain_ok w c" "\<not> has (cflags c) EVBUFFER_IMMUTABLE" "cid c' = cid c" "cflags c' = cflags c"
    "crefcnt c' = crefcnt c" "buffer_len c' = buffer_len c" "misalign c' + off c' \<le> buffer_len c'"
  shows "chain_ok w c'"
  using assms by (auto simp: chain_ok_def CHAIN_PINNED_def)

lemma pinned_any: "has (cflags c) EVBUFFER_MEM_PINNED_ANY \<longleftrightarrow> CHAIN_PINNED c"
  by (simp add: CHAIN_PINNED_def)

lemma chain_align_ok:
  assumes "chain_ok w c" "\<not> has (cflags c) EVBUFFER_IMMUTABLE"
  shows "evbuffer_chain_align w c = (w, c\<lparr>cbuffer := mem_write (cbuffer c) 0 (chain_data c), misalign := 0\<rparr>)"
  using chain_okD [OF assms(1)] assms(2)
  by (simp add: evbuffer_chain_align_def pinned_any memcpy_ok Let_def)

text \<open>Room for all the data: at the end of the block, or after moving what is there to its start.\<close>

lemma add_fits:
  assumes ok: "evbuffer_ok w b" and cut: "cut b pre (c # rest)" and len: "total_len b + length data \<le> EV_SIZE_MAX"
    and mut: "\<not> has (cflags c) EVBUFFER_IMMUTABLE"
  shows "misalign c + off c + length data \<le> buffer_len c \<Longrightarrow>
      becomes w b w (EVBUFFER_ADDED (length data) (put_chain (c\<lparr>cbuffer := mem_write (cbuffer c) (misalign c + off c) data,
        off := off c + length data\<rparr>) b)) (content b @ data)"
    "off c + length data \<le> buffer_len c \<Longrightarrow>
      becomes w b w (EVBUFFER_ADDED (length data) (put_chain (c\<lparr>misalign := 0,
        cbuffer := mem_write (mem_write (cbuffer c) 0 (chain_data c)) (off c) data,
        off := off c + length data\<rparr>) b)) (content b @ data)"
proof -
  have c: "chain_ok w c" using okD(2) [OF ok, of c] cutD(1) [OF cut] by simp
  show "becomes w b w (EVBUFFER_ADDED (length data) (put_chain (c\<lparr>cbuffer := mem_write (cbuffer c) (misalign c + off c) data,
      off := off c + length data\<rparr>) b)) (content b @ data)" if "misalign c + off c + length data \<le> buffer_len c"
    using that by (intro put_head [OF ok cut] chain_ok_grow [OF c mut] len) (simp_all add: write_behind)
  let ?a = "c\<lparr>cbuffer := mem_write (cbuffer c) 0 (chain_data c), misalign := 0\<rparr>"
  show "becomes w b w (EVBUFFER_ADDED (length data) (put_chain (c\<lparr>misalign := 0,
      cbuffer := mem_write (mem_write (cbuffer c) 0 (chain_data c)) (off c) data,
      off := off c + length data\<rparr>) b)) (content b @ data)" if "off c + length data \<le> buffer_len c"
    using that write_behind [of ?a data]
    by (intro put_head [OF ok cut] chain_ok_grow [OF c mut] len) (simp_all add: align_data)
qed

lemma write_fresh:
  "misalign c = 0 \<Longrightarrow> chain_data (c\<lparr>cbuffer := mem_write (cbuffer c) 0 bs, off := length bs\<rparr>) = bs"
  by (rule nth_equalityI) (auto simp: chain_data_def chain_bytes_def mem_write_def)

lemma insert_becomes:
  assumes ok: "evbuffer_ok w b" and cut: "cut b pre post" and c: "chain_ok w c" "cid c \<notin> cid ` set (chains b)"
    and len: "total_len b + off c \<le> EV_SIZE_MAX"
  obtains w' where "evbuffer_chain_insert w b c = (w', inserted pre post c b)"
    "becomes w b w' (inserted pre post c b) (content b @ chain_data c)"
proof -
  obtain w' where i: "evbuffer_chain_insert w b c = (w', inserted pre post c b)" and l: "later w w'"
    by (rule chain_insert [OF ok cut])
  have "becomes w b w' (inserted pre post c b) (content b @ chain_data c)"
    using inserted_ok [OF assms] l by (intro becomesI) (simp_all add: ok_later, simp_all add: inserted_def)
  then show ?thesis using that i by blast
qed

text \<open>The data is split between the last chain and a new one.\<close>

lemma add_split:
  assumes obs: "observes ucb" and ok: "evbuffer_ok w b" and cut: "cut b pre (c # rest)"
    and len: "total_len b + length data \<le> EV_SIZE_MAX"
    and rm: "remain = (if has (cflags c) EVBUFFER_IMMUTABLE then 0 else buffer_len c - misalign c - off c)" "remain \<le> length data"
    and new: "evbuffer_chain_new w n = (w1, Some tmp)" "length data \<le> n"
    and run: "(case (if remain \<noteq> 0
                     then case memcpy_to w1 c (misalign c + off c) (take remain data) of
                            (w2, ch2) \<Rightarrow> (w2, EVBUFFER_ADDED remain (put_chain (ch2\<lparr>off := off ch2 + remain\<rparr>) b))
                     else (w1, b)) of
                (w2, b2) \<Rightarrow>
                  (case memcpy_to w2 tmp 0 (drop remain data) of
                     (w3, tmp1) \<Rightarrow>
                       (case evbuffer_chain_insert w3 b2 (tmp1\<lparr>off := length data - remain\<rparr>) of
                          (w4, b4) \<Rightarrow>
                            evbuffer_finish ucb w4 (b4\<lparr>n_add_for_cb := n_add_for_cb b4 + (length data - remain)\<rparr>) 0)))
              = (w', b', r)"
  shows "becomes w b w' b' (content b @ data)" "r = 0"
proof -
  note nw = chain_new_Some [OF new(1)]
  have fr: "fresh_chain w n tmp" by (rule nw(3))
  have ok1: "evbuffer_ok w1 b" by (rule ok_later [OF ok nw(1)])
  have c: "chain_ok w1 c" using okD(2) [OF ok1, of c] cutD(1) [OF cut] by simp
  let ?c2 = "c\<lparr>cbuffer := mem_write (cbuffer c) (misalign c + off c) (take remain data), off := off c + remain\<rparr>"
  define b2 where "b2 = (if remain \<noteq> 0 then EVBUFFER_ADDED remain (put_chain ?c2 b) else b)"
  obtain rest2 where cut2: "cut b2 pre rest2" and b2: "becomes w1 b w1 b2 (content b @ take remain data)"
  proof (cases "remain = 0")
    case True
    then show ?thesis using that [of "c # rest"] cut becomes_same [OF ok1, of w1] by (simp add: b2_def)
  next
    case False
    then have mut: "\<not> has (cflags c) EVBUFFER_IMMUTABLE" using rm(1) by auto
    have "misalign c + off c + remain \<le> buffer_len c" using rm(1) mut chain_okD(2) [OF c] by simp
    then have "chain_ok w1 ?c2" by (intro chain_ok_grow [OF c mut]) simp_all
    moreover have "chain_data ?c2 = chain_data c @ take remain data"
      using write_behind [of c "take remain data"] rm(2) by simp
    ultimately show ?thesis
      using put_head [OF ok1 cut, of ?c2 "take remain data"] that [of "?c2 # rest"] False rm(2) len by (simp add: b2_def)
  qed
  have fits: "memcpy_to w1 c (misalign c + off c) (take remain data) =
      (w1, c\<lparr>cbuffer := mem_write (cbuffer c) (misalign c + off c) (take remain data)\<rparr>)"
    using rm chain_okD(2) [OF c] by (intro memcpy_ok) (auto split: if_splits)
  define t where "t = tmp\<lparr>cbuffer := mem_write (cbuffer tmp) 0 (drop remain data), off := length data - remain\<rparr>"
  have t_data: "chain_data t = drop remain data" and t_off: "off t = length data - remain"
    using write_fresh [of tmp "drop remain data"] fr by (simp_all add: t_def fresh_chain_def)
  have t_ok: "chain_ok w1 t"
    using nw(2) fr new(2) by (intro fresh_chain_ok [OF fr]) (auto simp: t_def fresh_chain_def)
  have tm: "memcpy_to w1 tmp 0 (drop remain data) = (w1, tmp\<lparr>cbuffer := mem_write (cbuffer tmp) 0 (drop remain data)\<rparr>)"
    using fr new(2) by (intro memcpy_ok) (auto simp: fresh_chain_def)
  have t_new: "cid t \<notin> cid ` set (chains b2)"
  proof -
    have "map cid (chains b2) = map cid (chains b)" by (simp add: b2_def put_chain_cids)
    then have "cid ` set (chains b2) = cid ` set (chains b)" by (metis set_map)
    then show ?thesis using fresh_notin [OF ok fr] by (simp add: t_def)
  qed
  have "total_len b2 + off t \<le> EV_SIZE_MAX"
    using okD(4) [OF becomesD(2) [OF b2]] becomesD(3) [OF b2] okD(4) [OF ok] len rm(2) t_off by simp
  then obtain w4 where i: "evbuffer_chain_insert w1 b2 t = (w4, inserted pre rest2 t b2)"
    and i2: "becomes w1 b2 w4 (inserted pre rest2 t b2) (content b2 @ chain_data t)"
    by (rule insert_becomes [OF becomesD(2) [OF b2] cut2 t_ok t_new])
  have "becomes w b w1 b2 (content b @ take remain data)"
    using b2 nw(1) by (simp add: becomes_def)
  then have "becomes w b w4 (inserted pre rest2 t b2) (content b @ data)"
    using becomes_trans [OF _ i2] becomesD(3) [OF b2] t_data by simp
  then have B: "becomes w b w4 ((inserted pre rest2 t b2)\<lparr>n_add_for_cb := m\<rparr>) (content b @ data)" for m
    by (rule becomes_same_data) simp_all
  have s1: "(if remain \<noteq> 0
      then case memcpy_to w1 c (misalign c + off c) (take remain data) of
             (w2, ch2) \<Rightarrow> (w2, EVBUFFER_ADDED remain (put_chain (ch2\<lparr>off := off ch2 + remain\<rparr>) b))
      else (w1, b)) = (w1, b2)"
    by (simp add: fits b2_def)
  have "evbuffer_finish ucb w4 ((inserted pre rest2 t b2)\<lparr>n_add_for_cb :=
      n_add_for_cb (inserted pre rest2 t b2) + (length data - remain)\<rparr>) 0 = (w', b', r)"
    using run [unfolded s1 prod.case tm t_def [symmetric] i] .
  then show "becomes w b w' b' (content b @ data)" "r = 0" using becomes_finish [OF obs B] by blast+
qed

lemma add_to_ok:
  assumes obs: "observes ucb" and ok: "evbuffer_ok w b" and cut: "cut b pre (c # rest)"
    and len: "total_len b + length data \<le> EV_SIZE_MAX" and run: "evbuffer_add_to ucb w b c data = (w', b', r)"
  shows "r = 0 \<and> becomes w b w' b' (content b @ data) \<or>
    r = -1 \<and> b' = b \<and> later w w' \<and> (length data > EVBUFFER_CHAIN_MAX - EVBUFFER_CHAIN_SIZE \<or> \<not> mm w (mm_calls w))"
proof -
  have c: "chain_ok w c" using okD(2) [OF ok, of c] cutD(1) [OF cut] by simp
  note cD = chain_okD [OF c]
  define mut where "mut \<longleftrightarrow> \<not> has (cflags c) EVBUFFER_IMMUTABLE"
  define remain where "remain = (if mut then buffer_len c - misalign c - off c else 0)"
  consider (fits) "mut" "remain \<ge> length data"
    | (realign) "mut" "\<not> remain \<ge> length data" "evbuffer_chain_should_realign c (length data)"
    | (new) "\<not> (mut \<and> remain \<ge> length data)" "\<not> (mut \<and> evbuffer_chain_should_realign c (length data))"
    by blast
  then show ?thesis
  proof cases
    case fits
    then have f: "misalign c + off c + length data \<le> buffer_len c" and m: "\<not> has (cflags c) EVBUFFER_IMMUTABLE"
      using cD(2) by (simp_all add: remain_def mut_def)
    have "evbuffer_add_to ucb w b c data = evbuffer_finish ucb w (EVBUFFER_ADDED (length data)
        (put_chain (c\<lparr>cbuffer := mem_write (cbuffer c) (misalign c + off c) data, off := off c + length data\<rparr>) b)) 0"
      using fits f cD(9) by (simp add: evbuffer_add_to_def mut_def remain_def memcpy_ok Let_def)
    note e = this [symmetric, unfolded run]
    show ?thesis using becomes_finish [OF obs add_fits(1) [OF ok cut len m f] e] by simp
  next
    case realign
    then have f: "off c + length data \<le> buffer_len c" and m: "\<not> has (cflags c) EVBUFFER_IMMUTABLE"
      using cD(2) by (auto simp: evbuffer_chain_should_realign_def mut_def)
    have "evbuffer_add_to ucb w b c data = evbuffer_finish ucb w (EVBUFFER_ADDED (length data)
        (put_chain (c\<lparr>misalign := 0, cbuffer := mem_write (mem_write (cbuffer c) 0 (chain_data c)) (off c) data,
          off := off c + length data\<rparr>) b)) 0"
      using realign f cD(6,9) chain_align_ok [OF c] unfolding mut_def
      by (simp add: evbuffer_add_to_def remain_def mut_def memcpy_ok Let_def)
    note e = this [symmetric, unfolded run]
    show ?thesis using becomes_finish [OF obs add_fits(2) [OF ok cut len m f] e] by simp
  next
    case new
    define n1 where "n1 = (if buffer_len c \<le> EVBUFFER_CHAIN_MAX_AUTO_SIZE div 2 then push_bit 1 (buffer_len c) else buffer_len c)"
    define n where "n = (if length data > n1 then length data else n1)"
    have "n1 \<le> EVBUFFER_CHAIN_MAX - EVBUFFER_CHAIN_SIZE"
      using cD(4) by (simp add: n1_def EVBUFFER_CHAIN_MAX_AUTO_SIZE_def chain_max_value)
    then have big: "length data > EVBUFFER_CHAIN_MAX - EVBUFFER_CHAIN_SIZE" if "n > EVBUFFER_CHAIN_MAX - EVBUFFER_CHAIN_SIZE"
      using that by (auto simp: n_def split: if_splits)
    have cond: "(mut \<and> length data \<le> remain) = False"
      "(mut \<and> \<not> CHAIN_PINNED c \<and> evbuffer_chain_should_realign c (length data)) = False" using new by blast+
    have w0: "(if mut then bcheck (misalign c \<le> EVBUFFER_CHAIN_MAX) w else w) = w" using cD(9) by simp
    note run' = run [unfolded evbuffer_add_to_def Let_def mut_def [symmetric] remain_def [symmetric] n1_def [symmetric]
        n_def [symmetric] cond if_False w0]
    show ?thesis
    proof (cases "evbuffer_chain_new w n")
      case (Pair w1 t)
      show ?thesis
      proof (cases t)
        case None
        then show ?thesis using run' Pair chain_new_None [of w n w1] big by auto
      next
        case (Some tmp)
        have nn: "evbuffer_chain_new w n = (w1, Some tmp)" using Pair Some by simp
        have R: "remain = (if has (cflags c) EVBUFFER_IMMUTABLE then 0 else buffer_len c - misalign c - off c)"
          by (simp add: remain_def mut_def)
        have L: "remain \<le> length data" "length data \<le> n" using new(1) by (auto simp: remain_def n_def)
        note run2 = run' [unfolded nn prod.case option.case]
        show ?thesis using add_split [OF obs ok cut len R L(1) nn L(2) run2] by simp
      qed
    qed
  qed
qed

end
