(* ===== verification/Evbuffer_Fun.thy ===== *)
theory Evbuffer_Fun
  imports Evbuffer_Inv
begin

text \<open>
  The operations of a buffer as operations on its content: adding, prepending, draining, copying out,
  removing and pulling up.
\<close>

subsection \<open>Adding\<close>

text \<open>Why an operation that needs \<open>n\<close> bytes may run out of memory.\<close>

definition no_room :: "bworld \<Rightarrow> nat \<Rightarrow> bool" where
  "no_room w n \<longleftrightarrow> n > EVBUFFER_CHAIN_MAX - EVBUFFER_CHAIN_SIZE \<or> (\<exists>k \<ge> mm_calls w. \<not> mm w k)"

lemma no_room_later: "later w w' \<Longrightarrow> no_room w' n \<Longrightarrow> no_room w n"
  unfolding no_room_def later_def by (metis order_trans)

lemma no_room_mono: "m \<le> n \<Longrightarrow> no_room w m \<Longrightarrow> no_room w n"
  unfolding no_room_def by auto

text \<open>An empty list of chains gets its first one.\<close>

lemma insert_first:
  assumes ok: "evbuffer_ok w b" and nil: "chains b = []" and run: "evbuffer_chain_insert_new w b n = (w1, b1, x)"
  shows "case x of
      None \<Rightarrow> b1 = b \<and> later w w1 \<and> no_room w n
    | Some c \<Rightarrow> becomes w b w1 b1 [] \<and> chains b1 = [c] \<and> last_with_datap b1 = First \<and> off c = 0 \<and> misalign c = 0 \<and>
        \<not> has (cflags c) EVBUFFER_IMMUTABLE \<and> n \<le> buffer_len c \<and> chain_ok w1 c \<and> total_len b1 = 0"
proof (cases "evbuffer_chain_new w n")
  case (Pair w0 y)
  show ?thesis
  proof (cases y)
    case None
    then show ?thesis using run Pair chain_new_None [of w n w0] by (auto simp: evbuffer_chain_insert_new_def no_room_def)
  next
    case (Some c)
    note nw = chain_new_Some [OF Pair [unfolded Some]]
    have fr: "fresh_chain w n c" by (rule nw(3))
    have ok0: "evbuffer_ok w0 b" by (rule ok_later [OF ok nw(1)])
    have cut: "cut b [] []" using okD(6) [OF ok] nil by (auto simp: cut_def)
    have c: "chain_ok w0 c" using nw(2) fr by (intro fresh_chain_ok [OF fr]) (auto simp: fresh_chain_def)
    have z: "off c = 0" "total_len b = 0" using fr okD(4) [OF ok] nil by (simp_all add: fresh_chain_def content_def)
    obtain w2 where i: "evbuffer_chain_insert w0 b c = (w2, inserted [] [] c b)"
      and B: "becomes w0 b w2 (inserted [] [] c b) (content b @ chain_data c)"
      using z nil by (rule_tac insert_becomes [OF ok0 cut c]) simp_all
    have r: "w1 = w2" "b1 = inserted [] [] c b" "x = Some c"
      using run i unfolding evbuffer_chain_insert_new_def Pair Some by simp_all
    have "becomes w b w1 b1 []" using becomesD [OF B] nw(1) later_trans r nil z
      by (intro becomesI) (auto simp: content_def intro: later_trans)
    then show ?thesis
      using r z fr chain_ok_later [OF c becomesD(1) [OF B]] by (simp add: inserted_def used_def fresh_chain_def)
  qed
qed

lemma add_ok:
  assumes obs: "observes ucb" and ok: "evbuffer_ok w b" and run: "evbuffer_add ucb w b data = (w', b', r)"
  shows "r = 0 \<and> becomes w b w' b' (content b @ data) \<and> \<not> freeze_end b \<or>
    r = -1 \<and> becomes w b w' b' (content b) \<and>
      (freeze_end b \<or> length data > EV_SIZE_MAX - total_len b \<or> no_room w (length data))"
proof (cases "freeze_end b \<or> length data > EV_SIZE_MAX - total_len b")
  case True
  then show ?thesis using run becomes_same [OF ok later_refl] by (auto simp: evbuffer_add_def split: if_splits)
next
  case False
  then have fr: "\<not> freeze_end b" and len: "total_len b + length data \<le> EV_SIZE_MAX" using okD(5) [OF ok] by auto
  obtain pre post where cut: "cut b pre post" using okD(6) [OF ok] by blast
  show ?thesis
  proof (cases post)
    case (Cons c rest)
    have "evbuffer_add_to ucb w b c data = (w', b', r)"
      using run False deref_cut [OF ok cut] Cons by (simp add: evbuffer_add_def)
    from add_to_ok [OF obs ok cut [unfolded Cons] len this] show ?thesis
      using fr becomes_same [OF ok, of w'] by (auto simp: no_room_def)
  next
    case Nil
    then have nil: "chains b = []" using cutD(1,4) [OF cut] by fastforce
    obtain w1 b1 x where ins: "evbuffer_chain_insert_new w b (length data) = (w1, b1, x)" by (metis prod_cases3)
    note I = insert_first [OF ok nil ins]
    have z: "total_len b = 0" "content b = []" using nil okD(4) [OF ok] by (simp_all add: content_def)
    have run1: "(case x of None \<Rightarrow> (w1, b1, -1) | Some ch \<Rightarrow> evbuffer_add_to ucb w1 b1 ch data) = (w', b', r)"
      using run False deref_cut [OF ok cut] Nil chain_at_last [OF ok] nil ins
      by (simp add: evbuffer_add_def split: option.splits)
    show ?thesis
    proof (cases x)
      case None
      then show ?thesis using I run1 becomes_same [OF ok, of w1] by simp
    next
      case (Some c)
      have B: "becomes w b w1 b1 []" and cut1: "cut b1 [] [c]" and l: "total_len b1 + length data \<le> EV_SIZE_MAX"
        using I Some len by (simp_all add: cut_def)
      from add_to_ok [OF obs becomesD(2) [OF B] cut1 l] run1 Some
      consider "r = 0" "becomes w1 b1 w' b' (content b1 @ data)" | "r = -1" "b' = b1" "later w1 w'" "no_room w1 (length data)"
        by (auto simp: no_room_def)
      then show ?thesis
      proof cases
        case 1
        then show ?thesis using becomes_trans [OF B] becomesD(3) [OF B] z fr by simp
      next
        case 2
        then show ?thesis
          using becomes_trans [OF B becomes_same [OF becomesD(2) [OF B] 2(3)]] becomesD(1,3) [OF B] z no_room_later
          by auto
      qed
    qed
  qed
qed

subsection \<open>Draining\<close>

lemma not_pinned: "evbuffer_ok w b \<Longrightarrow> \<not> HAS_PINNED_R b"
proof -
  assume ok: "evbuffer_ok w b"
  have "\<not> CHAIN_PINNED_R c" if "\<not> CHAIN_PINNED c" for c
    using that by (auto simp: CHAIN_PINNED_R_def CHAIN_PINNED_def EVBUFFER_MEM_PINNED_ANY_def has_or_mask)
  then show ?thesis
    using chain_okD(6) [OF okD(2) [OF ok, of "last (chains b)"]] by (auto simp: HAS_PINNED_R_def chain_at_last [OF ok])
qed

lemma not_pinned_R: "chain_ok w c \<Longrightarrow> \<not> CHAIN_PINNED_R c"
  by (auto dest: chain_okD(6) simp: CHAIN_PINNED_R_def CHAIN_PINNED_def EVBUFFER_MEM_PINNED_ANY_def has_or_mask)

lemma length_concat_chains [simp]: "length (concat (map chain_data cs)) = sum_list (map off cs)"
  by (induction cs) simp_all

lemma sum_off_empty: "\<forall>c \<in> set cs. off c = 0 \<Longrightarrow> sum_list (map off cs) = 0"
  by (induction cs) simp_all

lemma slot_after_Cons: "slot_after (c # cs) = (if cs = [] then Next (cid c) else slot_after cs)"
  by (simp add: slot_after_def)

lemma slot_after_append: "pre \<noteq> [] \<Longrightarrow> slot_after (gone @ pre) = slot_after pre"
  by (simp add: slot_after_def)

text \<open>The loop frees the chains in front of the cut that are drained entirely.\<close>

lemma drain_loop_ok:
  assumes "chains b = gone @ pre @ post" "distinct (map cid (chains b))" "\<forall>c \<in> set (pre @ post). chain_ok u c"
    "remaining < sum_list (map off (pre @ post))" "\<forall>c \<in> set (tl post). off c = 0"
  shows "\<exists>w' r pre2 c rest dn.
    drain_loop b w (slot_after pre) remaining (pre @ post) = (w', slot_after pre2, r, c # rest) \<and> later w w' \<and>
    pre = dn @ pre2 \<and> c # rest = pre2 @ post \<and> remaining = sum_list (map off dn) + r \<and> r < off c"
  using assms
proof (induction pre arbitrary: gone remaining w)
  case Nil
  then obtain c rest where p: "post = c # rest" by (cases post) auto
  then have "remaining < off c" using Nil.prems(4,5) sum_off_empty [of rest] by simp
  then show ?case using p by (intro exI [of _ w] exI [of _ remaining] exI [of _ "[]"] exI [of _ c] exI [of _ rest]) simp
next
  case (Cons c pre)
  show ?case
  proof (cases "remaining < off c")
    case True
    then show ?thesis
      by (intro exI [of _ w] exI [of _ remaining] exI [of _ "c # pre"] exI [of _ c] exI [of _ "pre @ post"] exI [of _ "[]"]) simp
  next
    case False
    have tgt: "split_at (chains b) (slot_after (c # pre)) = (gone @ c # pre, post)"
      using split_at_slot [of "gone @ c # pre" post] Cons.prems(1,2) slot_after_append [of "c # pre" gone] by simp
    have "cid d \<noteq> cid c" if "d \<in> set post" for d using that Cons.prems(1,2) by (auto simp: image_iff)
    then have np: "\<not> points_at b (slot_after (c # pre)) c"
      using tgt by (cases post) (auto simp: points_at_def deref_def)
    have s2: "(if slot_after (c # pre) = Next (cid c) then First else slot_after (c # pre)) = slot_after pre"
    proof (cases "pre = []")
      case False
      then have "last pre \<in> set pre" by simp
      then have "cid (last pre) \<noteq> cid c" using Cons.prems(1,2) by (auto simp: image_iff)
      then show ?thesis using False by (simp add: slot_after_def)
    qed (simp add: slot_after_def)
    have c: "chain_ok u c" using Cons.prems(3) by simp
    have st: "drain_loop b w (slot_after (c # pre)) remaining ((c # pre) @ post) =
        drain_loop b (evbuffer_chain_free w c) (slot_after pre) (remaining - off c) (pre @ post)"
      using False np s2 not_pinned_R [OF c] by (simp add: Let_def)
    have lt: "remaining - off c < sum_list (map off (pre @ post))" using Cons.prems(4) False by (simp add: less_diff_conv2)
    have g: "chains b = (gone @ [c]) @ pre @ post" "\<forall>x \<in> set (pre @ post). chain_ok u x"
      using Cons.prems(1,3) by simp_all
    note IH = Cons.IH [OF g(1) Cons.prems(2) g(2) lt Cons.prems(5), of "evbuffer_chain_free w c"]
    obtain w' r pre2 d rest dn where
      "drain_loop b (evbuffer_chain_free w c) (slot_after pre) (remaining - off c) (pre @ post) = (w', slot_after pre2, r, d # rest)"
      "later (evbuffer_chain_free w c) w'" "pre = dn @ pre2" "d # rest = pre2 @ post"
      "remaining - off c = sum_list (map off dn) + r" "r < off d"
      using IH by blast
    then show ?thesis
      using st False later_trans [OF chain_free_later [OF c, of w]]
      by (intro exI [of _ w'] exI [of _ r] exI [of _ pre2] exI [of _ d] exI [of _ rest] exI [of _ "c # dn"]) auto
  qed
qed

lemma chain_ok_skip:
  assumes "chain_ok w c" "r < off c"
  shows "chain_ok w (c\<lparr>misalign := misalign c + r, off := off c - r\<rparr>)"
  using assms by (auto simp: chain_ok_def CHAIN_PINNED_def)

lemma later_becomes: "later w w1 \<Longrightarrow> becomes w1 b w' b' bs \<Longrightarrow> becomes w b w' b' bs"
  by (auto simp: becomes_def intro: later_trans)

lemma zero_ok: "evbuffer_ok w b \<Longrightarrow> evbuffer_ok w ((ZERO_CHAIN b)\<lparr>n_del_for_cb := k\<rparr>)"
  by (rule okI [of _ _ "[]" "[]"]) (auto simp: ZERO_CHAIN_def cut_def content_def)

text \<open>Dropping whole chains and a part of the next one from the front.\<close>

lemma front_dropped:
  assumes ok: "evbuffer_ok w b" and cut: "cut b (dn @ pre2) post" and eq: "c # rest = pre2 @ post" and r: "r < off c"
    and b': "chains b' = c\<lparr>misalign := misalign c + r, off := off c - r\<rparr> # rest" "last_with_datap b' = slot_after pre2"
      "blast b' = blast b" "total_len b' = total_len b - (sum_list (map off dn) + r)"
  shows "evbuffer_ok w b'" "content b' = drop (sum_list (map off dn) + r) (content b)"
proof -
  let ?c = "c\<lparr>misalign := misalign c + r, off := off c - r\<rparr>"
  have ch: "chains b = dn @ c # rest" using cutD(1) [OF cut] eq by simp
  have cD: "chain_data ?c = drop r (chain_data c)" using r by (intro chain_data_skip) simp
  show ct: "content b' = drop (sum_list (map off dn) + r) (content b)"
    using r cD by (simp add: content_def b'(1) ch)
  have cut': "\<exists>p q. cut b' p q"
  proof (cases pre2)
    case Nil
    then have "cut b' [] (?c # rest)" using cut eq [symmetric] by (simp add: cut_def b')
    then show ?thesis by blast
  next
    case (Cons d pre3)
    then have "d = c" "rest = pre3 @ post" using eq by auto
    then have "cut b' (?c # pre3) post"
      using cut Cons by (auto simp: cut_def b' slot_after_def)
    then show ?thesis by blast
  qed
  then obtain p q where pq: "cut b' p q" by blast
  have c: "chain_ok w c" using okD(2) [OF ok, of c] ch by simp
  show "evbuffer_ok w b'"
  proof (intro okI [OF _ _ _ pq])
    fix x assume "x \<in> set (chains b')"
    then show "chain_ok w x" using okD(2) [OF ok, of x] chain_ok_skip [OF c r] by (auto simp: b'(1) ch)
  next
    have "last_cid (?c # rest) = last_cid (c # rest)" by (intro last_cid_cong) simp
    then show "blast b' = last_cid (chains b')"
      using okD(3) [OF ok] by (simp add: b' ch last_cid_append)
  qed (use okD [OF ok] ct in \<open>simp_all add: b' ch\<close>)
qed

lemma drain_ok:
  assumes obs: "observes ucb" and ok: "evbuffer_ok w b" and run: "evbuffer_drain ucb w b len = (w', b', r)"
  shows "r = 0 \<and> becomes w b w' b' (drop len (content b)) \<and> (content b = [] \<or> \<not> freeze_start b) \<or>
    r = -1 \<and> w' = w \<and> b' = b \<and> freeze_start b \<and> content b \<noteq> []"
proof -
  note tot = okD(4) [OF ok]
  consider (empty) "total_len b = 0" | (frozen) "total_len b \<noteq> 0" "freeze_start b"
    | (all) "total_len b \<noteq> 0" "\<not> freeze_start b" "len \<ge> total_len b"
    | (part) "total_len b \<noteq> 0" "\<not> freeze_start b" "len < total_len b" by linarith
  then show ?thesis
  proof cases
    case empty
    then show ?thesis using run tot becomes_same [OF ok later_refl] by (simp add: evbuffer_drain_def)
  next
    case frozen
    then show ?thesis using run tot by (auto simp: evbuffer_drain_def)
  next
    case all
    let ?w1 = "evbuffer_free_all_chains w (chains b)"
    let ?b1 = "(ZERO_CHAIN b)\<lparr>n_del_for_cb := n_del_for_cb b + total_len b\<rparr>"
    have l: "later w ?w1" using okD(2) [OF ok] by (intro free_all_later [of _ w]) blast
    have "becomes w b ?w1 ?b1 (drop len (content b))"
      using l ok_later [OF zero_ok [OF ok] l] all(3) tot
      by (intro becomesI) (simp_all add: ZERO_CHAIN_def content_def)
    moreover have "evbuffer_finish ucb ?w1 ?b1 0 = (w', b', r)"
      using run all not_pinned [OF ok] by (simp add: evbuffer_drain_def Let_def)
    ultimately show ?thesis using becomes_finish [OF obs] all(2) by blast
  next
    case part
    obtain pre post where cut: "cut b pre post" using okD(6) [OF ok] by blast
    have lt: "len < sum_list (map off (pre @ post))" using tot cutD(1) [OF cut] part(3) by (simp add: content_def)
    have g: "chains b = [] @ pre @ post" "\<forall>c \<in> set (pre @ post). chain_ok w c" "\<forall>c \<in> set (tl post). off c = 0"
      using okD(2) [OF ok] cut by (auto simp: cut_def)
    note D = drain_loop_ok [OF g(1) okD(1) [OF ok] g(2) lt g(3), of w]
    obtain w1 rem pre2 c rest dn where
      d: "drain_loop b w (slot_after pre) len (pre @ post) = (w1, slot_after pre2, rem, c # rest)" "later w w1"
      and s: "pre = dn @ pre2" "c # rest = pre2 @ post" "len = sum_list (map off dn) + rem" "rem < off c"
      using D by blast
    define b1 where "b1 = b\<lparr>total_len := total_len b - len,
      chains := c\<lparr>misalign := misalign c + rem, off := off c - rem\<rparr> # rest,
      last_with_datap := slot_after pre2, n_del_for_cb := n_del_for_cb b + len\<rparr>"
    have "evbuffer_ok w1 b1 \<and> content b1 = drop len (content b)"
      using front_dropped [OF ok_later [OF ok d(2)] cut [unfolded s(1)] s(2,4), of b1] s(3) by (simp add: b1_def)
    then have "becomes w b w1 b1 (drop len (content b))"
      using d(2) by (intro becomesI) (simp_all, simp_all add: b1_def)
    moreover have "evbuffer_finish ucb w1 b1 0 = (w', b', r)"
      using run part d(1) s(4) cutD(1,2) [OF cut] by (simp add: evbuffer_drain_def Let_def b1_def)
    ultimately show ?thesis using becomes_finish [OF obs] part(2) by blast
  qed
qed

subsection \<open>Copying out and removing\<close>

lemma take_concat_step:
  "n \<ge> length xs \<Longrightarrow> take n (xs @ ys) = xs @ take (n - length xs) ys"
  "n \<le> length xs \<Longrightarrow> take n (xs @ ys) = take n xs"
  by simp_all

lemma copyout_loop_ok:
  assumes "n \<le> sum_list (map off cs)"
  shows "copyout_loop w 0 n cs = (w, take n (concat (map chain_data cs)))"
  using assms
proof (induction cs arbitrary: n)
  case (Cons c cs)
  show ?case
  proof (cases "n \<noteq> 0 \<and> n \<ge> off c")
    case True
    then show ?thesis using Cons by (simp add: chain_data_def [symmetric])
  next
    case False
    then show ?thesis by (auto simp: chain_bytes_take)
  qed
qed simp

lemma copyout_ok:
  assumes "evbuffer_ok w b"
  shows "evbuffer_copyout_from w b None n =
    (if content b = [] \<or> n = 0 then (w, [], 0) else if freeze_start b then (w, [], -1)
     else (w, take n (content b), int (min n (length (content b)))))"
proof -
  have t: "sum_list (map off (chains b)) = total_len b" using okD(4) [OF assms] by (simp add: content_def)
  let ?n = "if n > total_len b then total_len b else n"
  have "copyout_loop w 0 ?n (chains b) = (w, take ?n (content b))"
    using copyout_loop_ok [of ?n "chains b" w] t by (simp add: content_def)
  then show ?thesis using okD(4) [OF assms] by (auto simp: evbuffer_copyout_from_def min_def)
qed

lemma to_int_small [simp]: "- (2 ^ 31) \<le> n \<Longrightarrow> n < 2 ^ 31 \<Longrightarrow> to_int n = n"
  unfolding to_int_def sint_sbintrunc' by (rule signed_take_bit_int_eq_self) simp_all

lemma remove_ok:
  assumes obs: "observes ucb" and ok: "evbuffer_ok w b" and run: "evbuffer_remove ucb w b n = (w', b', d, r)"
    and small: "n < 2 ^ 31"
  shows "r = int (min n (length (content b))) \<and> d = take n (content b) \<and> becomes w b w' b' (drop n (content b)) \<or>
    r = -1 \<and> b' = b \<and> freeze_start b"
proof (cases "content b = [] \<or> n = 0 \<or> freeze_start b")
  case True
  then show ?thesis
    using run becomes_same [OF ok later_refl] by (auto simp: evbuffer_remove_def copyout_ok [OF ok] split: if_splits)
next
  case False
  define k where "k = min n (length (content b))"
  have k: "0 < k" "k < 2 ^ 31" using False small by (auto simp: k_def)
  obtain w2 b2 r2 where dr: "evbuffer_drain ucb w b k = (w2, b2, r2)" by (metis prod_cases3)
  have r2: "r2 = 0" "becomes w b w2 b2 (drop k (content b))" using drain_ok [OF obs ok dr] False by blast+
  have "w' = w2 \<and> b' = b2 \<and> d = take n (content b) \<and> r = int k"
    using run dr r2(1) k False unfolding evbuffer_remove_def copyout_ok [OF ok] k_def [symmetric] by simp
  moreover have "drop k (content b) = drop n (content b)" by (simp add: k_def min_def)
  ultimately show ?thesis using r2(2) k_def by simp
qed

subsection \<open>Prepending\<close>

lemma chain_data_Nil_iff: "chain_data c = [] \<longleftrightarrow> off c = 0"
  by (metis chain_data_length length_0_conv)

lemma put_first:
  assumes ok: "evbuffer_ok w b" and ch: "chains b = c # cs" and eq: "cid ch = cid c" "chain_ok w ch"
    "chain_data ch = d @ chain_data c" and len: "total_len b + length d \<le> EV_SIZE_MAX"
  shows "becomes w b w (EVBUFFER_ADDED (length d) (put_chain ch b)) (d @ content b)"
proof -
  let ?b = "EVBUFFER_ADDED (length d) (put_chain ch b)"
  have p: "put_chain ch b = b\<lparr>chains := ch # cs\<rparr>"
    using okD(1) [OF ok] ch eq(1) put_chain_in [of "[]" c cs b ch] by simp
  have o: "off ch = off c + length d" using arg_cong [OF eq(3), of length] by simp
  have ct: "content ?b = d @ content b" using ch eq(3) by (simp add: content_def p)
  obtain pre post where cut: "cut b pre post" using okD(6) [OF ok] by blast
  have "\<exists>pre post. cut ?b pre post"
  proof (cases pre)
    case Nil
    then have "post = c # cs" using cutD(1) [OF cut] ch by simp
    then have "cut ?b [] (ch # cs)" using cut Nil by (simp add: cut_def p)
    then show ?thesis by blast
  next
    case (Cons x pre1)
    then have "x = c" "cs = pre1 @ post" using cutD(1) [OF cut] ch by simp_all
    then have "cut ?b (ch # pre1) post" using cut Cons eq(1) by (auto simp: cut_def p slot_after_def)
    then show ?thesis by blast
  qed
  then obtain p1 q1 where pq: "cut ?b p1 q1" by blast
  have "evbuffer_ok w ?b"
  proof (intro okI [OF _ _ _ pq])
    fix x assume "x \<in> set (chains ?b)"
    then show "chain_ok w x" using eq(2) okD(2) [OF ok, of x] ch by (auto simp: p)
  next
    have "last_cid (ch # cs) = last_cid (c # cs)" using eq(1) by (intro last_cid_cong) simp
    then show "blast ?b = last_cid (chains ?b)" using okD(3) [OF ok] ch by (simp add: p)
  qed (use okD(1,4) [OF ok] ch eq(1) len ct in \<open>simp_all add: p\<close>)
  then show ?thesis using ct by (intro becomesI) (simp_all add: p)
qed

lemma prepend_new_ok:
  assumes obs: "observes ucb" and ok: "evbuffer_ok w b" and ne: "content b \<noteq> []"
    and len: "total_len b + length data \<le> EV_SIZE_MAX" and run: "prepend_new ucb w b data = (w', b', r)"
  shows "r = 0 \<and> becomes w b w' b' (data @ content b) \<or>
    r = -1 \<and> b' = b \<and> later w w' \<and> no_room w (length data)"
proof (cases "evbuffer_chain_new w (length data)")
  case (Pair w1 x)
  show ?thesis
  proof (cases x)
    case None
    then show ?thesis using run Pair chain_new_None [of w "length data" w1] by (auto simp: prepend_new_def no_room_def)
  next
    case (Some tmp)
    note nw = chain_new_Some [OF Pair [unfolded Some]]
    have fr: "fresh_chain w (length data) tmp" by (rule nw(3))
    define p where "p = buffer_len tmp - length data"
    have fit: "p + length data \<le> buffer_len tmp" "length data \<le> buffer_len tmp" using fr by (simp_all add: p_def fresh_chain_def)
    define t where "t = tmp\<lparr>cbuffer := mem_write (cbuffer tmp) p data, off := length data, misalign := p\<rparr>"
    have t: "chain_data t = data" "cid t = cid tmp" "off t = length data" by (simp_all add: t_def write_start)
    have t_ok: "chain_ok w1 t" using nw(2) fit by (intro fresh_chain_ok [OF fr]) (simp_all add: t_def)
    have m: "memcpy_to w1 tmp p data = (w1, tmp\<lparr>cbuffer := mem_write (cbuffer tmp) p data\<rparr>)"
      using fr fit by (intro memcpy_ok) (simp_all add: fresh_chain_def)
    define b1 where "b1 = EVBUFFER_ADDED (length data) (b\<lparr>chains := t # chains b,
      last_with_datap := (if last_with_datap b = First then Next (cid tmp) else last_with_datap b)\<rparr>)"
    have ct: "content b1 = data @ content b" by (simp add: b1_def content_def t)
    obtain pre post where cut: "cut b pre post" using okD(6) [OF ok] by blast
    have hd: "post \<noteq> [] \<and> off (hd post) \<noteq> 0"
    proof (cases "pre = []")
      case True
      then have "(case post of [] \<Rightarrow> [] | c # _ \<Rightarrow> chain_data c) \<noteq> []" using ne content_cut [OF cut] by simp
      then show ?thesis by (cases post) (auto simp: chain_data_Nil_iff)
    qed (use cutD(4,5) [OF cut] in blast)
    have "last_with_datap b1 = slot_after (t # pre)"
      using cutD(2) [OF cut] t(2) by (simp add: b1_def slot_after_def)
    then have cut1: "cut b1 (t # pre) post" using cut hd by (simp add: cut_def b1_def)
    have "evbuffer_ok w1 b1"
    proof (intro okI [OF _ _ _ cut1])
      fix x assume "x \<in> set (chains b1)"
      then show "chain_ok w1 x" using t_ok okD(2) [OF ok, of x] chain_ok_later [OF _ nw(1)] by (auto simp: b1_def)
    next
      show "blast b1 = last_cid (chains b1)"
        using okD(3) [OF ok] ne by (auto simp: b1_def last_cid_def content_def)
    qed (use okD(1,4) [OF ok] fresh_notin [OF ok fr] t(2) len ct in \<open>simp_all add: b1_def\<close>)
    then have B: "becomes w b w1 b1 (data @ content b)"
      using ct nw(1) by (intro becomesI) (simp_all, simp_all add: b1_def)
    have "evbuffer_finish ucb w1 b1 0 = (w', b', r)"
      using run [unfolded prepend_new_def Let_def Pair [unfolded Some] prod.case option.case p_def [symmetric]] fit(2) m
      by (simp add: b1_def t_def split del: if_split)
    then show ?thesis using becomes_finish [OF obs B] by blast
  qed
qed

lemma content_first: "chains b = c # cs \<Longrightarrow> off c \<noteq> 0 \<Longrightarrow> content b \<noteq> []"
  by (auto simp: content_def chain_data_def chain_bytes_def)

lemma prepend_to_ok:
  assumes obs: "observes ucb" and ok: "evbuffer_ok w b" and ch: "chains b = c # cs"
    and len: "total_len b + length data \<le> EV_SIZE_MAX" and run: "evbuffer_prepend_to ucb w b c data = (w', b', r)"
  shows "r = 0 \<and> becomes w b w' b' (data @ content b) \<or>
    r = -1 \<and> (\<exists>k. becomes w b w' b' (drop k data @ content b)) \<and> no_room w (length data)"
proof -
  have c: "chain_ok w c" using okD(2) [OF ok, of c] ch by simp
  note cD = chain_okD [OF c]
  define c1 where "c1 = (if off c = 0 then c\<lparr>misalign := buffer_len c\<rparr> else c)"
  have c1: "cid c1 = cid c" "cflags c1 = cflags c" "crefcnt c1 = crefcnt c" "buffer_len c1 = buffer_len c"
    "off c1 = off c" "chain_data c1 = chain_data c" "misalign c1 + off c1 \<le> buffer_len c1"
    using cD(2) by (simp_all add: c1_def)
  have fail: "\<exists>k. becomes w b w2 b2 (drop k data @ content b)" if "becomes w b w2 b2 (content b)" for w2 b2
    using that by (intro exI [of _ "length data"]) simp
  consider (imm) "has (cflags c) EVBUFFER_IMMUTABLE"
    | (fits) "\<not> has (cflags c) EVBUFFER_IMMUTABLE" "misalign c1 \<ge> length data"
    | (part) "\<not> has (cflags c) EVBUFFER_IMMUTABLE" "misalign c1 < length data" "misalign c1 \<noteq> 0"
    | (full) "\<not> has (cflags c) EVBUFFER_IMMUTABLE" "misalign c1 < length data" "misalign c1 = 0" by linarith
  then show ?thesis
  proof cases
    case imm
    then have "prepend_new ucb w b data = (w', b', r)" using run by (simp add: evbuffer_prepend_to_def)
    from prepend_new_ok [OF obs ok content_first [OF ch cD(8) [OF imm]] len this] show ?thesis
      using fail becomes_same [OF ok] by blast
  next
    case fits
    define c2 where "c2 = c1\<lparr>cbuffer := mem_write (cbuffer c1) (misalign c1 - length data) data,
      off := off c1 + length data, misalign := misalign c1 - length data\<rparr>"
    have "chain_ok w c2" using c1 fits by (intro chain_ok_grow [OF c fits(1)]) (simp_all add: c2_def)
    moreover have "chain_data c2 = data @ chain_data c" using write_front [OF fits(2)] c1(6) by (simp add: c2_def)
    ultimately have B: "becomes w b w (EVBUFFER_ADDED (length data) (put_chain c2 b)) (data @ content b)"
      using c1(1) len by (intro put_first [OF ok ch]) (simp_all add: c2_def)
    have "evbuffer_finish ucb w (EVBUFFER_ADDED (length data) (put_chain c2 b)) 0 = (w', b', r)"
      using run fits cD(9) c1 memcpy_ok [of "misalign c1 - length data" data c1 w]
      unfolding evbuffer_prepend_to_def Let_def c1_def [symmetric] by (simp add: c2_def)
    then show ?thesis using becomes_finish [OF obs B] by blast
  next
    case part
    define d where "d = drop (length data - misalign c1) data"
    define e where "e = take (length data - misalign c1) data"
    have ld: "length d = misalign c1" "data = e @ d" using part(2) by (simp_all add: d_def e_def)
    define c2 where "c2 = c1\<lparr>cbuffer := mem_write (cbuffer c1) 0 d, off := off c1 + misalign c1, misalign := 0\<rparr>"
    have "chain_ok w c2" using c1 by (intro chain_ok_grow [OF c part(1)]) (simp_all add: c2_def add.commute)
    moreover have cd2: "chain_data c2 = d @ chain_data c" using write_front [of d c1] ld(1) c1(6) by (simp add: c2_def)
    ultimately have B: "becomes w b w (EVBUFFER_ADDED (misalign c1) (put_chain c2 b)) (d @ content b)"
      using put_first [OF ok ch, of c2 d] c1(1) len ld by (simp add: c2_def)
    have nz: "d @ content b \<noteq> []" using ld(1) part(3) by auto
    have "prepend_new ucb w (EVBUFFER_ADDED (misalign c1) (put_chain c2 b)) e = (w', b', r)"
      using run part cD(9) c1 ld memcpy_ok [of 0 d c1 w]
      unfolding evbuffer_prepend_to_def Let_def c1_def [symmetric] d_def [symmetric] e_def [symmetric] by (simp add: c2_def)
    note N = prepend_new_ok [OF obs becomesD(2) [OF B] _ _ this]
    have "total_len (EVBUFFER_ADDED (misalign c1) (put_chain c2 b)) + length e \<le> EV_SIZE_MAX"
      using okD(4) [OF becomesD(2) [OF B]] becomesD(3) [OF B] okD(4) [OF ok] len ld(2) by simp
    then consider "r = 0" "becomes w (EVBUFFER_ADDED (misalign c1) (put_chain c2 b)) w' b' (e @ d @ content b)"
      | "r = -1" "b' = EVBUFFER_ADDED (misalign c1) (put_chain c2 b)" "later w w'" "no_room w (length e)"
      using N nz becomesD(3) [OF B] by metis
    then show ?thesis
    proof cases
      case 1
      then show ?thesis using becomes_trans [OF B 1(2)] ld(2) by simp
    next
      case 2
      have "becomes w b w' b' (d @ content b)"
        using becomes_trans [OF B becomes_same [OF becomesD(2) [OF B] 2(3)]] becomesD(3) [OF B] 2(2) by simp
      then have "\<exists>k. becomes w b w' b' (drop k data @ content b)" unfolding d_def by (rule exI)
      moreover have "length e \<le> length data" by (simp add: e_def)
      ultimately show ?thesis using 2(1) no_room_mono [OF _ 2(4)] by blast
    qed
  next
    case full
    then have "off c \<noteq> 0" using cD(3) by (auto simp: c1_def split: if_splits)
    then have eq: "c1 = c" by (simp add: c1_def)
    have "put_chain c b = b" using put_chain_in [of "[]" c cs b c] okD(1) [OF ok] ch by simp
    then have "prepend_new ucb w b data = (w', b', r)"
      using run full cD(9) eq unfolding evbuffer_prepend_to_def Let_def c1_def [symmetric] by simp
    from prepend_new_ok [OF obs ok content_first [OF ch \<open>off c \<noteq> 0\<close>] len this] show ?thesis
      using fail becomes_same [OF ok] by blast
  qed
qed

lemma prepend_ok:
  assumes obs: "observes ucb" and ok: "evbuffer_ok w b" and run: "evbuffer_prepend ucb w b data = (w', b', r)"
  shows "r = 0 \<and> becomes w b w' b' (data @ content b) \<and> \<not> freeze_start b \<or>
    r = -1 \<and> (\<exists>k. becomes w b w' b' (drop k data @ content b)) \<and>
      (freeze_start b \<or> length data > EV_SIZE_MAX - total_len b \<or> no_room w (length data))"
proof (cases "freeze_start b \<or> length data > EV_SIZE_MAX - total_len b")
  case True
  then have "w' = w \<and> b' = b \<and> r = -1" using run by (auto simp: evbuffer_prepend_def split: if_splits)
  then show ?thesis using True becomes_same [OF ok later_refl] exI [of _ "length data"] by auto
next
  case False
  then have fz: "\<not> freeze_start b" and len: "total_len b + length data \<le> EV_SIZE_MAX" using okD(5) [OF ok] by auto
  show ?thesis
  proof (cases "chains b")
    case (Cons c cs)
    have "evbuffer_prepend_to ucb w b c data = (w', b', r)" using run False Cons by (simp add: evbuffer_prepend_def)
    from prepend_to_ok [OF obs ok Cons len this] show ?thesis using fz by blast
  next
    case Nil
    obtain w1 b1 x where ins: "evbuffer_chain_insert_new w b (length data) = (w1, b1, x)" by (metis prod_cases3)
    note I = insert_first [OF ok Nil ins]
    have ct: "content b = []" using Nil by (simp add: content_def)
    show ?thesis
    proof (cases x)
      case None
      then have "w' = w1 \<and> b' = b \<and> r = -1 \<and> later w w1 \<and> no_room w (length data)"
        using I run False Nil ins by (simp add: evbuffer_prepend_def)
      then show ?thesis using becomes_same [OF ok] exI [of _ "length data"] by auto
    next
      case (Some c)
      have B: "becomes w b w1 b1 []" and c1: "chains b1 = [c]" and l: "total_len b1 + length data \<le> EV_SIZE_MAX"
        using I Some len by simp_all
      have "evbuffer_prepend_to ucb w1 b1 c data = (w', b', r)" using run False Nil ins Some by (simp add: evbuffer_prepend_def)
      from prepend_to_ok [OF obs becomesD(2) [OF B] c1 l this] show ?thesis
        using becomes_trans [OF B] becomesD(1,3) [OF B] ct fz no_room_later by auto
    qed
  qed
qed

end
