(* ===== verification/Evbuffer_Move.thy ===== *)
theory Evbuffer_Move
  imports Evbuffer_Fun
begin

text \<open>
  Pulling up the front of a buffer into one chain, and moving data between buffers.
\<close>

subsection \<open>Pulling up\<close>

lemma mem_write_append:
  "mem_write (mem_write m p xs) (p + length xs) ys = mem_write m p (xs @ ys)"
  by (rule ext) (auto simp: mem_write_def nth_append)

lemma mem_write_Nil [simp]: "mem_write m p [] = m"
  by (rule ext) (auto simp: mem_write_def)

lemma pullup_loop_ok:
  assumes "\<forall>c \<in> set cs. chain_ok u c" "p + n \<le> buffer_len tmp" "\<not> has (cflags tmp) EVBUFFER_IMMUTABLE"
    "pullup_loop s l w tmp p n x1 x2 cs = (w', tmp', p', n', y1, y2, rest)"
  shows "\<exists>dn. cs = dn @ rest \<and> n = sum_list (map off dn) + n' \<and> p' = p + sum_list (map off dn) \<and>
    tmp' = tmp\<lparr>cbuffer := mem_write (cbuffer tmp) p (concat (map chain_data dn))\<rparr> \<and> later w w' \<and>
    (y1 \<longleftrightarrow> x1 \<or> (\<exists>c \<in> set dn. l = Some (cid c))) \<and> (y2 \<longleftrightarrow> x2 \<or> (\<exists>c \<in> set dn. s = Next (cid c))) \<and>
    (rest = [] \<or> n' < off (hd rest))"
  using assms
proof (induction cs arbitrary: w tmp p n x1 x2)
  case Nil
  then show ?case by (intro exI [of _ "[]"]) auto
next
  case (Cons c cs)
  show ?case
  proof (cases "n \<ge> off c")
    case False
    then show ?thesis using Cons.prems by (intro exI [of _ "[]"]) auto
  next
    case True
    let ?tmp = "tmp\<lparr>cbuffer := mem_write (cbuffer tmp) p (chain_data c)\<rparr>"
    have m: "memcpy_to w tmp p (chain_data c) = (w, ?tmp)" using Cons.prems(2,3) True by (intro memcpy_ok) simp_all
    have c: "chain_ok u c" using Cons.prems(1) by simp
    have r: "pullup_loop s l (evbuffer_chain_free w c) ?tmp (p + off c) (n - off c)
        (x1 \<or> l = Some (cid c)) (x2 \<or> s = Next (cid c)) cs = (w', tmp', p', n', y1, y2, rest)"
      using Cons.prems(4) True m by simp
    obtain dn where dn: "cs = dn @ rest" "n - off c = sum_list (map off dn) + n'" "p' = p + off c + sum_list (map off dn)"
      "tmp' = ?tmp\<lparr>cbuffer := mem_write (cbuffer ?tmp) (p + off c) (concat (map chain_data dn))\<rparr>"
      "later (evbuffer_chain_free w c) w'" "y1 \<longleftrightarrow> (x1 \<or> l = Some (cid c)) \<or> (\<exists>c \<in> set dn. l = Some (cid c))"
      "y2 \<longleftrightarrow> (x2 \<or> s = Next (cid c)) \<or> (\<exists>c \<in> set dn. s = Next (cid c))" "rest = [] \<or> n' < off (hd rest)"
      using Cons.IH [OF _ _ _ r] Cons.prems(1,2,3) True by auto
    have "mem_write (mem_write (cbuffer tmp) p (chain_data c)) (p + off c) (concat (map chain_data dn)) =
        mem_write (cbuffer tmp) p (chain_data c @ concat (map chain_data dn))"
      using mem_write_append [of "cbuffer tmp" p "chain_data c"] by simp
    then show ?thesis
      using dn True later_trans [OF chain_free_later [OF c, of w]]
      by (intro exI [of _ "c # dn"]) auto
  qed
qed

text \<open>
  The chain \<open>tmp\<close> holds the data of \<open>fr\<close>, which is itself or nothing, in front of position \<open>p\<close>; the
  next \<open>n\<close> bytes come from the chains \<open>pre0 @ post\<close> behind it.
\<close>

lemma pullup_into_chains:
  assumes cs: "\<forall>c \<in> set cs. chain_ok u c" and tmp: "\<not> has (cflags tmp) EVBUFFER_IMMUTABLE"
    and p: "p = misalign tmp + k" "off tmp = k + n" "misalign tmp + off tmp \<le> buffer_len tmp"
    and n: "n \<le> sum_list (map off cs)"
    and run: "pullup_into w b l tmp p n cs = (w', b', a)"
  shows "\<exists>dn rest n' t rest'. cs = dn @ rest \<and> n = sum_list (map off dn) + n' \<and> later w w' \<and>
    (rest = [] \<and> n' = 0 \<and> rest' = [] \<or>
     (\<exists>c next. rest = c # next \<and> n' < off c \<and> rest' = c\<lparr>misalign := misalign c + n', off := off c - n'\<rparr> # next)) \<and>
    t = tmp\<lparr>cbuffer := mem_write (cbuffer tmp) p (take n (concat (map chain_data cs)))\<rparr> \<and>
    a = Some (cid tmp, misalign tmp) \<and>
    b' = b\<lparr>chains := t # rest', blast := (if rest = [] then Some (cid tmp) else blast b),
      last_with_datap :=
        (if \<exists>c \<in> set dn. l = Some (cid c) then First
         else if \<exists>c \<in> set dn. last_with_datap b = Next (cid c)
         then (if rest' = [] then First else Next (cid tmp)) else last_with_datap b)\<rparr>"
proof -
  obtain w1 t1 p1 n1 y1 y2 rest where L: "pullup_loop (last_with_datap b) l w tmp p n False False cs = (w1, t1, p1, n1, y1, y2, rest)"
    by (metis prod_cases7)
  have fit: "p + n \<le> buffer_len tmp" using p by simp
  obtain dn where dn: "cs = dn @ rest" "n = sum_list (map off dn) + n1" "p1 = p + sum_list (map off dn)"
    "t1 = tmp\<lparr>cbuffer := mem_write (cbuffer tmp) p (concat (map chain_data dn))\<rparr>" "later w w1"
    "y1 \<longleftrightarrow> (\<exists>c \<in> set dn. l = Some (cid c))" "y2 \<longleftrightarrow> (\<exists>c \<in> set dn. last_with_datap b = Next (cid c))"
    "rest = [] \<or> n1 < off (hd rest)"
    using pullup_loop_ok [OF cs fit tmp L] by auto
  show ?thesis
  proof (cases rest)
    case Nil
    then have "n1 = 0" "take n (concat (map chain_data cs)) = concat (map chain_data dn)" using n dn(1,2) by simp_all
    moreover have "w' = w1 \<and> a = Some (cid tmp, misalign tmp) \<and>
      b' = b\<lparr>chains := [t1], blast := Some (cid tmp), last_with_datap :=
        (if y1 then First else if y2 then First else last_with_datap b)\<rparr>"
      using run [unfolded pullup_into_def L [unfolded Nil] prod.case list.case] dn(4) by auto
    ultimately show ?thesis
      using dn Nil by (intro exI [of _ dn] exI [of _ "[]"] exI [of _ 0] exI [of _ t1] exI [of _ "[]"]) simp
  next
    case (Cons c nx)
    define t where "t = tmp\<lparr>cbuffer := mem_write (cbuffer tmp) p (take n (concat (map chain_data cs)))\<rparr>"
    define c' where "c' = c\<lparr>misalign := misalign c + n1, off := off c - n1\<rparr>"
    have lt: "n1 < off c" using dn(8) Cons by simp
    have "take n (concat (map chain_data cs)) = concat (map chain_data dn) @ chain_bytes c 0 n1"
      using dn(1,2) Cons lt by (simp add: chain_bytes_take)
    then have t: "t = t1\<lparr>cbuffer := mem_write (cbuffer t1) p1 (chain_bytes c 0 n1)\<rparr>"
      using mem_write_append [of "cbuffer tmp" p "concat (map chain_data dn)" "chain_bytes c 0 n1"]
      by (simp add: t_def dn(3,4))
    have m: "memcpy_to w1 t1 p1 (chain_bytes c 0 n1) = (w1, t)"
      using fit dn(2,3,4) tmp unfolding t by (intro memcpy_ok) simp_all
    have "w' = w1 \<and> a = Some (cid tmp, misalign tmp) \<and>
      b' = b\<lparr>chains := t # c' # nx, blast := blast b, last_with_datap :=
        (if y1 then First else if y2 then Next (cid tmp) else last_with_datap b)\<rparr>"
      using run [unfolded pullup_into_def L [unfolded Cons] prod.case list.case m c'_def [symmetric]] lt
      by (auto simp: c'_def t_def)
    then show ?thesis
      using dn lt Cons
      by (intro exI [of _ dn] exI [of _ rest] exI [of _ n1] exI [of _ t] exI [of _ "c' # nx"])
        (simp add: t_def c'_def)
  qed
qed

lemma pullup_data:
  assumes "p = misalign tmp + k" "off tmp = k + n" "length d = n" "map (cbuffer tmp) [misalign tmp ..< p] = front" "length front = k"
  shows "chain_data (tmp\<lparr>cbuffer := mem_write (cbuffer tmp) p d\<rparr>) = front @ d"
proof (rule nth_equalityI)
  fix i assume i: "i < length (chain_data (tmp\<lparr>cbuffer := mem_write (cbuffer tmp) p d\<rparr>))"
  have "cbuffer tmp (misalign tmp + j) = front ! j" if "j < k" for j
    using that assms(1,4,5) nth_map_upt [of j p "misalign tmp" "cbuffer tmp"] by auto
  then show "chain_data (tmp\<lparr>cbuffer := mem_write (cbuffer tmp) p d\<rparr>) ! i = (front @ d) ! i"
    using i assms by (auto simp: chain_data_def chain_bytes_def mem_write_def nth_append)
qed (use assms in simp)

text \<open>Where the slot points after the chains in \<open>dn\<close> went into \<open>t\<close>.\<close>

lemma pullup_cut:
  assumes dist: "distinct (map cid (fr @ pre0 @ post))" and ne: "fr @ pre0 \<noteq> []"
    and fr: "fr = [] \<and> cid tmp \<notin> cid ` set (pre0 @ post) \<or> (\<exists>c. fr = [c] \<and> cid c = cid tmp)"
    and lwd: "last_with_datap b = slot_after (fr @ pre0)" and tl: "\<forall>c \<in> set (tl post). off c = 0"
    and post: "post \<noteq> []" "off (hd post) \<noteq> 0" and eq: "pre0 @ post = dn @ rest"
    and rest: "rest = [] \<and> n' = 0 \<and> rest' = [] \<or>
     (\<exists>c nx. rest = c # nx \<and> n' < off c \<and> rest' = c\<lparr>misalign := misalign c + n', off := off c - n'\<rparr> # nx)"
    and t: "cid t = cid tmp"
    and b': "b' = b\<lparr>chains := t # rest', blast := lst,
      last_with_datap :=
        (if \<exists>c \<in> set dn. Some (cid (hd post)) = Some (cid c) then First
         else if \<exists>c \<in> set dn. last_with_datap b = Next (cid c)
         then (if rest' = [] then First else Next (cid tmp)) else last_with_datap b)\<rparr>"
  shows "\<exists>p q. cut b' p q"
proof (cases rest)
  case Nil
  then have "hd post \<in> set dn" "rest' = []" using eq post(1) rest by (auto simp flip: eq)
  then have "cut b' [] [t]" by (auto simp: cut_def b')
  then show ?thesis by blast
next
  case (Cons c nx)
  define c' where "c' = c\<lparr>misalign := misalign c + n', off := off c - n'\<rparr>"
  have r: "n' < off c" "rest' = c' # nx" "cid c' = cid c" "off c' \<noteq> 0" using rest Cons by (auto simp: c'_def)
  obtain us where us: "pre0 = dn @ us" "rest = us @ post"
  proof -
    from eq obtain vs where "pre0 = dn @ vs \<and> vs @ post = rest \<or> pre0 @ vs = dn \<and> post = vs @ rest"
      by (metis append_eq_append_conv2)
    moreover have "vs = []" if "pre0 @ vs = dn" "post = vs @ rest"
    proof (rule ccontr)
      assume "vs \<noteq> []"
      then have "c \<in> set (tl post)" using that(2) Cons by (cases vs) auto
      then show False using tl r(1) by simp
    qed
    ultimately show ?thesis using that by fastforce
  qed
  have no1: "\<not> (\<exists>c \<in> set dn. Some (cid (hd post)) = Some (cid c))"
    using dist post(1) by (cases post) (auto simp: us(1) image_iff)
  show ?thesis
  proof (cases "us = []")
    case True
    have "last_with_datap b' = Next (cid t)"
    proof (cases "dn = []")
      case True
      then obtain c0 where "fr = [c0]" "cid c0 = cid tmp" using ne fr us(1) \<open>us = []\<close> by auto
      then show ?thesis using lwd True us(1) \<open>us = []\<close> t by (simp add: b' slot_after_def)
    next
      case False
      then have "last_with_datap b = Next (cid (last dn))" using lwd us(1) \<open>us = []\<close> by (simp add: slot_after_def)
      then have "\<exists>c \<in> set dn. last_with_datap b = Next (cid c)" using False last_in_set by blast
      then show ?thesis using no1 r(2) t by (simp add: b')
    qed
    moreover have "post = c # nx" using us(2) True Cons by simp
    ultimately have "cut b' [t] rest'" using tl r by (simp add: cut_def b' slot_after_def)
    then show ?thesis by blast
  next
    case False
    then obtain us1 where us1: "us = c # us1" "nx = us1 @ post" using us(2) Cons by (cases us) auto
    have l: "last_with_datap b = Next (cid (last us))" using lwd us(1) False by (simp add: slot_after_def)
    have "cid (last us) \<in> cid ` set us" using False by simp
    then have "cid (last us) \<notin> cid ` set dn" using dist by (auto simp: us(1))
    then have no2: "\<not> (\<exists>c \<in> set dn. last_with_datap b = Next (cid c))" using l by (auto simp: image_iff)
    have "slot_after (t # c' # us1) = Next (cid (last us))" using us1 r(3) by (simp add: slot_after_def)
    then have "cut b' (t # c' # us1) post"
      using no1 no2 l r(2) us1(2) tl post by (simp add: cut_def b')
    then show ?thesis by blast
  qed
qed

lemma pullup_into_ok:
  assumes ok: "evbuffer_ok w b" and cut: "cut b (fr @ pre0) post" and ne: "fr @ pre0 \<noteq> []"
    and fr: "fr = [] \<and> cid tmp \<notin> cid ` set (pre0 @ post) \<or> (\<exists>c. fr = [c] \<and> cid c = cid tmp)"
    and tmp: "chain_ok w tmp" "\<not> has (cflags tmp) EVBUFFER_IMMUTABLE"
    and p: "p = misalign tmp + sum_list (map off fr)" "off tmp = sum_list (map off fr) + n"
      "map (cbuffer tmp) [misalign tmp ..< p] = concat (map chain_data fr)"
    and n: "n \<le> sum_list (map off (pre0 @ post))"
    and run: "pullup_into w b (Some (cid (hd post))) tmp p n (pre0 @ post) = (w', b', a)"
  shows "becomes w b w' b' (content b)" "a = Some (cid tmp, misalign tmp)"
    "\<exists>t rest. chains b' = t # rest \<and> cid t = cid tmp \<and> misalign t = misalign tmp \<and> off t = off tmp"
proof -
  have ch: "chains b = fr @ pre0 @ post" and lwd: "last_with_datap b = slot_after (fr @ pre0)"
    and tl: "\<forall>c \<in> set (tl post). off c = 0" and post: "post \<noteq> []" "off (hd post) \<noteq> 0"
    using cut ne by (simp_all add: cut_def)
  have dist: "distinct (map cid (fr @ pre0 @ post))" using okD(1) [OF ok] ch by simp
  have all: "\<forall>c \<in> set (pre0 @ post). chain_ok w c" using okD(2) [OF ok] ch by auto
  obtain dn rest n' t rest' where R: "pre0 @ post = dn @ rest" "n = sum_list (map off dn) + n'" "later w w'"
    "rest = [] \<and> n' = 0 \<and> rest' = [] \<or>
     (\<exists>c nx. rest = c # nx \<and> n' < off c \<and> rest' = c\<lparr>misalign := misalign c + n', off := off c - n'\<rparr> # nx)"
    "t = tmp\<lparr>cbuffer := mem_write (cbuffer tmp) p (take n (concat (map chain_data (pre0 @ post))))\<rparr>"
    "a = Some (cid tmp, misalign tmp)"
    "b' = b\<lparr>chains := t # rest', blast := (if rest = [] then Some (cid tmp) else blast b),
      last_with_datap :=
        (if \<exists>c \<in> set dn. Some (cid (hd post)) = Some (cid c) then First
         else if \<exists>c \<in> set dn. last_with_datap b = Next (cid c)
         then (if rest' = [] then First else Next (cid tmp)) else last_with_datap b)\<rparr>"
    using pullup_into_chains [OF all tmp(2) p(1,2) chain_okD(2) [OF tmp(1)] n run] by blast
  show "a = Some (cid tmp, misalign tmp)" by (rule R(6))
  have t: "cid t = cid tmp" "misalign t = misalign tmp" "off t = off tmp" by (simp_all add: R(5))
  then show "\<exists>t rest. chains b' = t # rest \<and> cid t = cid tmp \<and> misalign t = misalign tmp \<and> off t = off tmp"
    by (simp add: R(7))
  have td: "chain_data t = concat (map chain_data fr) @ take n (concat (map chain_data (pre0 @ post)))"
    unfolding R(5) using n p by (intro pullup_data [where k = "sum_list (map off fr)"]) simp_all
  have rd: "concat (map chain_data rest') = drop n (concat (map chain_data (pre0 @ post)))"
    using R(1,2,4) chain_data_skip [of n' "hd rest"] by auto
  have ct: "content b' = content b"
  proof -
    have "content b = concat (map chain_data fr) @ concat (map chain_data (pre0 @ post))" by (simp add: content_def ch)
    moreover have "content b' = chain_data t @ concat (map chain_data rest')" by (simp add: content_def R(7))
    ultimately show ?thesis unfolding td rd by (metis append.assoc append_take_drop_id)
  qed
  have rids: "map cid rest' = map cid rest" using R(4) by auto
  have dist': "distinct (map cid (t # rest'))"
    using dist fr R(1) rids t(1) by (auto simp: distinct_map)
  have t_ok: "chain_ok w t" using tmp by (intro chain_ok_grow [OF tmp]) (simp_all add: R(5) chain_okD(2) [OF tmp(1)])
  have r_ok: "chain_ok w c" if "c \<in> set rest'" for c
    using that all R(1,4) chain_ok_skip by (auto; fastforce)
  have cut': "\<exists>p q. cut b' p q"
    by (rule pullup_cut [OF dist ne fr lwd tl post R(1,4) t(1) R(7)])
  then obtain p1 q1 where pq: "cut b' p1 q1" by blast
  have "evbuffer_ok w b'"
  proof (intro okI [OF _ _ _ pq])
    have "last_cid (fr @ pre0 @ post) = last_cid rest" if "rest \<noteq> []" using that by (simp add: R(1) last_cid_append)
    moreover have "last_cid (t # rest') = last_cid rest" if "rest \<noteq> []"
      using that last_cid_cong [OF rids] R(4) last_cid_append [of rest' "[t]"] by auto
    ultimately show "blast b' = last_cid (chains b')"
      using okD(3) [OF ok] R(4) t(1) by (auto simp: R(7) ch)
  qed (use dist' t_ok r_ok okD(4,5) [OF ok] ct in \<open>auto simp: R(7)\<close>)
  then show "becomes w b w' b' (content b)"
    using R(3) ct by (intro becomesI) (simp_all add: ok_later, simp_all add: R(7))
qed
lemma pullup_pinned_ok: "\<forall>c \<in> set cs. chain_ok u c \<Longrightarrow> \<not> pullup_pinned m cs"
  by (induction cs arbitrary: m) (auto dest: chain_okD(6))

lemma bytes_at_first:
  assumes "chains b = t # rest" "m \<le> off t"
  shows "bytes_at b (cid t, misalign t) m = take m (content b)"
  using assms chain_bytes_take [of m t] by (simp add: bytes_at_def content_def chain_bytes_def)

lemma pullup_ok:
  assumes ok: "evbuffer_ok w b" and run: "evbuffer_pullup w b size0 = (w', b', a)"
    and m: "m = (if size0 < 0 then length (content b) else nat size0)"
  shows "becomes w b w' b' (content b)"
    "case a of None \<Rightarrow> m = 0 \<or> m > length (content b) \<or> no_room w m
     | Some x \<Rightarrow> 0 < m \<and> m \<le> length (content b) \<and> bytes_at b' x m = take m (content b)"
proof -
  let ?goal = "becomes w b w' b' (content b) \<and>
    (case a of None \<Rightarrow> m = 0 \<or> m > length (content b) \<or> no_room w m
     | Some x \<Rightarrow> 0 < m \<and> m \<le> length (content b) \<and> bytes_at b' x m = take m (content b))"
  note tot = okD(4) [OF ok]
  have m': "m = (if size0 < 0 then total_len b else nat size0)" using m tot by simp
  have ?goal
  proof (cases "m = 0 \<or> m > total_len b")
    case True
    then have "w' = w \<and> b' = b \<and> a = None" using run by (simp add: evbuffer_pullup_def Let_def m')
    then show ?thesis using becomes_same [OF ok later_refl] True tot by auto
  next
    case False
    then have mb: "0 < m" "m \<le> length (content b)" using tot by auto
    obtain c nx where ch: "chains b = c # nx" using mb by (cases "chains b") (auto simp: content_def)
    note run1 = run [unfolded evbuffer_pullup_def Let_def m' [symmetric] if_not_P [OF False] ch list.case]
    have c: "chain_ok w c" and nx: "\<forall>d \<in> set nx. chain_ok w d" using okD(2) [OF ok] ch by auto
    show ?thesis
    proof (cases "m \<le> off c")
      case True
      then have "w' = w \<and> b' = b \<and> a = Some (cid c, misalign c)" using run1 by simp
      then show ?thesis using becomes_same [OF ok later_refl] mb bytes_at_first [OF ch True] by simp
    next
      case lt: False
      obtain pre post where cut: "cut b pre post" using okD(6) [OF ok] by blast
      have "pre \<noteq> []"
      proof
        assume "pre = []"
        then have "content b = chain_data c" using content_cut [OF cut] cutD(1) [OF cut] ch by (cases post) auto
        then show False using mb(2) lt by simp
      qed
      then obtain pre0 where pre: "pre = c # pre0" "nx = pre0 @ post" and post: "post \<noteq> []"
        using cutD(1,4) [OF cut] ch by (cases pre) auto
      have l: "map_option cid (deref b (last_with_datap b)) = Some (cid (hd post))"
        using deref_cut [OF ok cut] post by (cases post) auto
      have nf: "last_with_datap b \<noteq> First" using cutD(2) [OF cut] pre(1) by (simp add: slot_after_def)
      have sum: "length (content b) = off c + sum_list (map off (pre0 @ post))" by (simp add: content_def ch pre(2))
      have run2: "(if m \<le> buffer_len c - misalign c
          then pullup_into w b (Some (cid (hd post))) (c\<lparr>off := m\<rparr>) (misalign c + off c) (m - off c) nx
          else case evbuffer_chain_new w m of
                 (w1, None) \<Rightarrow> (w1, b, None)
               | (w1, Some tmp) \<Rightarrow> pullup_into w1 b (Some (cid (hd post))) (tmp\<lparr>off := m\<rparr>) 0 m (c # nx)) = (w', b', a)"
        using run1 [unfolded l if_not_P [OF nf]] lt pullup_pinned_ok [OF nx] chain_okD(6) [OF c] nf by (simp split del: if_split)
      show ?thesis
      proof (cases "m \<le> buffer_len c - misalign c")
        case True
        have mut: "\<not> has (cflags c) EVBUFFER_IMMUTABLE" using chain_okD(7) [OF c] True lt by auto
        have t: "chain_ok w (c\<lparr>off := m\<rparr>)" using True lt chain_okD(2) [OF c] by (intro chain_ok_grow [OF c mut]) auto
        have "becomes w b w' b' (content b) \<and> a = Some (cid c, misalign c) \<and>
          (\<exists>t rest. chains b' = t # rest \<and> cid t = cid c \<and> misalign t = misalign c \<and> off t = m)"
          using pullup_into_ok [OF ok, of "[c]" pre0 post "c\<lparr>off := m\<rparr>" "misalign c + off c" "m - off c" w' b' a]
            cut pre t mut run2 True lt mb sum by (simp add: chain_data_def chain_bytes_def)
        then show ?thesis using mb bytes_at_first [of b' _ _ m] becomesD(3) by fastforce
      next
        case False
        show ?thesis
        proof (cases "evbuffer_chain_new w m")
          case (Pair w1 x)
          show ?thesis
          proof (cases x)
            case None
            then show ?thesis
              using run2 False Pair chain_new_None [of w m w1] becomes_same [OF ok] by (auto simp: no_room_def)
          next
            case (Some tmp)
            note nw = chain_new_Some [OF Pair [unfolded Some]]
            have fr: "fresh_chain w m tmp" by (rule nw(3))
            have t: "chain_ok w1 (tmp\<lparr>off := m\<rparr>)"
              using fr nw(2) by (intro fresh_chain_ok [OF fr]) (auto simp: fresh_chain_def)
            have mut: "\<not> has (cflags (tmp\<lparr>off := m\<rparr>)) EVBUFFER_IMMUTABLE" using fr by (simp add: fresh_chain_def)
            have r: "pullup_into w1 b (Some (cid (hd post))) (tmp\<lparr>off := m\<rparr>) 0 m ((c # pre0) @ post) = (w', b', a)"
              using run2 False Pair Some pre(2) by simp
            have "becomes w1 b w' b' (content b) \<and> a = Some (cid tmp, misalign tmp) \<and>
              (\<exists>t rest. chains b' = t # rest \<and> cid t = cid tmp \<and> misalign t = misalign tmp \<and> off t = m)"
              using pullup_into_ok [OF ok_later [OF ok nw(1)], of "[]" "c # pre0" post "tmp\<lparr>off := m\<rparr>" 0 m w' b' a]
                cut pre t mut r mb sum fresh_notin [OF ok fr] ch fr by (simp add: fresh_chain_def)
            then show ?thesis
              using mb bytes_at_first [of b' _ _ m] becomesD(3) later_becomes [OF nw(1)] by fastforce
          qed
        qed
      qed
    qed
  qed
  then show "becomes w b w' b' (content b)"
    "case a of None \<Rightarrow> m = 0 \<or> m > length (content b) \<or> no_room w m
     | Some x \<Rightarrow> 0 < m \<and> m \<le> length (content b) \<and> bytes_at b' x m = take m (content b)" by blast+
qed

subsection \<open>Moving all the data of a buffer\<close>

definition apart :: "evbuffer \<Rightarrow> evbuffer \<Rightarrow> bool" where
  "apart a b \<longleftrightarrow> cid ` set (chains a) \<inter> cid ` set (chains b) = {}"

lemma cut_data:
  assumes "cut b pre post" "content b \<noteq> []"
  shows "post \<noteq> []" "off (hd post) \<noteq> 0" "used post = [hd post]"
proof -
  have h: "post \<noteq> [] \<and> off (hd post) \<noteq> 0"
  proof (cases "pre = []")
    case True
    then have "(case post of [] \<Rightarrow> [] | c # _ \<Rightarrow> chain_data c) \<noteq> []" using assms(2) content_cut [OF assms(1)] by simp
    then show ?thesis by (cases post) (auto simp: chain_data_Nil_iff)
  qed (use cutD(4,5) [OF assms(1)] in blast)
  then show "post \<noteq> []" "off (hd post) \<noteq> 0" "used post = [hd post]" by (cases post; simp add: used_def)+
qed

lemma joined_ok:
  assumes a: "evbuffer_ok w a" and b: "evbuffer_ok w b"
    and ch: "chains c = xs @ ys" "distinct (map cid (xs @ ys))" "set xs \<union> set ys \<subseteq> set (chains a) \<union> set (chains b)"
    and lst: "blast c = last_cid (xs @ ys)" and cut: "cut c pre post"
    and len: "total_len c = length (content c)" "total_len c \<le> EV_SIZE_MAX"
  shows "evbuffer_ok w c"
proof (rule okI [OF _ _ _ cut])
  fix x assume "x \<in> set (chains c)"
  then have "x \<in> set (chains a) \<union> set (chains b)" using ch by auto
  then show "chain_ok w x" using okD(2) [OF a, of x] okD(2) [OF b, of x] by blast
qed (use ch lst len in simp_all)

lemma APPEND_CHAIN_ok:
  assumes ok: "evbuffer_ok w dst" "evbuffer_ok w src" and ap: "apart dst src"
    and ne: "content dst \<noteq> []" "content src \<noteq> []" and len: "total_len dst + total_len src \<le> EV_SIZE_MAX"
    and run: "APPEND_CHAIN w dst src = (w', dst')"
  shows "becomes w dst w' dst' (content dst @ content src)"
proof -
  obtain pre post where cut: "cut dst pre post" using okD(6) [OF ok(1)] by blast
  obtain pre' post' where cut': "cut src pre' post'" using okD(6) [OF ok(2)] by blast
  note D = cut_data [OF cut ne(1)] and S = cut_data [OF cut' ne(2)]
  have ch: "chains dst = pre @ post" "chains src = pre' @ post'" using cutD(1) cut cut' by blast+
  obtain w1 where f: "evbuffer_free_trailing_empty_chains w dst =
      (w1, dst\<lparr>chains := pre @ used post\<rparr>, slot_after (pre @ used post))" and l: "later w w1"
    by (rule free_trailing [OF ok(1) cut])
  have dst': "w' = w1" "dst' = dst\<lparr>chains := (pre @ used post) @ pre' @ post',
      last_with_datap := slot_after ((pre @ used post) @ pre'), blast := blast src,
      total_len := total_len dst + total_len src\<rparr>"
    using run f cutD(2) [OF cut'] D(3) ch(2) by (auto simp: APPEND_CHAIN_def slot_after_def)
  have ct: "content dst' = content dst @ content src"
    using concat_used [of post] cut by (simp add: content_def dst'(2) ch cut_def)
  have dist: "distinct (map cid ((pre @ used post) @ pre' @ post'))"
  proof -
    have "cid ` set (pre @ used post) \<subseteq> cid ` set (chains dst)" using used_subset [of post] ch(1) by auto
    then have "cid ` set (pre @ used post) \<inter> cid ` set (pre' @ post') = {}" using ap ch(2) unfolding apart_def by auto
    moreover have "distinct (map cid (pre @ used post))" using okD(1) [OF ok(1)] unfolding ch(1) by (rule distinct_used)
    moreover have "distinct (map cid (pre' @ post'))" using okD(1) [OF ok(2)] ch(2) by simp
    ultimately show ?thesis by (simp only: map_append [of cid "pre @ used post"] distinct_append set_map)
  qed
  have cut2: "cut dst' ((pre @ used post) @ pre') post'" using cut' S by (simp add: cut_def dst'(2))
  have "evbuffer_ok w dst'"
    using dist used_subset [of post] okD(3,4) [OF ok(2)] okD(4) [OF ok(1)] len ct ch S(1)
    by (intro joined_ok [OF ok _ dist _ _ cut2]) (auto simp: dst'(2) last_cid_def)
  then show ?thesis using l ct dst'(1) by (intro becomesI) (simp_all add: ok_later, simp_all add: dst'(2))
qed

lemma PREPEND_CHAIN_ok:
  assumes ok: "evbuffer_ok w dst" "evbuffer_ok w src" and ap: "apart dst src"
    and ne: "content dst \<noteq> []" "content src \<noteq> []" and len: "total_len dst + total_len src \<le> EV_SIZE_MAX"
  shows "becomes w dst w (PREPEND_CHAIN dst src) (content src @ content dst)"
proof -
  obtain pre post where cut: "cut dst pre post" using okD(6) [OF ok(1)] by blast
  note D = cut_data [OF cut ne(1)]
  have ch: "chains dst = pre @ post" using cutD(1) [OF cut] .
  have sn: "chains src \<noteq> []" using ne(2) by (auto simp: content_def)
  have l: "last_with_datap (PREPEND_CHAIN dst src) = slot_after (chains src @ pre)"
  proof (cases "pre = []")
    case True
    then show ?thesis
      using cutD(2) [OF cut] okD(3) [OF ok(2)] sn
      by (cases "chains src") (auto simp: PREPEND_CHAIN_def deref_def slot_after_def last_cid_def)
  next
    case False
    then have "slot_after (chains src @ pre) = last_with_datap dst" "last_with_datap dst \<noteq> First"
      using cutD(2) [OF cut] by (simp_all add: slot_after_def)
    moreover have "split_at (chains src @ chains dst) (slot_after (chains src @ pre)) = (chains src @ pre, post)"
      using split_at_slot [of "chains src @ pre" post] okD(1) [OF ok(1)] okD(1) [OF ok(2)] ap ch by (auto simp: apart_def)
    ultimately show ?thesis using D(1) by (cases post) (simp_all add: PREPEND_CHAIN_def deref_def)
  qed
  have c: "chains (PREPEND_CHAIN dst src) = chains src @ chains dst" "blast (PREPEND_CHAIN dst src) = blast dst"
    "total_len (PREPEND_CHAIN dst src) = total_len dst + total_len src" by (simp_all add: PREPEND_CHAIN_def)
  have ct: "content (PREPEND_CHAIN dst src) = content src @ content dst" by (simp add: content_def c)
  have dist: "distinct (map cid (chains src @ chains dst))"
    using okD(1) [OF ok(1)] okD(1) [OF ok(2)] ap by (auto simp: apart_def)
  have cut2: "cut (PREPEND_CHAIN dst src) (chains src @ pre) post" using cut l c ch D by (simp add: cut_def)
  have "evbuffer_ok w (PREPEND_CHAIN dst src)"
    using okD(3,4) [OF ok(1)] okD(4) [OF ok(2)] len ct c D(1) ch
    by (intro joined_ok [OF ok c(1) dist _ _ cut2]) (auto simp: last_cid_def)
  then show ?thesis using ct by (intro becomesI) (simp_all, simp_all add: PREPEND_CHAIN_def)
qed

lemma ok_fields:
  assumes "evbuffer_ok w b" "chains b' = chains b" "blast b' = blast b" "last_with_datap b' = last_with_datap b"
    "total_len b' = total_len b"
  shows "evbuffer_ok w b'"
  using assms unfolding evbuffer_ok_def cut_def content_def by simp

lemma move_ok:
  assumes obs: "observes ucb" and ok: "evbuffer_ok w outb" "evbuffer_ok w inb" and ne: "content inb \<noteq> []"
    and join: "\<And>w1 out1. content outb \<noteq> [] \<Longrightarrow> join w outb inb = (w1, out1) \<Longrightarrow> becomes w outb w1 out1 bs"
    and emp: "content outb = [] \<Longrightarrow> bs = content inb"
    and run: "move_buffer ucb join w outb inb = (w', out', in', r)"
  shows "r = 0" "becomes w outb w' out' bs" "becomes w inb w' in' []" "apart out' in'"
proof -
  have P: "PRESERVE_PINNED w inb = (w, inb, [], 0)" using not_pinned [OF ok(2)] by (simp add: PRESERVE_PINNED_def)
  obtain w2 out2 where J: "(if total_len outb = 0 then (evbuffer_free_all_chains w (chains outb), COPY_CHAIN outb inb)
      else join w outb inb) = (w2, out2)" by (metis surj_pair)
  have B: "becomes w outb w2 out2 bs"
  proof (cases "total_len outb = 0")
    case True
    have l: "later w w2" using J True okD(2) [OF ok(1)] free_all_later [of "chains outb" w w] by auto
    have "evbuffer_ok w out2" using J True by (intro ok_fields [OF ok(2)]) (auto simp: COPY_CHAIN_def)
    then show ?thesis using l J True emp okD(4) [OF ok(1)] ok_later
      by (intro becomesI) (auto simp: COPY_CHAIN_def content_def)
  next
    case False
    then show ?thesis using J join [of w2 out2] okD(4) [OF ok(1)] by auto
  qed
  define in3 where "in3 = (ZERO_CHAIN inb)\<lparr>n_del_for_cb := n_del_for_cb inb + total_len inb\<rparr>"
  define out3 where "out3 = out2\<lparr>n_add_for_cb := n_add_for_cb out2 + total_len inb\<rparr>"
  obtain w4 in4 where I4: "evbuffer_invoke_callbacks ucb w2 in3 = (w4, in4)" by fastforce
  obtain w5 out5 where I5: "evbuffer_invoke_callbacks ucb w4 out3 = (w5, out5)" by fastforce
  have res: "w' = w5 \<and> out' = out5 \<and> in' = in4 \<and> r = 0"
    using run unfolding move_buffer_def Let_def P prod.case RESTORE_PINNED_def
    by (simp add: J in3_def [symmetric] out3_def [symmetric] I4 I5)
  note o4 = invoke_observes [OF obs I4] and o5 = invoke_observes [OF obs I5]
  have "becomes w inb w2 in3 []"
    using ok_later [OF zero_ok [OF ok(2)] becomesD(1) [OF B]] becomesD(1) [OF B]
    by (intro becomesI) (simp_all add: in3_def, simp_all add: ZERO_CHAIN_def content_def)
  then show "becomes w inb w' in' []" using res becomes_same_data [OF _ later_trans [OF o4(1) o5(1)] o4(2)] by simp
  have "becomes w outb w4 out3 bs" by (rule becomes_same_data [OF B o4(1)]) (simp add: out3_def)
  then show "becomes w outb w' out' bs" using res becomes_same_data [OF _ o5] by simp
  show "r = 0" using res by simp
  have "chains in' = []" using o4(2) res by (simp add: same_data_def in3_def ZERO_CHAIN_def)
  then show "apart out' in'" by (simp add: apart_def)
qed

lemma add_buffer_ok:
  assumes obs: "observes ucb" and ok: "evbuffer_ok w outb" "evbuffer_ok w inb" "apart outb inb"
    and len: "total_len outb + total_len inb \<le> EV_SIZE_MAX"
    and run: "evbuffer_add_buffer ucb w outb inb = (w', out', in', r)"
  shows "r = 0 \<and> becomes w outb w' out' (content outb @ content inb) \<and> becomes w inb w' in' [] \<and> apart out' in' \<or>
    r = -1 \<and> w' = w \<and> out' = outb \<and> in' = inb \<and> (freeze_end outb \<or> freeze_start inb)"
proof (cases "content inb = []")
  case True
  then show ?thesis using run okD(4) [OF ok(2)] ok(3) becomes_same [OF ok(1) later_refl] becomes_same [OF ok(2) later_refl]
    by (simp add: evbuffer_add_buffer_def)
next
  case False
  then have nz: "total_len inb \<noteq> 0" using okD(4) [OF ok(2)] by simp
  show ?thesis
  proof (cases "freeze_end outb \<or> freeze_start inb")
    case True
    then show ?thesis using run nz by (auto simp: evbuffer_add_buffer_def)
  next
    case fz: False
    then have "move_buffer ucb APPEND_CHAIN w outb inb = (w', out', in', r)"
      using run nz by (simp add: evbuffer_add_buffer_def)
    from move_ok [OF obs ok(1,2) False APPEND_CHAIN_ok [OF ok _ False len] _ this] show ?thesis by simp
  qed
qed

lemma prepend_buffer_ok:
  assumes obs: "observes ucb" and ok: "evbuffer_ok w outb" "evbuffer_ok w inb" "apart outb inb"
    and len: "total_len outb + total_len inb \<le> EV_SIZE_MAX"
    and run: "evbuffer_prepend_buffer ucb w outb inb = (w', out', in', r)"
  shows "r = 0 \<and> becomes w outb w' out' (content inb @ content outb) \<and> becomes w inb w' in' [] \<and> apart out' in' \<or>
    r = -1 \<and> w' = w \<and> out' = outb \<and> in' = inb \<and> (freeze_start outb \<or> freeze_start inb)"
proof (cases "content inb = []")
  case True
  then show ?thesis using run okD(4) [OF ok(2)] ok(3) becomes_same [OF ok(1) later_refl] becomes_same [OF ok(2) later_refl]
    by (simp add: evbuffer_prepend_buffer_def)
next
  case False
  then have nz: "total_len inb \<noteq> 0" using okD(4) [OF ok(2)] by simp
  show ?thesis
  proof (cases "freeze_start outb \<or> freeze_start inb")
    case True
    then show ?thesis using run nz by (auto simp: evbuffer_prepend_buffer_def)
  next
    case fz: False
    then have "move_buffer ucb (\<lambda>w dst src. (w, PREPEND_CHAIN dst src)) w outb inb = (w', out', in', r)"
      using run nz by (simp add: evbuffer_prepend_buffer_def)
    from move_ok [OF obs ok(1,2) False _ _ this] PREPEND_CHAIN_ok [OF ok _ False len] show ?thesis by force
  qed
qed
subsection \<open>Moving the front of a buffer\<close>

text \<open>No empty chain in front of the last chain with data.\<close>

definition solid :: "evbuffer \<Rightarrow> bool" where
  "solid b \<longleftrightarrow> (\<exists>pre post. cut b pre post \<and> (\<forall>c \<in> set pre. off c \<noteq> 0))"

lemma remove_buffer_loop_ok:
  assumes "chains b = gone @ pre @ post" "distinct (map cid (chains b))"
    "datlen < sum_list (map off (pre @ post))" "\<forall>c \<in> set (tl post). off c = 0"
  shows "\<exists>pre2 c rest dn.
    remove_buffer_loop b w (slot_after pre) nread datlen gone (pre @ post) =
      (w, slot_after pre2, nread + sum_list (map off dn), datlen - sum_list (map off dn), gone @ dn, c # rest) \<and>
    pre = dn @ pre2 \<and> c # rest = pre2 @ post \<and> sum_list (map off dn) \<le> datlen \<and> datlen - sum_list (map off dn) < off c"
  using assms
proof (induction pre arbitrary: gone datlen nread)
  case Nil
  then obtain c rest where p: "post = c # rest" by (cases post) auto
  then have "datlen < off c" using Nil.prems(3,4) sum_off_empty [of rest] by simp
  then show ?case using p by (intro exI [of _ "[]"] exI [of _ c] exI [of _ rest]) simp
next
  case (Cons c pre)
  show ?case
  proof (cases "datlen < off c")
    case True
    then show ?thesis
      by (intro exI [of _ "c # pre"] exI [of _ c] exI [of _ "pre @ post"] exI [of _ "[]"]) simp
  next
    case False
    have tgt: "split_at (chains b) (slot_after (c # pre)) = (gone @ c # pre, post)"
      using split_at_slot [of "gone @ c # pre" post] Cons.prems(1,2) slot_after_append [of "c # pre" gone] by simp
    have "cid d \<noteq> cid c" if "d \<in> set post" for d using that Cons.prems(1,2) by (auto simp: image_iff)
    then have np: "\<not> points_at b (slot_after (c # pre)) c"
      using tgt by (cases post) (auto simp: points_at_def deref_def)
    have s2: "(if slot_after (c # pre) = Next (cid c) then First else slot_after (c # pre)) = slot_after pre"
    proof (cases "pre = []")
      case False
      then have "last pre \<in> set pre" by simp
      then have "cid (last pre) \<noteq> cid c" using Cons.prems(1,2) by (auto simp: image_iff)
      then show ?thesis using False by (simp add: slot_after_def)
    qed (simp add: slot_after_def)
    have lt: "datlen - off c < sum_list (map off (pre @ post))" using Cons.prems(3) False by (simp add: less_diff_conv2)
    have g: "chains b = (gone @ [c]) @ pre @ post" using Cons.prems(1) by simp
    have st: "remove_buffer_loop b w (slot_after (c # pre)) nread datlen gone ((c # pre) @ post) =
        remove_buffer_loop b w (slot_after pre) (nread + off c) (datlen - off c) (gone @ [c]) (pre @ post)"
      using False np s2 by simp
    obtain pre2 d rest dn where
      "remove_buffer_loop b w (slot_after pre) (nread + off c) (datlen - off c) (gone @ [c]) (pre @ post) =
        (w, slot_after pre2, nread + off c + sum_list (map off dn), datlen - off c - sum_list (map off dn),
         (gone @ [c]) @ dn, d # rest)"
      "pre = dn @ pre2" "d # rest = pre2 @ post" "sum_list (map off dn) \<le> datlen - off c"
      "datlen - off c - sum_list (map off dn) < off d"
      using Cons.IH [OF g Cons.prems(2) lt Cons.prems(4)] by blast
    then show ?thesis
      using st False by (intro exI [of _ pre2] exI [of _ d] exI [of _ rest] exI [of _ "c # dn"]) auto
  qed
qed

lemma advance_over_all:
  assumes "\<forall>c \<in> set (tl cs). off c \<noteq> 0" "cs \<noteq> []"
  shows "fst (advance_over s cs) = (if butlast cs = [] then s else slot_after (butlast cs))"
  using assms
proof (induction s cs rule: advance_over.induct)
  case (1 s c c' cs)
  then show ?case by (auto simp: slot_after_def split: prod.splits)
qed simp_all

text \<open>Whole chains are linked to the end of the destination.\<close>

lemma chains_linked:
  assumes ok: "evbuffer_ok w dst" "\<And>c. c \<in> set dn \<Longrightarrow> chain_ok w c" and ap: "cid ` set (chains dst) \<inter> cid ` set dn = {}"
    and dn: "dn \<noteq> []" "\<forall>c \<in> set dn. off c \<noteq> 0" "distinct (map cid dn)"
    and len: "total_len dst + sum_list (map off dn) \<le> EV_SIZE_MAX"
    and f: "evbuffer_free_trailing_empty_chains w dst = (w2, dst2, chp)"
  shows "becomes w dst w2 (EVBUFFER_ADDED (sum_list (map off dn)) (fst (advance_last_with_data
      (dst2\<lparr>chains := chains dst2 @ dn, blast := Some (cid (last dn))\<rparr>)))) (content dst @ concat (map chain_data dn))"
proof -
  obtain pre post where cut: "cut dst pre post" using okD(6) [OF ok(1)] by blast
  have ch: "chains dst = pre @ post" using cutD(1) [OF cut] .
  obtain w3 where f': "evbuffer_free_trailing_empty_chains w dst =
      (w3, dst\<lparr>chains := pre @ used post\<rparr>, slot_after (pre @ used post))" and l: "later w w3"
    by (rule free_trailing [OF ok(1) cut])
  have d2: "w2 = w3" "dst2 = dst\<lparr>chains := pre @ used post\<rparr>" using f f' by simp_all
  have dist: "distinct (map cid ((pre @ used post) @ dn))"
  proof -
    have "cid ` set (pre @ used post) \<subseteq> cid ` set (chains dst)" using used_subset [of post] ch(1) by auto
    then have "cid ` set (pre @ used post) \<inter> cid ` set dn = {}" using ap by auto
    moreover have "distinct (map cid (pre @ used post))" using okD(1) [OF ok(1)] unfolding ch(1) by (rule distinct_used)
    ultimately show ?thesis using dn(3) by (simp only: map_append [of cid "pre @ used post"] distinct_append set_map)
  qed
  define d where "d = dst2\<lparr>chains := chains dst2 @ dn, blast := Some (cid (last dn))\<rparr>"
  have sp: "split_at (chains d) (last_with_datap d) = (pre, used post @ dn)"
    using split_at_slot [of pre "used post @ dn"] dist cutD(2) [OF cut] by (simp add: d_def d2)
  have one: "\<forall>c \<in> set (tl (used post @ dn)). off c \<noteq> 0" "used post = [] \<Longrightarrow> pre = []"
    using dn(2) in_tl [of _ dn] cutD(4,5) [OF cut] by (cases post; auto simp: used_def split: if_splits)+
  define P where "P = pre @ used post @ butlast dn"
  have "fst (advance_over (last_with_datap d) (used post @ dn)) = slot_after P"
  proof -
    have b: "butlast (used post @ dn) = used post @ butlast dn" using dn(1) by (simp add: butlast_append)
    have "slot_after P = slot_after (used post @ butlast dn)" if "used post @ butlast dn \<noteq> []"
      using slot_after_append [OF that, of pre] by (simp add: P_def)
    moreover have "slot_after P = slot_after pre" if "used post @ butlast dn = []" using that by (simp add: P_def)
    ultimately show ?thesis
      using advance_over_all [OF one(1)] dn(1) b cutD(2) [OF cut] by (simp add: d_def d2)
  qed
  then have adv: "fst (advance_last_with_data d) = d\<lparr>last_with_datap := slot_after P\<rparr>"
    by (simp add: advance_last_with_data_def sp case_prod_unfold)
  define E where "E = EVBUFFER_ADDED (sum_list (map off dn)) (fst (advance_last_with_data d))"
  have e: "chains E = (pre @ used post) @ dn" "last_with_datap E = slot_after P" "blast E = Some (cid (last dn))"
    "total_len E = total_len dst + sum_list (map off dn)" "freeze_start E = freeze_start dst" "freeze_end E = freeze_end dst"
    by (simp_all add: E_def adv) (simp_all add: d_def d2)
  have "concat (map chain_data (used post)) = concat (map chain_data post)"
    using cut by (intro concat_used) (simp add: cut_def)
  then have ct: "content E = content dst @ concat (map chain_data dn)" by (simp add: content_def e(1) ch)
  have "(pre @ used post) @ dn = P @ [last dn]" using dn(1) by (simp add: P_def)
  then have cut2: "cut E P [last dn]" using dn by (simp add: cut_def e)
  have "evbuffer_ok w E"
  proof (intro okI [OF _ _ _ cut2])
    fix x assume "x \<in> set (chains E)"
    then have "x \<in> set (chains dst) \<or> x \<in> set dn" unfolding e(1) ch using used_subset [of post] by auto
    then show "chain_ok w x" using ok(2) okD(2) [OF ok(1)] by blast
  qed (use dist dn(1) ct okD(4) [OF ok(1)] len e in \<open>simp_all add: last_cid_def\<close>)
  then show ?thesis
    using l ct e(5,6) unfolding d_def [symmetric] d2(1) E_def [symmetric] by (intro becomesI) (simp_all add: ok_later)
qed

lemma remove_buffer_all:
  assumes obs: "observes ucb" and ok: "evbuffer_ok w src" "evbuffer_ok w dst" "apart dst src"
    and len: "total_len dst + total_len src \<le> EV_SIZE_MAX" and fz: "\<not> freeze_end dst" "\<not> freeze_start src"
    and n: "datlen \<noteq> 0" "datlen \<ge> total_len src"
    and run: "evbuffer_remove_buffer ucb w src dst datlen = (w', src', dst', r)"
  shows "r = to_int (int (length (content src)))" "becomes w dst w' dst' (content dst @ content src)"
    "becomes w src w' src' []"
proof -
  obtain w1 d1 s1 r1 where a: "evbuffer_add_buffer ucb w dst src = (w1, d1, s1, r1)" by (metis prod_cases4)
  have "w' = w1 \<and> src' = s1 \<and> dst' = d1 \<and> r = to_int (int (total_len src))"
    using run n fz a by (simp add: evbuffer_remove_buffer_def)
  then show "r = to_int (int (length (content src)))" "becomes w dst w' dst' (content dst @ content src)"
    "becomes w src w' src' []"
    using add_buffer_ok [OF obs ok(2,1,3) len a] fz okD(4) [OF ok(1)] by simp_all
qed

text \<open>
  A part of the source: whole chains are linked to the destination and the rest is copied.  When there
  is no memory for the copy, the bytes are lost.
\<close>

lemma remove_buffer_part:
  assumes obs: "observes ucb" and ok: "evbuffer_ok w src" "evbuffer_ok w dst" "apart dst src" and so: "solid src"
    and len: "total_len dst + datlen \<le> EV_SIZE_MAX" and fz: "\<not> freeze_end dst" "\<not> freeze_start src"
    and n: "datlen \<noteq> 0" "datlen < total_len src"
    and run: "evbuffer_remove_buffer ucb w src dst datlen = (w', src', dst', r)"
  shows "r = to_int (int datlen)" "becomes w src w' src' (drop datlen (content src))"
    "becomes w dst w' dst' (content dst @ take datlen (content src)) \<or>
     (\<exists>k < datlen. becomes w dst w' dst' (content dst @ take k (content src)) \<and> no_room w (datlen - k))"
proof -
  obtain pre post where cut: "cut src pre post" and nz: "\<forall>c \<in> set pre. off c \<noteq> 0" using so by (auto simp: solid_def)
  have ch: "chains src = [] @ pre @ post" and tl: "\<forall>c \<in> set (tl post). off c = 0" using cut by (simp_all add: cut_def)
  have sum: "datlen < sum_list (map off (pre @ post))" using n(2) okD(4) [OF ok(1)] ch by (simp add: content_def)
  obtain pre2 c rest dn where L: "remove_buffer_loop src w (slot_after pre) 0 datlen [] (pre @ post) =
      (w, slot_after pre2, 0 + sum_list (map off dn), datlen - sum_list (map off dn), [] @ dn, c # rest)"
    and s: "pre = dn @ pre2" "c # rest = pre2 @ post" "sum_list (map off dn) \<le> datlen" "datlen - sum_list (map off dn) < off c"
    using remove_buffer_loop_ok [OF ch okD(1) [OF ok(1)] sum tl] by blast
  define k where "k = sum_list (map off dn)"
  define m where "m = datlen - k"
  have km: "datlen = k + m" "m < off c" using s(3,4) by (simp_all add: k_def m_def)
  have ch2: "chains src = dn @ c # rest" using cutD(1) [OF cut] s(1,2) by simp
  have take_k: "concat (map chain_data dn) = take k (content src)" by (simp add: content_def ch2 k_def)
  have c_ok: "chain_ok w c" using okD(2) [OF ok(1), of c] ch2 by simp
  define src3 where "src3 = src\<lparr>chains := c # rest, last_with_datap := slot_after pre2\<rparr>"
  obtain w3 dst3 where M: "(if k \<noteq> 0
        then case evbuffer_free_trailing_empty_chains w dst of
               (w2, dst2, chp) \<Rightarrow>
                 (w2, src\<lparr>chains := c # rest, last_with_datap := slot_after pre2\<rparr>,
                  EVBUFFER_ADDED k (fst (advance_last_with_data
                       (dst2\<lparr>chains := chains dst2 @ dn, blast := Some (cid (last dn))\<rparr>))))
        else (w, src\<lparr>last_with_datap := slot_after pre2\<rparr>, dst)) = (w3, src3, dst3)"
    and B3: "becomes w dst w3 dst3 (content dst @ take k (content src))"
  proof (cases "dn = []")
    case True
    then have "k = 0" "src3 = src\<lparr>last_with_datap := slot_after pre2\<rparr>" using ch2 by (simp_all add: k_def src3_def)
    then show ?thesis using that [of w dst] becomes_same [OF ok(2) later_refl] by simp
  next
    case False
    have dz: "\<forall>c \<in> set dn. off c \<noteq> 0" using nz s(1) by simp
    then have k0: "k \<noteq> 0" using False by (cases dn) (auto simp: k_def)
    obtain w2 dst2 chp where f: "evbuffer_free_trailing_empty_chains w dst = (w2, dst2, chp)" by (metis prod_cases3)
    have "cid ` set (chains dst) \<inter> cid ` set dn = {}" using ok(3) by (auto simp: apart_def ch2)
    moreover have "distinct (map cid dn)" using okD(1) [OF ok(1)] by (simp add: ch2)
    moreover have "\<And>x. x \<in> set dn \<Longrightarrow> chain_ok w x" using okD(2) [OF ok(1)] by (simp add: ch2)
    moreover have "total_len dst + sum_list (map off dn) \<le> EV_SIZE_MAX" using len s(3) by simp
    ultimately show ?thesis
      using that [of w2] chains_linked [OF ok(2) _ _ False dz _ _ f] k0 f take_k by (simp add: k_def [symmetric] src3_def)
  qed
  obtain w4 dst4 r4 where A: "evbuffer_add ucb w3 dst3 (chain_bytes c 0 m) = (w4, dst4, r4)" by (metis prod_cases3)
  have cb: "take k (content src) @ chain_bytes c 0 m = take datlen (content src)"
    using km by (simp add: content_def ch2 chain_bytes_take k_def)
  have A4: "becomes w3 dst3 w4 dst4 (content dst3 @ chain_bytes c 0 m) \<or>
      becomes w3 dst3 w4 dst4 (content dst3) \<and> no_room w3 m"
  proof -
    have "\<not> m > EV_SIZE_MAX - total_len dst3"
      using okD(4) [OF becomesD(2) [OF B3]] becomesD(3) [OF B3] okD(4) [OF ok(2)] len km(1) by simp
    then show ?thesis using add_ok [OF obs becomesD(2) [OF B3] A] becomesD(5) [OF B3] fz(1) by auto
  qed
  have B4: "becomes w dst w4 dst4 (content dst @ take datlen (content src)) \<or>
      becomes w dst w4 dst4 (content dst @ take k (content src)) \<and> no_room w m \<and> k < datlen"
  proof (cases "m = 0")
    case True
    then show ?thesis using A4 becomes_trans [OF B3] becomesD(3) [OF B3] cb by auto
  next
    case False
    have "becomes w dst w4 dst4 (content dst @ take datlen (content src))"
      if "becomes w3 dst3 w4 dst4 (content dst3 @ chain_bytes c 0 m)"
      using becomes_trans [OF B3 that] becomesD(3) [OF B3] cb by simp
    then show ?thesis
      using A4 becomes_trans [OF B3] becomesD(3) [OF B3] no_room_later [OF becomesD(1) [OF B3]] km(1) False by auto
  qed
  define src5 where "src5 = (put_chain (c\<lparr>misalign := misalign c + m, off := off c - m\<rparr>) src3)
      \<lparr>total_len := total_len src3 - (k + m), n_del_for_cb := n_del_for_cb src3 + (k + m)\<rparr>"
  have s5: "chains src5 = c\<lparr>misalign := misalign c + m, off := off c - m\<rparr> # rest"
    "last_with_datap src5 = slot_after pre2" "blast src5 = blast src" "total_len src5 = total_len src - (k + m)"
    "freeze_start src5 = freeze_start src" "freeze_end src5 = freeze_end src"
  proof -
    have "put_chain (c\<lparr>misalign := misalign c + m, off := off c - m\<rparr>) src3 =
        src3\<lparr>chains := [] @ c\<lparr>misalign := misalign c + m, off := off c - m\<rparr> # rest\<rparr>"
      using okD(1) [OF ok(1)] by (intro put_chain_in) (simp_all add: ch2 src3_def)
    then show "chains src5 = c\<lparr>misalign := misalign c + m, off := off c - m\<rparr> # rest"
      "last_with_datap src5 = slot_after pre2" "blast src5 = blast src" "total_len src5 = total_len src - (k + m)"
      "freeze_start src5 = freeze_start src" "freeze_end src5 = freeze_end src"
      by (simp_all add: src5_def) (simp_all add: src3_def)
  qed
  have l4: "later w w4" using B4 becomesD(1) by blast
  have B5: "becomes w src w4 src5 (drop datlen (content src))"
    using front_dropped [OF ok_later [OF ok(1) l4] cut [unfolded s(1)] s(2) km(2), of src5] s5 l4
    by (intro becomesI) (simp_all add: k_def [symmetric] km(1))
  obtain w6 dst6 where I6: "evbuffer_invoke_callbacks ucb w4 dst4 = (w6, dst6)" by fastforce
  obtain w7 src7 where I7: "evbuffer_invoke_callbacks ucb w6 src5 = (w7, src7)" by fastforce
  have res: "w' = w7 \<and> src' = src7 \<and> dst' = dst6 \<and> r = to_int (int datlen)"
  proof -
    have n': "\<not> datlen = 0" "\<not> (freeze_end dst \<or> freeze_start src)" "\<not> datlen \<ge> total_len src" "k + m \<noteq> 0"
      using n fz km(1) by auto
    note L' = L [unfolded add_0 append_Nil k_def [symmetric] m_def [symmetric], folded cutD(1) [OF cut] cutD(2) [OF cut]]
    have "(w7, src7, dst6, to_int (int (k + m))) = (w', src', dst', r)"
      using run [unfolded evbuffer_remove_buffer_def if_not_P [OF n'(1)] if_not_P [OF n'(2)] if_not_P [OF n'(3)] L'
          prod.case list.case M A Let_def, folded src5_def, unfolded if_P [OF n'(4)] I6 I7 prod.case] .
    then show ?thesis using km(1) by simp
  qed
  note o6 = invoke_observes [OF obs I6] and o7 = invoke_observes [OF obs I7]
  show "r = to_int (int datlen)" using res by simp
  show "becomes w src w' src' (drop datlen (content src))"
    using becomes_same_data [OF B5 later_trans [OF o6(1) o7(1)] o7(2)] res by simp
  have "becomes w dst w' dst' bs" if "becomes w dst w4 dst4 bs" for bs
    using becomes_same_data [OF that later_trans [OF o6(1) o7(1)] o6(2)] res by simp
  then show "becomes w dst w' dst' (content dst @ take datlen (content src)) \<or>
     (\<exists>k < datlen. becomes w dst w' dst' (content dst @ take k (content src)) \<and> no_room w (datlen - k))"
    using B4 unfolding m_def by blast
qed

end
