(* ===== verification/Evbuffer_IO.thy ===== *)
theory Evbuffer_IO
  imports Evbuffer_Ops
begin

text \<open>
  Making room in a buffer and input and output (\<^verbatim>\<open>buffer.c\<close>): expanding, reserving and committing
  space, adding vectors, peeking, and reading from and writing to a descriptor with
  \<^verbatim>\<open>readv\<close> and \<^verbatim>\<open>writev\<close>, whose results are arguments.
\<close>

subsection \<open>One chain with enough room\<close>

text \<open>The list in front of the first chain with room, and that chain with the rest.\<close>

definition first_with_space :: "evbuffer \<Rightarrow> evbuffer_chain list \<times> evbuffer_chain list \<times> slot" where
  "first_with_space b =
     (case split_at (chains b) (last_with_datap b) of
        (pre, post) \<Rightarrow>
          (case post of
             [] \<Rightarrow> (pre, [], last_with_datap b)
           | c # cs \<Rightarrow> if CHAIN_SPACE_LEN c = 0 then (pre @ [c], cs, Next (cid c))
                       else (pre, c # cs, last_with_datap b)))"

definition evbuffer_expand_singlechain ::
  "bworld \<Rightarrow> evbuffer \<Rightarrow> nat \<Rightarrow> bworld \<times> evbuffer \<times> evbuffer_chain option" where
  "evbuffer_expand_singlechain w b datlen =
     (case (case first_with_space b of
              (pre, [], _) \<Rightarrow> evbuffer_chain_insert_new w b datlen
            | (pre, ch # next, _) \<Rightarrow>
                if has (cflags ch) (EVBUFFER_IMMUTABLE OR EVBUFFER_MEM_PINNED_ANY) then evbuffer_chain_insert_new w b datlen
                else if CHAIN_SPACE_LEN ch \<ge> datlen then (w, b, Some ch)
                else if off ch = 0 then evbuffer_chain_insert_new w b datlen
                else if evbuffer_chain_should_realign ch datlen then
                  (case evbuffer_chain_align w ch of (w1, ch1) \<Rightarrow> (w1, put_chain ch1 b, Some ch1))
                else if CHAIN_SPACE_LEN ch < buffer_len ch div 8 \<or> off ch > MAX_TO_COPY_IN_EXPAND \<or>
                        datlen \<ge> EVBUFFER_CHAIN_MAX - off ch then
                  (case next of
                     nch # _ \<Rightarrow> if CHAIN_SPACE_LEN nch \<ge> datlen then (w, b, Some nch)
                                else evbuffer_chain_insert_new w b datlen
                   | [] \<Rightarrow> evbuffer_chain_insert_new w b datlen)
                else (case evbuffer_chain_new w (off ch + datlen) of
                        (w1, None) \<Rightarrow> (w1, b, None)
                      | (w1, Some tmp) \<Rightarrow>
                          (case memcpy_to w1 (tmp\<lparr>off := off ch\<rparr>) 0 (chain_data ch) of
                             (w2, tmp1) \<Rightarrow>
                               (evbuffer_chain_free w2 ch,
                                b\<lparr>chains := pre @ tmp1 # next,
                                  blast := (if blast b = Some (cid ch) then Some (cid tmp) else blast b)\<rparr>,
                                Some tmp1)))) of
        (w3, b3, None) \<Rightarrow> (w3, b3, None)
      | (w3, b3, Some res) \<Rightarrow> (bcheck (CHAIN_SPACE_LEN res \<ge> datlen) w3, b3, Some res))"

definition evbuffer_expand :: "bworld \<Rightarrow> evbuffer \<Rightarrow> nat \<Rightarrow> bworld \<times> evbuffer \<times> int" where
  "evbuffer_expand w b datlen =
     (case evbuffer_expand_singlechain w b datlen of (w1, b1, x) \<Rightarrow> (w1, b1, if x \<noteq> None then 0 else -1))"

subsection \<open>Room in several chains\<close>

text \<open>\<open>None\<close>: there is room.  Otherwise the room, the chains used, and whether the list ended.\<close>

fun expand_fast_loop :: "nat option \<Rightarrow> nat \<Rightarrow> nat \<Rightarrow> nat \<Rightarrow> nat \<Rightarrow> bworld \<Rightarrow> evbuffer_chain list \<Rightarrow>
    bworld \<times> evbuffer_chain list \<times> (nat \<times> nat \<times> bool) option" where
  "expand_fast_loop lwd n datlen avail used w [] = (w, [], Some (avail, used, True))"
| "expand_fast_loop lwd n datlen avail used w (ch # next) =
     (let (w1, ch1, avail1, used1) =
            (if off ch \<noteq> 0
             then let space = CHAIN_SPACE_LEN ch
                  in (bcheck (lwd = Some (cid ch)) w, ch, avail + space, if space \<noteq> 0 then used + 1 else used)
             else (w, ch\<lparr>misalign := 0\<rparr>, avail + buffer_len ch, used + 1))
      in if avail1 \<ge> datlen then (w1, ch1 # next, None)
         else if used1 = n then (w1, ch1 # next, Some (avail1, used1, False))
         else case expand_fast_loop lwd n datlen avail1 used1 w1 next of (w2, cs, r) \<Rightarrow> (w2, ch1 # cs, r))"

definition evbuffer_expand_fast :: "bworld \<Rightarrow> evbuffer \<Rightarrow> nat \<Rightarrow> nat \<Rightarrow> bworld \<times> evbuffer \<times> int" where
  "evbuffer_expand_fast w0 b datlen n =
     (let w = bcheck (n \<ge> 2) w0
      in if (case chain_at b (blast b) of None \<Rightarrow> True | Some c \<Rightarrow> has (cflags c) EVBUFFER_IMMUTABLE)
         then (case evbuffer_chain_insert_new w b datlen of (w1, b1, x) \<Rightarrow> (w1, b1, if x = None then -1 else 0))
         else case split_at (chains b) (last_with_datap b) of
                (pre, post) \<Rightarrow>
                  (case expand_fast_loop (map_option cid (hd_opt post)) n datlen 0 0 w post of
                     (w1, post1, None) \<Rightarrow> (w1, b\<lparr>chains := pre @ post1\<rparr>, 0)
                   | (w1, post1, Some (avail, used, at_end)) \<Rightarrow>
                       let b1 = b\<lparr>chains := pre @ post1\<rparr>
                       in if used < n then
                            (case evbuffer_chain_new (bcheck at_end w1) (datlen - avail) of
                               (w2, None) \<Rightarrow> (w2, b1, -1)
                             | (w2, Some tmp) \<Rightarrow>
                                 (w2, b1\<lparr>chains := chains b1 @ [tmp], blast := Some (cid tmp)\<rparr>, 0))
                          else (case post1 of
                                  [] \<Rightarrow> (bcheck False w1, b1, -1)
                                | ch # next \<Rightarrow>
                                    let rmv_all = (off ch = 0);
                                        w2 = (if rmv_all then bcheck (pre = []) w1 else w1);
                                        avail1 = (if rmv_all then 0 else CHAIN_SPACE_LEN ch);
                                        victims = (if rmv_all then ch # next else next);
                                        w3 = evbuffer_free_all_chains (bcheck (\<forall>c \<in> set victims. off c = 0) w2) victims
                                    in case evbuffer_chain_new (bcheck (datlen \<ge> avail1) w3) (datlen - avail1) of
                                         (w4, None) \<Rightarrow>
                                           (w4, if rmv_all then ZERO_CHAIN b1
                                                else b1\<lparr>blast := Some (cid ch), chains := pre @ [ch]\<rparr>, -1)
                                       | (w4, Some tmp) \<Rightarrow>
                                           (w4, if rmv_all
                                                then b1\<lparr>chains := [tmp], blast := Some (cid tmp), last_with_datap := First\<rparr>
                                                else b1\<lparr>chains := pre @ [ch, tmp], blast := Some (cid tmp)\<rparr>, 0))))"

fun add_iovec_loop :: "user_cb \<Rightarrow> bworld \<Rightarrow> evbuffer \<Rightarrow> nat \<Rightarrow> bytes list \<Rightarrow> bworld \<times> evbuffer \<times> nat" where
  "add_iovec_loop ucb w b res [] = (w, b, res)"
| "add_iovec_loop ucb w b res (v # vs) =
     (case evbuffer_add ucb w b v of
        (w1, b1, r) \<Rightarrow> if r < 0 then (w1, b1, res) else add_iovec_loop ucb w1 b1 (res + length v) vs)"

text \<open>The sum of the lengths is a \<^verbatim>\<open>size_t\<close>.\<close>

definition evbuffer_add_iovec :: "user_cb \<Rightarrow> bworld \<Rightarrow> evbuffer \<Rightarrow> bytes list \<Rightarrow> bworld \<times> evbuffer \<times> nat" where
  "evbuffer_add_iovec ucb w b vec =
     (let to_alloc = sum_list (map length vec) mod (EV_SIZE_MAX + 1)
      in case evbuffer_expand_fast w b to_alloc 2 of
           (w1, b1, r) \<Rightarrow> if r < 0 then (w1, b1, 0) else add_iovec_loop ucb w1 b1 0 vec)"

subsection \<open>Reserving and committing\<close>

text \<open>A vector: a chain, a position in its block, and a length.\<close>

record evbuffer_iovec =
  iov_chain :: nat
  iov_pos :: nat
  iov_len :: nat

definition space_vec :: "evbuffer_chain \<Rightarrow> nat \<Rightarrow> evbuffer_iovec" where
  "space_vec ch n = \<lparr>iov_chain = cid ch, iov_pos = misalign ch + off ch, iov_len = n\<rparr>"

fun setup_vecs_loop :: "bworld \<Rightarrow> nat \<Rightarrow> nat \<Rightarrow> nat \<Rightarrow> bool \<Rightarrow> evbuffer_chain list \<Rightarrow> bworld \<times> evbuffer_iovec list" where
  "setup_vecs_loop w 0 so_far howmuch exact cs = (w, [])"
| "setup_vecs_loop w (Suc k) so_far howmuch exact cs =
     (if so_far \<ge> howmuch then (w, [])
      else case cs of
             [] \<Rightarrow> (bcheck False w, [])
           | ch # next \<Rightarrow>
               let avail0 = CHAIN_SPACE_LEN ch;
                   avail = (if avail0 > howmuch - so_far \<and> exact then howmuch - so_far else avail0)
               in case setup_vecs_loop w k (so_far + avail) howmuch exact next of
                    (w1, vs) \<Rightarrow> (w1, space_vec ch avail # vs))"

text \<open>The slot of the first chain with room comes back in place of \<^verbatim>\<open>*chainp\<close>.\<close>

definition evbuffer_read_setup_vecs ::
  "bworld \<Rightarrow> evbuffer \<Rightarrow> int \<Rightarrow> nat \<Rightarrow> bool \<Rightarrow> bworld \<times> evbuffer_iovec list \<times> int" where
  "evbuffer_read_setup_vecs w b howmuch n_vecs_avail exact =
     (if howmuch < 0 then (w, [], -1)
      else case first_with_space b of
             (pre, cs, _) \<Rightarrow>
               (case setup_vecs_loop (bcheck (deref b (last_with_datap b) \<noteq> None) w) n_vecs_avail 0 (nat howmuch) exact cs of
                  (w1, vs) \<Rightarrow> (w1, vs, int (length vs))))"

definition evbuffer_reserve_space ::
  "bworld \<Rightarrow> evbuffer \<Rightarrow> int \<Rightarrow> int \<Rightarrow> bworld \<times> evbuffer \<times> evbuffer_iovec list \<times> int" where
  "evbuffer_reserve_space w b sz n_vecs =
     (let usz = nat (sz mod (int EV_SIZE_MAX + 1))
      in if freeze_end b \<or> n_vecs < 1 then (w, b, [], -1)
         else if n_vecs = 1 then
           (case evbuffer_expand_singlechain w b usz of
              (w1, b1, None) \<Rightarrow> (w1, b1, [], -1)
            | (w1, b1, Some ch) \<Rightarrow>
                (bcheck (sz < 0 \<or> CHAIN_SPACE_LEN ch \<ge> usz) w1, b1, [space_vec ch (CHAIN_SPACE_LEN ch)], 1))
         else (case evbuffer_expand_fast w b usz (nat n_vecs) of
                 (w1, b1, r) \<Rightarrow>
                   if r < 0 then (w1, b1, [], -1)
                   else (case evbuffer_read_setup_vecs w1 b1 sz (nat n_vecs) False of
                           (w2, vs, n) \<Rightarrow> (w2, b1, vs, n))))"

fun commit_check :: "evbuffer_iovec list \<Rightarrow> evbuffer_chain list \<Rightarrow> bool" where
  "commit_check [] cs = True"
| "commit_check (v # vs) [] = False"
| "commit_check (v # vs) (ch # next) =
     (iov_chain v = cid ch \<and> iov_pos v = misalign ch + off ch \<and> iov_len v \<le> CHAIN_SPACE_LEN ch \<and> commit_check vs next)"

text \<open>The second pass: the slot of the last chain that got data is kept.\<close>

fun commit_loop :: "slot \<Rightarrow> slot \<Rightarrow> evbuffer_iovec list \<Rightarrow> evbuffer_chain list \<Rightarrow> evbuffer_chain list \<times> slot" where
  "commit_loop lwd chainp (v # vs) (ch # next) =
     (case commit_loop (if iov_len v \<noteq> 0 then chainp else lwd) (Next (cid ch)) vs next of
        (cs, s) \<Rightarrow> (ch\<lparr>off := off ch + iov_len v\<rparr> # cs, s))"
| "commit_loop lwd chainp vs cs = (cs, lwd)"

definition evbuffer_commit_space ::
  "user_cb \<Rightarrow> bworld \<Rightarrow> evbuffer \<Rightarrow> evbuffer_iovec list \<Rightarrow> bworld \<times> evbuffer \<times> int" where
  "evbuffer_commit_space ucb w b vec =
     (if freeze_end b then (w, b, -1)
      else case vec of
             [] \<Rightarrow> (w, b, 0)
           | v # vs \<Rightarrow>
               let single = (vs = [] \<and> (case chain_at b (blast b) of
                                          None \<Rightarrow> False
                                        | Some l \<Rightarrow> iov_chain v = cid l \<and> iov_pos v = misalign l + off l))
               in if single then
                    (case chain_at b (blast b) of
                       None \<Rightarrow> (w, b, -1)
                     | Some l \<Rightarrow>
                         if iov_len v > CHAIN_SPACE_LEN l then (w, b, -1)
                         else let b1 = put_chain (l\<lparr>off := off l + iov_len v\<rparr>) b;
                                  b2 = (if iov_len v \<noteq> 0 then fst (advance_last_with_data b1) else b1)
                              in evbuffer_finish ucb w (EVBUFFER_ADDED (iov_len v) b2) 0)
                  else case deref b (last_with_datap b) of
                         None \<Rightarrow> (w, b, -1)
                       | Some _ \<Rightarrow>
                           (case first_with_space b of
                              (pre, cs, firstchainp) \<Rightarrow>
                                if \<not> commit_check vec cs then (w, b, -1)
                                else case commit_loop (last_with_datap b) firstchainp vec cs of
                                       (cs1, s) \<Rightarrow>
                                         evbuffer_finish ucb w
                                           (EVBUFFER_ADDED (sum_list (map iov_len vec))
                                              (b\<lparr>chains := pre @ cs1, last_with_datap := s\<rparr>)) 0))"

subsection \<open>Reading\<close>

definition NUM_READ_IOVEC :: nat where "NUM_READ_IOVEC = 4"
definition EVBUFFER_MAX_READ :: int where "EVBUFFER_MAX_READ = 4096"

text \<open>What \<^verbatim>\<open>readv\<close> stores: the bytes, vector after vector.\<close>

fun scatter :: "bworld \<Rightarrow> evbuffer_iovec list \<Rightarrow> bytes \<Rightarrow> evbuffer_chain list \<Rightarrow> bworld \<times> evbuffer_chain list" where
  "scatter w (v # vs) bs (ch # next) =
     (case memcpy_to w ch (iov_pos v) (take (iov_len v) bs) of
        (w1, ch1) \<Rightarrow> (case scatter w1 vs (drop (iov_len v) bs) next of (w2, cs) \<Rightarrow> (w2, ch1 # cs)))"
| "scatter w vs bs cs = (w, cs)"

fun read_loop :: "nat \<Rightarrow> slot \<Rightarrow> slot \<Rightarrow> nat \<Rightarrow> evbuffer_chain list \<Rightarrow> evbuffer_chain list \<times> slot" where
  "read_loop (Suc nvecs) lwd chainp remaining (ch # next) =
     (let space0 = CHAIN_SPACE_LEN ch;
          space = (if space0 > EVBUFFER_CHAIN_MAX then EVBUFFER_CHAIN_MAX else space0)
      in if space < remaining
         then case read_loop nvecs lwd (Next (cid ch)) (remaining - space) next of
                (cs, s) \<Rightarrow> (ch\<lparr>off := off ch + space\<rparr> # cs, s)
         else (ch\<lparr>off := off ch + remaining\<rparr> # next, chainp))"
| "read_loop nvecs lwd chainp remaining cs = (cs, lwd)"

text \<open>\<open>fionread\<close> and \<open>readv\<close> are the results of the system calls; \<open>None\<close> is a failure.\<close>

definition get_n_bytes_readable_on_socket :: "int option \<Rightarrow> int" where
  "get_n_bytes_readable_on_socket fionread = (case fionread of None \<Rightarrow> -1 | Some n \<Rightarrow> n)"

definition evbuffer_read ::
  "user_cb \<Rightarrow> int option \<Rightarrow> (nat list \<Rightarrow> bytes option) \<Rightarrow> bworld \<Rightarrow> evbuffer \<Rightarrow> int \<Rightarrow> bworld \<times> evbuffer \<times> int" where
  "evbuffer_read ucb fionread readv w b howmuch0 =
     (if freeze_end b then (w, b, -1)
      else let n0 = get_n_bytes_readable_on_socket fionread;
               n1 = (if n0 \<le> 0 \<or> n0 > EVBUFFER_MAX_READ then EVBUFFER_MAX_READ else n0);
               howmuch = (if howmuch0 < 0 \<or> howmuch0 > n1 then n1 else howmuch0)
           in case evbuffer_expand_fast w b (nat howmuch) NUM_READ_IOVEC of
                (w1, b1, r) \<Rightarrow>
                  if r = -1 then (w1, b1, -1)
                  else case evbuffer_read_setup_vecs w1 b1 howmuch NUM_READ_IOVEC True of
                         (w2, vecs, nvecs) \<Rightarrow>
                           (case readv (map iov_len vecs) of
                              None \<Rightarrow> (w2, b1, -1)
                            | Some bs \<Rightarrow>
                                if bs = [] then (w2, b1, 0)
                                else case first_with_space b1 of
                                       (pre, cs, chainp) \<Rightarrow>
                                         (case scatter w2 vecs bs cs of
                                            (w3, cs1) \<Rightarrow>
                                              (case read_loop (nat nvecs) (last_with_datap b1) chainp (length bs) cs1 of
                                                 (cs2, s) \<Rightarrow>
                                                   evbuffer_finish ucb w3
                                                     (EVBUFFER_ADDED (length bs)
                                                        (b1\<lparr>chains := pre @ cs2, last_with_datap := s\<rparr>))
                                                     (int (length bs))))))"

subsection \<open>Writing\<close>

definition NUM_WRITE_IOVEC :: nat where "NUM_WRITE_IOVEC = 128"

fun write_iovec_loop :: "nat \<Rightarrow> nat \<Rightarrow> evbuffer_chain list \<Rightarrow> bytes list" where
  "write_iovec_loop i howmuch [] = []"
| "write_iovec_loop i howmuch (ch # next) =
     (if i < NUM_WRITE_IOVEC \<and> howmuch \<noteq> 0 \<and> \<not> has (cflags ch) EVBUFFER_SENDFILE
      then if howmuch \<ge> off ch then chain_data ch # write_iovec_loop (i + 1) (howmuch - off ch) next
           else [chain_bytes ch 0 howmuch]
      else [])"

text \<open>\<open>writev\<close> gives the number of bytes written, or -1.\<close>

definition evbuffer_write_iovec :: "(bytes list \<Rightarrow> int) \<Rightarrow> evbuffer \<Rightarrow> int \<Rightarrow> int" where
  "evbuffer_write_iovec writev b howmuch =
     (if howmuch < 0 then -1
      else let iov = write_iovec_loop 0 (nat howmuch) (chains b) in if iov = [] then 0 else writev iov)"

text \<open>\<open>sendfile\<close> gives the result and whether the error can be retried.\<close>

definition evbuffer_write_sendfile :: "(nat \<Rightarrow> nat \<Rightarrow> int \<times> bool) \<Rightarrow> evbuffer_chain \<Rightarrow> int" where
  "evbuffer_write_sendfile sendfile ch =
     (case sendfile (misalign ch) (off ch) of (res, retriable) \<Rightarrow> if res = -1 \<and> retriable then 0 else res)"

definition evbuffer_write_atmost ::
  "user_cb \<Rightarrow> (bytes list \<Rightarrow> int) \<Rightarrow> (nat \<Rightarrow> nat \<Rightarrow> int \<times> bool) \<Rightarrow> bworld \<Rightarrow> evbuffer \<Rightarrow> int \<Rightarrow> bworld \<times> evbuffer \<times> int" where
  "evbuffer_write_atmost ucb writev sendfile w b howmuch0 =
     (if freeze_start b then (w, b, -1)
      else let howmuch = (if howmuch0 < 0 \<or> howmuch0 > int (total_len b) then int (total_len b) else howmuch0);
               n = (if howmuch > 0
                    then (case chains b of
                            ch # _ \<Rightarrow> if has (cflags ch) EVBUFFER_SENDFILE then evbuffer_write_sendfile sendfile ch
                                      else evbuffer_write_iovec writev b howmuch
                          | [] \<Rightarrow> evbuffer_write_iovec writev b howmuch)
                    else -1)
           in if n > 0 then (case evbuffer_drain ucb w b (nat n) of (w1, b1, _) \<Rightarrow> (w1, b1, n)) else (w, b, n))"

definition evbuffer_write ::
  "user_cb \<Rightarrow> (bytes list \<Rightarrow> int) \<Rightarrow> (nat \<Rightarrow> nat \<Rightarrow> int \<times> bool) \<Rightarrow> bworld \<Rightarrow> evbuffer \<Rightarrow> bworld \<times> evbuffer \<times> int" where
  "evbuffer_write ucb writev sendfile w b = evbuffer_write_atmost ucb writev sendfile w b (-1)"

subsection \<open>Formatted output\<close>

text \<open>
  \<open>fmt\<close> is what \<^verbatim>\<open>evutil_vsnprintf\<close> produces without a limit, \<open>None\<close> for an error.  It stores as much
  as fits in front of a terminating zero byte.
\<close>

definition vsnprintf_to :: "bworld \<Rightarrow> evbuffer_chain \<Rightarrow> bytes \<Rightarrow> bworld \<times> evbuffer_chain" where
  "vsnprintf_to w ch out =
     (let space = CHAIN_SPACE_LEN ch
      in memcpy_to w ch (misalign ch + off ch) (if space = 0 then [] else take (space - 1) out @ [0]))"

definition vprintf_done :: "user_cb \<Rightarrow> bworld \<Rightarrow> evbuffer \<Rightarrow> evbuffer_chain \<Rightarrow> nat \<Rightarrow> bworld \<times> evbuffer \<times> int" where
  "vprintf_done ucb w b ch sz =
     evbuffer_finish ucb w
       (fst (advance_last_with_data (EVBUFFER_ADDED sz (put_chain (ch\<lparr>off := off ch + sz\<rparr>) b)))) (int sz)"

text \<open>The second round has room for the text and the zero byte, so the loop runs at most twice.\<close>

definition evbuffer_add_vprintf :: "user_cb \<Rightarrow> bworld \<Rightarrow> evbuffer \<Rightarrow> bytes option \<Rightarrow> bworld \<times> evbuffer \<times> int" where
  "evbuffer_add_vprintf ucb w b fmt =
     (if freeze_end b then (w, b, -1)
      else case evbuffer_expand_singlechain w b 64 of
             (w1, b1, None) \<Rightarrow> (w1, b1, -1)
           | (w1, b1, Some ch) \<Rightarrow>
               (case fmt of
                  None \<Rightarrow> (w1, b1, -1)
                | Some out \<Rightarrow>
                    (case vsnprintf_to w1 ch out of
                       (w2, ch2) \<Rightarrow>
                         if length out < CHAIN_SPACE_LEN ch2 then vprintf_done ucb w2 b1 ch2 (length out)
                         else (case evbuffer_expand_singlechain w2 (put_chain ch2 b1) (length out + 1) of
                                 (w3, b3, None) \<Rightarrow> (w3, b3, -1)
                               | (w3, b3, Some ch3) \<Rightarrow>
                                   (case vsnprintf_to w3 ch3 out of
                                      (w4, ch4) \<Rightarrow>
                                        if length out < CHAIN_SPACE_LEN ch4
                                        then vprintf_done ucb w4 b3 ch4 (length out)
                                        else (bcheck False w4, b3, -1))))))"

subsection \<open>Peeking\<close>

text \<open>The vectors are given by their bytes.\<close>

fun peek_loop :: "int \<Rightarrow> int \<Rightarrow> int \<Rightarrow> int \<Rightarrow> evbuffer_chain list \<Rightarrow> bytes list \<times> int" where
  "peek_loop len n_vec len_so_far idx [] = ([], idx)"
| "peek_loop len n_vec len_so_far idx (ch # next) =
     (if len \<ge> 0 \<and> len_so_far \<ge> len then ([], idx)
      else if idx < n_vec
      then (case peek_loop len n_vec (len_so_far + int (off ch)) (idx + 1) next of (vs, i) \<Rightarrow> (chain_data ch # vs, i))
      else if len < 0 then ([], idx)
      else peek_loop len n_vec (len_so_far + int (off ch)) (idx + 1) next)"

definition evbuffer_peek :: "evbuffer \<Rightarrow> int \<Rightarrow> evbuffer_ptr option \<Rightarrow> int \<Rightarrow> bytes list \<times> int" where
  "evbuffer_peek b len0 start_at n_vec =
     (let len = (if n_vec = 0 \<and> len0 < 0
                 then int (total_len b) - (case start_at of None \<Rightarrow> 0 | Some p \<Rightarrow> pos p) else len0)
      in case start_at of
           None \<Rightarrow> peek_loop len n_vec 0 0 (chains b)
         | Some p \<Rightarrow>
             (case chains_from b (pchain p) of
                [] \<Rightarrow> ([], 0)
              | ch # next \<Rightarrow>
                  let k = off ch - pos_in_chain p
                  in case peek_loop len n_vec (int k) 1 next of
                       (vs, i) \<Rightarrow> (if n_vec > 0 then chain_bytes ch (pos_in_chain p) k # vs else vs, i)))"

end
