(* ===== verification/Evbuffer_IO_Inv.thy ===== *)
theory Evbuffer_IO_Inv
  imports Evbuffer_Move Evbuffer_IO
begin

text \<open>
  Making room keeps the content of a buffer, and reading, writing, committing and printing append or
  remove exactly the bytes they report.
\<close>

subsection \<open>A new chain at the end\<close>

lemma insert_new_ok:
  assumes ok: "evbuffer_ok w b" and cut: "cut b pre post" and run: "evbuffer_chain_insert_new w b n = (w1, b1, x)"
  shows "case x of
      None \<Rightarrow> b1 = b \<and> later w w1 \<and> no_room w n
    | Some c \<Rightarrow> becomes w b w1 b1 (content b) \<and> fresh_chain w n c \<and> chain_ok w1 c \<and> cut b1 pre (used post @ [c])"
proof (cases "evbuffer_chain_new w n")
  case (Pair w0 y)
  show ?thesis
  proof (cases y)
    case None
    then show ?thesis using run Pair chain_new_None [of w n w0] by (auto simp: evbuffer_chain_insert_new_def no_room_def)
  next
    case (Some c)
    note nw = chain_new_Some [OF Pair [unfolded Some]]
    have fr: "fresh_chain w n c" by (rule nw(3))
    have ok0: "evbuffer_ok w0 b" by (rule ok_later [OF ok nw(1)])
    have c: "chain_ok w0 c" using nw(2) fr by (intro fresh_chain_ok [OF fr]) (auto simp: fresh_chain_def)
    have z: "off c = 0" using fr by (simp add: fresh_chain_def)
    obtain w2 where i: "evbuffer_chain_insert w0 b c = (w2, inserted pre post c b)"
      and B: "becomes w0 b w2 (inserted pre post c b) (content b @ chain_data c)"
      using fresh_notin [OF ok fr] okD(5) [OF ok] z by (rule_tac insert_becomes [OF ok0 cut c]) simp_all
    have r: "w1 = w2" "b1 = inserted pre post c b" "x = Some c"
      using run i unfolding evbuffer_chain_insert_new_def Pair Some by simp_all
    have "cut b1 pre (used post @ [c])"
    proof (cases "used post")
      case Nil
      have "pre = []"
      proof (rule ccontr)
        assume "pre \<noteq> []"
        then have "post \<noteq> []" "off (hd post) \<noteq> 0" using cutD(4,5) [OF cut] by blast+
        then show False using Nil by (cases post) (simp_all add: used_def)
      qed
      then show ?thesis using Nil z by (intro cutI) (simp_all add: r(2) inserted_def)
    next
      case (Cons d ds)
      then have "ds = []" "off d \<noteq> 0" by (cases post; simp add: used_def split: if_splits)+
      then show ?thesis using z Cons by (intro cutI) (auto simp: r(2) inserted_def)
    qed
    then show ?thesis
      using r z fr chain_ok_later [OF c becomesD(1) [OF B]] later_becomes [OF nw(1) B] by simp
  qed
qed

subsection \<open>Expanding\<close>

text \<open>
  \<open>room b ch n\<close>: the chain can take \<open>n\<close> more bytes and the data of the buffer would end there.
\<close>

definition room :: "evbuffer \<Rightarrow> evbuffer_chain \<Rightarrow> nat \<Rightarrow> bool" where
  "room b ch n \<longleftrightarrow>
     CHAIN_SPACE_LEN ch \<ge> n \<and> \<not> has (cflags ch) EVBUFFER_IMMUTABLE \<and>
     (\<exists>pre us rest. cut b pre (us @ ch # rest) \<and> length us \<le> 1)"

lemma room_fresh:
  assumes "fresh_chain w n c" "cut b pre (used post @ [c])"
  shows "room b c n"
proof -
  have "length (used post) \<le> 1" by (cases post) (simp_all add: used_def)
  then show ?thesis using assms unfolding room_def by (auto simp: fresh_chain_def CHAIN_SPACE_LEN_def)
qed

lemma insert_new_room:
  assumes ok: "evbuffer_ok w b" and run: "evbuffer_chain_insert_new w b n = (w1, b1, x)"
  shows "becomes w b w1 b1 (content b)" "case x of None \<Rightarrow> no_room w n | Some c \<Rightarrow> room b1 c n"
proof -
  obtain pre post where cut: "cut b pre post" using okD(6) [OF ok] by blast
  have "becomes w b w1 b1 (content b) \<and> (case x of None \<Rightarrow> no_room w n | Some c \<Rightarrow> room b1 c n)"
    using insert_new_ok [OF ok cut run] becomes_same [OF ok] room_fresh by (cases x) auto
  then show "becomes w b w1 b1 (content b)" "case x of None \<Rightarrow> no_room w n | Some c \<Rightarrow> room b1 c n" by blast+
qed

lemma first_with_space_ok:
  assumes ok: "evbuffer_ok w b" and cut: "cut b pre post"
  shows "first_with_space b =
    (case post of
       [] \<Rightarrow> (pre, [], slot_after pre)
     | c # cs \<Rightarrow> if CHAIN_SPACE_LEN c = 0 then (pre @ [c], cs, slot_after (pre @ [c])) else (pre, c # cs, slot_after pre))"
  using split_at_cut [OF ok cut] cutD(2) [OF cut] by (cases post) (simp_all add: first_with_space_def)

lemma has_either: "has f (EVBUFFER_IMMUTABLE OR EVBUFFER_MEM_PINNED_ANY) \<longleftrightarrow>
  has f EVBUFFER_IMMUTABLE \<or> has f EVBUFFER_MEM_PINNED_ANY"
  by (rule has_or_mask)

text \<open>Replacing the chain at the cut by one with the same data.\<close>

lemma replace_head:
  assumes ok: "evbuffer_ok w b" and cut: "cut b pre (c # rest)" and ch: "chain_ok w ch" "chain_data ch = chain_data c"
    "cid ch = cid c \<or> cid ch \<notin> cid ` set (chains b)"
    and b': "chains b' = pre @ ch # rest" "last_with_datap b' = last_with_datap b" "total_len b' = total_len b"
      "blast b' = last_cid (pre @ ch # rest)" "freeze_start b' = freeze_start b" "freeze_end b' = freeze_end b"
  shows "becomes w b w b' (content b)" "cut b' pre (ch # rest)"
proof -
  have o: "off ch = off c" using arg_cong [OF ch(2), of length] by simp
  have cs: "chains b = pre @ c # rest" using cutD(1) [OF cut] .
  show cut': "cut b' pre (ch # rest)" using cut o by (simp add: cut_def b')
  have ct: "content b' = content b" using ch(2) by (simp add: content_def b'(1) cs)
  have "distinct (map cid (pre @ ch # rest))"
    using okD(1) [OF ok] ch(3) cs by (auto simp: image_iff)
  then have "evbuffer_ok w b'"
    using ch(1) okD(2) [OF ok] okD(4,5) [OF ok] ct cs by (intro okI [OF _ _ _ cut']) (auto simp: b')
  then show "becomes w b w b' (content b)" using ct by (intro becomesI) (simp_all add: b')
qed

lemma last_cid_replace: "cid ch = cid c \<Longrightarrow> last_cid (pre @ ch # rest) = last_cid (pre @ c # rest)"
  by (intro last_cid_cong) simp

lemma expand_realign:
  assumes ok: "evbuffer_ok w b" and cut: "cut b pre (c # rest)" and mut: "\<not> has (cflags c) EVBUFFER_IMMUTABLE"
    and re: "evbuffer_chain_should_realign c n" and run: "evbuffer_chain_align w c = (w1, c1)"
  shows "becomes w b w1 (put_chain c1 b) (content b)" "room (put_chain c1 b) c1 n"
proof -
  have c: "chain_ok w c" using okD(2) [OF ok, of c] cutD(1) [OF cut] by simp
  have r: "w1 = w" "c1 = c\<lparr>cbuffer := mem_write (cbuffer c) 0 (chain_data c), misalign := 0\<rparr>"
    using run chain_align_ok [OF c mut] by simp_all
  have c1: "chain_ok w c1" "chain_data c1 = chain_data c" "cid c1 = cid c"
    using chain_okD(2) [OF c] by (intro chain_ok_grow [OF c mut]) (simp_all add: r(2) align_data)
  have p: "put_chain c1 b = b\<lparr>chains := pre @ c1 # rest\<rparr>"
    using okD(1) [OF ok] cutD(1) [OF cut] c1(3) by (intro put_chain_in) simp_all
  have R: "becomes w b w (put_chain c1 b) (content b)" "cut (put_chain c1 b) pre (c1 # rest)"
    using okD(3) [OF ok] cutD(1) [OF cut] last_cid_replace [OF c1(3)] c1
    by (intro replace_head [OF ok cut c1(1,2)]; simp add: p)+
  show "becomes w b w1 (put_chain c1 b) (content b)" using R(1) r(1) by simp
  show "room (put_chain c1 b) c1 n"
    using R(2) re mut unfolding room_def
    by (intro conjI exI [of _ pre] exI [of _ "[]"] exI [of _ rest])
      (auto simp: r(2) CHAIN_SPACE_LEN_def evbuffer_chain_should_realign_def)
qed

lemma expand_resize:
  assumes ok: "evbuffer_ok w b" and cut: "cut b pre (c # rest)"
    and new: "evbuffer_chain_new w (off c + n) = (w1, Some tmp)"
    and run: "memcpy_to w1 (tmp\<lparr>off := off c\<rparr>) 0 (chain_data c) = (w2, t)"
    and b': "b' = b\<lparr>chains := pre @ t # rest, blast := (if blast b = Some (cid c) then Some (cid tmp) else blast b)\<rparr>"
  shows "becomes w b (evbuffer_chain_free w2 c) b' (content b)" "room b' t n"
proof -
  note nw = chain_new_Some [OF new]
  have fr: "fresh_chain w (off c + n) tmp" by (rule nw(3))
  have ok1: "evbuffer_ok w1 b" by (rule ok_later [OF ok nw(1)])
  have cs: "chains b = pre @ c # rest" using cutD(1) [OF cut] .
  have c: "chain_ok w1 c" using okD(2) [OF ok1, of c] cs by simp
  have r: "w2 = w1" "t = tmp\<lparr>off := off c, cbuffer := mem_write (cbuffer tmp) 0 (chain_data c)\<rparr>"
    using run memcpy_ok [of 0 "chain_data c" "tmp\<lparr>off := off c\<rparr>" w1] fr by (simp_all add: fresh_chain_def)
  have t: "chain_ok w1 t" using nw(2) fr by (intro fresh_chain_ok [OF fr]) (auto simp: r(2) fresh_chain_def)
  have td: "chain_data t = chain_data c"
    using fr by (intro nth_equalityI) (auto simp: r(2) chain_data_def chain_bytes_def mem_write_def fresh_chain_def)
  have notin: "cid t \<notin> cid ` set (chains b)" using fresh_notin [OF ok fr] by (simp add: r(2))
  have lst: "(if blast b = Some (cid c) then Some (cid tmp) else blast b) = last_cid (pre @ t # rest)"
  proof (cases "rest = []")
    case True
    then show ?thesis using okD(3) [OF ok] cs by (simp add: r(2))
  next
    case False
    then have "last rest \<in> set rest" by simp
    then have "cid (last rest) \<noteq> cid c" using okD(1) [OF ok] cs by (auto simp: image_iff)
    then show ?thesis using False okD(3) [OF ok] cs by (simp add: last_cid_def)
  qed
  have R: "becomes w1 b w1 b' (content b)" "cut b' pre (t # rest)"
    using lst by (intro replace_head [OF ok1 cut t td disjI2 [OF notin]]; simp add: b')+
  show "becomes w b (evbuffer_chain_free w2 c) b' (content b)"
    using becomes_same_data [OF later_becomes [OF nw(1) R(1)] chain_free_later [OF c, of w1] same_data_refl] r(1) by simp
  show "room b' t n"
    using R(2) fr unfolding room_def
    by (intro conjI exI [of _ pre] exI [of _ "[]"] exI [of _ rest])
      (auto simp: r(2) CHAIN_SPACE_LEN_def fresh_chain_def)
qed

lemma tail_mutable:
  assumes "evbuffer_ok w b" "cut b pre post" "d \<in> set (tl post)"
  shows "\<not> has (cflags d) EVBUFFER_IMMUTABLE" "off d = 0" "chain_ok w d"
proof -
  have "d \<in> set (chains b)" using cutD(1) [OF assms(2)] in_tl [OF assms(3)] by simp
  then show "chain_ok w d" by (rule okD(2) [OF assms(1)])
  show "off d = 0" using cutD(3) [OF assms(2,3)] .
  then show "\<not> has (cflags d) EVBUFFER_IMMUTABLE" using chain_okD(8) [OF \<open>chain_ok w d\<close>] by blast
qed

lemma roomI:
  assumes "CHAIN_SPACE_LEN ch \<ge> n" "\<not> has (cflags ch) EVBUFFER_IMMUTABLE" "cut b pre (us @ ch # rest)" "length us \<le> 1"
  shows "room b ch n"
  using assms unfolding room_def by blast

text \<open>What comes before the final assertion of \<^verbatim>\<open>evbuffer_expand_singlechain\<close>.\<close>

lemma expand_inner:
  assumes ok: "evbuffer_ok w b" and cut: "cut b pre (c # cs)" and nz: "CHAIN_SPACE_LEN c \<noteq> 0"
    and run: "(if has (cflags c) (EVBUFFER_IMMUTABLE OR EVBUFFER_MEM_PINNED_ANY) then evbuffer_chain_insert_new w b n
       else if CHAIN_SPACE_LEN c \<ge> n then (w, b, Some c)
       else if off c = 0 then evbuffer_chain_insert_new w b n
       else if evbuffer_chain_should_realign c n then
         (case evbuffer_chain_align w c of (w1, ch1) \<Rightarrow> (w1, put_chain ch1 b, Some ch1))
       else if CHAIN_SPACE_LEN c < buffer_len c div 8 \<or> off c > MAX_TO_COPY_IN_EXPAND \<or> n \<ge> EVBUFFER_CHAIN_MAX - off c then
         (case cs of
            nch # _ \<Rightarrow> if CHAIN_SPACE_LEN nch \<ge> n then (w, b, Some nch) else evbuffer_chain_insert_new w b n
          | [] \<Rightarrow> evbuffer_chain_insert_new w b n)
       else (case evbuffer_chain_new w (off c + n) of
               (w1, None) \<Rightarrow> (w1, b, None)
             | (w1, Some tmp) \<Rightarrow>
                 (case memcpy_to w1 (tmp\<lparr>off := off c\<rparr>) 0 (chain_data c) of
                    (w2, tmp1) \<Rightarrow>
                      (evbuffer_chain_free w2 c,
                       b\<lparr>chains := pre @ tmp1 # cs, blast := (if blast b = Some (cid c) then Some (cid tmp) else blast b)\<rparr>,
                       Some tmp1)))) = (w', b', x)"
  shows "becomes w b w' b' (content b) \<and> (case x of None \<Rightarrow> no_room w (n + MAX_TO_COPY_IN_EXPAND) | Some d \<Rightarrow> room b' d n)"
proof -
  have c: "chain_ok w c" using okD(2) [OF ok, of c] cutD(1) [OF cut] by simp
  have mut: "\<not> has (cflags c) EVBUFFER_IMMUTABLE" using nz by (auto simp: CHAIN_SPACE_LEN_def split: if_splits)
  have fl: "\<not> has (cflags c) (EVBUFFER_IMMUTABLE OR EVBUFFER_MEM_PINNED_ANY)"
    using mut chain_okD(6) [OF c] by (simp add: has_either pinned_any)
  have same: "becomes w b w b (content b)" by (rule becomes_same [OF ok later_refl])
  have ins: ?thesis if "evbuffer_chain_insert_new w b n = (w', b', x)"
    using insert_new_room [OF ok that] no_room_mono [of n "n + MAX_TO_COPY_IN_EXPAND" w] by (cases x) auto
  consider (fits) "CHAIN_SPACE_LEN c \<ge> n" | (empty) "CHAIN_SPACE_LEN c < n" "off c = 0"
    | (realign) "CHAIN_SPACE_LEN c < n" "off c \<noteq> 0" "evbuffer_chain_should_realign c n"
    | (other) "CHAIN_SPACE_LEN c < n" "off c \<noteq> 0" "\<not> evbuffer_chain_should_realign c n"
        "CHAIN_SPACE_LEN c < buffer_len c div 8 \<or> off c > MAX_TO_COPY_IN_EXPAND \<or> n \<ge> EVBUFFER_CHAIN_MAX - off c"
    | (resize) "CHAIN_SPACE_LEN c < n" "off c \<noteq> 0" "\<not> evbuffer_chain_should_realign c n"
        "\<not> (CHAIN_SPACE_LEN c < buffer_len c div 8 \<or> off c > MAX_TO_COPY_IN_EXPAND \<or> n \<ge> EVBUFFER_CHAIN_MAX - off c)"
    by linarith
  then show ?thesis
  proof cases
    case fits
    then show ?thesis using run fl same roomI [OF fits mut, of b pre "[]" cs] cut by auto
  next
    case empty
    then show ?thesis using run fl by (intro ins) simp
  next
    case realign
    obtain w1 c1 where a: "evbuffer_chain_align w c = (w1, c1)" by fastforce
    then have "(w', b', x) = (w1, put_chain c1 b, Some c1)" using run fl realign by simp
    then show ?thesis using expand_realign [OF ok cut mut realign(3) a] by simp
  next
    case other
    show ?thesis
    proof (cases "cs \<noteq> [] \<and> CHAIN_SPACE_LEN (hd cs) \<ge> n")
      case True
      then obtain d ds where cs: "cs = d # ds" by (cases cs) auto
      have "(w', b', x) = (w, b, Some d)" using run fl other True cs by simp
      then show ?thesis
        using same roomI [of n d b pre "[c]" ds] tail_mutable [OF ok cut, of d] cut True cs by simp
    next
      case False
      then show ?thesis using run fl other by (intro ins) (cases cs; simp)
    qed
  next
    case resize
    then have "off c \<le> MAX_TO_COPY_IN_EXPAND" by simp
    then have mono: "no_room w (off c + n) \<Longrightarrow> no_room w (n + MAX_TO_COPY_IN_EXPAND)" by (erule_tac no_room_mono [rotated]) simp
    note run1 = run [unfolded if_not_P [OF fl] if_not_P [OF resize(4)] if_not_P [OF resize(3)] if_not_P [OF resize(2)]]
    obtain w1 y where N: "evbuffer_chain_new w (off c + n) = (w1, y)" by fastforce
    show ?thesis
    proof (cases y)
      case None
      then have "w' = w1 \<and> b' = b \<and> x = None" using run1 resize(1) N by simp
      then show ?thesis using chain_new_None [OF N [unfolded None]] becomes_same [OF ok] mono by (auto simp: no_room_def)
    next
      case (Some tmp)
      obtain w2 t where m: "memcpy_to w1 (tmp\<lparr>off := off c\<rparr>) 0 (chain_data c) = (w2, t)" by fastforce
      have "w' = evbuffer_chain_free w2 c \<and> x = Some t \<and>
          b' = b\<lparr>chains := pre @ t # cs, blast := (if blast b = Some (cid c) then Some (cid tmp) else blast b)\<rparr>"
        using run1 [unfolded N Some prod.case option.case m] resize(1) by (simp split del: if_split)
      then show ?thesis using expand_resize [OF ok cut N [unfolded Some] m] by simp
    qed
  qed
qed

lemma expand_singlechain_ok:
  assumes ok: "evbuffer_ok w b" and run: "evbuffer_expand_singlechain w b n = (w', b', x)"
  shows "becomes w b w' b' (content b)" "case x of None \<Rightarrow> no_room w (n + MAX_TO_COPY_IN_EXPAND) | Some d \<Rightarrow> room b' d n"
proof -
  obtain pre post where cut: "cut b pre post" using okD(6) [OF ok] by blast
  let ?good = "\<lambda>w' b' x. becomes w b w' b' (content b) \<and>
    (case x of None \<Rightarrow> no_room w (n + MAX_TO_COPY_IN_EXPAND) | Some d \<Rightarrow> room b' d n)"
  have ins: "?good u v x" if "evbuffer_chain_insert_new w b n = (u, v, x)" for u v x
    using insert_new_room [OF ok that] no_room_mono [of n "n + MAX_TO_COPY_IN_EXPAND" w] by (cases x) auto
  have fin: "?good w' b' x" if "(case r of (w3, b3, None) \<Rightarrow> (w3, b3, None)
      | (w3, b3, Some res) \<Rightarrow> (bcheck (CHAIN_SPACE_LEN res \<ge> n) w3, b3, Some res)) = (w', b', x)"
      and good: "\<And>u v y. r = (u, v, y) \<Longrightarrow> ?good u v y" for r
  proof -
    obtain u v y where r: "r = (u, v, y)" by (metis prod_cases3)
    then show ?thesis using that(1) good [OF r] by (cases y) (auto simp: room_def)
  qed
  have "?good w' b' x"
  proof (rule fin [OF run [unfolded evbuffer_expand_singlechain_def]])
    fix u v y
    assume r: "(case first_with_space b of
              (pre, [], _) \<Rightarrow> evbuffer_chain_insert_new w b n
            | (pre, ch # next, _) \<Rightarrow>
                if has (cflags ch) (EVBUFFER_IMMUTABLE OR EVBUFFER_MEM_PINNED_ANY) then evbuffer_chain_insert_new w b n
                else if CHAIN_SPACE_LEN ch \<ge> n then (w, b, Some ch)
                else if off ch = 0 then evbuffer_chain_insert_new w b n
                else if evbuffer_chain_should_realign ch n then
                  (case evbuffer_chain_align w ch of (w1, ch1) \<Rightarrow> (w1, put_chain ch1 b, Some ch1))
                else if CHAIN_SPACE_LEN ch < buffer_len ch div 8 \<or> off ch > MAX_TO_COPY_IN_EXPAND \<or>
                        n \<ge> EVBUFFER_CHAIN_MAX - off ch then
                  (case next of
                     nch # _ \<Rightarrow> if CHAIN_SPACE_LEN nch \<ge> n then (w, b, Some nch)
                                else evbuffer_chain_insert_new w b n
                   | [] \<Rightarrow> evbuffer_chain_insert_new w b n)
                else (case evbuffer_chain_new w (off ch + n) of
                        (w1, None) \<Rightarrow> (w1, b, None)
                      | (w1, Some tmp) \<Rightarrow>
                          (case memcpy_to w1 (tmp\<lparr>off := off ch\<rparr>) 0 (chain_data ch) of
                             (w2, tmp1) \<Rightarrow>
                               (evbuffer_chain_free w2 ch,
                                b\<lparr>chains := pre @ tmp1 # next,
                                  blast := (if blast b = Some (cid ch) then Some (cid tmp) else blast b)\<rparr>,
                                Some tmp1)))) = (u, v, y)"
    show "?good u v y"
    proof (cases post)
      case Nil
      then show ?thesis using r by (intro ins) (simp add: first_with_space_ok [OF ok cut])
    next
      case (Cons c cs)
      show ?thesis
      proof (cases "CHAIN_SPACE_LEN c = 0")
        case False
        have f: "first_with_space b = (pre, c # cs, slot_after pre)" using first_with_space_ok [OF ok cut] Cons False by simp
        show ?thesis by (rule expand_inner [OF ok cut [unfolded Cons] False r [unfolded f prod.case list.case]])
      next
        case True
        show ?thesis
        proof (cases cs)
          case Nil
          then show ?thesis using r True Cons by (intro ins) (simp add: first_with_space_ok [OF ok cut])
        next
          case d: (Cons d ds)
          have t: "\<not> has (cflags d) EVBUFFER_IMMUTABLE" "off d = 0" "chain_ok w d"
            using tail_mutable [OF ok cut, of d] Cons d by simp_all
          then have fl: "\<not> has (cflags d) (EVBUFFER_IMMUTABLE OR EVBUFFER_MEM_PINNED_ANY)"
            using chain_okD(6) by (simp add: has_either pinned_any)
          show ?thesis
          proof (cases "CHAIN_SPACE_LEN d \<ge> n")
            case le: True
            then have "(u, v, y) = (w, b, Some d)"
              using r True Cons d fl by (simp add: first_with_space_ok [OF ok cut])
            then show ?thesis
              using becomes_same [OF ok later_refl] roomI [of n d b pre "[c]" ds] le t(1) cut Cons d by simp
          next
            case False
            then show ?thesis using r True Cons d fl t(2) by (intro ins) (simp add: first_with_space_ok [OF ok cut])
          qed
        qed
      qed
    qed
  qed
  then show "becomes w b w' b' (content b)"
    "case x of None \<Rightarrow> no_room w (n + MAX_TO_COPY_IN_EXPAND) | Some d \<Rightarrow> room b' d n" by blast+
qed

lemma expand_ok:
  assumes ok: "evbuffer_ok w b" and run: "evbuffer_expand w b n = (w', b', r)"
  shows "becomes w b w' b' (content b) \<and> (r = 0 \<and> (\<exists>ch. room b' ch n) \<or> r = -1 \<and> no_room w (n + MAX_TO_COPY_IN_EXPAND))"
proof -
  obtain u v x where e: "evbuffer_expand_singlechain w b n = (u, v, x)" by (metis prod_cases3)
  then show ?thesis
    using run expand_singlechain_ok [OF ok e] by (cases x) (auto simp: evbuffer_expand_def)
qed

subsection \<open>Room in several chains\<close>

text \<open>The first \<open>n\<close> chains with room can take \<open>k\<close> bytes.\<close>

definition ample :: "evbuffer \<Rightarrow> nat \<Rightarrow> nat \<Rightarrow> bool" where
  "ample b n k \<longleftrightarrow> k \<le> sum_list (map CHAIN_SPACE_LEN (take n (fst (snd (first_with_space b)))))"

text \<open>The loop realigns empty chains and changes nothing else.\<close>

definition realigned :: "evbuffer_chain \<Rightarrow> evbuffer_chain \<Rightarrow> bool" where
  "realigned c c' \<longleftrightarrow> (if off c = 0 then c' = c\<lparr>misalign := 0\<rparr> \<or> c' = c else c' = c)"

lemma realigned_fields:
  assumes "realigned c c'"
  shows "cid c' = cid c" "off c' = off c" "cflags c' = cflags c" "buffer_len c' = buffer_len c" "chain_data c' = chain_data c"
    "chain_ok w c \<Longrightarrow> chain_ok w c'"
  using assms by (auto simp: realigned_def chain_ok_def CHAIN_PINNED_def split: if_splits)

lemma realigned_list:
  assumes "list_all2 realigned cs cs'"
  shows "map cid cs' = map cid cs" "map off cs' = map off cs" "concat (map chain_data cs') = concat (map chain_data cs)"
    "\<forall>c \<in> set cs. chain_ok w c \<Longrightarrow> \<forall>c \<in> set cs'. chain_ok w c" "length cs' = length cs"
  using assms
proof (induction rule: list_all2_induct)
  case (Cons c cs c' cs')
  note f = realigned_fields [OF Cons(1)]
  { case 1 then show ?case using Cons f by simp }
  { case 2 then show ?case using Cons f by simp }
  { case 3 then show ?case using Cons f by simp }
  { case 4 then show ?case using Cons f by simp }
  { case 5 then show ?case using Cons by simp }
qed simp_all

lemma realigned_refl: "list_all2 realigned cs cs"
  by (rule list_all2_refl) (simp add: realigned_def)

lemma realigned_off: "list_all2 realigned cs cs' \<Longrightarrow> \<forall>c \<in> set cs. off c = 0 \<Longrightarrow> \<forall>c \<in> set cs'. off c = 0"
  by (drule realigned_list(2)) (metis image_iff list.set_map)

text \<open>
  Chains without data, after the first one: each one visited is realigned and offers its whole block.
\<close>

lemma expand_fast_tail:
  assumes "\<forall>c \<in> set cs. off c = 0 \<and> chain_ok u c" "avail < datlen" "usd < n"
    "expand_fast_loop l n datlen avail usd w cs = (w', cs', r)"
  shows "w' = w \<and> list_all2 realigned cs cs' \<and>
    (case r of
       None \<Rightarrow> datlen \<le> avail + sum_list (map CHAIN_SPACE_LEN (take (n - usd) cs'))
     | Some (a, k, e) \<Rightarrow> avail \<le> a \<and> a < datlen \<and> k \<le> n \<and> (k < n \<longrightarrow> e \<and> k = usd + length cs' \<and>
         a = avail + sum_list (map CHAIN_SPACE_LEN cs')))"
  using assms
proof (induction cs arbitrary: avail usd w cs')
  case Nil
  then show ?case by auto
next
  case (Cons c cs)
  let ?c = "c\<lparr>misalign := 0\<rparr>"
  have c: "off c = 0" "chain_ok u c" using Cons.prems(1) by simp_all
  then have mut: "\<not> has (cflags c) EVBUFFER_IMMUTABLE" using chain_okD(8) by blast
  then have sp: "CHAIN_SPACE_LEN ?c = buffer_len c" using c(1) by (simp add: CHAIN_SPACE_LEN_def)
  have rc: "realigned c ?c" using c(1) by (simp add: realigned_def)
  obtain m where m: "n - usd = Suc m" using Cons.prems(3) by (metis Suc_diff_Suc)
  consider (enough) "avail + buffer_len c \<ge> datlen" | (full) "avail + buffer_len c < datlen" "usd + 1 = n"
    | (more) "avail + buffer_len c < datlen" "usd + 1 < n" using Cons.prems(3) by linarith
  then show ?case
  proof cases
    case enough
    then show ?thesis using Cons.prems(4) c(1) rc realigned_refl m sp by (auto simp: Let_def)
  next
    case full
    then show ?thesis using Cons.prems(4) c(1) rc realigned_refl by (auto simp: Let_def)
  next
    case more
    obtain cs1 where r: "expand_fast_loop l n datlen (avail + buffer_len c) (usd + 1) w cs = (w', cs1, r)" "cs' = ?c # cs1"
      using Cons.prems(4) c(1) more by (auto simp: Let_def split: prod.splits)
    have all: "\<forall>c \<in> set cs. off c = 0 \<and> chain_ok u c" using Cons.prems(1) by simp
    have "n - (usd + 1) = m" using m by simp
    then show ?thesis
      using Cons.IH [OF all more r(1)] r(2) rc m sp by (auto split: option.splits)
  qed
qed

lemma ample_eq:
  assumes "evbuffer_ok w b" "cut b pre (c # cs)"
  shows "ample b n k \<longleftrightarrow>
    k \<le> sum_list (map CHAIN_SPACE_LEN (take n (if CHAIN_SPACE_LEN c = 0 then cs else c # cs)))"
  using first_with_space_ok [OF assms] by (simp add: ample_def)

text \<open>The chains from the cut on are replaced by realigned ones.\<close>

lemma realigned_ok:
  assumes ok: "evbuffer_ok w b" and cut: "cut b pre post" and r: "list_all2 realigned post post'"
  shows "becomes w b w (b\<lparr>chains := pre @ post'\<rparr>) (content b)" "cut (b\<lparr>chains := pre @ post'\<rparr>) pre post'"
proof -
  note R = realigned_list [OF r]
  let ?b = "b\<lparr>chains := pre @ post'\<rparr>"
  have ch: "chains b = pre @ post" using cutD(1) [OF cut] .
  have ct: "content ?b = content b" using R(3) by (simp add: content_def ch)
  have "\<forall>c \<in> set (tl post). off c = 0" using cut by (simp add: cut_def)
  moreover have "map off (tl post') = map off (tl post)" using R(2) by (simp add: map_tl)
  ultimately have tl: "\<forall>c \<in> set (tl post'). off c = 0" by (metis image_iff list.set_map)
  have hd: "off (hd post') = off (hd post)" if "post \<noteq> []"
    using that R(2,5) by (cases post; cases post') auto
  show cut': "cut ?b pre post'"
    using cut tl hd R(5) by (auto simp: cut_def)
  have ids: "map cid (pre @ post') = map cid (pre @ post)" using R(1) by simp
  have "evbuffer_ok w ?b"
  proof (intro okI [OF _ _ _ cut'])
    show "distinct (map cid (chains ?b))" using okD(1) [OF ok] ids ch by simp
    show "blast ?b = last_cid (chains ?b)" using okD(3) [OF ok] last_cid_cong [OF ids] ch by simp
    fix x assume "x \<in> set (chains ?b)"
    then show "chain_ok w x" using okD(2) [OF ok] R(4) [of w] ch by auto
  qed (use okD(4,5) [OF ok] ct in simp_all)
  then show "becomes w b w ?b (content b)" using ct by (intro becomesI) simp_all
qed

text \<open>A fresh chain behind everything.\<close>

lemma appended_ok:
  assumes ok: "evbuffer_ok w b" and cut: "cut b pre post" and ne: "post \<noteq> []"
    and new: "evbuffer_chain_new w m = (w1, Some t)"
  shows "becomes w b w1 (b\<lparr>chains := chains b @ [t], blast := Some (cid t)\<rparr>) (content b)"
    "cut (b\<lparr>chains := chains b @ [t], blast := Some (cid t)\<rparr>) pre (post @ [t])"
proof -
  note nw = chain_new_Some [OF new]
  let ?b = "b\<lparr>chains := chains b @ [t], blast := Some (cid t)\<rparr>"
  have fr: "off t = 0" using nw(3) by (simp add: fresh_chain_def)
  have t: "chain_ok w1 t" using nw(2,3) by (intro fresh_chain_ok [OF nw(3)]) (auto simp: fresh_chain_def)
  show cut': "cut ?b pre (post @ [t])" using cut ne fr by (auto simp: cut_def)
  have ct: "content ?b = content b" using fr by (simp add: content_def)
  have "evbuffer_ok w1 ?b"
    using okD(1,4,5) [OF ok] okD(2) [OF ok_later [OF ok nw(1)]] fresh_notin [OF ok nw(3)] t ct
    by (intro okI [OF _ _ _ cut']) auto
  then show "becomes w b w1 ?b (content b)" using nw(1) ct by (intro becomesI) simp_all
qed
definition with_space :: "evbuffer_chain list \<Rightarrow> evbuffer_chain list" where
  "with_space cs = (case cs of [] \<Rightarrow> [] | c # r \<Rightarrow> if CHAIN_SPACE_LEN c = 0 then r else c # r)"

lemma ample_cut:
  assumes "evbuffer_ok w b" "cut b pre post"
  shows "ample b n k \<longleftrightarrow> k \<le> sum_list (map CHAIN_SPACE_LEN (take n (with_space post)))"
  using first_with_space_ok [OF assms] by (cases post) (simp_all add: ample_def with_space_def)

lemma expand_fast_all:
  assumes c: "chain_ok u c" and cs: "\<forall>c \<in> set cs. off c = 0 \<and> chain_ok u c" and n: "2 \<le> n"
    and run: "expand_fast_loop (Some (cid c)) n datlen 0 0 w (c # cs) = (w', post', r)"
  shows "w' = w \<and> list_all2 realigned (c # cs) post' \<and>
    (case r of
       None \<Rightarrow> datlen \<le> sum_list (map CHAIN_SPACE_LEN (take n (with_space post')))
     | Some (a, k, e) \<Rightarrow> a < datlen \<and> k \<le> n \<and> (off c \<noteq> 0 \<longrightarrow> CHAIN_SPACE_LEN c \<le> a) \<and>
         (k < n \<longrightarrow> e \<and> k = length (with_space post') \<and> a = sum_list (map CHAIN_SPACE_LEN (with_space post'))))"
proof -
  define d where "d = (if off c = 0 then c\<lparr>misalign := 0\<rparr> else c)"
  define a where "a = CHAIN_SPACE_LEN d"
  define k where "k = (if a = 0 then 0 else 1 :: nat)"
  have rd: "realigned c d" by (simp add: realigned_def d_def)
  have mut: "\<not> has (cflags c) EVBUFFER_IMMUTABLE" if "off c = 0" using chain_okD(8) [OF c] that by blast
  have a: "a = (if off c = 0 then buffer_len c else CHAIN_SPACE_LEN c)"
    using mut by (auto simp: a_def d_def CHAIN_SPACE_LEN_def)
  have k0: "off c = 0 \<Longrightarrow> k = 1" using chain_okD(3) [OF c] a by (simp add: k_def)
  have st: "expand_fast_loop (Some (cid c)) n datlen 0 0 w (c # cs) =
      (if a \<ge> datlen then (w, d # cs, None)
       else case expand_fast_loop (Some (cid c)) n datlen a k w cs of (w2, cs', r) \<Rightarrow> (w2, d # cs', r))"
    using n k0 a by (auto simp: Let_def d_def k_def)
  have ws: "with_space (d # xs) = (if k = 0 then xs else d # xs)" for xs by (simp add: with_space_def a_def k_def)
  show ?thesis
  proof (cases "a \<ge> datlen")
    case True
    then have "r = None" "post' = d # cs" "w' = w" using run st by simp_all
    moreover have "datlen \<le> sum_list (map CHAIN_SPACE_LEN (take n (with_space (d # cs))))"
      using True n by (cases n) (auto simp: ws k_def a_def [symmetric])
    ultimately show ?thesis using rd realigned_refl by simp
  next
    case False
    obtain cs1 where r: "expand_fast_loop (Some (cid c)) n datlen a k w cs = (w', cs1, r)" "post' = d # cs1"
      using run st False by (auto split: prod.splits)
    have kn: "k < n" using n by (simp add: k_def)
    note T = expand_fast_tail [OF cs _ kn r(1)]
    have s: "a + sum_list (map CHAIN_SPACE_LEN (take (n - k) cs1)) = sum_list (map CHAIN_SPACE_LEN (take n (with_space (d # cs1))))"
      using n by (cases n) (auto simp: ws k_def a_def [symmetric])
    have l: "k + length cs1 = length (with_space (d # cs1))" "a + sum_list (map CHAIN_SPACE_LEN cs1) = sum_list (map CHAIN_SPACE_LEN (with_space (d # cs1)))"
      by (auto simp: ws k_def a_def [symmetric])
    show ?thesis using T False rd r(2) s l a by (auto split: option.splits)
  qed
qed

lemma with_space_append: "xs \<noteq> [] \<Longrightarrow> with_space (xs @ ys) = with_space xs @ ys"
  by (cases xs) (auto simp: with_space_def)

lemma fresh_space: "fresh_chain w m t \<Longrightarrow> CHAIN_SPACE_LEN t \<ge> m \<and> CHAIN_SPACE_LEN t \<noteq> 0"
  by (simp add: fresh_chain_def CHAIN_SPACE_LEN_def)

lemma free_all_becomes:
  assumes "becomes w b w b' bs" "\<forall>c \<in> set cs. chain_ok w c"
  shows "becomes w b (evbuffer_free_all_chains w cs) b' bs"
  using becomes_same_data [OF assms(1) free_all_later [OF assms(2)] same_data_refl] .

text \<open>All empty chains are replaced by one.\<close>

lemma nuke_ok:
  assumes ok: "evbuffer_ok w b" and cut: "cut b pre (c # cs)" and n: "2 \<le> n" and room: "off c \<noteq> 0 \<longrightarrow> CHAIN_SPACE_LEN c \<le> datlen"
    and run: "(let rmv_all = (off c = 0); w2 = (if rmv_all then bcheck (pre = []) w else w);
                 avail1 = (if rmv_all then 0 else CHAIN_SPACE_LEN c);
                 victims = (if rmv_all then c # cs else cs);
                 w3 = evbuffer_free_all_chains (bcheck (\<forall>c \<in> set victims. off c = 0) w2) victims
             in case evbuffer_chain_new (bcheck (datlen \<ge> avail1) w3) (datlen - avail1) of
                  (w4, None) \<Rightarrow> (w4, if rmv_all then ZERO_CHAIN b else b\<lparr>blast := Some (cid c), chains := pre @ [c]\<rparr>, -1)
                | (w4, Some tmp) \<Rightarrow>
                    (w4, if rmv_all then b\<lparr>chains := [tmp], blast := Some (cid tmp), last_with_datap := First\<rparr>
                         else b\<lparr>chains := pre @ [c, tmp], blast := Some (cid tmp)\<rparr>, 0)) = (w', b', r)"
  shows "becomes w b w' b' (content b) \<and> (r = 0 \<and> chains b' \<noteq> [] \<and> ample b' n datlen \<or> r = -1 \<and> no_room w datlen)"
proof -
  have ch: "chains b = pre @ c # cs" using cutD(1) [OF cut] .
  have all: "\<forall>x \<in> set (c # cs). chain_ok w x" using okD(2) [OF ok] ch by simp
  have tl: "\<forall>x \<in> set cs. off x = 0" using cut by (simp add: cut_def)
  define keep where "keep = (if off c = 0 then [] else pre @ [c])"
  define vict where "vict = (if off c = 0 then c # cs else cs)"
  define av where "av = (if off c = 0 then 0 else CHAIN_SPACE_LEN c)"
  have pre: "pre = []" if "off c = 0" using cut that by (auto simp: cut_def)
  define w3 where "w3 = evbuffer_free_all_chains w vict"
  have l3: "later w w3" unfolding w3_def vict_def using all by (intro free_all_later [of _ w]) auto
  define b1 where "b1 = b\<lparr>chains := keep, blast := last_cid keep\<rparr>"
  have "chains b = keep @ vict" using ch pre by (simp add: keep_def vict_def)
  moreover have v0: "\<forall>x \<in> set vict. off x = 0" using tl by (simp add: vict_def)
  ultimately have ct: "content b1 = content b" by (simp add: content_def b1_def)
  have cut1: "cut b1 (if off c = 0 then [] else pre) (if off c = 0 then [] else [c])"
    using cut pre by (auto simp: cut_def b1_def keep_def)
  have "evbuffer_ok w b1"
    using okD(1,2,4,5) [OF ok] ct ch by (intro okI [OF _ _ _ cut1]) (auto simp: b1_def keep_def split: if_splits)
  then have B1: "becomes w b w3 b1 (content b)"
    using ct l3 by (intro becomesI) (simp_all add: ok_later, simp_all add: b1_def)
  have le: "av \<le> datlen" using room by (simp add: av_def)
  have res: "(case evbuffer_chain_new w3 (datlen - av) of
        (w4, None) \<Rightarrow> (w4, if off c = 0 then ZERO_CHAIN b else b\<lparr>blast := Some (cid c), chains := pre @ [c]\<rparr>, -1)
      | (w4, Some tmp) \<Rightarrow>
          (w4, if off c = 0 then b\<lparr>chains := [tmp], blast := Some (cid tmp), last_with_datap := First\<rparr>
               else b\<lparr>chains := pre @ [c, tmp], blast := Some (cid tmp)\<rparr>, 0)) = (w', b', r)"
    using run pre tl le unfolding Let_def vict_def w3_def av_def by (cases "off c = 0") simp_all
  obtain w4 x where N: "evbuffer_chain_new w3 (datlen - av) = (w4, x)" by fastforce
  have lwd: "last_with_datap b = slot_after pre" using cutD(2) [OF cut] .
  show ?thesis
  proof (cases x)
    case None
    have "content b1 = []" if "off c = 0" using that by (simp add: content_def b1_def keep_def)
    then have z: "total_len b = 0" if "off c = 0" using okD(4) [OF ok] that unfolding ct [symmetric] by simp
    have "b' = b1" "r = -1" "w' = w4"
      using res N None z pre lwd by (auto simp: b1_def keep_def ZERO_CHAIN_def)
    then show ?thesis
      using becomes_same_data [OF B1 chain_new_None(1) [OF N [unfolded None]] same_data_refl] chain_new_None [OF N [unfolded None]]
        no_room_later [OF l3] no_room_mono [of "datlen - av" datlen] by (auto simp: no_room_def)
  next
    case (Some t)
    note nw = chain_new_Some [OF N [unfolded Some]]
    have fs: "CHAIN_SPACE_LEN t \<ge> datlen - av" "CHAIN_SPACE_LEN t \<noteq> 0" using fresh_space [OF nw(3)] by auto
    show ?thesis
    proof (cases "off c = 0")
      case True
      have e: "b' = inserted [] [] t b1" "r = 0" "w' = w4"
        using res N Some True nw(3) pre lwd by (auto simp: inserted_def b1_def used_def keep_def fresh_chain_def)
      have t: "chain_ok w4 t" using nw(2,3) by (intro fresh_chain_ok [OF nw(3)]) (auto simp: fresh_chain_def)
      have ok4: "evbuffer_ok w4 b1" "cut b1 [] []" using ok_later [OF becomesD(2) [OF B1] nw(1)] cut1 True by simp_all
      have i: "evbuffer_ok w4 b'" "content b' = content b"
        using inserted_ok [OF ok4 t] nw(3) True okD(5) [OF ok4(1)] ct e(1) by (auto simp: b1_def keep_def fresh_chain_def)
      have "cut b' [] [t]" using True pre lwd by (simp add: e(1) inserted_def cut_def used_def)
      then have "ample b' n datlen"
        using ample_cut [OF i(1)] fs True n by (cases n) (auto simp: with_space_def av_def)
      moreover have "becomes w b w' b' (content b)"
        using i later_trans [OF l3 nw(1)] e by (intro becomesI) (simp_all add: inserted_def b1_def)
      ultimately show ?thesis using e by (simp add: inserted_def)
    next
      case False
      have e: "b' = b1\<lparr>chains := chains b1 @ [t], blast := Some (cid t)\<rparr>" "r = 0" "w' = w4"
        using res N Some False by (auto simp: b1_def keep_def)
      have c1: "cut b1 pre [c]" using cut1 False by simp
      note A = appended_ok [OF becomesD(2) [OF B1] c1 _ N [unfolded Some], folded e(1)]
      have "ample b' n datlen"
        using ample_cut [OF becomesD(2) [OF A(1)] A(2)] fs False n le
        by (cases n; cases "n - 1") (auto simp: with_space_def av_def)
      then show ?thesis using becomes_trans [OF B1 A(1)] becomesD(3) [OF B1] e by simp
    qed
  qed
qed

lemma expand_fast_ok:
  assumes ok: "evbuffer_ok w b" and n: "2 \<le> n" and run: "evbuffer_expand_fast w b datlen n = (w', b', r)"
  shows "becomes w b w' b' (content b) \<and>
    (r = 0 \<and> chains b' \<noteq> [] \<and> ample b' n datlen \<or> r = -1 \<and> no_room w datlen)"
proof (cases "case chain_at b (blast b) of None \<Rightarrow> True | Some c \<Rightarrow> has (cflags c) EVBUFFER_IMMUTABLE")
  case True
  obtain pre post where cut: "cut b pre post" using okD(6) [OF ok] by blast
  obtain w1 b1 x where i: "evbuffer_chain_insert_new w b datlen = (w1, b1, x)" by (metis prod_cases3)
  have r: "w' = w1" "b' = b1" "r = (if x = None then -1 else 0)"
    using run True n i by (simp_all add: evbuffer_expand_fast_def)
  show ?thesis
  proof (cases x)
    case None
    then show ?thesis using insert_new_ok [OF ok cut i] r becomes_same [OF ok] by simp
  next
    case (Some t)
    then have I: "becomes w b w1 b1 (content b)" "fresh_chain w datlen t" "cut b1 pre (used post @ [t])"
      using insert_new_ok [OF ok cut i] by simp_all
    have "\<exists>xs. with_space (used post @ [t]) = xs @ [t] \<and> length xs \<le> 1"
      using fresh_space [OF I(2)] by (cases post) (auto simp: used_def with_space_def)
    then obtain xs where xs: "with_space (used post @ [t]) = xs @ [t]" "length xs \<le> 1" by blast
    then have "take n (with_space (used post @ [t])) = xs @ [t]" using n by simp
    then have "ample b1 n datlen"
      using ample_cut [OF becomesD(2) [OF I(1)] I(3)] fresh_space [OF I(2)] by simp
    then show ?thesis using I r Some cutD(1) [OF I(3)] by simp
  qed
next
  case False
  then have ne: "chains b \<noteq> []" using chain_at_last [OF ok] by auto
  obtain pre post where cut: "cut b pre post" using okD(6) [OF ok] by blast
  then obtain c cs where post: "post = c # cs" using ne by (cases post) (auto simp: cut_def)
  have all: "\<forall>x \<in> set (c # cs). chain_ok w x" using okD(2) [OF ok] cutD(1) [OF cut] post by simp
  have tl: "\<forall>x \<in> set cs. off x = 0 \<and> chain_ok w x" using cut post all by (simp add: cut_def)
  have c: "chain_ok w c" using all by simp
  obtain w1 post1 x where L: "expand_fast_loop (Some (cid c)) n datlen 0 0 w (c # cs) = (w1, post1, x)" by (metis prod_cases3)
  note E = expand_fast_all [OF c tl n L]
  have R: "list_all2 realigned post post1" and w1: "w1 = w" using E post by simp_all
  note B = realigned_ok [OF ok cut R]
  let ?b1 = "b\<lparr>chains := pre @ post1\<rparr>"
  note amp = ample_cut [OF becomesD(2) [OF B(1)] B(2)]
  have p1: "post1 \<noteq> []" using realigned_list(5) [OF R] post by auto
  have bc: "bcheck (2 \<le> n) w = w" using n by simp
  note run1 = run [unfolded evbuffer_expand_fast_def bc Let_def if_not_P [OF False] split_at_cut [OF ok cut] prod.case post hd_opt_simps
      option.map L w1]
  show ?thesis
  proof (cases x)
    case None
    then show ?thesis using run1 E amp B(1) p1 by auto
  next
    case (Some y)
    obtain a k e where y: "y = (a, k, e)" by (metis prod_cases3)
    show ?thesis
    proof (cases "k < n")
      case True
      then have e: "e" "k = length (with_space post1)" "a = sum_list (map CHAIN_SPACE_LEN (with_space post1))" "a < datlen"
        using E Some y by simp_all
      obtain w2 z where N: "evbuffer_chain_new w (datlen - a) = (w2, z)" by fastforce
      show ?thesis
      proof (cases z)
        case None
        then have "w' = w2 \<and> b' = ?b1 \<and> r = -1" using run1 Some y True e(1) N by simp
        then show ?thesis
          using becomes_same_data [OF B(1) chain_new_None(1) [OF N [unfolded None]] same_data_refl]
            chain_new_None(2) [OF N [unfolded None]] no_room_mono [of "datlen - a" datlen w] by (auto simp: no_room_def)
      next
        case t: (Some t)
        have r: "w' = w2" "b' = ?b1\<lparr>chains := chains ?b1 @ [t], blast := Some (cid t)\<rparr>" "r = 0"
          using run1 Some y True e(1) N t by simp_all
        note A = appended_ok [OF becomesD(2) [OF B(1)] B(2) p1 N [unfolded t], folded r(2)]
        have "take n (with_space (post1 @ [t])) = with_space post1 @ [t]"
          using True e(2) p1 by (simp add: with_space_append)
        then have "ample b' n datlen"
          using ample_cut [OF becomesD(2) [OF A(1)] A(2)] fresh_space [OF chain_new_Some(3) [OF N [unfolded t]]] e(3) by auto
        then show ?thesis using becomes_trans [OF B(1) A(1)] becomesD(3) [OF B(1)] r by simp
      qed
    next
      case False
      obtain d ds where d: "post1 = d # ds" using p1 by (cases post1) auto
      have rd: "realigned c d" using R post d by simp
      then have dc: "off d \<noteq> 0 \<longrightarrow> CHAIN_SPACE_LEN d \<le> datlen"
        using E Some y realigned_fields(2) [OF rd] by (auto simp: realigned_def)
      note nk = nuke_ok [OF becomesD(2) [OF B(1) [unfolded d]] B(2) [unfolded d] n dc, unfolded Let_def]
      note run2 = run1 [unfolded Some y option.case prod.case if_not_P [OF False] d list.case]
      show ?thesis using nk [OF run2] becomes_trans [OF B(1) [unfolded d]] becomesD(3) [OF B(1) [unfolded d]] by auto
    qed
  qed
qed

subsection \<open>Reading\<close>

lemma setup_vecs_step:
  assumes "so_far + h = howmuch" "h \<noteq> 0" "a = min (CHAIN_SPACE_LEN c) h"
  shows "setup_vecs_loop w (Suc k) so_far howmuch True (c # r) =
    (case setup_vecs_loop w k (so_far + a) howmuch True r of (w1, vs) \<Rightarrow> (w1, space_vec c a # vs))"
proof -
  have "howmuch - so_far = h" "\<not> so_far \<ge> howmuch" using assms by auto
  moreover have "(if CHAIN_SPACE_LEN c > h \<and> True then h else CHAIN_SPACE_LEN c) = a" using assms(3) by simp
  ultimately show ?thesis by (simp only: setup_vecs_loop.simps Let_def if_False list.case)
qed

lemma setup_vecs_exact:
  assumes "h \<le> sum_list (map CHAIN_SPACE_LEN (take k cs))" "so_far + h = howmuch"
  shows "\<exists>vs. setup_vecs_loop w k so_far howmuch True cs = (w, vs) \<and> sum_list (map iov_len vs) = h"
  using assms
proof (induction k arbitrary: so_far h cs)
  case 0
  then show ?case by simp
next
  case (Suc k)
  show ?case
  proof (cases "h = 0 \<or> cs = []")
    case True
    then show ?thesis using Suc.prems by auto
  next
    case False
    then obtain c r where cs: "cs = c # r" by (cases cs) auto
    define a where "a = min (CHAIN_SPACE_LEN c) h"
    have "h - a \<le> sum_list (map CHAIN_SPACE_LEN (take k r))" "so_far + a + (h - a) = howmuch" "a \<le> h"
      using Suc.prems by (auto simp: cs a_def)
    then obtain vs where "setup_vecs_loop w k (so_far + a) howmuch True r = (w, vs)" "sum_list (map iov_len vs) = h - a" "a \<le> h"
      using Suc.IH by blast
    moreover have "setup_vecs_loop w (Suc k) so_far howmuch True cs =
        (case setup_vecs_loop w k (so_far + a) howmuch True r of (w1, vs) \<Rightarrow> (w1, space_vec c a # vs))"
      unfolding cs using Suc.prems(2) False a_def by (intro setup_vecs_step) auto
    ultimately show ?thesis by (simp add: space_vec_def)
  qed
qed

lemma scatter_Nil: "scatter w vs [] cs = (w, cs)"
  by (induction w vs "[] :: bytes" cs rule: scatter.induct) (simp_all add: memcpy_to_def)

definition filled :: "evbuffer_chain \<Rightarrow> bytes \<Rightarrow> evbuffer_chain" where
  "filled c bs = c\<lparr>cbuffer := mem_write (cbuffer c) (misalign c + off c) bs, off := off c + length bs\<rparr>"

lemma filled_ok:
  assumes "chain_ok w c" "length bs \<le> CHAIN_SPACE_LEN c"
  shows "chain_ok w (filled c bs)" "chain_data (filled c bs) = chain_data c @ bs" "cid (filled c bs) = cid c"
    "memcpy_to w c (misalign c + off c) bs = (w, c\<lparr>cbuffer := mem_write (cbuffer c) (misalign c + off c) bs\<rparr>)"
proof -
  have b: "misalign c + off c + length bs \<le> buffer_len c" "bs = [] \<or> \<not> has (cflags c) EVBUFFER_IMMUTABLE"
    using assms(2) chain_okD(2) [OF assms(1)] by (auto simp: CHAIN_SPACE_LEN_def split: if_splits)
  show "chain_ok w (filled c bs)"
  proof (cases "bs = []")
    case True
    then show ?thesis using assms(1) by (simp add: filled_def)
  next
    case False
    then show ?thesis using b by (intro chain_ok_grow [OF assms(1)]) (auto simp: filled_def)
  qed
  show "memcpy_to w c (misalign c + off c) bs = (w, c\<lparr>cbuffer := mem_write (cbuffer c) (misalign c + off c) bs\<rparr>)"
    by (rule memcpy_ok [OF b])
qed (simp_all add: filled_def write_behind)

lemma space_bound: "chain_ok w c \<Longrightarrow> CHAIN_SPACE_LEN c \<le> EVBUFFER_CHAIN_MAX"
  using chain_okD(4) [of w c] by (auto simp: CHAIN_SPACE_LEN_def)

lemma fill_ok:
  assumes "\<forall>c \<in> set cs. chain_ok w c" "\<forall>c \<in> set (tl cs). off c = 0" "bs \<noteq> []" "length bs \<le> h"
    "h \<le> sum_list (map CHAIN_SPACE_LEN (take k cs))" "so_far + h = howmuch"
    "setup_vecs_loop w k so_far howmuch True cs = (w, vs)"
  shows "\<exists>cs1 d rest. scatter w vs bs cs = (w, cs1) \<and>
    read_loop (length vs) lwd (slot_after p) (length bs) cs1 = (d @ rest, slot_after (p @ butlast d)) \<and>
    d \<noteq> [] \<and> off (last d) \<noteq> 0 \<and> (\<forall>c \<in> set rest. off c = 0) \<and> map cid (d @ rest) = map cid cs \<and>
    (\<forall>c \<in> set (d @ rest). chain_ok w c) \<and> concat (map chain_data d) = concat (map chain_data cs) @ bs"
  using assms
proof (induction k arbitrary: so_far h cs bs p vs)
  case 0
  then show ?case by simp
next
  case (Suc k)
  have "h \<noteq> 0" using Suc.prems(3,4) by (cases bs) auto
  then have "cs \<noteq> []" using Suc.prems(5) by auto
  then obtain c r where cs: "cs = c # r" by (cases cs) auto
  define a where "a = min (CHAIN_SPACE_LEN c) h"
  have ha: "h - a \<le> sum_list (map CHAIN_SPACE_LEN (take k r))" "so_far + a + (h - a) = howmuch" "a \<le> h" "a \<le> CHAIN_SPACE_LEN c"
    using Suc.prems(5,6) by (auto simp: cs a_def)
  obtain vs' where vs': "setup_vecs_loop w k (so_far + a) howmuch True r = (w, vs')"
    using setup_vecs_exact [OF ha(1,2)] by blast
  have vs: "vs = space_vec c a # vs'" using Suc.prems(7) setup_vecs_step [OF Suc.prems(6) \<open>h \<noteq> 0\<close> a_def] vs' by (simp add: cs)
  have c: "chain_ok w c" using Suc.prems(1) cs by simp
  note sb = space_bound [OF c]
  define t where "t = take a bs"
  have t: "length t \<le> CHAIN_SPACE_LEN c" using ha(4) by (simp add: t_def)
  note F = filled_ok [OF c t]
  define c1 where "c1 = c\<lparr>cbuffer := mem_write (cbuffer c) (misalign c + off c) t\<rparr>"
  have c1: "cid c1 = cid c" "off c1 = off c" "CHAIN_SPACE_LEN c1 = CHAIN_SPACE_LEN c"
    "c1\<lparr>off := off c + length t\<rparr> = filled c t" by (simp_all add: c1_def CHAIN_SPACE_LEN_def filled_def)
  have sc: "scatter w vs bs cs = (case scatter w vs' (drop a bs) r of (w2, q) \<Rightarrow> (w2, c1 # q))"
    using F(4) by (simp add: vs cs space_vec_def t_def c1_def)
  show ?case
  proof (cases "length bs \<le> CHAIN_SPACE_LEN c")
    case True
    then have bs: "t = bs" "drop a bs = []" using Suc.prems(4) by (auto simp: t_def a_def)
    have "read_loop (length vs) lwd (slot_after p) (length bs) (c1 # r) = ([filled c bs] @ r, slot_after (p @ butlast [filled c bs]))"
      using True c1 bs(1) sb by (simp add: vs)
    moreover have "\<forall>c \<in> set r. off c = 0 \<and> chain_ok w c" using Suc.prems(1,2) cs by simp
    moreover have "scatter w vs bs cs = (w, c1 # r)" using sc by (simp add: bs(2) scatter_Nil)
    ultimately show ?thesis using F(1-3) Suc.prems(3) bs(1) concat_empty_chains [of r]
      by (intro exI [of _ "c1 # r"] exI [of _ "[filled c bs]"] exI [of _ r]) (simp add: cs, simp add: filled_def)
  next
    case False
    then have a: "a = CHAIN_SPACE_LEN c" using Suc.prems(4) by (simp add: a_def)
    have r: "\<forall>c \<in> set r. chain_ok w c" "\<forall>c \<in> set r. off c = 0" "\<forall>c \<in> set (tl r). off c = 0"
      using Suc.prems(1,2) cs in_tl by fastforce+
    obtain q d rest where q: "scatter w vs' (drop a bs) r = (w, q)"
      "read_loop (length vs') lwd (slot_after (p @ [filled c t])) (length (drop a bs)) q =
         (d @ rest, slot_after ((p @ [filled c t]) @ butlast d))"
      "d \<noteq> []" "off (last d) \<noteq> 0" "\<forall>c \<in> set rest. off c = 0" "map cid (d @ rest) = map cid r"
      "\<forall>c \<in> set (d @ rest). chain_ok w c" "concat (map chain_data d) = concat (map chain_data r) @ drop a bs"
      using Suc.IH [OF r(1,3) _ _ ha(1,2) vs', of "drop a bs" "p @ [filled c t]"] False a Suc.prems(4) by force
    have lt: "length t = a" using False a by (simp add: t_def)
    have "read_loop (length vs) lwd (slot_after p) (length bs) (c1 # q) =
        ((filled c t # d) @ rest, slot_after (p @ butlast (filled c t # d)))"
      using False a c1 sb q(2,3) lt F(3) by (simp add: vs)
    moreover have "scatter w vs bs cs = (w, c1 # q)" using sc q(1) by simp
    moreover have "concat (map chain_data (filled c t # d)) = concat (map chain_data cs) @ bs"
      using F(2) q(8) concat_empty_chains [OF r(2)] by (simp add: cs t_def)
    ultimately show ?thesis using F(1,3) q(3-7)
      by (intro exI [of _ "c1 # q"] exI [of _ "filled c t # d"] exI [of _ rest]) (simp add: cs)
  qed
qed

lemma first_split:
  assumes ok: "evbuffer_ok w b" and ne: "chains b \<noteq> []"
  obtains pre cs where "first_with_space b = (pre, cs, slot_after pre)" "chains b = pre @ cs"
    "\<forall>c \<in> set (tl cs). off c = 0" "\<forall>c \<in> set cs. chain_ok w c"
    "deref b (last_with_datap b) \<noteq> None" "ample b n k \<longleftrightarrow> k \<le> sum_list (map CHAIN_SPACE_LEN (take n cs))"
proof -
  obtain pre post where cut: "cut b pre post" using okD(6) [OF ok] by blast
  have post: "post \<noteq> []" using ne cutD(1,4) [OF cut] by auto
  then obtain c r where p: "post = c # r" by (cases post) auto
  have r: "\<forall>d \<in> set r. off d = 0" using cutD(3) [OF cut] by (simp add: p)
  have all: "\<forall>d \<in> set (chains b). chain_ok w d" using okD(2) [OF ok] by blast
  have de: "deref b (last_with_datap b) \<noteq> None" using deref_cut [OF ok cut] by (simp add: p)
  show thesis
  proof (cases "CHAIN_SPACE_LEN c = 0")
    case True
    show thesis
      using True r all de cutD(1) [OF cut] first_with_space_ok [OF ok cut] ample_cut [OF ok cut] in_tl [of _ r]
      by (intro that [of "pre @ [c]" r]) (auto simp: p with_space_def)
  next
    case False
    show thesis
      using False r all de cutD(1) [OF cut] first_with_space_ok [OF ok cut] ample_cut [OF ok cut]
      by (intro that [of pre "c # r"]) (auto simp: p with_space_def)
  qed
qed

lemma grown_ok:
  assumes ok: "evbuffer_ok w b" and ch: "chains b = pre @ cs" and len: "total_len b + length bs \<le> EV_SIZE_MAX"
    and d: "d \<noteq> []" "off (last d) \<noteq> 0" "\<forall>c \<in> set rest. off c = 0" "map cid (d @ rest) = map cid cs"
      "\<forall>c \<in> set (d @ rest). chain_ok w c" "concat (map chain_data d) = concat (map chain_data cs) @ bs"
    and b': "b' = EVBUFFER_ADDED (length bs) (b\<lparr>chains := pre @ d @ rest, last_with_datap := slot_after (pre @ butlast d)\<rparr>)"
  shows "becomes w b w b' (content b @ bs)"
proof -
  have ct: "content b' = content b @ bs" using d(6) concat_empty_chains [OF d(3)] by (simp add: b' content_def ch)
  have ids: "map cid (chains b') = map cid (chains b)" using d(4) by (simp add: b' ch)
  have cut: "cut b' (pre @ butlast d) (last d # rest)"
    using d(1,2,3) by (intro cutI) (auto simp: b')
  have "evbuffer_ok w b'"
  proof (rule okI [OF _ _ _ cut])
    show "distinct (map cid (chains b'))" using okD(1) [OF ok] ids by simp
    show "chain_ok w c" if "c \<in> set (chains b')" for c using that d(5) okD(2) [OF ok, of c] by (auto simp: b' ch)
    show "blast b' = last_cid (chains b')" using okD(3) [OF ok] last_cid_cong [OF ids] by (simp add: b')
    show "total_len b' = length (content b')" unfolding ct using okD(4) [OF ok] by (simp add: b')
    show "total_len b' \<le> EV_SIZE_MAX" using len by (simp add: b')
  qed
  then show ?thesis using ct by (intro becomesI) (simp_all add: b')
qed

lemma read_vecs_ok:
  assumes obs: "observes ucb" and ok: "evbuffer_ok w b" and ne: "chains b \<noteq> []" and am: "ample b n h"
    and rv: "\<And>lens bs. readv lens = Some bs \<Longrightarrow> length bs \<le> sum_list lens" and len: "total_len b + h \<le> EV_SIZE_MAX"
    and run: "(case evbuffer_read_setup_vecs w b (int h) n True of
       (w2, vecs, nvecs) \<Rightarrow>
         (case readv (map iov_len vecs) of
            None \<Rightarrow> (w2, b, -1)
          | Some bs \<Rightarrow>
              if bs = [] then (w2, b, 0)
              else case first_with_space b of
                     (pre, cs, chainp) \<Rightarrow>
                       (case scatter w2 vecs bs cs of
                          (w3, cs1) \<Rightarrow>
                            (case read_loop (nat nvecs) (last_with_datap b) chainp (length bs) cs1 of
                               (cs2, s) \<Rightarrow>
                                 evbuffer_finish ucb w3
                                   (EVBUFFER_ADDED (length bs) (b\<lparr>chains := pre @ cs2, last_with_datap := s\<rparr>))
                                   (int (length bs)))))) = (w', b', r)"
  shows "\<exists>lens. sum_list lens = h \<and>
    (case readv lens of
       None \<Rightarrow> r = -1 \<and> becomes w b w' b' (content b)
     | Some bs \<Rightarrow> r = int (length bs) \<and> becomes w b w' b' (content b @ bs))"
proof -
  obtain pre cs where f: "first_with_space b = (pre, cs, slot_after pre)" "chains b = pre @ cs"
    "\<forall>c \<in> set (tl cs). off c = 0" "\<forall>c \<in> set cs. chain_ok w c" "deref b (last_with_datap b) \<noteq> None"
    and h: "ample b n h \<longleftrightarrow> h \<le> sum_list (map CHAIN_SPACE_LEN (take n cs))"
    using first_split [OF ok ne, of n h] by metis
  obtain vs where vs: "setup_vecs_loop w n 0 h True cs = (w, vs)" "sum_list (map iov_len vs) = h"
    using setup_vecs_exact [of h n cs 0 h w] h am by auto
  have su: "evbuffer_read_setup_vecs w b (int h) n True = (w, vs, int (length vs))"
    using f(1,5) vs(1) by (simp add: evbuffer_read_setup_vecs_def)
  note run' = run [unfolded su prod.case nat_int f(1)]
  show ?thesis
  proof (cases "readv (map iov_len vs)")
    case None
    then show ?thesis using run' vs(2) becomes_same [OF ok later_refl] by (intro exI [of _ "map iov_len vs"]) auto
  next
    case (Some bs)
    have bl: "length bs \<le> h" using rv [OF Some] vs(2) by simp
    show ?thesis
    proof (cases "bs = []")
      case True
      then show ?thesis using Some run' vs(2) becomes_same [OF ok later_refl] by (intro exI [of _ "map iov_len vs"]) auto
    next
      case False
      obtain cs1 d rest where g: "scatter w vs bs cs = (w, cs1)"
        "read_loop (length vs) (last_with_datap b) (slot_after pre) (length bs) cs1 = (d @ rest, slot_after (pre @ butlast d))"
        "d \<noteq> []" "off (last d) \<noteq> 0" "\<forall>c \<in> set rest. off c = 0" "map cid (d @ rest) = map cid cs"
        "\<forall>c \<in> set (d @ rest). chain_ok w c" "concat (map chain_data d) = concat (map chain_data cs) @ bs"
        using fill_ok [OF f(4,3) False bl h [THEN iffD1, OF am] add_0 vs(1), of "last_with_datap b" pre] by blast
      note B = grown_ok [OF ok f(2) _ g(3-8) refl]
      have "evbuffer_finish ucb w (EVBUFFER_ADDED (length bs)
          (b\<lparr>chains := pre @ d @ rest, last_with_datap := slot_after (pre @ butlast d)\<rparr>)) (int (length bs)) = (w', b', r)"
        using run' Some False g(1,2) by simp
      then show ?thesis using becomes_finish [OF obs B] len bl Some vs(2) by (intro exI [of _ "map iov_len vs"]) auto
    qed
  qed
qed

lemma read_ok:
  assumes obs: "observes ucb" and ok: "evbuffer_ok w b" and len: "total_len b + nat EVBUFFER_MAX_READ \<le> EV_SIZE_MAX"
    and rv: "\<And>lens bs. readv lens = Some bs \<Longrightarrow> length bs \<le> sum_list lens"
    and run: "evbuffer_read ucb fionread readv w b howmuch = (w', b', r)"
  shows "r = -1 \<and> becomes w b w' b' (content b) \<and>
      (freeze_end b \<or> no_room w (nat EVBUFFER_MAX_READ) \<or> (\<exists>lens. readv lens = None)) \<or>
    (\<exists>lens bs. readv lens = Some bs \<and> r = int (length bs) \<and> becomes w b w' b' (content b @ bs) \<and>
      int (sum_list lens) \<le> (if howmuch < 0 then EVBUFFER_MAX_READ else min howmuch EVBUFFER_MAX_READ))"
proof (cases "freeze_end b")
  case True
  then show ?thesis using run becomes_same [OF ok later_refl] by (auto simp: evbuffer_read_def)
next
  case False
  define n0 where "n0 = get_n_bytes_readable_on_socket fionread"
  define n1 where "n1 = (if n0 \<le> 0 \<or> n0 > EVBUFFER_MAX_READ then EVBUFFER_MAX_READ else n0)"
  define h where "h = (if howmuch < 0 \<or> howmuch > n1 then n1 else howmuch)"
  have h: "0 \<le> h" "h \<le> (if howmuch < 0 then EVBUFFER_MAX_READ else min howmuch EVBUFFER_MAX_READ)" "h \<le> EVBUFFER_MAX_READ"
    by (auto simp: h_def n1_def EVBUFFER_MAX_READ_def)
  obtain w1 b1 x where e: "evbuffer_expand_fast w b (nat h) NUM_READ_IOVEC = (w1, b1, x)" by (metis prod_cases3)
  have "2 \<le> NUM_READ_IOVEC" by (simp add: NUM_READ_IOVEC_def)
  note E = expand_fast_ok [OF ok this e]
  note run' = run [unfolded evbuffer_read_def if_not_P [OF False] Let_def, folded n0_def, folded n1_def, folded h_def,
      unfolded e prod.case]
  show ?thesis
  proof (cases "x = -1")
    case True
    then have "w' = w1 \<and> b' = b1 \<and> r = -1" using run' by simp
    then show ?thesis using E True no_room_mono [of "nat h" "nat EVBUFFER_MAX_READ" w] h by auto
  next
    case x: False
    then have B: "becomes w b w1 b1 (content b)" and a: "chains b1 \<noteq> []" "ample b1 NUM_READ_IOVEC (nat h)" using E by auto
    have "total_len b1 = total_len b" using okD(4) [OF becomesD(2) [OF B]] okD(4) [OF ok] becomesD(3) [OF B] by simp
    then have l1: "total_len b1 + nat h \<le> EV_SIZE_MAX" using len h by linarith
    have hn: "h = int (nat h)" using h(1) by simp
    note run2 = run' [unfolded if_not_P [OF x]]
    obtain lens where L: "sum_list lens = nat h" "case readv lens of
       None \<Rightarrow> r = -1 \<and> becomes w1 b1 w' b' (content b1)
     | Some bs \<Rightarrow> r = int (length bs) \<and> becomes w1 b1 w' b' (content b1 @ bs)"
      using read_vecs_ok [OF obs becomesD(2) [OF B] a rv l1, folded hn, OF _ run2] by blast
    then show ?thesis using becomes_trans [OF B] becomesD(3) [OF B] h
      by (cases "readv lens") (auto intro!: exI [of _ lens])
  qed
qed
subsection \<open>Writing\<close>

lemma write_iovec_prefix:
  "\<exists>k. concat (write_iovec_loop i n cs) = take k (concat (map chain_data cs)) \<and> k \<le> n"
proof (induction i n cs rule: write_iovec_loop.induct)
  case (1 i n)
  show ?case by auto
next
  case (2 i n ch cs)
  show ?case
  proof (cases "i < NUM_WRITE_IOVEC \<and> n \<noteq> 0 \<and> \<not> has (cflags ch) EVBUFFER_SENDFILE")
    case True
    note t = this
    show ?thesis
    proof (cases "n \<ge> off ch")
      case True
      then obtain k where "concat (write_iovec_loop (i + 1) (n - off ch) cs) = take k (concat (map chain_data cs))" "k \<le> n - off ch"
        using 2 t by blast
      then show ?thesis using t True by (intro exI [of _ "off ch + k"]) simp
    next
      case False
      then show ?thesis using t chain_bytes_take [of n ch] by (intro exI [of _ n]) simp
    qed
  next
    case False
    then have "write_iovec_loop i n (ch # cs) = []" by auto
    then show ?thesis by (metis concat.simps(1) le0 take0)
  qed
qed

text \<open>What \<^verbatim>\<open>writev\<close> is given is a prefix of the content, and what it takes is drained.\<close>

lemma write_ok:
  assumes obs: "observes ucb" and ok: "evbuffer_ok w b"
    and wv: "\<And>iov. writev iov \<le> int (length (concat iov))"
    and nosend: "\<forall>c \<in> set (chains b). \<not> has (cflags c) EVBUFFER_SENDFILE"
    and run: "evbuffer_write_atmost ucb writev sendfile w b howmuch = (w', b', r)"
  shows "0 < r \<and> becomes w b w' b' (drop (nat r) (content b)) \<and> (0 \<le> howmuch \<longrightarrow> r \<le> howmuch) \<and>
      (\<exists>iov. writev iov = r \<and> (\<exists>k. concat iov = take k (content b)) \<and> r \<le> int (length (concat iov))) \<or>
    r \<le> 0 \<and> w' = w \<and> b' = b"
proof (cases "freeze_start b")
  case True
  then show ?thesis using run by (simp add: evbuffer_write_atmost_def)
next
  case False
  define h where "h = (if howmuch < 0 \<or> howmuch > int (total_len b) then int (total_len b) else howmuch)"
  define iov where "iov = write_iovec_loop 0 (nat h) (chains b)"
  define n where "n = (if h > 0 then (if iov = [] then 0 else writev iov) else -1)"
  have "\<not> has (cflags (hd (chains b))) EVBUFFER_SENDFILE" if "chains b \<noteq> []" using nosend that by simp
  then have sel: "(if h > 0 then (case chains b of
      ch # _ \<Rightarrow> if has (cflags ch) EVBUFFER_SENDFILE then evbuffer_write_sendfile sendfile ch else evbuffer_write_iovec writev b h
    | [] \<Rightarrow> evbuffer_write_iovec writev b h) else -1) = n"
    by (cases "chains b") (auto simp: n_def evbuffer_write_iovec_def iov_def)
  have run': "(if n > 0 then (case evbuffer_drain ucb w b (nat n) of (w1, b1, _) \<Rightarrow> (w1, b1, n)) else (w, b, n)) = (w', b', r)"
    by (rule run [unfolded evbuffer_write_atmost_def if_not_P [OF False] Let_def, folded h_def, unfolded sel])
  show ?thesis
  proof (cases "n > 0")
    case True
    obtain w1 b1 x where d: "evbuffer_drain ucb w b (nat n) = (w1, b1, x)" by (metis prod_cases3)
    have e: "w' = w1" "b' = b1" "r = n" using run' True d by auto
    obtain k where k: "concat iov = take k (content b)" "k \<le> nat h"
      using write_iovec_prefix [of 0 "nat h" "chains b"] by (auto simp: iov_def content_def)
    have n: "n = writev iov" "h > 0" "n \<le> int (length (concat iov))" using True wv [of iov] by (auto simp: n_def split: if_splits)
    have "becomes w b w1 b1 (drop (nat n) (content b))" using drain_ok [OF obs ok d] False by auto
    moreover have "n \<le> h" using n k by (auto simp: min_def split: if_splits)
    moreover have "0 \<le> howmuch \<longrightarrow> h \<le> howmuch" by (simp add: h_def)
    ultimately show ?thesis using e n k(1) True by auto
  next
    case False
    then show ?thesis using run' by auto
  qed
qed

subsection \<open>Printing\<close>

lemma put_room:
  assumes ok: "evbuffer_ok w b" and cut: "cut b pre (us @ ch # rest)" and us: "length us \<le> 1"
    and ch': "cid ch' = cid ch" "chain_ok w ch'" "chain_data ch' = chain_data ch @ d"
    and len: "total_len b + length d \<le> EV_SIZE_MAX"
    and b': "b' = fst (advance_last_with_data (EVBUFFER_ADDED (length d) (put_chain ch' b)))"
  shows "becomes w b w b' (content b @ d)" "cut b' pre (us @ ch' # rest) \<or> d \<noteq> []"
proof -
  have put: "put_chain ch' b = b\<lparr>chains := (pre @ us) @ ch' # rest\<rparr>"
    using okD(1) [OF ok] cutD(1) [OF cut] ch'(1) by (intro put_chain_in [of _ ch]) simp_all
  define b1 where "b1 = EVBUFFER_ADDED (length d) (put_chain ch' b)"
  have b1: "chains b1 = pre @ us @ ch' # rest" "last_with_datap b1 = slot_after pre" "total_len b1 = total_len b + length d"
    "blast b1 = blast b" "freeze_start b1 = freeze_start b" "freeze_end b1 = freeze_end b"
    using cutD(2) [OF cut] by (simp_all add: b1_def put)
  have rest: "\<forall>c \<in> set rest. off c = 0" using cutD(3) [OF cut] by (cases us) auto
  have ids: "map cid (chains b1) = map cid (chains b)" using cutD(1) [OF cut] ch'(1) by (simp add: b1)
  then have di: "distinct (map cid (pre @ us @ ch' # rest))" using okD(1) [OF ok] by (simp add: b1)
  have sp: "split_at (chains b1) (last_with_datap b1) = (pre, us @ ch' # rest)"
    unfolding b1 by (rule split_at_slot [OF di])
  have off': "off ch' = off ch + length d" using arg_cong [OF ch'(3), of length] by simp
  have av: "fst (advance_over (slot_after pre) (us @ ch' # rest)) = (if us \<noteq> [] \<and> off ch' \<noteq> 0 then slot_after (pre @ us) else slot_after pre)"
    using us rest by (cases us; cases rest) (auto split: prod.splits)
  have bb: "b' = b1\<lparr>last_with_datap := (if us \<noteq> [] \<and> off ch' \<noteq> 0 then slot_after (pre @ us) else slot_after pre)\<rparr>"
    unfolding b' b1_def [symmetric] av [symmetric] by (simp add: advance_last_with_data_def sp [unfolded b1(2)] b1(2) case_prod_beta)
  have ct: "content b' = content b @ d" using ch'(3) cutD(1) [OF cut]
    by (simp add: bb content_def b1 concat_empty_chains [OF rest])
  have u0: "us \<noteq> [] \<Longrightarrow> off ch = 0" using cutD(3) [OF cut] by (cases us) auto
  have c1: "cut b' pre (us @ ch' # rest)" if "\<not> (us \<noteq> [] \<and> off ch' \<noteq> 0)"
    using that rest cutD(5) [OF cut] us off' by (intro cutI) (cases us; auto simp: bb b1)+
  have c2: "cut b' (pre @ us) (ch' # rest)" if "us \<noteq> [] \<and> off ch' \<noteq> 0"
    using that rest by (intro cutI) (auto simp: bb b1)
  have cu: "\<exists>p q. cut b' p q" using c1 c2 by blast
  show "cut b' pre (us @ ch' # rest) \<or> d \<noteq> []" using c1 u0 off' by auto
  obtain p q where "cut b' p q" using cu by blast
  then have "evbuffer_ok w b'"
  proof (rule okI [rotated 3])
    show "distinct (map cid (chains b'))" using di by (simp add: bb b1)
    show "chain_ok w c" if "c \<in> set (chains b')" for c
      using that ch'(2) okD(2) [OF ok, of c] cutD(1) [OF cut] by (auto simp: bb b1)
    show "blast b' = last_cid (chains b')" using okD(3) [OF ok] last_cid_cong [OF ids] by (simp add: bb b1(4))
    show "total_len b' = length (content b')" unfolding ct using okD(4) [OF ok] by (simp add: bb b1)
    show "total_len b' \<le> EV_SIZE_MAX" using len by (simp add: bb b1)
  qed
  then show "becomes w b w b' (content b @ d)" using ct by (intro becomesI) (simp_all add: bb b1)
qed

lemma text_written:
  assumes ok: "evbuffer_ok w b" and room: "room b ch n" and run: "vsnprintf_to w ch out = (w1, ch1)"
  shows "w1 = w" "cid ch1 = cid ch" "CHAIN_SPACE_LEN ch1 = CHAIN_SPACE_LEN ch" "off ch1 = off ch"
    "chain_ok w ch1" "chain_data ch1 = chain_data ch"
    "length out < CHAIN_SPACE_LEN ch \<Longrightarrow> chain_ok w (ch1\<lparr>off := off ch1 + length out\<rparr>)"
    "length out < CHAIN_SPACE_LEN ch \<Longrightarrow> chain_data (ch1\<lparr>off := off ch1 + length out\<rparr>) = chain_data ch @ out"
proof -
  obtain pre us rest where "cut b pre (us @ ch # rest)" using room by (auto simp: room_def)
  then have c: "chain_ok w ch" by (intro okD(2) [OF ok]) (simp add: cutD(1))
  have mut: "\<not> has (cflags ch) EVBUFFER_IMMUTABLE" using room by (simp add: room_def)
  define t where "t = (if CHAIN_SPACE_LEN ch = 0 then [] else take (CHAIN_SPACE_LEN ch - 1) out @ [0])"
  have "length t \<le> CHAIN_SPACE_LEN ch" by (auto simp: t_def)
  note F = filled_ok [OF c this]
  have e: "w1 = w" "ch1 = ch\<lparr>cbuffer := mem_write (cbuffer ch) (misalign ch + off ch) t\<rparr>"
    using run F(4) unfolding vsnprintf_to_def Let_def t_def [symmetric] by simp_all
  show "w1 = w" "cid ch1 = cid ch" "CHAIN_SPACE_LEN ch1 = CHAIN_SPACE_LEN ch" "off ch1 = off ch"
    by (simp_all add: e CHAIN_SPACE_LEN_def)
  show "chain_ok w ch1" using chain_okD(2) [OF c] by (intro chain_ok_grow [OF c mut]) (simp_all add: e)
  show "chain_data ch1 = chain_data ch" by (rule nth_equalityI) (simp_all add: e chain_data_def mem_write_def)
  assume l: "length out < CHAIN_SPACE_LEN ch"
  then have t: "t = out @ [0]" by (simp add: t_def)
  show "chain_ok w (ch1\<lparr>off := off ch1 + length out\<rparr>)"
    using l mut by (intro chain_ok_grow [OF c mut]) (simp_all add: e CHAIN_SPACE_LEN_def)
  have "chain_data (ch1\<lparr>off := off ch1 + length out\<rparr>) = take (off ch + length out) (chain_data (filled ch t))"
    by (rule nth_equalityI) (simp_all add: e chain_data_def filled_def t)
  then show "chain_data (ch1\<lparr>off := off ch1 + length out\<rparr>) = chain_data ch @ out" by (simp add: F(2) [unfolded t] t)
qed

lemma vprintf_done_ok:
  assumes obs: "observes ucb" and ok: "evbuffer_ok w b" and room: "room b ch n" and run: "vsnprintf_to w ch out = (w1, ch1)"
    and l: "length out < CHAIN_SPACE_LEN ch" and len: "total_len b + length out \<le> EV_SIZE_MAX"
    and fin: "vprintf_done ucb w1 b ch1 (length out) = (w', b', r)"
  shows "r = int (length out)" "becomes w b w' b' (content b @ out)"
proof -
  obtain pre us rest where c: "cut b pre (us @ ch # rest)" "length us \<le> 1" using room by (auto simp: room_def)
  note T = text_written [OF ok room run]
  have i: "cid (ch1\<lparr>off := off ch1 + length out\<rparr>) = cid ch" using T(2) by simp
  note B = put_room(1) [OF ok c i T(7,8) [OF l] len refl]
  show "r = int (length out)" "becomes w b w' b' (content b @ out)"
    using becomes_finish [OF obs B fin [unfolded vprintf_done_def T(1)]] by simp_all
qed

lemma room_later:
  assumes ok: "evbuffer_ok w b" and room: "room b ch n" and run: "vsnprintf_to w ch out = (w1, ch1)"
  shows "becomes w b w (put_chain ch1 b) (content b)"
proof -
  obtain pre us rest where c: "cut b pre (us @ ch # rest)" "length us \<le> 1" using room by (auto simp: room_def)
  note T = text_written [OF ok room run]
  have p: "put_chain ch1 b = b\<lparr>chains := (pre @ us) @ ch1 # rest\<rparr>"
    using okD(1) [OF ok] cutD(1) [OF c(1)] T(2) by (intro put_chain_in [of _ ch]) simp_all
  have ids: "map cid (pre @ us @ ch1 # rest) = map cid (chains b)" using T(2) cutD(1) [OF c(1)] by simp
  have cut: "cut (put_chain ch1 b) pre (us @ ch1 # rest)"
    using cutD(2,3,5) [OF c(1)] T(4) c(2) by (intro cutI) (cases us; auto simp: p)+
  have ct: "content (put_chain ch1 b) = content b" using T(6) cutD(1) [OF c(1)] by (simp add: p content_def)
  have "evbuffer_ok w (put_chain ch1 b)"
  proof (rule okI [OF _ _ _ cut])
    show "distinct (map cid (chains (put_chain ch1 b)))" using okD(1) [OF ok] by (simp add: put_chain_cids)
    show "chain_ok w c" if "c \<in> set (chains (put_chain ch1 b))" for c
      using that T(5) okD(2) [OF ok, of c] cutD(1) [OF c(1)] by (auto simp: p)
    show "blast (put_chain ch1 b) = last_cid (chains (put_chain ch1 b))"
      using okD(3) [OF ok] last_cid_cong [OF ids] by (simp add: p)
    show "total_len (put_chain ch1 b) = length (content (put_chain ch1 b))" unfolding ct using okD(4) [OF ok] by (simp add: p)
    show "total_len (put_chain ch1 b) \<le> EV_SIZE_MAX" using okD(5) [OF ok] by (simp add: p)
  qed
  then show ?thesis using ct by (intro becomesI) (simp_all add: p)
qed

lemma vprintf_ok:
  assumes obs: "observes ucb" and ok: "evbuffer_ok w b" and len: "total_len b + length out \<le> EV_SIZE_MAX"
    and run: "evbuffer_add_vprintf ucb w b (Some out) = (w', b', r)"
  shows "r = int (length out) \<and> becomes w b w' b' (content b @ out) \<or>
    r = -1 \<and> becomes w b w' b' (content b) \<and>
      (freeze_end b \<or> no_room w (max 64 (length out + 1) + MAX_TO_COPY_IN_EXPAND))"
proof (cases "freeze_end b")
  case True
  then show ?thesis using run becomes_same [OF ok later_refl] by (simp add: evbuffer_add_vprintf_def)
next
  case fz: False
  have mono: "no_room w (m + MAX_TO_COPY_IN_EXPAND) \<Longrightarrow> no_room w (max 64 (length out + 1) + MAX_TO_COPY_IN_EXPAND)"
    if "m \<le> max 64 (length out + 1)" for m using that by (rule_tac no_room_mono [of "m + MAX_TO_COPY_IN_EXPAND"]) simp_all
  obtain w1 b1 x where e1: "evbuffer_expand_singlechain w b 64 = (w1, b1, x)" by (metis prod_cases3)
  note E1 = expand_singlechain_ok [OF ok e1] and ok1 = becomesD(2) [OF expand_singlechain_ok(1) [OF ok e1]]
    and c1 = becomesD(3) [OF expand_singlechain_ok(1) [OF ok e1]]
  note run1 = run [unfolded evbuffer_add_vprintf_def if_not_P [OF fz] e1 prod.case]
  have len1: "total_len b1 + length out \<le> EV_SIZE_MAX" using len okD(4) [OF ok] okD(4) [OF ok1] c1 by simp
  show ?thesis
  proof (cases x)
    case None
    then have "w' = w1 \<and> b' = b1 \<and> r = -1" using run1 by simp
    then show ?thesis using E1 None mono [of 64] by simp
  next
    case (Some ch)
    then have rm: "room b1 ch 64" using E1(2) by simp
    obtain w2 ch2 where v: "vsnprintf_to w1 ch out = (w2, ch2)" by fastforce
    note T = text_written [OF ok1 rm v]
    note run2 = run1 [unfolded Some option.case v prod.case T(3)]
    show ?thesis
    proof (cases "length out < CHAIN_SPACE_LEN ch")
      case True
      have D: "vprintf_done ucb w2 b1 ch2 (length out) = (w', b', r)" by (rule run2 [unfolded if_P [OF True]])
      show ?thesis
        using vprintf_done_ok [OF obs ok1 rm v True len1 D] becomes_trans [OF E1(1), of w' b' "content b @ out"] unfolding c1 by blast
    next
      case False
      define b2 where "b2 = put_chain ch2 b1"
      have B2: "becomes w b w1 b2 (content b)"
        using becomes_trans [OF E1(1) room_later [OF ok1 rm v]] by (simp add: b2_def c1)
      note ok2 = becomesD(2) [OF B2]
      obtain w3 b3 y where e3: "evbuffer_expand_singlechain w1 b2 (length out + 1) = (w3, b3, y)" by (metis prod_cases3)
      note E3 = expand_singlechain_ok [OF ok2 e3] and ok3 = becomesD(2) [OF expand_singlechain_ok(1) [OF ok2 e3]]
      have B3: "becomes w b w3 b3 (content b)" using becomes_trans [OF B2 E3(1)] becomesD(3) [OF B2] by simp
      have len3: "total_len b3 + length out \<le> EV_SIZE_MAX"
        using len okD(4) [OF ok] okD(4) [OF ok3] becomesD(3) [OF B3] by simp
      note run3 = run2 [unfolded if_not_P [OF False] T(1) b2_def [symmetric] e3 prod.case]
      show ?thesis
      proof (cases y)
        case None
        then have "w' = w3 \<and> b' = b3 \<and> r = -1" using run3 by simp
        then show ?thesis using B3 None E3(2) mono [of "length out + 1"] no_room_later [OF becomesD(1) [OF B2]] by simp
      next
        case y: (Some ch3)
        then have rm3: "room b3 ch3 (length out + 1)" using E3(2) by simp
        obtain w4 ch4 where v4: "vsnprintf_to w3 ch3 out = (w4, ch4)" by fastforce
        note T4 = text_written [OF ok3 rm3 v4]
        have l: "length out < CHAIN_SPACE_LEN ch3" using rm3 by (simp add: room_def)
        have D: "vprintf_done ucb w4 b3 ch4 (length out) = (w', b', r)"
          by (rule run3 [unfolded y option.case v4 prod.case T4(3) if_P [OF l]])
        show ?thesis
          using vprintf_done_ok [OF obs ok3 rm3 v4 l len3 D] becomes_trans [OF B3, of w' b' "content b @ out"]
          unfolding becomesD(3) [OF B3] by blast
      qed
    qed
  qed
qed

end
