(* ===== verification/Evbuffer_Props.thy ===== *)
theory Evbuffer_Props
  imports Evbuffer_IO_Inv
begin

text \<open>
  What the operations of \<^verbatim>\<open>buffer.c\<close> promise: a buffer is a queue of bytes.  The concrete world and
  buffers are the inputs of the witnesses.
\<close>

subsection \<open>Sequences of calls\<close>

datatype buffer_op =
    Op_add bytes
  | Op_prepend bytes
  | Op_drain nat
  | Op_pullup int
  | Op_expand nat
  | Op_freeze bool
  | Op_unfreeze bool

fun do_op :: "user_cb \<Rightarrow> buffer_op \<Rightarrow> bworld \<Rightarrow> evbuffer \<Rightarrow> bworld \<times> evbuffer \<times> int" where
  "do_op ucb (Op_add d) w b = evbuffer_add ucb w b d"
| "do_op ucb (Op_prepend d) w b = evbuffer_prepend ucb w b d"
| "do_op ucb (Op_drain n) w b = evbuffer_drain ucb w b n"
| "do_op ucb (Op_pullup n) w b = (case evbuffer_pullup w b n of (w1, b1, a) \<Rightarrow> (w1, b1, if a = None then -1 else 0))"
| "do_op ucb (Op_expand n) w b = evbuffer_expand w b n"
| "do_op ucb (Op_freeze s) w b = (w, evbuffer_freeze b s)"
| "do_op ucb (Op_unfreeze s) w b = (w, evbuffer_unfreeze b s)"

fun do_ops :: "user_cb \<Rightarrow> buffer_op list \<Rightarrow> bworld \<Rightarrow> evbuffer \<Rightarrow> bworld \<times> evbuffer \<times> int list" where
  "do_ops ucb [] w b = (w, b, [])"
| "do_ops ucb (x # xs) w b =
     (case do_op ucb x w b of
        (w1, b1, r) \<Rightarrow> (case do_ops ucb xs w1 b1 of (w2, b2, rs) \<Rightarrow> (w2, b2, r # rs)))"

text \<open>The queue of bytes: what a call with result \<open>r\<close> may do to it.\<close>

fun queue_op :: "buffer_op \<Rightarrow> int \<Rightarrow> bytes \<Rightarrow> bytes \<Rightarrow> bool" where
  "queue_op (Op_add d) r q q' \<longleftrightarrow> r = 0 \<and> q' = q @ d \<or> r = -1 \<and> q' = q"
| "queue_op (Op_prepend d) r q q' \<longleftrightarrow> r = 0 \<and> q' = d @ q \<or> r = -1 \<and> (\<exists>k \<le> length d. q' = drop k d @ q)"
| "queue_op (Op_drain n) r q q' \<longleftrightarrow> r = 0 \<and> q' = drop n q \<or> r = -1 \<and> q' = q"
| "queue_op _ r q q' \<longleftrightarrow> r \<in> {0, -1} \<and> q' = q"

fun queue_ops :: "buffer_op list \<Rightarrow> int list \<Rightarrow> bytes \<Rightarrow> bytes \<Rightarrow> bool" where
  "queue_ops [] rs q q' \<longleftrightarrow> rs = [] \<and> q' = q"
| "queue_ops (x # xs) rs q q' \<longleftrightarrow> (\<exists>r rs1 q1. rs = r # rs1 \<and> queue_op x r q q1 \<and> queue_ops xs rs1 q1 q')"

lemma freeze_ok:
  assumes "evbuffer_ok w b"
  shows "evbuffer_ok w (fst (evbuffer_freeze b s))" "content (fst (evbuffer_freeze b s)) = content b"
    "evbuffer_ok w (fst (evbuffer_unfreeze b s))" "content (fst (evbuffer_unfreeze b s)) = content b"
  using ok_fields [OF assms] by (simp_all add: evbuffer_freeze_def evbuffer_unfreeze_def content_def)

lemma dropped_prefix: "\<exists>k. P (drop k d) \<Longrightarrow> \<exists>k \<le> length d. P (drop k d)"
  by (metis drop_all nat_le_linear order_refl)

lemma do_op_queue:
  assumes obs: "observes ucb" and ok: "evbuffer_ok w b" and run: "do_op ucb x w b = (w', b', r)"
  shows "evbuffer_ok w' b'" "later w w'" "queue_op x r (content b) (content b')"
proof -
  have "evbuffer_ok w' b' \<and> later w w' \<and> queue_op x r (content b) (content b')"
  proof (cases x)
    case (Op_add d)
    then show ?thesis using add_ok [OF obs ok, of d w' b' r] run by (auto dest: becomesD)
  next
    case (Op_prepend d)
    have "r = 0 \<and> becomes w b w' b' (d @ content b) \<or> r = -1 \<and> (\<exists>k. becomes w b w' b' (drop k d @ content b))"
      using prepend_ok [OF obs ok, of d w' b' r] run Op_prepend by auto
    then show ?thesis unfolding Op_prepend queue_op.simps
      using dropped_prefix [of "\<lambda>e. content b' = e @ content b" d] by (blast dest: becomesD)
  next
    case (Op_drain n)
    then show ?thesis using drain_ok [OF obs ok, of n w' b' r] run ok by (auto dest: becomesD)
  next
    case (Op_pullup n)
    obtain a where p: "evbuffer_pullup w b n = (w', b', a)" and r: "r = (if a = None then -1 else 0)"
      using run Op_pullup by (auto split: prod.splits)
    show ?thesis using becomesD [OF pullup_ok(1) [OF ok p refl]] r Op_pullup by simp
  next
    case (Op_expand n)
    then show ?thesis using expand_ok [OF ok, of n w' b' r] run by (auto dest: becomesD)
  next
    case (Op_freeze s)
    then show ?thesis using freeze_ok [OF ok, of s] run by (auto simp: evbuffer_freeze_def)
  next
    case (Op_unfreeze s)
    then show ?thesis using freeze_ok [OF ok, of s] run by (auto simp: evbuffer_unfreeze_def)
  qed
  then show "evbuffer_ok w' b'" "later w w'" "queue_op x r (content b) (content b')" by blast+
qed

lemma do_ops_queue:
  assumes "observes ucb" "evbuffer_ok w b" "do_ops ucb xs w b = (w', b', rs)"
  shows "evbuffer_ok w' b' \<and> later w w' \<and> queue_ops xs rs (content b) (content b')"
  using assms(2,3)
proof (induction xs arbitrary: w b rs)
  case Nil
  then show ?case by simp
next
  case (Cons x xs)
  obtain w1 b1 r where s: "do_op ucb x w b = (w1, b1, r)" by (metis prod_cases3)
  obtain w2 b2 rs1 where m: "do_ops ucb xs w1 b1 = (w2, b2, rs1)" by (metis prod_cases3)
  have e: "w' = w2" "b' = b2" "rs = r # rs1" using Cons.prems(2) s m by simp_all
  note S = do_op_queue [OF assms(1) Cons.prems(1) s]
  show ?case using Cons.IH [OF S(1) m [folded e(1,2)]] S(2,3) later_trans [OF S(2)] by (auto simp: e(3))
qed

lemma new_ok:
  assumes "evbuffer_new w = (w', Some b)"
  shows "evbuffer_ok w' b" "content b = []" "later w w'" "\<not> freeze_start b" "\<not> freeze_end b"
proof -
  have b: "chains b = []" "blast b = None" "last_with_datap b = First" "total_len b = 0" "\<not> freeze_start b" "\<not> freeze_end b"
    "w' = w\<lparr>mm_calls := mm_calls w + 1\<rparr>"
    using assms by (auto simp: evbuffer_new_def mm_malloc_def split: if_splits)
  have "cut b [] []" using b by (intro cutI) simp_all
  then show "evbuffer_ok w' b" using b by (intro okI) (auto simp: content_def)
  show "content b = []" "later w w'" "\<not> freeze_start b" "\<not> freeze_end b" using b by (simp_all add: content_def later_def)
qed

subsection \<open>Inputs of the witnesses\<close>

definition ref_bworld :: bworld where
  "ref_bworld =
     \<lparr>mm = (\<lambda>_. True), mm_calls = 2, junk = (\<lambda>_ _. 0), dangling = [], released = [], cb_log = [],
      sched = (\<lambda>_. False), sched_calls = 0, fault = False\<rparr>"

definition ref_chain :: "nat \<Rightarrow> evbuffer_chain" where
  "ref_chain i =
     \<lparr>cid = i, buffer_len = 976, misalign = 0, off = 3, cflags = 0, crefcnt = 1, cbuffer = of_nat, cextra = No_extra\<rparr>"

definition ref_buffer :: "evbuffer_chain list \<Rightarrow> evbuffer" where
  "ref_buffer cs =
     \<lparr>chains = cs, blast = (if cs = [] then None else Some (cid (last cs))), last_with_datap = First,
      total_len = sum_list (map off cs), n_add_for_cb = 0, n_del_for_cb = 0, freeze_start = False, freeze_end = False,
      deferred_cbs = False, bflags = 0, brefcnt = 1, callbacks = []\<rparr>"

definition ref_ucb :: user_cb where
  "ref_ucb call w b = (w, b)"

definition ref_readv :: "nat list \<Rightarrow> bytes option" where
  "ref_readv lens = Some (take (sum_list lens) [5, 6])"

lemma ref_observes: "observes ref_ucb"
  by (simp add: observes_def ref_ucb_def)

lemma ref_room: "n \<le> 10000 \<Longrightarrow> \<not> no_room ref_bworld n"
  by (simp add: no_room_def ref_bworld_def chain_max_value)

lemma ref_chain_ok: "i < 2 \<Longrightarrow> chain_ok ref_bworld (ref_chain i)"
  by (simp add: chain_ok_def ref_chain_def ref_bworld_def chain_max_value CHAIN_PINNED_def)

lemma ref_data: "chain_data (ref_chain i) = [0, 1, 2]"
  by (simp add: chain_data_def chain_bytes_def ref_chain_def upt_rec)

lemma ref_empty: "evbuffer_ok ref_bworld (ref_buffer [])" "content (ref_buffer []) = []" "total_len (ref_buffer []) = 0"
proof -
  have "cut (ref_buffer []) [] []" by (intro cutI) (simp_all add: ref_buffer_def)
  then show "evbuffer_ok ref_bworld (ref_buffer [])" by (intro okI) (auto simp: ref_buffer_def content_def)
qed (simp_all add: ref_buffer_def content_def)

lemma ref_full:
  assumes "i < 2"
  shows "evbuffer_ok ref_bworld (ref_buffer [ref_chain i])" "content (ref_buffer [ref_chain i]) = [0, 1, 2]"
    "total_len (ref_buffer [ref_chain i]) = 3"
proof -
  have "cut (ref_buffer [ref_chain i]) [] [ref_chain i]" by (intro cutI) (simp_all add: ref_buffer_def)
  then show "evbuffer_ok ref_bworld (ref_buffer [ref_chain i])"
    using ref_chain_ok [OF assms] ref_data [of i]
    by (intro okI) (auto simp: ref_buffer_def content_def ref_chain_def EV_SIZE_MAX_def)
qed (simp_all add: ref_buffer_def content_def ref_data, simp add: ref_chain_def)

lemma ref_thaw: "\<not> freeze_start (ref_buffer cs)" "\<not> freeze_end (ref_buffer cs)"
  by (simp_all add: ref_buffer_def)

lemma ref_apart: "apart (ref_buffer [ref_chain 0]) (ref_buffer [ref_chain 1])"
  by (simp add: apart_def ref_buffer_def ref_chain_def)

subsection \<open>Properties\<close>

text \<open>C5: A new buffer refines a queue of bytes: after any sequence of adding, prepending, draining,
  linearising, expanding, freezing and unfreezing, whatever the allocator answers, no assertion has
  failed and no memory outside a block was written, the invariant holds, the results and the content are
  those of the queue, and the reported length is the length of the content.\<close>

theorem evbuffer_refines_queue:
  assumes "observes ucb" "evbuffer_new w = (w1, Some b)" "do_ops ucb xs w1 b = (w', b', rs)"
  shows "fault w' = fault w \<and> evbuffer_ok w' b' \<and> queue_ops xs rs [] (content b') \<and>
    evbuffer_get_length b' = length (content b')"
proof -
  note N = new_ok [OF assms(2)]
  note S = do_ops_queue [OF assms(1) N(1) assms(3)]
  have "total_len b' = length (content b')" using S okD(4) [of w' b'] by blast
  then show ?thesis using N(2,3) S by (simp add: later_def evbuffer_get_length_def)
qed

theorem evbuffer_refines_queue_witness:
  "\<exists>w1 b w' b'. evbuffer_new ref_bworld = (w1, Some b) \<and>
     do_ops ref_ucb [Op_add [1, 2, 3], Op_drain 1] w1 b = (w', b', [0, 0]) \<and> \<not> fault w' \<and> content b' = [2, 3]"
proof -
  obtain w1 b where n: "evbuffer_new ref_bworld = (w1, Some b)"
    by (simp add: evbuffer_new_def mm_malloc_def ref_bworld_def)
  note N = new_ok [OF n]
  obtain w2 b2 r where a: "evbuffer_add ref_ucb w1 b [1, 2, 3] = (w2, b2, r)" by (metis prod_cases3)
  have "total_len b = 0" using okD(4) [OF N(1)] N(2) by simp
  then have A: "r = 0" "becomes w1 b w2 b2 [1, 2, 3]"
    using add_ok [OF ref_observes N(1) a] N(2,5) no_room_later [OF N(3)] ref_room [of "Suc (Suc (Suc 0))"] by (auto simp: EV_SIZE_MAX_def)
  obtain w' b' r' where d: "evbuffer_drain ref_ucb w2 b2 1 = (w', b', r')" by (metis prod_cases3)
  have "r' = 0" using drain_ok [OF ref_observes becomesD(2) [OF A(2)] d] becomesD(3,4) [OF A(2)] N(4) by auto
  then have m: "do_ops ref_ucb [Op_add [1, 2, 3], Op_drain 1] w1 b = (w', b', [0, 0])" using a d A(1) by simp
  have "fault ref_bworld = False" by (simp add: ref_bworld_def)
  then show ?thesis using evbuffer_refines_queue [OF ref_observes n m] n m by auto
qed

text \<open>C25: \<^verbatim>\<open>evbuffer_add\<close> appends exactly the given bytes and returns 0, or returns -1 and leaves the content:
  then the end is frozen, the length would overflow, or there is no memory.  The invariant is kept.\<close>

theorem evbuffer_add_appends:
  assumes "observes ucb" "evbuffer_ok w b" "evbuffer_add ucb w b data = (w', b', r)"
  shows "r = 0 \<and> becomes w b w' b' (content b @ data) \<and> \<not> freeze_end b \<or>
    r = -1 \<and> becomes w b w' b' (content b) \<and>
      (freeze_end b \<or> length data > EV_SIZE_MAX - total_len b \<or> no_room w (length data))"
  by (rule add_ok [OF assms])

theorem evbuffer_add_appends_witness:
  "\<exists>w' b'. evbuffer_add ref_ucb ref_bworld (ref_buffer [ref_chain 0]) [7, 8] = (w', b', 0) \<and> content b' = [0, 1, 2, 7, 8]"
proof -
  obtain w' b' r where e: "evbuffer_add ref_ucb ref_bworld (ref_buffer [ref_chain 0]) [7, 8] = (w', b', r)" by (metis prod_cases3)
  show ?thesis
    using evbuffer_add_appends [OF ref_observes ref_full(1) e] ref_full [of 0] ref_room [of "Suc (Suc 0)"] ref_thaw e
    by (auto simp: EV_SIZE_MAX_def dest: becomesD(3))
qed

text \<open>C26: \<^verbatim>\<open>evbuffer_prepend\<close> puts exactly the given bytes in front and returns 0.  When it returns -1 for
  want of memory, a part of the bytes, from their end, may be in front of the content; the invariant
  holds in each case.\<close>

theorem evbuffer_prepend_prepends:
  assumes "observes ucb" "evbuffer_ok w b" "evbuffer_prepend ucb w b data = (w', b', r)"
  shows "r = 0 \<and> becomes w b w' b' (data @ content b) \<and> \<not> freeze_start b \<or>
    r = -1 \<and> (\<exists>k. becomes w b w' b' (drop k data @ content b)) \<and>
      (freeze_start b \<or> length data > EV_SIZE_MAX - total_len b \<or> no_room w (length data))"
  by (rule prepend_ok [OF assms])

theorem evbuffer_prepend_prepends_witness:
  "\<exists>w' b'. evbuffer_prepend ref_ucb ref_bworld (ref_buffer [ref_chain 0]) [7, 8] = (w', b', 0) \<and> content b' = [7, 8, 0, 1, 2]"
proof -
  obtain w' b' r where e: "evbuffer_prepend ref_ucb ref_bworld (ref_buffer [ref_chain 0]) [7, 8] = (w', b', r)" by (metis prod_cases3)
  show ?thesis
    using evbuffer_prepend_prepends [OF ref_observes ref_full(1) e] ref_full [of 0] ref_room [of "Suc (Suc 0)"] ref_thaw e
    by (auto simp: EV_SIZE_MAX_def dest: becomesD(3))
qed





text \<open>C29: \<^verbatim>\<open>evbuffer_add_buffer\<close> moves all bytes of one buffer behind those of another and leaves the first one
  empty, with no copy and no allocation to fail; or one of them is frozen and nothing changes.  No chain
  is then in both buffers.\<close>

theorem evbuffer_add_buffer_moves:
  assumes "observes ucb" "evbuffer_ok w outb" "evbuffer_ok w inb" "apart outb inb"
    "total_len outb + total_len inb \<le> EV_SIZE_MAX" "evbuffer_add_buffer ucb w outb inb = (w', out', in', r)"
  shows "r = 0 \<and> becomes w outb w' out' (content outb @ content inb) \<and> becomes w inb w' in' [] \<and> apart out' in' \<or>
    r = -1 \<and> w' = w \<and> out' = outb \<and> in' = inb \<and> (freeze_end outb \<or> freeze_start inb)"
  by (rule add_buffer_ok [OF assms])

theorem evbuffer_add_buffer_moves_witness:
  "\<exists>w' out' in'. evbuffer_add_buffer ref_ucb ref_bworld (ref_buffer [ref_chain 0]) (ref_buffer [ref_chain 1]) =
     (w', out', in', 0) \<and> content out' = [0, 1, 2, 0, 1, 2] \<and> content in' = []"
proof -
  obtain w' out' in' r where
    e: "evbuffer_add_buffer ref_ucb ref_bworld (ref_buffer [ref_chain 0]) (ref_buffer [ref_chain 1]) = (w', out', in', r)"
    by (metis prod_cases4)
  have "total_len (ref_buffer [ref_chain 0]) + total_len (ref_buffer [ref_chain 1]) \<le> EV_SIZE_MAX"
    using ref_full(3) [of 0] ref_full(3) [of 1] by (simp add: EV_SIZE_MAX_def)
  from evbuffer_add_buffer_moves [OF ref_observes ref_full(1) ref_full(1) ref_apart this e]
  show ?thesis using ref_full(2) [of 0] ref_full(2) [of 1] ref_thaw e by (auto dest: becomesD(3))
qed



text \<open>C31: \<^verbatim>\<open>evbuffer_read\<close> makes room for at most 4096 bytes and at most as many as asked for, asks \<^verbatim>\<open>readv\<close> for
  exactly that many, and appends exactly the bytes that \<^verbatim>\<open>readv\<close> delivers, across the chains they fall
  in; it returns their number.  Otherwise it returns -1 and the content is as before.\<close>

theorem evbuffer_read_appends:
  assumes "observes ucb" "evbuffer_ok w b" "total_len b + nat EVBUFFER_MAX_READ \<le> EV_SIZE_MAX"
    "\<And>lens bs. readv lens = Some bs \<Longrightarrow> length bs \<le> sum_list lens"
    "evbuffer_read ucb fionread readv w b howmuch = (w', b', r)"
  shows "r = -1 \<and> becomes w b w' b' (content b) \<and>
      (freeze_end b \<or> no_room w (nat EVBUFFER_MAX_READ) \<or> (\<exists>lens. readv lens = None)) \<or>
    (\<exists>lens bs. readv lens = Some bs \<and> r = int (length bs) \<and> becomes w b w' b' (content b @ bs) \<and>
      int (sum_list lens) \<le> (if howmuch < 0 then EVBUFFER_MAX_READ else min howmuch EVBUFFER_MAX_READ))"
  by (rule read_ok [OF assms])

theorem evbuffer_read_appends_witness:
  "\<exists>w' b' r. evbuffer_read ref_ucb (Some 2) ref_readv ref_bworld (ref_buffer [ref_chain 0]) (-1) = (w', b', r) \<and>
     0 \<le> r \<and> content b' = [0, 1, 2] @ take (nat r) [5, 6]"
proof -
  obtain w' b' r where e: "evbuffer_read ref_ucb (Some 2) ref_readv ref_bworld (ref_buffer [ref_chain 0]) (-1) = (w', b', r)"
    by (metis prod_cases3)
  have l: "total_len (ref_buffer [ref_chain 0]) + nat EVBUFFER_MAX_READ \<le> EV_SIZE_MAX"
    using ref_full(3) [of 0] by (simp add: EV_SIZE_MAX_def EVBUFFER_MAX_READ_def)
  have rv: "\<And>lens bs. ref_readv lens = Some bs \<Longrightarrow> length bs \<le> sum_list lens" by (auto simp: ref_readv_def)
  from evbuffer_read_appends [OF ref_observes ref_full(1) l rv e]
  have "\<exists>k bs. bs = take k [5, 6] \<and> r = int (length bs) \<and> content b' = [0, 1, 2] @ bs"
    using ref_full(2) [of 0] ref_thaw ref_room [of "nat EVBUFFER_MAX_READ"]
    by (auto simp: ref_readv_def EVBUFFER_MAX_READ_def dest: becomesD(3))
  then show ?thesis using e by (auto simp: min_def)
qed





end
