(* ===== verification/Spec2Isabelle.thy ===== *)
theory Spec2Isabelle
  imports Event_Props Evbuffer_Props
begin

text \<open>
  A model of the event core and the buffers of libevent and proofs about it.

  \<^bold>\<open>The program.\<close>  A program makes an event base (\<^verbatim>\<open>event_base_new\<close>), assigns events to it
  (\<^verbatim>\<open>event_assign\<close>), adds them with or without a timeout, and runs the loop
  (\<^verbatim>\<open>event_base_loop\<close>), which asks a backend for the descriptors that are ready, expires the
  timers, puts both on active queues by priority and runs their callbacks.  The maps of
  \<^verbatim>\<open>evmap.c\<close> hold the events of each descriptor and signal and tell the backend when the first
  reader or writer comes and the last one goes; a timer is in the heap of
  \<^verbatim>\<open>minheap-internal.h\<close> or, for a common timeout, on a queue with one heap entry for all its
  members; the epoll backend may collect its changes in a changelist and apply them at dispatch.

  \<^bold>\<open>The theories.\<close>
  \<^item> \<open>Ev_Prelude\<close>: flag words, C division, lists; the fact collections.
  \<^item> \<open>Timeval\<close>: the \<^verbatim>\<open>struct timeval\<close> macros of \<^verbatim>\<open>include/event2/util.h\<close>, the conversion to
    milliseconds and the ratcheted clock of \<^verbatim>\<open>evutil_time.c\<close>.  The clock never goes back and
    keeps intervals; the conversion rounds up and fits a \<^verbatim>\<open>long\<close>.
  \<^item> \<open>Event_Types\<close>: \<^verbatim>\<open>struct event\<close> and its flags.
  \<^item> \<open>Min_Heap\<close>: \<^verbatim>\<open>minheap-internal.h\<close>, as an array with an index in each event.  Every
    operation keeps the heap and changes exactly the multiset of its elements; the locale
    \<open>timer_queue\<close> is what the event core needs of it.
  \<^item> \<open>Event_Base\<close>, \<open>Event_Queue\<close>, \<open>Evmap\<close>, \<open>Event_Core\<close>, \<open>Event_Loop\<close>: the record of
    \<^verbatim>\<open>struct event_base\<close> with a store of events, then the functions of \<^verbatim>\<open>event.c\<close> and
    \<^verbatim>\<open>evmap.c\<close> under their own names.  Assertions of the source set a flag when they fail.
  \<^item> \<open>Event_Inv\<close>, \<open>Event_Add_Inv\<close>, \<open>Timeout_Inv\<close>: the invariant of a base (every queue holds
    exactly the events whose flags say so, the counters count them, the heap is in order) and
    that each operation keeps it.
  \<^item> \<open>Backend\<close>: the locale \<open>io_backend\<close>, the contract of a \<^verbatim>\<open>struct eventop\<close>, and that the maps
    and a backend with this contract agree on what is watched.
  \<^item> \<open>Changelist\<close>, \<open>Epoll\<close>: the changelist and both epoll backends, with the operation table, the
    script that generated it, and the interpretation of \<open>io_backend\<close>.  Batched changes leave the
    kernel as immediate ones do.
  \<^item> \<open>Event_Iter\<close>: the iterators of \<^verbatim>\<open>evmap.c\<close>, reinitialising and deleting all events and the
    assertions of \<^verbatim>\<open>event_base_assert_ok_\<close>.
  \<^item> \<open>Event_Setup\<close>: configurations, the choice of a backend, making and freeing a base.
  \<^item> \<open>Event_Api\<close>: the calls a program may make, as a step relation, and that every reachable base
    satisfies the invariant.
  \<^item> \<open>Event_Props\<close>: what the calls promise: adding, deleting, finalising, expiring, visiting.
  \<^item> \<open>Evbuffer\<close>, \<open>Evbuffer_Ops\<close>, \<open>Evbuffer_IO\<close>: the buffers of \<^verbatim>\<open>buffer.c\<close>, lists of chains with
    their addresses; making and freeing chains, callbacks, then adding, prepending, draining,
    copying out, moving between buffers, linearising; expanding, reserving, reading, writing,
    printing and peeking.
  \<^item> \<open>Evbuffer_Inv\<close>, \<open>Evbuffer_Fun\<close>, \<open>Evbuffer_Move\<close>, \<open>Evbuffer_IO_Inv\<close>: the invariant of a buffer
    (the last chain, the last chain with data, the total length) and that each operation keeps it
    and does to the bytes what an operation on a queue of bytes does.

  \<^bold>\<open>Conventions.\<close>  An address is a natural number and the store \<open>mem\<close> maps it to the event; the
  allocator, the clocks, the kernel and the functions of the user are arguments, the first two as
  functions of a call counter in the base.  Flags are 16-bit or 8-bit words; times are integers as
  in the source, and the bit encoding of common timeouts is kept.  The modelled build has thread
  support and the debugging mode compiled out.  Loops whose end is not evident are
  \<open>partial_function (option)\<close>, so that \<open>None\<close> is a loop that never ends, and the properties show
  \<open>Some\<close>; no loop has a bound of fuel.

  \<^bold>\<open>Not modelled.\<close>  Of the buffers, multicast references, file segments, searches and line
  reading.  Buffer events, HTTP, DNS, RPC, tagging and listeners, which are built on top of the
  event core and the buffers; the signal backend and the backends other than epoll; threads
  and logging; the dump functions and \<^verbatim>\<open>event_reinit\<close>.
\<close>

end
